(* ===== verification/Prelude.thy ===== *)
theory Prelude
  imports Main "HOL-Library.Word" "HOL-Library.Multiset"
begin

text \<open>
  Shared vocabulary of the development: the faults a run of the C code can end in, the
  outcome type that carries them, its sequencing operator, sizes and bytes, bit-mask
  tests on machine words, and the list lemmas that several components use. The
  collections \<open>outcome_simps\<close> and \<open>flag_simps\<close> are what component proofs pass to the
  simplifier.
\<close>

named_theorems outcome_simps \<open>rewriting of sequenced outcomes\<close>
named_theorems flag_simps \<open>membership of single flags in flag words\<close>

section \<open>Faults and outcomes\<close>

text \<open>
  How a call can fail to return. \<open>Exit_errx\<close>: the code called \<open>event_err\<close> or
  \<open>event_errx\<close>, or \<open>exit\<close>, which end the process, or threw an exception nobody catches; \<open>Assert_failed\<close>: an \<open>assert\<close> fired;
  \<open>Null_deref\<close>: a field of NULL was read; \<open>Dangling_write\<close>: a store through a pointer to
  a local variable of a function that has returned; \<open>Out_of_bounds\<close>: a read or write
  outside an allocated block; \<open>Use_after_free\<close>: an access to a block that has been freed or
  moved by \<open>realloc\<close>; \<open>Int_overflow\<close>: signed arithmetic out of range; \<open>Hang\<close>: a loop that never ends; \<open>Out_of_fuel\<close>: the bound
  given to a loop of the model was too small.
\<close>

datatype fault =
    Exit_errx
  | Assert_failed
  | Null_deref
  | Dangling_write
  | Out_of_bounds
  | Use_after_free
  | Int_overflow
  | Hang
  | Out_of_fuel

type_synonym 'a outcome = "fault + 'a"

definition bnd :: "'a outcome \<Rightarrow> ('a \<Rightarrow> 'b outcome) \<Rightarrow> 'b outcome" where
  "bnd m f = (case m of Inl e \<Rightarrow> Inl e | Inr x \<Rightarrow> f x)"

lemma bnd_Inl [simp, outcome_simps]: "bnd (Inl e) f = Inl e"
  by (simp add: bnd_def)

lemma bnd_Inr [simp, outcome_simps]: "bnd (Inr x) f = f x"
  by (simp add: bnd_def)

lemma bnd_eq_Inr [simp, outcome_simps]: "bnd m f = Inr y \<longleftrightarrow> (\<exists>x. m = Inr x \<and> f x = Inr y)"
  by (cases m) auto

lemma bnd_assoc: "bnd (bnd m f) g = bnd m (\<lambda>x. bnd (f x) g)"
  by (cases m) auto

lemma bnd_cong [fundef_cong]:
  "m = m' \<Longrightarrow> (\<And>x. m' = Inr x \<Longrightarrow> f x = f' x) \<Longrightarrow> bnd m f = bnd m' f'"
  by (cases m') auto

definition guard :: "bool \<Rightarrow> fault \<Rightarrow> unit outcome" where
  "guard b e = (if b then Inr () else Inl e)"

lemma guard_True [simp]: "guard True e = Inr ()"
  by (simp add: guard_def)

lemma guard_False [simp]: "guard False e = Inl e"
  by (simp add: guard_def)

lemma guard_eq_Inr [simp, outcome_simps]: "guard b e = Inr u \<longleftrightarrow> b"
  by (simp add: guard_def)

section \<open>Bytes and sizes\<close>

type_synonym byte = "8 word"
type_synonym size = "64 word"

lemma size_word_less [simp]: "unat (x :: size) < 18446744073709551616"
  using unsigned_less [of x] by simp

lemma unat_plus_size:
  fixes x y :: size
  assumes "unat x + unat y < 2 ^ 64"
  shows "unat (x + y) = unat x + unat y"
  using assms by (simp add: unat_word_ariths)

lemma unat_minus_size:
  fixes x y :: size
  assumes "unat y \<le> unat x"
  shows "unat (x - y) = unat x - unat y"
  using assms by (simp add: unat_sub_if_size)

text \<open>Conversion of an integer value to \<open>int\<close>.\<close>

definition c_int :: "int \<Rightarrow> int" where
  "c_int i = (i + 2147483648) mod 4294967296 - 2147483648"

lemma c_int_id: "- 2147483648 \<le> i \<Longrightarrow> i < 2147483648 \<Longrightarrow> c_int i = i"
  by (simp add: c_int_def)

section \<open>Flag words\<close>

text \<open>\<open>w & m\<close> used as a C truth value.\<close>

definition has :: "'a::len word \<Rightarrow> 'a word \<Rightarrow> bool" where
  "has w m \<longleftrightarrow> and w m \<noteq> 0"

lemma and_two_power_eq_0_iff:
  "and w (2 ^ n) = 0 \<longleftrightarrow> \<not> bit w n" for w :: "'a::len word"
proof
  assume "and w (2 ^ n) = 0"
  then have "\<not> bit (and w (2 ^ n)) n"
    by simp
  then show "\<not> bit w n"
    by (auto simp: bit_and_iff bit_exp_iff dest: bit_imp_le_length)
next
  assume "\<not> bit w n"
  then show "and w (2 ^ n) = 0"
    by (intro bit_eqI) (auto simp: bit_and_iff bit_exp_iff)
qed

lemma has_two_power: "has w (2 ^ n) \<longleftrightarrow> bit w n"
  by (simp add: has_def and_two_power_eq_0_iff)

lemma has_or: "has w (or m m') \<longleftrightarrow> has w m \<or> has w m'"
proof -
  have "and w (or m m') = or (and w m) (and w m')"
    by (simp add: and.commute bit.conj_disj_distrib)
  then show ?thesis
    unfolding has_def by (metis or_eq_0_iff)
qed

lemma has_0 [simp]: "\<not> has w 0" "\<not> has 0 m"
  by (simp_all add: has_def)

section \<open>Memory blocks\<close>

text \<open>\<open>n\<close> elements at offset \<open>p\<close> of a block, and the block after \<open>xs\<close> has been stored there.\<close>

definition load :: "'a list \<Rightarrow> nat \<Rightarrow> nat \<Rightarrow> 'a list outcome" where
  "load m p n = (if p + n \<le> length m then Inr (take n (drop p m)) else Inl Out_of_bounds)"

definition store :: "'a list \<Rightarrow> nat \<Rightarrow> 'a list \<Rightarrow> 'a list outcome" where
  "store m p xs = (if p + length xs \<le> length m then Inr (take p m @ xs @ drop (p + length xs) m)
     else Inl Out_of_bounds)"

lemma length_store: "store m p xs = Inr m' \<Longrightarrow> length m' = length m"
  by (auto simp: store_def split: if_splits)

lemma store_one: "p < length m \<Longrightarrow> store m p [x] = Inr (m[p := x])"
  by (simp add: store_def upd_conv_take_nth_drop)

section \<open>Lists\<close>

lemma remove1_append_distinct:
  "distinct (xs @ x # ys) \<Longrightarrow> remove1 x (xs @ x # ys) = xs @ ys"
  by (simp add: remove1_append)

lemma length_filter_remove1:
  assumes "distinct xs" "x \<in> set xs"
  shows "length (filter P xs) = length (filter P (remove1 x xs)) + (if P x then 1 else 0)"
  using assms by (induction xs) auto

lemma filter_cong_set: "(\<And>x. x \<in> set xs \<Longrightarrow> P x = Q x) \<Longrightarrow> filter P xs = filter Q xs"
  by (rule filter_cong) auto

lemma sorted_wrt_remove1: "sorted_wrt P xs \<Longrightarrow> sorted_wrt P (remove1 x xs)"
proof (induction xs)
  case Nil
  then show ?case by simp
next
  case (Cons y ys)
  then show ?case
    using set_remove1_subset [of x ys] by auto
qed

lemma sorted_wrt_cong_set:
  assumes "\<And>x y. x \<in> set xs \<Longrightarrow> y \<in> set xs \<Longrightarrow> P x y = Q x y"
  shows "sorted_wrt P xs = sorted_wrt Q xs"
  using assms by (induction xs) auto

lemma fold_mset_split:
  "x \<in> set xs \<Longrightarrow> \<exists>ys zs. xs = ys @ x # zs \<and> x \<notin> set ys"
  by (rule split_list_first)

end
