(* ===== verification/Timeval.thy ===== *)
theory Timeval
  imports Prelude
begin

text \<open>
  \<open>struct timeval\<close> and the \<open>sys/time.h\<close> macros the event code uses: \<open>timercmp\<close>,
  \<open>timeradd\<close>, \<open>timersub\<close>, \<open>timerclear\<close>. Seconds and microseconds are integers; the
  macros normalise by one carry only, exactly as the C macros do. A value is valid when
  its microseconds are below one million; on valid values the macros are arithmetic on
  the number of microseconds.
\<close>

record timeval =
  tv_sec :: int
  tv_usec :: int

definition timercmp_less :: "timeval \<Rightarrow> timeval \<Rightarrow> bool" where
  "timercmp_less a b = (if tv_sec a = tv_sec b then tv_usec a < tv_usec b else tv_sec a < tv_sec b)"

definition timercmp_greater :: "timeval \<Rightarrow> timeval \<Rightarrow> bool" where
  "timercmp_greater a b = (if tv_sec a = tv_sec b then tv_usec a > tv_usec b else tv_sec a > tv_sec b)"

definition timercmp_le :: "timeval \<Rightarrow> timeval \<Rightarrow> bool" where
  "timercmp_le a b = (if tv_sec a = tv_sec b then tv_usec a \<le> tv_usec b else tv_sec a \<le> tv_sec b)"

definition timerclear :: timeval where
  "timerclear = \<lparr>tv_sec = 0, tv_usec = 0\<rparr>"

definition timeradd :: "timeval \<Rightarrow> timeval \<Rightarrow> timeval" where
  "timeradd a b =
     (let s = tv_sec a + tv_sec b; u = tv_usec a + tv_usec b
      in if u \<ge> 1000000 then \<lparr>tv_sec = s + 1, tv_usec = u - 1000000\<rparr>
         else \<lparr>tv_sec = s, tv_usec = u\<rparr>)"

definition timersub :: "timeval \<Rightarrow> timeval \<Rightarrow> timeval" where
  "timersub a b =
     (let s = tv_sec a - tv_sec b; u = tv_usec a - tv_usec b
      in if u < 0 then \<lparr>tv_sec = s - 1, tv_usec = u + 1000000\<rparr>
         else \<lparr>tv_sec = s, tv_usec = u\<rparr>)"

definition valid_tv :: "timeval \<Rightarrow> bool" where
  "valid_tv t \<longleftrightarrow> 0 \<le> tv_usec t \<and> tv_usec t < 1000000"

definition usecs :: "timeval \<Rightarrow> int" where
  "usecs t = tv_sec t * 1000000 + tv_usec t"

lemmas timer_defs =
  timercmp_less_def timercmp_greater_def timercmp_le_def timeradd_def timersub_def
  valid_tv_def usecs_def timerclear_def

lemma timercmp_irrefl [simp]: "\<not> timercmp_less a a" "\<not> timercmp_greater a a"
  by (simp_all add: timer_defs)

lemma timercmp_greater_iff: "timercmp_greater a b \<longleftrightarrow> timercmp_less b a"
  by (auto simp: timer_defs)

lemma timercmp_le_iff: "timercmp_le a b \<longleftrightarrow> \<not> timercmp_less b a"
  by (auto simp: timer_defs)

lemma timercmp_less_trans: "timercmp_less a b \<Longrightarrow> timercmp_less b c \<Longrightarrow> timercmp_less a c"
  by (auto simp: timer_defs split: if_splits)

lemma timercmp_less_total: "timercmp_less a b \<or> timercmp_less b a \<or> a = b"
  by (cases a; cases b) (auto simp: timer_defs)

lemma usecs_timeradd: "usecs (timeradd a b) = usecs a + usecs b"
  by (auto simp: timer_defs Let_def)

lemma usecs_timersub: "usecs (timersub a b) = usecs a - usecs b"
  by (auto simp: timer_defs Let_def)

lemma valid_timeradd: "valid_tv a \<Longrightarrow> valid_tv b \<Longrightarrow> valid_tv (timeradd a b)"
  by (auto simp: timer_defs Let_def)

text \<open>What can be added to a valid time: up to a whole second of microseconds.\<close>

definition addable :: "timeval \<Rightarrow> bool" where
  "addable t \<longleftrightarrow> 0 \<le> tv_usec t \<and> tv_usec t \<le> 1000000"

lemma valid_addable: "valid_tv t \<Longrightarrow> addable t"
  by (simp add: addable_def valid_tv_def)

lemma valid_timeradd_addable: "valid_tv a \<Longrightarrow> addable b \<Longrightarrow> valid_tv (timeradd a b)"
  by (auto simp: timer_defs addable_def Let_def)

lemma valid_timersub: "valid_tv a \<Longrightarrow> valid_tv b \<Longrightarrow> valid_tv (timersub a b)"
  by (auto simp: timer_defs Let_def)

lemma valid_timerclear: "valid_tv timerclear"
  by (simp add: timer_defs)

lemma timercmp_less_usecs:
  "valid_tv a \<Longrightarrow> valid_tv b \<Longrightarrow> timercmp_less a b \<longleftrightarrow> usecs a < usecs b"
  by (auto simp: timer_defs)

lemma usecs_inject: "valid_tv a \<Longrightarrow> valid_tv b \<Longrightarrow> usecs a = usecs b \<longleftrightarrow> a = b"
proof
  assume v: "valid_tv a" "valid_tv b" and eq: "usecs a = usecs b"
  then have "tv_sec a = tv_sec b"
    unfolding valid_tv_def usecs_def by arith
  with eq show "a = b"
    by (simp add: usecs_def)
qed simp

lemma timersub_mono:
  assumes "valid_tv a" "valid_tv b" "valid_tv d"
  shows "timercmp_less (timersub a d) (timersub b d) \<longleftrightarrow> timercmp_less a b"
  using assms by (simp add: timercmp_less_usecs valid_timersub usecs_timersub)

lemma timersub_inject:
  assumes "valid_tv a" "valid_tv b" "valid_tv d"
  shows "timersub a d = timersub b d \<longleftrightarrow> a = b"
  using assms
  by (metis usecs_inject usecs_timersub valid_timersub diff_left_imp_eq add_right_imp_eq diff_add_cancel)

lemma timersub_nonneg:
  assumes "valid_tv a" "valid_tv b" "\<not> timercmp_less a b"
  shows "0 \<le> tv_sec (timersub a b)" "0 \<le> tv_usec (timersub a b)"
  using assms by (auto simp: timer_defs Let_def split: if_splits)

end
