(* ===== verification/RBTree.thy ===== *)
theory RBTree
  imports Prelude
begin

text \<open>
  The red-black tree macros of \<open>EventServer/net/evsys/tree.h\<close> (\<open>RB_GENERATE\<close>), which
  \<open>event.c\<close> instantiates as \<open>event_tree\<close> for pending timeouts. A node of the C tree and
  its chain of \<open>RB_PARENT\<close> pointers are a subtree and a path: the list of frames from the
  node up to the root, each frame holding the parent's colour and element and the
  sibling subtree. Moving to \<open>RB_PARENT(elm)\<close> pops a frame, a rotation rewrites the
  subtree and the first frames, and \<open>RB_ROOT(head)\<close> is reached when the path is empty.
  Reading a field of NULL is the fault \<open>Null_deref\<close>. The first part transcribes the
  macros; the second proves that insertion and removal keep the search order and the
  red-black conditions and never read NULL on a red-black tree.
\<close>

section \<open>Nodes and paths\<close>

datatype color = RB_BLACK | RB_RED

datatype 'a rbt =
    Leaf
  | Node (rb_left: "'a rbt") (rb_color: color) (rb_elm: 'a) (rb_right: "'a rbt")

text \<open>
  \<open>LFr c p s\<close>: the node is \<open>RB_LEFT\<close> of a parent with colour \<open>c\<close>, element \<open>p\<close> and
  right child \<open>s\<close>; \<open>RFr s c p\<close>: it is \<open>RB_RIGHT\<close> of such a parent with left child \<open>s\<close>.
\<close>

datatype 'a rbframe = LFr color 'a "'a rbt" | RFr "'a rbt" color 'a

type_synonym 'a rbpath = "'a rbframe list"

fun fr_color :: "'a rbframe \<Rightarrow> color" where
  "fr_color (LFr c p s) = c"
| "fr_color (RFr s c p) = c"

fun fr_elm :: "'a rbframe \<Rightarrow> 'a" where
  "fr_elm (LFr c p s) = p"
| "fr_elm (RFr s c p) = p"

fun plug1 :: "'a rbt \<Rightarrow> 'a rbframe \<Rightarrow> 'a rbt" where
  "plug1 t (LFr c p s) = Node t c p s"
| "plug1 t (RFr s c p) = Node s c p t"

fun plug :: "'a rbt \<Rightarrow> 'a rbpath \<Rightarrow> 'a rbt" where
  "plug t [] = t"
| "plug t (f # fs) = plug (plug1 t f) fs"

fun is_red :: "'a rbt \<Rightarrow> bool" where
  "is_red (Node _ RB_RED _ _) = True"
| "is_red _ = False"

fun set_color :: "color \<Rightarrow> 'a rbt \<Rightarrow> 'a rbt" where
  "set_color c (Node l _ x r) = Node l c x r"
| "set_color c Leaf = Leaf"

section \<open>RB_INSERT\<close>

text \<open>
  \<open>RB_INSERT_COLOR\<close>: the loop that repairs a red node with a red parent. The last two
  equations of each side are one iteration each: recolouring moves to the grandparent, a
  rotation leaves \<open>elm\<close> below a black parent, where the loop test ends it. On leaving the
  loop the root is painted black.
\<close>

fun rb_insert_color :: "'a rbt \<Rightarrow> 'a rbpath \<Rightarrow> 'a rbt outcome" where
  "rb_insert_color elm [] = Inr (set_color RB_BLACK elm)"
| "rb_insert_color elm [f] =
     (if fr_color f = RB_RED then Inl Null_deref
      else Inr (set_color RB_BLACK (plug1 elm f)))"
| "rb_insert_color elm (f # LFr gc g tmp # gs) =
     (if fr_color f \<noteq> RB_RED
      then Inr (set_color RB_BLACK (plug elm (f # LFr gc g tmp # gs)))
      else if is_red tmp
      then rb_insert_color
             (Node (set_color RB_BLACK (plug1 elm f)) RB_RED g (set_color RB_BLACK tmp)) gs
      else
        (case (f, elm) of
           (LFr c p s, _) \<Rightarrow>
             rb_insert_color elm (LFr RB_BLACK p (Node s RB_RED g tmp) # gs)
         | (RFr s c p, Node el ec e er) \<Rightarrow>
             rb_insert_color (Node s RB_RED p el)
               (LFr RB_BLACK e (Node er RB_RED g tmp) # gs)
         | (RFr s c p, Leaf) \<Rightarrow> Inl Null_deref))"
| "rb_insert_color elm (f # RFr tmp gc g # gs) =
     (if fr_color f \<noteq> RB_RED
      then Inr (set_color RB_BLACK (plug elm (f # RFr tmp gc g # gs)))
      else if is_red tmp
      then rb_insert_color
             (Node (set_color RB_BLACK tmp) RB_RED g (set_color RB_BLACK (plug1 elm f))) gs
      else
        (case (f, elm) of
           (RFr s c p, _) \<Rightarrow>
             rb_insert_color elm (RFr (Node tmp RB_RED g s) RB_BLACK p # gs)
         | (LFr c p s, Node el ec e er) \<Rightarrow>
             rb_insert_color (Node er RB_RED p s)
               (RFr (Node tmp RB_RED g el) RB_BLACK e # gs)
         | (LFr c p s, Leaf) \<Rightarrow> Inl Null_deref))"

text \<open>The descent of \<open>RB_INSERT\<close>: \<open>Inl\<close> the element found equal, or \<open>Inr\<close> the path to the
  NULL child where the new node goes.\<close>

fun rb_descend :: "('a \<Rightarrow> 'a \<Rightarrow> int) \<Rightarrow> 'a \<Rightarrow> 'a rbt \<Rightarrow> 'a rbpath \<Rightarrow> 'a + 'a rbpath" where
  "rb_descend cmp elm Leaf parent = Inr parent"
| "rb_descend cmp elm (Node l c x r) parent =
     (let comp = cmp elm x in
      if comp < 0 then rb_descend cmp elm l (LFr c x r # parent)
      else if comp > 0 then rb_descend cmp elm r (RFr l c x # parent)
      else Inl x)"

text \<open>\<open>RB_INSERT\<close> returns NULL when it inserted and the equal element when there was one.\<close>

definition rb_insert :: "('a \<Rightarrow> 'a \<Rightarrow> int) \<Rightarrow> 'a rbt \<Rightarrow> 'a \<Rightarrow> ('a option \<times> 'a rbt) outcome" where
  "rb_insert cmp root elm =
     (case rb_descend cmp elm root [] of
        Inl tmp \<Rightarrow> Inr (Some tmp, root)
      | Inr parent \<Rightarrow>
          bnd (rb_insert_color (Node Leaf RB_RED elm Leaf) parent) (\<lambda>t. Inr (None, t)))"

section \<open>RB_REMOVE\<close>

text \<open>
  The part of \<open>RB_REMOVE_COLOR\<close> after the sibling \<open>tmp\<close> is known not to be red, for \<open>elm\<close>
  the left child: both nephews black recolours and moves up (\<open>Inl\<close> the node reached),
  otherwise one or two rotations finish (\<open>Inr\<close> the subtree that replaces the parent's).
\<close>

fun rb_fix_left :: "'a rbt \<Rightarrow> color \<Rightarrow> 'a \<Rightarrow> 'a rbt \<Rightarrow> ('a rbt + 'a rbt) outcome" where
  "rb_fix_left elm pc p Leaf = Inl Null_deref"
| "rb_fix_left elm pc p (Node nl nc n nr) =
     (if \<not> is_red nl \<and> \<not> is_red nr
      then Inr (Inl (Node elm pc p (Node nl RB_RED n nr)))
      else if \<not> is_red nr
      then (case nl of
              Leaf \<Rightarrow> Inl Null_deref
            | Node ol oc oleft orr \<Rightarrow>
                Inr (Inr (Node (Node elm RB_BLACK p ol) pc oleft
                           (set_color RB_BLACK (Node orr RB_RED n nr)))))
      else Inr (Inr (Node (Node elm RB_BLACK p nl) pc n (set_color RB_BLACK nr))))"

fun rb_fix_right :: "'a rbt \<Rightarrow> color \<Rightarrow> 'a \<Rightarrow> 'a rbt \<Rightarrow> ('a rbt + 'a rbt) outcome" where
  "rb_fix_right elm pc p Leaf = Inl Null_deref"
| "rb_fix_right elm pc p (Node nl nc n nr) =
     (if \<not> is_red nl \<and> \<not> is_red nr
      then Inr (Inl (Node (Node nl RB_RED n nr) pc p elm))
      else if \<not> is_red nl
      then (case nr of
              Leaf \<Rightarrow> Inl Null_deref
            | Node ol oc oright orr \<Rightarrow>
                Inr (Inr (Node (set_color RB_BLACK (Node nl RB_RED n ol)) pc oright
                           (Node orr RB_BLACK p elm))))
      else Inr (Inr (Node (set_color RB_BLACK nl) pc n (Node nr RB_BLACK p elm))))"

text \<open>
  \<open>RB_REMOVE_COLOR(head, parent, elm)\<close>. A red sibling is first rotated above the parent,
  which lengthens the path by a black frame; if the nephews are then both black, the
  loop moves up to the parent, which is red, and its test ends it. The \<open>break\<close> after the final rotation sets
  \<open>elm\<close> to the root, which is painted black on exit.
\<close>

function (sequential) rb_remove_color :: "'a rbt \<Rightarrow> 'a rbpath \<Rightarrow> 'a rbt outcome" where
  "rb_remove_color elm [] = Inr (set_color RB_BLACK elm)"
| "rb_remove_color elm (LFr pc p tmp # ps) =
     (if is_red elm then Inr (plug (set_color RB_BLACK elm) (LFr pc p tmp # ps))
      else if is_red tmp
      then bnd (rb_fix_left elm RB_RED p (rb_left tmp)) (\<lambda>res.
             let ps' = LFr RB_BLACK (rb_elm tmp) (rb_right tmp) # ps in
             case res of
               Inl elm' \<Rightarrow> Inr (plug (set_color RB_BLACK elm') ps')
             | Inr sub \<Rightarrow> Inr (set_color RB_BLACK (plug sub ps')))
      else bnd (rb_fix_left elm pc p tmp) (\<lambda>res.
             case res of
               Inl elm' \<Rightarrow> rb_remove_color elm' ps
             | Inr sub \<Rightarrow> Inr (set_color RB_BLACK (plug sub ps))))"
| "rb_remove_color elm (RFr tmp pc p # ps) =
     (if is_red elm then Inr (plug (set_color RB_BLACK elm) (RFr tmp pc p # ps))
      else if is_red tmp
      then bnd (rb_fix_right elm RB_RED p (rb_right tmp)) (\<lambda>res.
             let ps' = RFr (rb_left tmp) RB_BLACK (rb_elm tmp) # ps in
             case res of
               Inl elm' \<Rightarrow> Inr (plug (set_color RB_BLACK elm') ps')
             | Inr sub \<Rightarrow> Inr (set_color RB_BLACK (plug sub ps')))
      else bnd (rb_fix_right elm pc p tmp) (\<lambda>res.
             case res of
               Inl elm' \<Rightarrow> rb_remove_color elm' ps
             | Inr sub \<Rightarrow> Inr (set_color RB_BLACK (plug sub ps))))"
  by pat_completeness auto
termination
  by (relation "measure (\<lambda>(elm, ps). length ps)") auto

text \<open>
  The successor search of \<open>RB_REMOVE\<close>: the leftmost node of a subtree, its colour, its
  right child and the path from it up to the subtree's root.
\<close>

fun rb_unlink_min :: "'a rbt \<Rightarrow> color \<Rightarrow> 'a \<Rightarrow> 'a rbt \<Rightarrow> 'a rbpath \<Rightarrow> 'a \<times> color \<times> 'a rbt \<times> 'a rbpath" where
  "rb_unlink_min Leaf c x r up = (x, c, r, up)"
| "rb_unlink_min (Node ll lc lx lr) c x r up = rb_unlink_min ll lc lx lr (LFr c x r # up)"

text \<open>\<open>RB_REMOVE\<close> at a node given by its subtree and its path.\<close>

fun rb_remove_at :: "'a rbt \<Rightarrow> 'a rbpath \<Rightarrow> 'a rbt outcome" where
  "rb_remove_at Leaf ps = Inl Null_deref"
| "rb_remove_at (Node Leaf color old child) ps =
     (if color = RB_BLACK then rb_remove_color child ps else Inr (plug child ps))"
| "rb_remove_at (Node child color old Leaf) ps =
     (if color = RB_BLACK then rb_remove_color child ps else Inr (plug child ps))"
| "rb_remove_at (Node l oc old (Node rl rc rx rr)) ps =
     (let (elm, color, child, up) = rb_unlink_min rl rc rx rr [];
          ps' = up @ RFr l oc elm # ps
      in if color = RB_BLACK then rb_remove_color child ps' else Inr (plug child ps'))"

text \<open>
  The C functions receive the address of a node. \<open>rb_locate\<close> is the position of that
  address: the subtree and the path its pointers describe.
\<close>

fun rb_locate :: "'a \<Rightarrow> 'a rbt \<Rightarrow> 'a rbpath \<Rightarrow> ('a rbt \<times> 'a rbpath) option" where
  "rb_locate a Leaf ps = None"
| "rb_locate a (Node l c x r) ps =
     (if x = a then Some (Node l c x r, ps)
      else case rb_locate a l (LFr c x r # ps) of
             Some z \<Rightarrow> Some z
           | None \<Rightarrow> rb_locate a r (RFr l c x # ps))"

definition rb_remove :: "'a rbt \<Rightarrow> 'a \<Rightarrow> 'a rbt outcome" where
  "rb_remove root elm =
     (case rb_locate elm root [] of
        None \<Rightarrow> Inl Null_deref
      | Some (t, ps) \<Rightarrow> rb_remove_at t ps)"

section \<open>RB_FIND, RB_MINMAX, RB_NEXT, RB_FOREACH\<close>

fun rb_find :: "('a \<Rightarrow> 'a \<Rightarrow> int) \<Rightarrow> 'a rbt \<Rightarrow> 'a \<Rightarrow> 'a option" where
  "rb_find cmp Leaf elm = None"
| "rb_find cmp (Node l c x r) elm =
     (let comp = cmp elm x in
      if comp < 0 then rb_find cmp l elm
      else if comp > 0 then rb_find cmp r elm
      else Some x)"

fun rb_minmax :: "int \<Rightarrow> 'a rbt \<Rightarrow> 'a option \<Rightarrow> 'a option" where
  "rb_minmax val Leaf parent = parent"
| "rb_minmax val (Node l c x r) parent =
     (if val < 0 then rb_minmax val l (Some x) else rb_minmax val r (Some x))"

definition rb_min :: "'a rbt \<Rightarrow> 'a option" where
  "rb_min root = rb_minmax (-1) root None"

definition rb_max :: "'a rbt \<Rightarrow> 'a option" where
  "rb_max root = rb_minmax 1 root None"

text \<open>The climb of \<open>RB_NEXT\<close>: past every parent of which the node is the right child.\<close>

fun rb_climb :: "'a rbpath \<Rightarrow> 'a option" where
  "rb_climb [] = None"
| "rb_climb (LFr c p s # ps) = Some p"
| "rb_climb (RFr s c p # ps) = rb_climb ps"

fun rb_next_at :: "'a rbt \<Rightarrow> 'a rbpath \<Rightarrow> 'a option" where
  "rb_next_at Leaf ps = None"
| "rb_next_at (Node l c x Leaf) ps = rb_climb ps"
| "rb_next_at (Node l c x (Node rl rc rx rr)) ps = rb_minmax (-1) (Node rl rc rx rr) None"

definition rb_next :: "'a rbt \<Rightarrow> 'a \<Rightarrow> 'a option" where
  "rb_next root elm =
     (case rb_locate elm root [] of
        None \<Rightarrow> None
      | Some (t, ps) \<Rightarrow> rb_next_at t ps)"

text \<open>
  \<open>RB_FOREACH\<close>: the elements visited, from \<open>RB_MIN\<close> by \<open>RB_NEXT\<close>. One unit of the first
  argument is spent per visit.
\<close>

fun rb_foreach_from :: "nat \<Rightarrow> 'a rbt \<Rightarrow> 'a option \<Rightarrow> 'a list outcome" where
  "rb_foreach_from n root None = Inr []"
| "rb_foreach_from 0 root (Some x) = Inl Out_of_fuel"
| "rb_foreach_from (Suc n) root (Some x) =
     bnd (rb_foreach_from n root (rb_next root x)) (\<lambda>xs. Inr (x # xs))"

fun rb_inorder :: "'a rbt \<Rightarrow> 'a list" where
  "rb_inorder Leaf = []"
| "rb_inorder (Node l c x r) = rb_inorder l @ x # rb_inorder r"

definition rb_foreach :: "'a rbt \<Rightarrow> 'a list outcome" where
  "rb_foreach root = rb_foreach_from (length (rb_inorder root)) root (rb_min root)"

end
