(* ===== verification/RBTreeProofs.thy ===== *)
theory RBTreeProofs
  imports RBTree
begin

text \<open>
  Correctness of the red-black tree macros: the red-black conditions on subtrees and on
  paths, and for each macro that it never reads NULL on a red-black tree, keeps the
  conditions, and changes the in-order list as it should. \<open>rb_order\<close> is the contract a
  comparison function must meet; \<open>EventCore\<close> interprets it on \<open>compare\<close> of \<open>event.c\<close>.
\<close>

section \<open>Red-black conditions\<close>

fun bh :: "'a rbt \<Rightarrow> nat" where
  "bh Leaf = 0"
| "bh (Node l c x r) = bh l + (if c = RB_BLACK then 1 else 0)"

fun balanced :: "'a rbt \<Rightarrow> bool" where
  "balanced Leaf = True"
| "balanced (Node l c x r) \<longleftrightarrow>
     balanced l \<and> balanced r \<and> bh l = bh r \<and> (c = RB_RED \<longrightarrow> \<not> is_red l \<and> \<not> is_red r)"

text \<open>A tree reachable from \<open>rbh_root\<close>: every path has as many black nodes, no red node
  has a red child, the root is black.\<close>

definition rb_tree :: "'a rbt \<Rightarrow> bool" where
  "rb_tree t \<longleftrightarrow> balanced t \<and> \<not> is_red t"

fun black_above :: "'a rbpath \<Rightarrow> bool" where
  "black_above [] = False"
| "black_above (f # ps) \<longleftrightarrow> fr_color f = RB_BLACK"

text \<open>\<open>path_ok ps h\<close>: plugging a balanced subtree of black height \<open>h\<close> gives a red-black tree.\<close>

fun path_ok :: "'a rbpath \<Rightarrow> nat \<Rightarrow> bool" where
  "path_ok [] h = True"
| "path_ok (LFr c p s # ps) h \<longleftrightarrow>
     balanced s \<and> bh s = h \<and> (c = RB_RED \<longrightarrow> \<not> is_red s \<and> black_above ps) \<and>
     path_ok ps (h + (if c = RB_BLACK then 1 else 0))"
| "path_ok (RFr s c p # ps) h \<longleftrightarrow>
     balanced s \<and> bh s = h \<and> (c = RB_RED \<longrightarrow> \<not> is_red s \<and> black_above ps) \<and>
     path_ok ps (h + (if c = RB_BLACK then 1 else 0))"

fun before :: "'a rbpath \<Rightarrow> 'a list" where
  "before [] = []"
| "before (LFr c p s # ps) = before ps"
| "before (RFr s c p # ps) = before ps @ rb_inorder s @ [p]"

fun after :: "'a rbpath \<Rightarrow> 'a list" where
  "after [] = []"
| "after (LFr c p s # ps) = p # rb_inorder s @ after ps"
| "after (RFr s c p # ps) = after ps"

lemma color_neq [simp]: "c \<noteq> RB_BLACK \<longleftrightarrow> c = RB_RED" "c \<noteq> RB_RED \<longleftrightarrow> c = RB_BLACK"
  by (cases c; simp)+

lemma is_red_Node [simp]: "is_red (Node l c x r) \<longleftrightarrow> c = RB_RED"
  by (cases c) auto

lemma set_color_simps [simp]:
  "rb_inorder (set_color c t) = rb_inorder t"
  "balanced t \<Longrightarrow> balanced (set_color RB_BLACK t)"
  "\<not> is_red (set_color RB_BLACK t)"
  by (cases t; auto)+

lemma bh_set_black: "bh (set_color RB_BLACK t) = (if is_red t then Suc (bh t) else bh t)"
  by (cases t rule: is_red.cases) auto

lemma set_black_id [simp]: "\<not> is_red t \<Longrightarrow> set_color RB_BLACK t = t"
  by (cases t rule: is_red.cases) auto

lemma inorder_plug: "rb_inorder (plug t ps) = before ps @ rb_inorder t @ after ps"
proof (induction ps arbitrary: t)
  case Nil
  then show ?case by simp
next
  case (Cons f ps)
  then show ?case by (cases f) auto
qed

lemma plug_append: "plug t (ps @ qs) = plug (plug t ps) qs"
  by (induction ps arbitrary: t) auto

lemma plug_rb_tree:
  "balanced t \<Longrightarrow> path_ok ps (bh t) \<Longrightarrow> (is_red t \<longrightarrow> black_above ps) \<Longrightarrow> rb_tree (plug t ps)
    \<or> (ps = [] \<and> is_red t)"
proof (induction ps arbitrary: t)
  case Nil
  then show ?case by (simp add: rb_tree_def)
next
  case (Cons f ps)
  obtain c p s where f: "f = LFr c p s \<or> f = RFr s c p"
    by (cases f) auto
  have b: "balanced (plug1 t f)" "path_ok ps (bh (plug1 t f))"
    "is_red (plug1 t f) \<longrightarrow> black_above ps"
    using Cons.prems f by auto
  then show ?case
    using Cons.IH [OF b] by (cases ps) auto
qed

lemma plug_ok:
  assumes "balanced t" "path_ok ps (bh t)" "is_red t \<longrightarrow> black_above ps"
  shows "rb_tree (plug t ps)"
  using plug_rb_tree [OF assms] assms(3) by (cases ps) auto

lemma rb_tree_set_black: "rb_tree t \<Longrightarrow> set_color RB_BLACK t = t"
  by (simp add: rb_tree_def)

section \<open>Insertion\<close>

text \<open>What a red parent says of the frames around it.\<close>

lemma path_ok_red_parent:
  assumes "path_ok (f # g # gs) h" "fr_color f = RB_RED"
  shows "fr_color g = RB_BLACK \<and> path_ok (g # gs) h"
  using assms by (cases f) auto

lemma plug1_set_black:
  assumes "path_ok (f # ps) (bh elm)" "balanced elm" "fr_color f = RB_RED"
  shows "balanced (set_color RB_BLACK (plug1 elm f)) \<and>
    bh (set_color RB_BLACK (plug1 elm f)) = Suc (bh elm)"
  using assms by (cases f) auto

lemma insert_color_ok:
  assumes "is_red elm" "balanced elm" "path_ok ps (bh elm)"
  shows "\<exists>t. rb_insert_color elm ps = Inr t \<and> rb_tree t \<and>
    rb_inorder t = before ps @ rb_inorder elm @ after ps"
  using assms
proof (induction elm ps rule: rb_insert_color.induct)
  case (1 elm)
  then show ?case by (simp add: rb_tree_def)
next
  case (2 elm f)
  then show ?case
    by (cases f) (auto simp: rb_tree_def split: if_splits)
next
  case (3 elm f gc g tmp gs)
  show ?case
  proof (cases "fr_color f = RB_RED")
    case False
    then have ok: "rb_tree (plug elm (f # LFr gc g tmp # gs))"
      using "3.prems" by (intro plug_ok) auto
    have "rb_insert_color elm (f # LFr gc g tmp # gs) = Inr (plug elm (f # LFr gc g tmp # gs))"
      using False rb_tree_set_black [OF ok] by simp
    with ok show ?thesis
      by (metis inorder_plug)
  next
    case red: True
    note g = path_ok_red_parent [OF "3.prems"(3) red]
    note p = plug1_set_black [OF "3.prems"(3,2) red]
    show ?thesis
    proof (cases "is_red tmp")
      case True
      let ?elm = "Node (set_color RB_BLACK (plug1 elm f)) RB_RED g (set_color RB_BLACK tmp)"
      have "balanced ?elm" "path_ok gs (bh ?elm)"
        using g p True by (auto simp: bh_set_black)
      then show ?thesis
        using "3.IH"(1) red True by (cases f) auto
    next
      case False
      show ?thesis
      proof (cases f)
        case (LFr c p s)
        have "path_ok (LFr RB_BLACK p (Node s RB_RED g tmp) # gs) (bh elm)"
          using "3.prems"(3) g red False LFr by auto
        then show ?thesis
          using "3.IH"(2) red False LFr "3.prems"(1,2) by auto
      next
        case (RFr s c p)
        obtain el e er where elm: "elm = Node el RB_RED e er"
          using "3.prems"(1) by (cases elm) auto
        have "path_ok (LFr RB_BLACK e (Node er RB_RED g tmp) # gs) (bh (Node s RB_RED p el))"
          "balanced (Node s RB_RED p el)"
          using "3.prems"(2,3) g red False RFr elm by auto
        then show ?thesis
          using "3.IH"(3) red False RFr elm by auto
      qed
    qed
  qed
next
  case (4 elm f tmp gc g gs)
  show ?case
  proof (cases "fr_color f = RB_RED")
    case False
    then have ok: "rb_tree (plug elm (f # RFr tmp gc g # gs))"
      using "4.prems" by (intro plug_ok) auto
    have "rb_insert_color elm (f # RFr tmp gc g # gs) = Inr (plug elm (f # RFr tmp gc g # gs))"
      using False rb_tree_set_black [OF ok] by simp
    with ok show ?thesis
      by (metis inorder_plug)
  next
    case red: True
    note g = path_ok_red_parent [OF "4.prems"(3) red]
    note p = plug1_set_black [OF "4.prems"(3,2) red]
    show ?thesis
    proof (cases "is_red tmp")
      case True
      let ?elm = "Node (set_color RB_BLACK tmp) RB_RED g (set_color RB_BLACK (plug1 elm f))"
      have "balanced ?elm" "path_ok gs (bh ?elm)"
        using g p True by (auto simp: bh_set_black)
      then show ?thesis
        using "4.IH"(1) red True by (cases f) auto
    next
      case False
      show ?thesis
      proof (cases f)
        case (RFr s c p)
        have "path_ok (RFr (Node tmp RB_RED g s) RB_BLACK p # gs) (bh elm)"
          using "4.prems"(3) g red False RFr by auto
        then show ?thesis
          using "4.IH"(3) red False RFr "4.prems"(1,2) by auto
      next
        case (LFr c p s)
        obtain el e er where elm: "elm = Node el RB_RED e er"
          using "4.prems"(1) by (cases elm) auto
        have "path_ok (RFr (Node tmp RB_RED g el) RB_BLACK e # gs) (bh (Node er RB_RED p s))"
          "balanced (Node er RB_RED p s)"
          using "4.prems"(2,3) g red False LFr elm by auto
        then show ?thesis
          using "4.IH"(2) red False LFr elm by auto
      qed
    qed
  qed
qed

section \<open>Removal\<close>

text \<open>
  One round of \<open>RB_REMOVE_COLOR\<close> with a sibling that is not red: it never reads NULL, and
  either moves up with a sibling of the missing height, or yields a finished subtree of
  the parent's colour.
\<close>

definition fix_result :: "'a rbt \<Rightarrow> color \<Rightarrow> 'a list \<Rightarrow> ('a rbt + 'a rbt) outcome \<Rightarrow> bool" where
  "fix_result elm pc xs res \<longleftrightarrow>
     (\<exists>up. res = Inr (Inl up) \<and> balanced (set_color RB_BLACK up) \<and> is_red up = (pc = RB_RED) \<and>
        bh up = bh elm + (if pc = RB_BLACK then 1 else 0) \<and> rb_inorder up = xs) \<or>
     (\<exists>sub. res = Inr (Inr sub) \<and> balanced sub \<and> is_red sub = (pc = RB_RED) \<and>
        bh sub = Suc (bh elm) + (if pc = RB_BLACK then 1 else 0) \<and> rb_inorder sub = xs)"

lemma fix_left_ok:
  assumes "balanced elm" "\<not> is_red elm" "balanced tmp" "\<not> is_red tmp" "bh tmp = Suc (bh elm)"
  shows "fix_result elm pc (rb_inorder elm @ p # rb_inorder tmp) (rb_fix_left elm pc p tmp)"
proof (cases tmp)
  case Leaf
  with assms show ?thesis by simp
next
  case (Node nl nc n nr)
  with assms show ?thesis
    by (cases nl rule: is_red.cases; cases nr rule: is_red.cases)
      (auto simp: fix_result_def)
qed

lemma fix_right_ok:
  assumes "balanced elm" "\<not> is_red elm" "balanced tmp" "\<not> is_red tmp" "bh tmp = Suc (bh elm)"
  shows "fix_result elm pc (rb_inorder tmp @ p # rb_inorder elm) (rb_fix_right elm pc p tmp)"
proof (cases tmp)
  case Leaf
  with assms show ?thesis by simp
next
  case (Node nl nc n nr)
  with assms show ?thesis
    by (cases nl rule: is_red.cases; cases nr rule: is_red.cases)
      (auto simp: fix_result_def)
qed

text \<open>What leaves the loop after a round.\<close>

lemma fix_done:
  assumes "balanced sub" "is_red sub \<longrightarrow> black_above ps" "path_ok ps (bh sub)"
  shows "rb_tree (set_color RB_BLACK (plug sub ps)) \<and>
    rb_inorder (set_color RB_BLACK (plug sub ps)) = before ps @ rb_inorder sub @ after ps"
  using plug_ok [OF assms(1,3,2)] by (simp add: rb_tree_set_black inorder_plug)

lemma red_done:
  assumes "balanced (set_color RB_BLACK up)" "is_red up" "path_ok ps (Suc (bh up))"
  shows "rb_tree (plug (set_color RB_BLACK up) ps) \<and>
    rb_inorder (plug (set_color RB_BLACK up) ps) = before ps @ rb_inorder up @ after ps"
  using plug_ok [of "set_color RB_BLACK up" ps] assms by (simp add: bh_set_black inorder_plug)

text \<open>A whole round, after a red sibling was rotated up and with a black sibling.\<close>

definition repaired :: "'a rbt outcome \<Rightarrow> 'a list \<Rightarrow> bool" where
  "repaired res xs \<longleftrightarrow> (\<exists>t. res = Inr t \<and> rb_tree t \<and> rb_inorder t = xs)"

lemma repaired_Inr [simp]: "repaired (Inr t) xs \<longleftrightarrow> rb_tree t \<and> rb_inorder t = xs"
  by (simp add: repaired_def)

lemma red_sibling_round:
  assumes "fix_result elm RB_RED xs res" "path_ok ps (Suc (bh elm))" "black_above ps"
  shows "repaired (bnd res (\<lambda>r. case r of
      Inl up \<Rightarrow> Inr (plug (set_color RB_BLACK up) ps)
    | Inr sub \<Rightarrow> Inr (set_color RB_BLACK (plug sub ps)))) (before ps @ xs @ after ps)"
  using assms red_done [of _ ps] fix_done [of _ ps] by (auto simp: fix_result_def)

lemma black_sibling_round:
  assumes "fix_result elm pc xs res" "path_ok ps (Suc (bh elm) + (if pc = RB_BLACK then 1 else 0))"
    "pc = RB_RED \<longrightarrow> black_above ps"
    and "\<And>up. res = Inr (Inl up) \<Longrightarrow> balanced (set_color RB_BLACK up) \<Longrightarrow> path_ok ps (Suc (bh up))
      \<Longrightarrow> repaired (rb_remove_color up ps) (before ps @ rb_inorder up @ after ps)"
  shows "repaired (bnd res (\<lambda>r. case r of
      Inl up \<Rightarrow> rb_remove_color up ps
    | Inr sub \<Rightarrow> Inr (set_color RB_BLACK (plug sub ps)))) (before ps @ xs @ after ps)"
  using assms fix_done [of _ ps] by (auto simp: fix_result_def)

lemma remove_color_ok:
  assumes "balanced (set_color RB_BLACK elm)" "path_ok ps (Suc (bh elm))"
  shows "repaired (rb_remove_color elm ps) (before ps @ rb_inorder elm @ after ps)"
  using assms
proof (induction elm ps rule: rb_remove_color.induct)
  case (1 elm)
  then show ?case by (simp add: rb_tree_def)
next
  case (2 elm pc p tmp ps)
  show ?case
  proof (cases "is_red elm"; cases "is_red tmp")
    assume nred: "\<not> is_red elm" and "is_red tmp"
    then obtain sl sx sr where tmp: "tmp = Node sl RB_RED sx sr"
      by (cases tmp rule: is_red.cases) auto
    have "fix_result elm RB_RED (rb_inorder elm @ p # rb_inorder sl) (rb_fix_left elm RB_RED p sl)"
      using "2.prems" nred tmp by (intro fix_left_ok) (auto split: if_splits)
    from red_sibling_round [OF this, of "LFr RB_BLACK sx sr # ps"] show ?case
      using "2.prems"(2) nred tmp
      by (auto simp: Let_def split: if_splits)
  next
    assume nred: "\<not> is_red elm" and black: "\<not> is_red tmp"
    have "fix_result elm pc (rb_inorder elm @ p # rb_inorder tmp) (rb_fix_left elm pc p tmp)"
      using "2.prems" nred black by (intro fix_left_ok) auto
    from black_sibling_round [OF this, of ps] show ?case
      using "2.prems"(2) "2.IH" nred black by auto
  qed (use "2.prems" red_done [of elm "LFr pc p tmp # ps"] in auto)
next
  case (3 elm tmp pc p ps)
  show ?case
  proof (cases "is_red elm"; cases "is_red tmp")
    assume nred: "\<not> is_red elm" and "is_red tmp"
    then obtain sl sx sr where tmp: "tmp = Node sl RB_RED sx sr"
      by (cases tmp rule: is_red.cases) auto
    have "fix_result elm RB_RED (rb_inorder sr @ p # rb_inorder elm) (rb_fix_right elm RB_RED p sr)"
      using "3.prems" nred tmp by (intro fix_right_ok) (auto split: if_splits)
    from red_sibling_round [OF this, of "RFr sl RB_BLACK sx # ps"] show ?case
      using "3.prems"(2) nred tmp
      by (auto simp: Let_def split: if_splits)
  next
    assume nred: "\<not> is_red elm" and black: "\<not> is_red tmp"
    have "fix_result elm pc (rb_inorder tmp @ p # rb_inorder elm) (rb_fix_right elm pc p tmp)"
      using "3.prems" nred black by (intro fix_right_ok) auto
    from black_sibling_round [OF this, of ps] show ?case
      using "3.prems"(2) "3.IH" nred black by auto
  qed (use "3.prems" red_done [of elm "RFr tmp pc p # ps"] in auto)
qed

text \<open>The position of an element.\<close>

definition position_ok :: "'a rbt \<Rightarrow> 'a rbpath \<Rightarrow> bool" where
  "position_ok t ps \<longleftrightarrow> balanced t \<and> path_ok ps (bh t) \<and> (is_red t \<longrightarrow> black_above ps)"

lemma position_ok_children:
  assumes "position_ok (Node l c x r) ps"
  shows "position_ok l (LFr c x r # ps)" "position_ok r (RFr l c x # ps)"
  using assms by (auto simp: position_ok_def)

lemma position_ok_root: "rb_tree t \<Longrightarrow> position_ok t []"
  by (simp add: position_ok_def rb_tree_def)

lemma locate_iff: "(\<exists>z. rb_locate a t ps = Some z) \<longleftrightarrow> a \<in> set (rb_inorder t)"
  by (induction a t ps rule: rb_locate.induct) (auto split: option.splits)

lemma locate_Some:
  assumes "rb_locate a t ps = Some (s, qs)"
  shows "(\<exists>l c r. s = Node l c a r) \<and> plug s qs = plug t ps \<and>
    (position_ok t ps \<longrightarrow> position_ok s qs)"
  using assms
proof (induction a t ps rule: rb_locate.induct)
  case (1 a ps)
  then show ?case by simp
next
  case (2 a l c x r ps)
  then show ?case
    using position_ok_children [of l c x r ps]
    by (auto split: if_splits option.splits)
qed

lemma unlink_min_ok:
  assumes "rb_unlink_min l c x r up = (m, mc, child, up')"
    and "position_ok (Node l c x r) (up @ qs)"
  shows "position_ok (Node Leaf mc m child) (up' @ qs) \<and> before (up' @ qs) = before (up @ qs) \<and>
    m # rb_inorder child @ after (up' @ qs) = rb_inorder l @ x # rb_inorder r @ after (up @ qs)"
  using assms
proof (induction l c x r up rule: rb_unlink_min.induct)
  case (1 c x r up)
  then show ?case by simp
next
  case (2 ll lc lx lr c x r up)
  have "position_ok (Node ll lc lx lr) ((LFr c x r # up) @ qs)"
    using position_ok_children(1) [OF "2.prems"(2)] by simp
  with 2 show ?case by simp
qed

lemma remove_leaf_ok:
  assumes "position_ok (Node l c x r) ps" "l = Leaf \<or> r = Leaf"
    and "child = (if l = Leaf then r else l)"
  shows "repaired (if c = RB_BLACK then rb_remove_color child ps else Inr (plug child ps))
    (before ps @ rb_inorder child @ after ps)"
proof (cases c)
  case RB_BLACK
  then show ?thesis
    using assms remove_color_ok [of child ps] by (auto simp: position_ok_def)
next
  case RB_RED
  then show ?thesis
    using assms plug_ok [of child ps] by (auto simp: position_ok_def inorder_plug)
qed

lemma remove_at_ok:
  assumes "position_ok (Node l c x r) ps"
  shows "repaired (rb_remove_at (Node l c x r) ps) (before ps @ rb_inorder l @ rb_inorder r @ after ps)"
proof (cases "l = Leaf \<or> r = Leaf")
  case True
  then show ?thesis
    using remove_leaf_ok [OF assms True refl] by (cases l; cases r) auto
next
  case False
  then obtain rl rc rx rr where r: "r = Node rl rc rx rr"
    by (cases r) auto
  obtain m mc child up where u: "rb_unlink_min rl rc rx rr [] = (m, mc, child, up)"
    by (metis prod_cases4)
  let ?qs = "RFr l c m # ps"
  have "position_ok (Node rl rc rx rr) ([] @ ?qs)"
    using position_ok_children(2) [OF assms] r
    by (cases rc; cases c) (auto simp: position_ok_def)
  from unlink_min_ok [OF u this] have
    pos: "position_ok (Node Leaf mc m child) (up @ ?qs)" and
    lists: "before (up @ ?qs) = before ps @ rb_inorder l @ [m]"
      "m # rb_inorder child @ after (up @ ?qs) = rb_inorder r @ after ps"
    using r by auto
  have "repaired (rb_remove_at (Node l c x r) ps)
      (before (up @ ?qs) @ rb_inorder child @ after (up @ ?qs))"
    using remove_leaf_ok [OF pos, of child] False r u by (cases l) (auto simp: Let_def)
  then show ?thesis
    using lists by (metis append.assoc append_Cons append_Nil)
qed

lemma rb_remove_ok:
  assumes "rb_tree t" "distinct (rb_inorder t)" "a \<in> set (rb_inorder t)"
  shows "repaired (rb_remove t a) (remove1 a (rb_inorder t))"
proof -
  obtain s qs where loc: "rb_locate a t [] = Some (s, qs)"
    using locate_iff [of a t "[]"] assms(3) by auto
  then obtain l c r where s: "s = Node l c a r" "plug s qs = t" "position_ok s qs"
    using locate_Some [OF loc] position_ok_root [OF assms(1)] by auto
  then have "rb_inorder t = (before qs @ rb_inorder l) @ a # (rb_inorder r @ after qs)"
    using inorder_plug [of s qs] by auto
  then show ?thesis
    using remove_at_ok [of l c a r qs] s loc assms(2)
      remove1_append_distinct [of "before qs @ rb_inorder l" a "rb_inorder r @ after qs"]
    by (simp add: rb_remove_def)
qed

section \<open>Iteration\<close>

lemma minmax_min: "rb_minmax (-1) t p = (case rb_inorder t of [] \<Rightarrow> p | x # xs \<Rightarrow> Some x)"
proof (induction t arbitrary: p)
  case Leaf
  then show ?case by simp
next
  case (Node l c x r)
  then show ?case by (cases "rb_inorder l") auto
qed

lemma minmax_max:
  "rb_minmax 1 t p = (case rev (rb_inorder t) of [] \<Rightarrow> p | x # xs \<Rightarrow> Some x)"
proof (induction t arbitrary: p)
  case Leaf
  then show ?case by simp
next
  case (Node l c x r)
  then show ?case by (cases "rev (rb_inorder r)") auto
qed

definition first_of :: "'a list \<Rightarrow> 'a option" where
  "first_of xs = (case xs of [] \<Rightarrow> None | x # _ \<Rightarrow> Some x)"

lemma first_of_simps [simp]: "first_of [] = None" "first_of (x # xs) = Some x"
  by (simp_all add: first_of_def)

lemma rb_min_first: "rb_min t = first_of (rb_inorder t)"
  by (simp add: rb_min_def minmax_min first_of_def)

lemma rb_max_last: "rb_max t = first_of (rev (rb_inorder t))"
  by (simp add: rb_max_def minmax_max first_of_def)

lemma climb_first: "rb_climb ps = first_of (after ps)"
  by (induction ps rule: rb_climb.induct) auto

lemma next_at_first: "rb_next_at (Node l c x r) ps = first_of (rb_inorder r @ after ps)"
proof (cases r)
  case Leaf
  then show ?thesis by (simp add: climb_first)
next
  case (Node rl rc rx rr)
  then show ?thesis
    using minmax_min [of r None] by (cases "rb_inorder rl") auto
qed

lemma next_ok:
  assumes "distinct (rb_inorder t)" "rb_inorder t = xs @ a # ys"
  shows "rb_next t a = first_of ys"
proof -
  obtain s qs where loc: "rb_locate a t [] = Some (s, qs)"
    using locate_iff [of a t "[]"] assms(2) by auto
  then obtain l c r where s: "s = Node l c a r" "plug s qs = t"
    using locate_Some [OF loc] by auto
  then have "rb_inorder t = (before qs @ rb_inorder l) @ a # (rb_inorder r @ after qs)"
    using inorder_plug [of s qs] by auto
  with assms have "rb_inorder r @ after qs = ys"
    by (metis append_Cons_eq_iff distinct.simps(2) distinct_append not_distinct_conv_prefix
        append_eq_append_conv_if disjoint_insert(1) list.set(2))
  then show ?thesis
    using loc s by (simp add: rb_next_def next_at_first)
qed

lemma foreach_from_ok:
  assumes "distinct (rb_inorder t)" "rb_inorder t = xs @ ys" "length ys \<le> n"
  shows "rb_foreach_from n t (first_of ys) = Inr ys"
  using assms
proof (induction ys arbitrary: xs n)
  case Nil
  then show ?case by simp
next
  case (Cons y ys)
  then obtain m where "n = Suc m"
    by (cases n) auto
  then show ?case
    using Cons.IH [of "xs @ [y]" m] Cons.prems next_ok [of t xs y ys] by simp
qed

lemma foreach_ok: "distinct (rb_inorder t) \<Longrightarrow> rb_foreach t = Inr (rb_inorder t)"
  using foreach_from_ok [of t "[]" "rb_inorder t"] by (simp add: rb_foreach_def rb_min_first)

section \<open>Ordered trees\<close>

text \<open>The in-order list ascends, and the list a new element is inserted into.\<close>

definition ascending :: "('a \<Rightarrow> 'a \<Rightarrow> int) \<Rightarrow> 'a list \<Rightarrow> bool" where
  "ascending cmp xs \<longleftrightarrow> sorted_wrt (\<lambda>x y. cmp x y < 0) xs"

definition ins_ascending :: "('a \<Rightarrow> 'a \<Rightarrow> int) \<Rightarrow> 'a \<Rightarrow> 'a list \<Rightarrow> 'a list" where
  "ins_ascending cmp e xs = filter (\<lambda>x. cmp x e < 0) xs @ e # filter (\<lambda>x. cmp e x < 0) xs"

text \<open>The contract of a \<open>cmp\<close> argument of \<open>RB_GENERATE\<close>: a strict total order.\<close>

locale rb_order =
  fixes cmp :: "'a \<Rightarrow> 'a \<Rightarrow> int"
  assumes cmp_eq: "cmp x y = 0 \<longleftrightarrow> x = y"
    and cmp_flip: "0 < cmp x y \<longleftrightarrow> cmp y x < 0"
    and cmp_trans: "cmp x y < 0 \<Longrightarrow> cmp y z < 0 \<Longrightarrow> cmp x z < 0"
begin

lemma cmp_cases: "cmp x y < 0 \<or> x = y \<or> cmp y x < 0"
  using cmp_eq [of x y] cmp_flip [of x y] by linarith

lemma cmp_asym: "cmp x y < 0 \<Longrightarrow> \<not> cmp y x < 0"
  using cmp_flip [of x y] by linarith

lemma cmp_self [simp]: "cmp x x = 0"
  using cmp_eq by blast

lemma ascending_distinct: "ascending cmp xs \<Longrightarrow> distinct xs"
  by (induction xs) (auto simp: ascending_def)

lemma filter_all_less:
  assumes "ascending cmp (xs @ x # ys)" "cmp e x < 0 \<or> e = x"
  shows "filter (\<lambda>z. cmp z e < 0) (x # ys) = []" "filter (\<lambda>z. cmp e z < 0) ys = ys"
  using assms
  by (auto simp: ascending_def sorted_wrt_append filter_empty_conv filter_id_conv
      dest: cmp_trans cmp_asym)

lemma filter_all_greater:
  assumes "ascending cmp (xs @ x # ys)" "cmp x e < 0 \<or> e = x"
  shows "filter (\<lambda>z. cmp e z < 0) (xs @ [x]) = []" "filter (\<lambda>z. cmp z e < 0) xs = xs"
  using assms
  by (auto simp: ascending_def sorted_wrt_append filter_empty_conv filter_id_conv
      dest: cmp_trans cmp_asym)

lemma ascending_parts:
  assumes "ascending cmp (rb_inorder (Node l c x r))"
  shows "ascending cmp (rb_inorder l)" "ascending cmp (rb_inorder r)"
    "\<And>z. z \<in> set (rb_inorder l) \<Longrightarrow> cmp z x < 0" "\<And>z. z \<in> set (rb_inorder r) \<Longrightarrow> cmp x z < 0"
  using assms by (auto simp: ascending_def sorted_wrt_append)

lemma descend_new:
  assumes "ascending cmp (rb_inorder t)" "e \<notin> set (rb_inorder t)"
  shows "\<exists>qs. rb_descend cmp e t ps = Inr qs \<and>
    before qs = before ps @ filter (\<lambda>x. cmp x e < 0) (rb_inorder t) \<and>
    after qs = filter (\<lambda>x. cmp e x < 0) (rb_inorder t) @ after ps \<and>
    (position_ok t ps \<longrightarrow> path_ok qs 0)"
  using assms
proof (induction t arbitrary: ps)
  case Leaf
  then show ?case by (simp add: position_ok_def)
next
  case (Node l c x r)
  have asc: "ascending cmp (rb_inorder l @ x # rb_inorder r)"
    using Node.prems(1) by simp
  note parts = ascending_parts [OF Node.prems(1)]
  consider (less) "cmp e x < 0" | (greater) "cmp x e < 0" "0 < cmp e x" "\<not> cmp e x < 0"
    using cmp_cases [of e x] cmp_flip [of e x] Node.prems(2) by auto
  then show ?case
  proof cases
    case less
    then show ?thesis
      using Node.IH(1) [of "LFr c x r # ps"] Node.prems(2) parts(1) filter_all_less [OF asc disjI1 [OF less]]
        position_ok_children(1) [of l c x r ps] cmp_asym [OF less]
      by (auto simp: Let_def)
  next
    case greater
    then show ?thesis
      using Node.IH(2) [of "RFr l c x # ps"] Node.prems(2) parts(2) filter_all_greater [OF asc disjI1 [OF greater(1)]]
        position_ok_children(2) [of l c x r ps]
      by (auto simp: Let_def)
  qed
qed

lemma descend_found:
  assumes "ascending cmp (rb_inorder t)" "e \<in> set (rb_inorder t)"
  shows "rb_descend cmp e t ps = Inl e"
  using assms
proof (induction t arbitrary: ps)
  case Leaf
  then show ?case by simp
next
  case (Node l c x r)
  note parts = ascending_parts [OF Node.prems(1)]
  consider "e = x" | "e \<in> set (rb_inorder l)" | "e \<in> set (rb_inorder r)"
    using Node.prems(2) by auto
  then show ?case
    using Node.IH parts cmp_asym cmp_flip [of e x] by cases (auto simp: Let_def)
qed

lemma find_ok:
  assumes "ascending cmp (rb_inorder t)"
  shows "rb_find cmp t e = (if e \<in> set (rb_inorder t) then Some e else None)"
  using assms
proof (induction t)
  case Leaf
  then show ?case by simp
next
  case (Node l c x r)
  note parts = ascending_parts [OF Node.prems]
  show ?case
    using Node.IH parts cmp_cases [of e x] cmp_asym cmp_flip [of e x]
    by (auto simp: Let_def)
qed

lemma insert_new:
  assumes "rb_tree t" "ascending cmp (rb_inorder t)" "e \<notin> set (rb_inorder t)"
  shows "\<exists>t'. rb_insert cmp t e = Inr (None, t') \<and> rb_tree t' \<and>
    rb_inorder t' = ins_ascending cmp e (rb_inorder t)"
proof -
  obtain qs where qs: "rb_descend cmp e t [] = Inr qs"
    "before qs = filter (\<lambda>x. cmp x e < 0) (rb_inorder t)"
    "after qs = filter (\<lambda>x. cmp e x < 0) (rb_inorder t)" "path_ok qs 0"
    using descend_new [OF assms(2,3), of "[]"] position_ok_root [OF assms(1)] by auto
  then show ?thesis
    using insert_color_ok [of "Node Leaf RB_RED e Leaf" qs]
    by (auto simp: rb_insert_def ins_ascending_def)
qed

lemma insert_present:
  assumes "ascending cmp (rb_inorder t)" "e \<in> set (rb_inorder t)"
  shows "rb_insert cmp t e = Inr (Some e, t)"
  using descend_found [OF assms] by (simp add: rb_insert_def)

lemma set_ins_ascending: "set (ins_ascending cmp e xs) = insert e (set xs)"
  using cmp_cases by (auto simp: ins_ascending_def)

lemma ascending_ins:
  assumes "ascending cmp xs"
  shows "ascending cmp (ins_ascending cmp e xs)"
  using assms unfolding ascending_def ins_ascending_def
  by (auto simp: sorted_wrt_append sorted_wrt_filter dest: cmp_trans)

lemma ascending_remove1: "ascending cmp xs \<Longrightarrow> ascending cmp (remove1 e xs)"
  by (simp add: ascending_def sorted_wrt_remove1)

lemma remove_present:
  assumes "rb_tree t" "ascending cmp (rb_inorder t)" "e \<in> set (rb_inorder t)"
  shows "\<exists>t'. rb_remove t e = Inr t' \<and> rb_tree t' \<and> rb_inorder t' = remove1 e (rb_inorder t)"
  using rb_remove_ok [OF assms(1) ascending_distinct [OF assms(2)] assms(3)] by (simp add: repaired_def)

lemma min_least:
  assumes "ascending cmp (rb_inorder t)" "rb_min t = Some m"
  shows "m \<in> set (rb_inorder t) \<and> (\<forall>x \<in> set (rb_inorder t). x = m \<or> cmp m x < 0)"
  using assms by (cases "rb_inorder t") (auto simp: rb_min_first ascending_def)

end

end
