(* ===== verification/Event.thy ===== *)
theory Event
  imports Timeval RBTreeProofs
begin

text \<open>
  Data of the event core: the flag constants and \<open>struct event\<close> of
  \<open>EventServer/net/event.h\<close>, \<open>struct event_base\<close> of \<open>event-internal.h\<close> with the
  globals of \<open>event.c\<close>, the table of back-end functions \<open>struct eventop\<close>, and
  \<open>compare\<close>, the order of the timeout tree.

  Event structs live at addresses (natural numbers); \<open>evs\<close> maps an address to its
  contents, and a \<open>TAILQ\<close> is the list of addresses it links. There is one
  \<open>event_base\<close>, as in the program (\<open>EventCall.cpp\<close> calls \<open>event_init\<close> once); \<open>ev_base\<close>
  says whether the pointer to it has been set.
\<close>

section \<open>Constants\<close>

definition EVLIST_TIMEOUT :: "32 word" where "EVLIST_TIMEOUT = 0x01"
definition EVLIST_INSERTED :: "32 word" where "EVLIST_INSERTED = 0x02"
definition EVLIST_SIGNAL :: "32 word" where "EVLIST_SIGNAL = 0x04"
definition EVLIST_ACTIVE :: "32 word" where "EVLIST_ACTIVE = 0x08"
definition EVLIST_INTERNAL :: "32 word" where "EVLIST_INTERNAL = 0x10"
definition EVLIST_INIT :: "32 word" where "EVLIST_INIT = 0x80"
definition EVLIST_ALL :: "32 word" where "EVLIST_ALL = or 0xf000 0x9f"

definition EV_TIMEOUT :: "'a::len word" where "EV_TIMEOUT = 0x01"
definition EV_READ :: "'a::len word" where "EV_READ = 0x02"
definition EV_WRITE :: "'a::len word" where "EV_WRITE = 0x04"
definition EV_SIGNAL :: "'a::len word" where "EV_SIGNAL = 0x08"
definition EV_PERSIST :: "'a::len word" where "EV_PERSIST = 0x10"

definition EVLOOP_ONCE :: "32 word" where "EVLOOP_ONCE = 0x01"
definition EVLOOP_NONBLOCK :: "32 word" where "EVLOOP_NONBLOCK = 0x02"

definition TIMEOUT_DEFAULT :: timeval where
  "TIMEOUT_DEFAULT = \<lparr>tv_sec = 5, tv_usec = 0\<rparr>"

section \<open>Events\<close>

text \<open>
  \<open>ev_callback\<close> names the function an event calls: one of the application's, or one of
  the library's own. \<open>ev_pncalls\<close> is the address of a local variable of a running
  \<open>event_process_active\<close>, or NULL.
\<close>

datatype callback =
    CB_user nat
  | CB_once
  | CB_loopexit
  | CB_signal
  | CB_bufread
  | CB_bufwrite

record event =
  ev_base :: bool
  ev_fd :: int
  ev_events :: "16 word"
  ev_ncalls :: "16 word"
  ev_pncalls :: "nat option"
  ev_timeout :: timeval
  ev_pri :: int
  ev_callback :: callback
  ev_arg :: nat
  ev_res :: "32 word"
  ev_flags :: "32 word"

text \<open>The contents of an event that \<open>calloc\<close> has zeroed.\<close>

definition event_zero :: event where
  "event_zero = \<lparr>ev_base = False, ev_fd = 0, ev_events = 0, ev_ncalls = 0, ev_pncalls = None,
     ev_timeout = timerclear, ev_pri = 0, ev_callback = CB_user 0, ev_arg = 0, ev_res = 0,
     ev_flags = 0\<rparr>"

text \<open>\<open>struct event_once\<close> without its embedded event: the user's callback and argument.\<close>

record event_once_rec =
  once_cb :: callback
  once_arg :: nat

section \<open>The state\<close>

text \<open>
  \<open>struct event_base\<close> (counters, active queues, event queue, timeout tree), the globals
  \<open>signalqueue\<close>, \<open>event_gotsig\<close>, and what the code reads and owns outside them: the
  readings \<open>gettimeofday\<close> will return, the live local variables that \<open>ev_pncalls\<close> can
  point to, and the \<open>event_once\<close> blocks on the heap. \<open>nactivequeues\<close> is the length of
  \<open>activequeues\<close>.
\<close>

record evstate =
  evs :: "nat \<Rightarrow> event"
  event_count :: int
  event_count_active :: int
  event_gotterm :: int
  activequeues :: "nat list list"
  eventqueue :: "nat list"
  event_tv :: timeval
  timetree :: "nat rbt"
  signalqueue :: "nat list"
  event_gotsig :: bool
  clock :: "nat \<Rightarrow> timeval"
  ticks :: nat
  ncalls_vars :: "nat \<rightharpoonup> 16 word"
  next_var :: nat
  onces :: "nat \<rightharpoonup> event_once_rec"

definition nactivequeues :: "'a evstate_scheme \<Rightarrow> int" where
  "nactivequeues s = int (length (activequeues s))"

definition upd_ev :: "nat \<Rightarrow> (event \<Rightarrow> event) \<Rightarrow> 'a evstate_scheme \<Rightarrow> 'a evstate_scheme" where
  "upd_ev ev f s = s\<lparr>evs := (evs s)(ev := f (evs s ev))\<rparr>"

text \<open>\<open>struct eventop\<close>: the functions of an event mechanism; \<open>init\<close> returns whether it
  produced a non-NULL \<open>evbase\<close>.\<close>

record 's eventop =
  op_init :: "'s \<Rightarrow> (bool \<times> 's) outcome"
  op_add :: "nat \<Rightarrow> 's \<Rightarrow> (int \<times> 's) outcome"
  op_del :: "nat \<Rightarrow> 's \<Rightarrow> (int \<times> 's) outcome"
  op_recalc :: "int \<Rightarrow> 's \<Rightarrow> (int \<times> 's) outcome"
  op_dispatch :: "timeval \<Rightarrow> 's \<Rightarrow> (int \<times> 's) outcome"

section \<open>Order of the timeout tree\<close>

text \<open>By \<open>ev_timeout\<close>, then by address.\<close>

definition compare :: "(nat \<Rightarrow> event) \<Rightarrow> nat \<Rightarrow> nat \<Rightarrow> int" where
  "compare E a b =
     (if timercmp_less (ev_timeout (E a)) (ev_timeout (E b)) then - 1
      else if timercmp_greater (ev_timeout (E a)) (ev_timeout (E b)) then 1
      else if a < b then - 1
      else if a > b then 1
      else 0)"

lemma compare_less_iff:
  "compare E a b < 0 \<longleftrightarrow>
     timercmp_less (ev_timeout (E a)) (ev_timeout (E b)) \<or>
     ev_timeout (E a) = ev_timeout (E b) \<and> a < b"
  using timercmp_less_total [of "ev_timeout (E a)" "ev_timeout (E b)"]
  by (auto simp: compare_def timercmp_greater_iff dest: timercmp_less_trans)

interpretation etree: rb_order "compare E" for E
proof (unfold_locales, goal_cases)
  case (1 x y)
  show ?case
    by (auto simp: compare_def)
next
  case (2 x y)
  show ?case
    using timercmp_less_total [of "ev_timeout (E x)" "ev_timeout (E y)"]
    by (auto simp: compare_def timercmp_greater_iff dest: timercmp_less_trans)
next
  case (3 x y z)
  then show ?case
    by (auto simp: compare_less_iff dest: timercmp_less_trans)
qed

lemma compare_cong:
  "(\<And>e. ev_timeout (E e) = ev_timeout (E' e)) \<Longrightarrow> compare E = compare E'"
  by (simp add: compare_def fun_eq_iff)

lemma compare_upd [simp]:
  "ev_timeout x = ev_timeout (E e) \<Longrightarrow> compare (E(e := x)) = compare E"
  by (rule compare_cong) simp

section \<open>Flags as bits\<close>

lemma EVLIST_powers:
  "EVLIST_TIMEOUT = 2 ^ 0" "EVLIST_INSERTED = 2 ^ 1" "EVLIST_SIGNAL = 2 ^ 2"
  "EVLIST_ACTIVE = 2 ^ 3" "EVLIST_INTERNAL = 2 ^ 4" "EVLIST_INIT = 2 ^ 7"
  by (simp_all add: EVLIST_TIMEOUT_def EVLIST_INSERTED_def EVLIST_SIGNAL_def EVLIST_ACTIVE_def
      EVLIST_INTERNAL_def EVLIST_INIT_def)

lemma has_EVLIST [flag_simps]:
  "has f EVLIST_TIMEOUT \<longleftrightarrow> bit f 0"
  "has f EVLIST_INSERTED \<longleftrightarrow> bit f 1"
  "has f EVLIST_SIGNAL \<longleftrightarrow> bit f 2"
  "has f EVLIST_ACTIVE \<longleftrightarrow> bit f 3"
  "has f EVLIST_INTERNAL \<longleftrightarrow> bit f 4"
  "has f EVLIST_INIT \<longleftrightarrow> bit f 7"
  by (simp_all only: EVLIST_powers has_two_power)

lemma bit_two_power_32: "k < 32 \<Longrightarrow> bit (2 ^ k :: 32 word) n \<longleftrightarrow> n = k"
  by (auto simp: bit_exp_iff)

lemma bit_EVLIST [flag_simps]:
  "bit EVLIST_TIMEOUT n \<longleftrightarrow> n = 0"
  "bit EVLIST_INSERTED n \<longleftrightarrow> n = 1"
  "bit EVLIST_SIGNAL n \<longleftrightarrow> n = 2"
  "bit EVLIST_ACTIVE n \<longleftrightarrow> n = 3"
  "bit EVLIST_INTERNAL n \<longleftrightarrow> n = 4"
  "bit EVLIST_INIT n \<longleftrightarrow> n = 7"
  unfolding EVLIST_powers by (rule bit_two_power_32; simp)+

lemma EV_powers:
  "EV_TIMEOUT = 2 ^ 0" "EV_READ = 2 ^ 1" "EV_WRITE = 2 ^ 2" "EV_SIGNAL = 2 ^ 3" "EV_PERSIST = 2 ^ 4"
  by (simp_all add: EV_TIMEOUT_def EV_READ_def EV_WRITE_def EV_SIGNAL_def EV_PERSIST_def)

lemma has_EV [flag_simps]:
  "has w EV_TIMEOUT \<longleftrightarrow> bit w 0"
  "has w EV_READ \<longleftrightarrow> bit w 1"
  "has w EV_WRITE \<longleftrightarrow> bit w 2"
  "has w EV_SIGNAL \<longleftrightarrow> bit w 3"
  "has w EV_PERSIST \<longleftrightarrow> bit w 4"
  by (simp_all only: EV_powers has_two_power)

lemma bit_flag_update [flag_simps]:
  fixes f q :: "32 word"
  shows "bit (or f q) n \<longleftrightarrow> bit f n \<or> bit q n"
    and "bit (and f (not q)) n \<longleftrightarrow> bit f n \<and> \<not> bit q n"
  by (auto simp: bit_simps dest: bit_imp_le_length)

text \<open>The flags outside \<open>EVLIST_ALL\<close>, which \<open>event_add\<close> and \<open>event_del\<close> assert to be clear.\<close>

definition flags_ok :: "32 word \<Rightarrow> bool" where
  "flags_ok f \<longleftrightarrow> and f (not EVLIST_ALL) = 0"

lemma flags_ok_or: "flags_ok f \<Longrightarrow> flags_ok q \<Longrightarrow> flags_ok (or f q)"
proof -
  have "and (or f q) (not EVLIST_ALL) = or (and f (not EVLIST_ALL)) (and q (not EVLIST_ALL))"
    by (simp add: and.commute bit.conj_disj_distrib)
  then show "flags_ok f \<Longrightarrow> flags_ok q \<Longrightarrow> flags_ok (or f q)"
    by (simp add: flags_ok_def)
qed

lemma flags_ok_clear: "flags_ok f \<Longrightarrow> flags_ok (and f (not q))"
  by (simp add: flags_ok_def) (metis and.left_commute and.assoc and.commute and_zero_eq)

lemma flags_ok_EVLIST [flag_simps]:
  "flags_ok EVLIST_TIMEOUT" "flags_ok EVLIST_INSERTED" "flags_ok EVLIST_SIGNAL"
  "flags_ok EVLIST_ACTIVE" "flags_ok EVLIST_INTERNAL" "flags_ok EVLIST_INIT" "flags_ok 0"
  by (simp_all add: flags_ok_def EVLIST_ALL_def EVLIST_TIMEOUT_def EVLIST_INSERTED_def
      EVLIST_SIGNAL_def EVLIST_ACTIVE_def EVLIST_INTERNAL_def EVLIST_INIT_def)

end
