(* ===== verification/EventCore.thy ===== *)
theory EventCore
  imports Event
begin

text \<open>
  The operations of \<open>EventServer/net/event.c\<close>, one definition per function, in the order
  the file has them grouped: queues, setting up events, adding, deleting and activating
  them, timeouts, running callbacks, the loop. A function that calls a back end takes the
  \<open>struct eventop\<close> as its first argument, as the C code reads it from
  \<open>ev->ev_base->evsel\<close>; \<open>event_add\<close> and \<open>event_del\<close>, which a back end calls in turn, take
  the one function of it they use. Functions that can end the process, fail an assertion, or touch
  invalid memory return an \<open>outcome\<close>.
\<close>

section \<open>Queues\<close>

definition event_queue_remove :: "nat \<Rightarrow> 32 word \<Rightarrow> 'a evstate_scheme \<Rightarrow> 'a evstate_scheme outcome" where
  "event_queue_remove ev queue s =
     (if \<not> has (ev_flags (evs s ev)) queue then Inl Exit_errx
      else
        let docount = \<not> has (ev_flags (evs s ev)) EVLIST_INTERNAL;
            s = (if docount then s\<lparr>event_count := event_count s - 1\<rparr> else s);
            s = upd_ev ev (\<lambda>e. e\<lparr>ev_flags := and (ev_flags e) (not queue)\<rparr>) s
        in if queue = EVLIST_ACTIVE then
             let s = (if docount then s\<lparr>event_count_active := event_count_active s - 1\<rparr> else s);
                 pri = ev_pri (evs s ev)
             in if 0 \<le> pri \<and> pri < nactivequeues s
                then Inr (s\<lparr>activequeues := (activequeues s)
                       [nat pri := remove1 ev (activequeues s ! nat pri)]\<rparr>)
                else Inl Out_of_bounds
           else if queue = EVLIST_SIGNAL then
             Inr (s\<lparr>signalqueue := remove1 ev (signalqueue s)\<rparr>)
           else if queue = EVLIST_TIMEOUT then
             bnd (rb_remove (timetree s) ev) (\<lambda>t. Inr (s\<lparr>timetree := t\<rparr>))
           else if queue = EVLIST_INSERTED then
             Inr (s\<lparr>eventqueue := remove1 ev (eventqueue s)\<rparr>)
           else Inl Exit_errx)"

definition event_queue_insert :: "nat \<Rightarrow> 32 word \<Rightarrow> 'a evstate_scheme \<Rightarrow> 'a evstate_scheme outcome" where
  "event_queue_insert ev queue s =
     (if has (ev_flags (evs s ev)) queue then
        (if has queue EVLIST_ACTIVE then Inr s else Inl Exit_errx)
      else
        let docount = \<not> has (ev_flags (evs s ev)) EVLIST_INTERNAL;
            s = (if docount then s\<lparr>event_count := event_count s + 1\<rparr> else s);
            s = upd_ev ev (\<lambda>e. e\<lparr>ev_flags := or (ev_flags e) queue\<rparr>) s
        in if queue = EVLIST_ACTIVE then
             let s = (if docount then s\<lparr>event_count_active := event_count_active s + 1\<rparr> else s);
                 pri = ev_pri (evs s ev)
             in if 0 \<le> pri \<and> pri < nactivequeues s
                then Inr (s\<lparr>activequeues := (activequeues s)
                       [nat pri := activequeues s ! nat pri @ [ev]]\<rparr>)
                else Inl Out_of_bounds
           else if queue = EVLIST_SIGNAL then
             Inr (s\<lparr>signalqueue := signalqueue s @ [ev]\<rparr>)
           else if queue = EVLIST_TIMEOUT then
             bnd (rb_insert (compare (evs s)) (timetree s) ev) (\<lambda>(tmp, t).
               if tmp = None then Inr (s\<lparr>timetree := t\<rparr>) else Inl Assert_failed)
           else if queue = EVLIST_INSERTED then
             Inr (s\<lparr>eventqueue := eventqueue s @ [ev]\<rparr>)
           else Inl Exit_errx)"

section \<open>Setting up a base and events\<close>

definition event_base_priority_init :: "int \<Rightarrow> 'a evstate_scheme \<Rightarrow> (int \<times> 'a evstate_scheme) outcome" where
  "event_base_priority_init npriorities s =
     (if event_count_active s \<noteq> 0 then Inr (- 1, s)
      else if npriorities < 0 then Inl Exit_errx
      else Inr (0, s\<lparr>activequeues := replicate (nat npriorities) []\<rparr>))"

text \<open>\<open>gettimeofday\<close> returns the next reading of the clock.\<close>

definition gettimeofday :: "'a evstate_scheme \<Rightarrow> timeval \<times> 'a evstate_scheme" where
  "gettimeofday s = (clock s (ticks s), s\<lparr>ticks := Suc (ticks s)\<rparr>)"

definition event_init :: "('a evstate_scheme) eventop \<Rightarrow> 'a evstate_scheme \<Rightarrow> 'a evstate_scheme outcome" where
  "event_init evsel s =
     (let s = s\<lparr>event_count := 0, event_count_active := 0, event_gotterm := 0,
                activequeues := []\<rparr>;
          s = s\<lparr>event_gotsig := False\<rparr>;
          (now, s) = gettimeofday s;
          s = s\<lparr>event_tv := now, timetree := Leaf, eventqueue := [], signalqueue := []\<rparr>
      in bnd (op_init evsel s) (\<lambda>(ok, s).
           if \<not> ok then Inl Exit_errx
           else bnd (event_base_priority_init 1 s) (\<lambda>(r, s). Inr s)))"

definition event_haveevents :: "'a evstate_scheme \<Rightarrow> bool" where
  "event_haveevents s \<longleftrightarrow> event_count s > 0"

definition event_set :: "nat \<Rightarrow> int \<Rightarrow> 16 word \<Rightarrow> callback \<Rightarrow> nat \<Rightarrow> 'a evstate_scheme \<Rightarrow> 'a evstate_scheme" where
  "event_set ev fd events callback arg s =
     upd_ev ev (\<lambda>e. e\<lparr>ev_base := True, ev_callback := callback, ev_arg := arg, ev_fd := fd,
       ev_events := events, ev_flags := EVLIST_INIT, ev_ncalls := 0, ev_pncalls := None,
       ev_pri := nactivequeues s div 2\<rparr>) s"

definition event_base_set :: "nat \<Rightarrow> 'a evstate_scheme \<Rightarrow> int \<times> 'a evstate_scheme" where
  "event_base_set ev s =
     (if ev_flags (evs s ev) \<noteq> EVLIST_INIT then (- 1, s)
      else (0, upd_ev ev (\<lambda>e. e\<lparr>ev_base := True, ev_pri := nactivequeues s div 2\<rparr>) s))"

definition event_priority_set :: "nat \<Rightarrow> int \<Rightarrow> 'a evstate_scheme \<Rightarrow> (int \<times> 'a evstate_scheme) outcome" where
  "event_priority_set ev pri s =
     (if has (ev_flags (evs s ev)) EVLIST_ACTIVE then Inr (- 1, s)
      else if pri < 0 then Inr (- 1, s)
      else if \<not> ev_base (evs s ev) then Inl Null_deref
      else if pri \<ge> nactivequeues s then Inr (- 1, s)
      else Inr (0, upd_ev ev (\<lambda>e. e\<lparr>ev_pri := pri\<rparr>) s))"

text \<open>\<open>event_pending\<close>: the flags and, when a timeout is reported and asked for, its time.\<close>

definition event_pending :: "nat \<Rightarrow> 16 word \<Rightarrow> 'a evstate_scheme \<Rightarrow> 32 word \<times> timeval option" where
  "event_pending ev event s =
     (let e = evs s ev;
          flags = (if has (ev_flags e) EVLIST_INSERTED
                   then ucast (and (ev_events e) (or EV_READ EV_WRITE)) else 0);
          flags = (if has (ev_flags e) EVLIST_ACTIVE then or flags (ev_res e) else flags);
          flags = (if has (ev_flags e) EVLIST_TIMEOUT then or flags EV_TIMEOUT else flags);
          flags = (if has (ev_flags e) EVLIST_SIGNAL then or flags EV_SIGNAL else flags);
          event = and event (or EV_TIMEOUT (or EV_READ (or EV_WRITE EV_SIGNAL)));
          res = and flags (ucast event)
      in (res, if has res EV_TIMEOUT then Some (ev_timeout e) else None))"

section \<open>Adding, deleting, activating\<close>

text \<open>A store through \<open>ev_pncalls\<close>.\<close>

definition store_ncalls :: "nat option \<Rightarrow> 16 word \<Rightarrow> 'a evstate_scheme \<Rightarrow> 'a evstate_scheme outcome" where
  "store_ncalls p v s =
     (case p of
        None \<Rightarrow> Inl Null_deref
      | Some a \<Rightarrow>
          if ncalls_vars s a = None then Inl Dangling_write
          else Inr (s\<lparr>ncalls_vars := (ncalls_vars s)(a \<mapsto> v)\<rparr>))"

text \<open>The test \<open>ev->ev_ncalls && ev->ev_pncalls\<close> and the abort of the callback loop.\<close>

definition abort_loop :: "nat \<Rightarrow> 'a evstate_scheme \<Rightarrow> 'a evstate_scheme outcome" where
  "abort_loop ev s =
     (if ev_ncalls (evs s ev) \<noteq> 0 \<and> ev_pncalls (evs s ev) \<noteq> None
      then store_ncalls (ev_pncalls (evs s ev)) 0 s
      else Inr s)"

text \<open>The part of \<open>event_add\<close> under \<open>tv != NULL\<close>.\<close>

definition event_add_timeout :: "nat \<Rightarrow> timeval \<Rightarrow> 'a evstate_scheme \<Rightarrow> 'a evstate_scheme outcome" where
  "event_add_timeout ev tv s =
     bnd (if has (ev_flags (evs s ev)) EVLIST_TIMEOUT
          then event_queue_remove ev EVLIST_TIMEOUT s else Inr s) (\<lambda>s.
     bnd (if has (ev_flags (evs s ev)) EVLIST_ACTIVE \<and> has (ev_res (evs s ev)) EV_TIMEOUT
          then bnd (abort_loop ev s) (event_queue_remove ev EVLIST_ACTIVE)
          else Inr s) (\<lambda>s.
     let (now, s) = gettimeofday s;
         s = upd_ev ev (\<lambda>e. e\<lparr>ev_timeout := timeradd now tv\<rparr>) s
     in event_queue_insert ev EVLIST_TIMEOUT s))"

text \<open>The part of \<open>event_add\<close> that registers with the back end.\<close>

definition event_add_io :: "(nat \<Rightarrow> 'a evstate_scheme \<Rightarrow> (int \<times> 'a evstate_scheme) outcome) \<Rightarrow> nat \<Rightarrow> 'a evstate_scheme \<Rightarrow> (int \<times> 'a evstate_scheme) outcome" where
  "event_add_io add ev s =
     (if has (ev_events (evs s ev)) (or EV_READ EV_WRITE) \<and>
         \<not> has (ev_flags (evs s ev)) (or EVLIST_INSERTED EVLIST_ACTIVE)
      then bnd (event_queue_insert ev EVLIST_INSERTED s) (add ev)
      else if has (ev_events (evs s ev)) EV_SIGNAL \<and> \<not> has (ev_flags (evs s ev)) EVLIST_SIGNAL
      then bnd (event_queue_insert ev EVLIST_SIGNAL s) (add ev)
      else Inr (0, s))"

definition event_add :: "(nat \<Rightarrow> 'a evstate_scheme \<Rightarrow> (int \<times> 'a evstate_scheme) outcome) \<Rightarrow> nat \<Rightarrow> timeval option \<Rightarrow> 'a evstate_scheme \<Rightarrow> (int \<times> 'a evstate_scheme) outcome" where
  "event_add add ev tv s =
     (if \<not> ev_base (evs s ev) then Inl Null_deref
      else if \<not> flags_ok (ev_flags (evs s ev)) then Inl Assert_failed
      else bnd (case tv of None \<Rightarrow> Inr s | Some tv \<Rightarrow> event_add_timeout ev tv s)
             (event_add_io add ev))"

definition event_del :: "(nat \<Rightarrow> 'a evstate_scheme \<Rightarrow> (int \<times> 'a evstate_scheme) outcome) \<Rightarrow> nat \<Rightarrow> 'a evstate_scheme \<Rightarrow> (int \<times> 'a evstate_scheme) outcome" where
  "event_del del ev s =
     (if \<not> ev_base (evs s ev) then Inr (- 1, s)
      else if \<not> flags_ok (ev_flags (evs s ev)) then Inl Assert_failed
      else
        bnd (abort_loop ev s) (\<lambda>s.
        bnd (if has (ev_flags (evs s ev)) EVLIST_TIMEOUT
             then event_queue_remove ev EVLIST_TIMEOUT s else Inr s) (\<lambda>s.
        bnd (if has (ev_flags (evs s ev)) EVLIST_ACTIVE
             then event_queue_remove ev EVLIST_ACTIVE s else Inr s) (\<lambda>s.
        if has (ev_flags (evs s ev)) EVLIST_INSERTED
        then bnd (event_queue_remove ev EVLIST_INSERTED s) (del ev)
        else if has (ev_flags (evs s ev)) EVLIST_SIGNAL
        then bnd (event_queue_remove ev EVLIST_SIGNAL s) (del ev)
        else Inr (0, s)))))"

definition event_active :: "nat \<Rightarrow> 32 word \<Rightarrow> 16 word \<Rightarrow> 'a evstate_scheme \<Rightarrow> 'a evstate_scheme outcome" where
  "event_active ev res ncalls s =
     (if has (ev_flags (evs s ev)) EVLIST_ACTIVE
      then Inr (upd_ev ev (\<lambda>e. e\<lparr>ev_res := or (ev_res e) res\<rparr>) s)
      else
        let s = upd_ev ev (\<lambda>e. e\<lparr>ev_res := res, ev_ncalls := ncalls, ev_pncalls := None\<rparr>) s
        in if \<not> ev_base (evs s ev) then Inl Null_deref
           else event_queue_insert ev EVLIST_ACTIVE s)"

text \<open>
  \<open>event_once\<close>: \<open>eonce\<close> is the address \<open>calloc\<close> returned, \<open>None\<close> when it returned NULL;
  its embedded event is the event at that address.
\<close>

definition event_once :: "('a evstate_scheme) eventop \<Rightarrow> nat option \<Rightarrow> int \<Rightarrow> 16 word \<Rightarrow> callback \<Rightarrow> nat \<Rightarrow> timeval option \<Rightarrow> 'a evstate_scheme \<Rightarrow> (int \<times> 'a evstate_scheme) outcome" where
  "event_once evsel eonce fd events callback arg tv s =
     (if has events EV_SIGNAL then Inr (- 1, s)
      else case eonce of
        None \<Rightarrow> Inr (- 1, s)
      | Some p \<Rightarrow>
          let s = s\<lparr>evs := (evs s)(p := event_zero),
                    onces := (onces s)(p \<mapsto> \<lparr>once_cb = callback, once_arg = arg\<rparr>)\<rparr>
          in if events = EV_TIMEOUT then
               let tv = (case tv of None \<Rightarrow> timerclear | Some t \<Rightarrow> t);
                   s = event_set p (- 1) 0 CB_once p s
               in bnd (event_add (op_add evsel) p (Some tv) s) (\<lambda>(r, s). Inr (0, s))
             else if has events (or EV_READ EV_WRITE) then
               let s = event_set p fd (and events (or EV_READ EV_WRITE)) CB_once p s
               in bnd (event_add (op_add evsel) p tv s) (\<lambda>(r, s). Inr (0, s))
             else Inr (- 1, s\<lparr>onces := (onces s)(p := None)\<rparr>))"

definition event_loopexit :: "('a evstate_scheme) eventop \<Rightarrow> nat option \<Rightarrow> timeval option \<Rightarrow> 'a evstate_scheme \<Rightarrow> (int \<times> 'a evstate_scheme) outcome" where
  "event_loopexit evsel eonce tv s = event_once evsel eonce (- 1) EV_TIMEOUT CB_loopexit 0 tv s"

section \<open>Timeouts\<close>

definition timeout_next :: "'a evstate_scheme \<Rightarrow> (timeval \<times> 'a evstate_scheme) outcome" where
  "timeout_next s =
     (case rb_min (timetree s) of
        None \<Rightarrow> Inr (TIMEOUT_DEFAULT, s)
      | Some ev \<Rightarrow>
          let (now, s) = gettimeofday s in
          if timercmp_le (ev_timeout (evs s ev)) now then Inr (timerclear, s)
          else
            let tv = timersub (ev_timeout (evs s ev)) now in
            if \<not> tv_sec tv \<ge> 0 then Inl Assert_failed
            else if \<not> tv_usec tv \<ge> 0 then Inl Assert_failed
            else Inr (tv, s))"

definition timeout_correct :: "timeval \<Rightarrow> 'a evstate_scheme \<Rightarrow> 'a evstate_scheme outcome" where
  "timeout_correct off s =
     bnd (rb_foreach (timetree s)) (\<lambda>visited.
       Inr (fold (\<lambda>ev. upd_ev ev (\<lambda>e. e\<lparr>ev_timeout := timersub (ev_timeout e) off\<rparr>)) visited s))"

text \<open>The loop of \<open>timeout_process\<close>; one unit of the bound per event.\<close>

fun timeout_loop :: "('a evstate_scheme) eventop \<Rightarrow> nat \<Rightarrow> timeval \<Rightarrow> nat option \<Rightarrow> 'a evstate_scheme \<Rightarrow> 'a evstate_scheme outcome" where
  "timeout_loop evsel n now None s = Inr s"
| "timeout_loop evsel 0 now (Some ev) s = Inl Out_of_fuel"
| "timeout_loop evsel (Suc n) now (Some ev) s =
     (if timercmp_greater (ev_timeout (evs s ev)) now then Inr s
      else
        let nxt = rb_next (timetree s) ev in
        bnd (event_queue_remove ev EVLIST_TIMEOUT s) (\<lambda>s.
        bnd (event_del (op_del evsel) ev s) (\<lambda>(r, s).
        bnd (event_active ev EV_TIMEOUT 1 s) (timeout_loop evsel n now nxt))))"

definition timeout_process :: "('a evstate_scheme) eventop \<Rightarrow> 'a evstate_scheme \<Rightarrow> 'a evstate_scheme outcome" where
  "timeout_process evsel s =
     (let (now, s) = gettimeofday s
      in timeout_loop evsel (length (rb_inorder (timetree s))) now (rb_min (timetree s)) s)"

section \<open>Callbacks\<close>

type_synonym 's callbacks = "callback \<Rightarrow> int \<Rightarrow> 16 word \<Rightarrow> nat \<Rightarrow> 's \<Rightarrow> 's outcome"

definition event_loopexit_cb :: "'a evstate_scheme \<Rightarrow> 'a evstate_scheme" where
  "event_loopexit_cb s = s\<lparr>event_gotterm := 1\<rparr>"

text \<open>
  \<open>event_once_cb\<close> calls the stored function and frees the block. \<open>run_callback\<close> is the
  call \<open>(*ev->ev_callback)(fd, res, arg)\<close>: the functions of \<open>event.c\<close> itself are known,
  the others are \<open>cbs\<close>.
\<close>

definition event_once_cb :: "('a evstate_scheme) callbacks \<Rightarrow> int \<Rightarrow> 16 word \<Rightarrow> nat \<Rightarrow> 'a evstate_scheme \<Rightarrow> 'a evstate_scheme outcome" where
  "event_once_cb cbs fd events eonce s =
     (case onces s eonce of
        None \<Rightarrow> Inl Null_deref
      | Some rec \<Rightarrow>
          bnd (if once_cb rec = CB_loopexit then Inr (event_loopexit_cb s)
               else cbs (once_cb rec) fd events (once_arg rec) s) (\<lambda>s.
          Inr (s\<lparr>onces := (onces s)(eonce := None)\<rparr>)))"

definition run_callback :: "('a evstate_scheme) callbacks \<Rightarrow> ('a evstate_scheme) callbacks" where
  "run_callback cbs cb fd events arg s =
     (if cb = CB_once then event_once_cb cbs fd events arg s
      else if cb = CB_loopexit then Inr (event_loopexit_cb s)
      else cbs cb fd events arg s)"

text \<open>The \<open>while (ncalls)\<close> loop of \<open>event_process_active\<close>; \<open>v\<close> is the address of the local
  variable \<open>ncalls\<close>.\<close>

fun call_loop :: "('a evstate_scheme) callbacks \<Rightarrow> nat \<Rightarrow> nat \<Rightarrow> nat \<Rightarrow> 'a evstate_scheme \<Rightarrow> 'a evstate_scheme outcome" where
  "call_loop cbs 0 ev v s = Inl Out_of_fuel"
| "call_loop cbs (Suc n) ev v s =
     (case ncalls_vars s v of
        None \<Rightarrow> Inl Dangling_write
      | Some ncalls \<Rightarrow>
          if ncalls = 0 then Inr s
          else
            let s = s\<lparr>ncalls_vars := (ncalls_vars s)(v \<mapsto> ncalls - 1)\<rparr>;
                s = upd_ev ev (\<lambda>e. e\<lparr>ev_ncalls := ncalls - 1\<rparr>) s;
                e = evs s ev
            in bnd (run_callback cbs (ev_callback e) (ev_fd e) (ucast (ev_res e)) (ev_arg e) s)
                 (call_loop cbs n ev v))"

text \<open>The \<open>for\<close> loop over the chosen queue \<open>i\<close>.\<close>

fun active_loop :: "('a evstate_scheme) callbacks \<Rightarrow> nat \<Rightarrow> nat \<Rightarrow> nat \<Rightarrow> 'a evstate_scheme \<Rightarrow> 'a evstate_scheme outcome" where
  "active_loop cbs 0 i v s = Inl Out_of_fuel"
| "active_loop cbs (Suc n) i v s =
     (if i \<ge> length (activequeues s) then Inl Null_deref
      else case activequeues s ! i of
        [] \<Rightarrow> Inr s
      | ev # _ \<Rightarrow>
          bnd (event_queue_remove ev EVLIST_ACTIVE s) (\<lambda>s.
          let ncalls = ev_ncalls (evs s ev);
              s = s\<lparr>ncalls_vars := (ncalls_vars s)(v \<mapsto> ncalls)\<rparr>;
              s = upd_ev ev (\<lambda>e. e\<lparr>ev_pncalls := Some v\<rparr>) s
          in bnd (call_loop cbs n ev v s) (active_loop cbs n i v)))"

text \<open>The first queue that is not empty.\<close>

fun first_active :: "nat \<Rightarrow> nat list list \<Rightarrow> nat option" where
  "first_active i [] = None"
| "first_active i (q # qs) = (if q \<noteq> [] then Some i else first_active (Suc i) qs)"

definition event_process_active :: "('a evstate_scheme) callbacks \<Rightarrow> nat \<Rightarrow> 'a evstate_scheme \<Rightarrow> 'a evstate_scheme outcome" where
  "event_process_active cbs n s =
     (if event_count_active s = 0 then Inr s
      else case first_active 0 (activequeues s) of
        None \<Rightarrow> Inl Null_deref
      | Some i \<Rightarrow>
          let v = next_var s;
              s = s\<lparr>next_var := Suc v, ncalls_vars := (ncalls_vars s)(v \<mapsto> 0)\<rparr>
          in bnd (active_loop cbs n i v s) (\<lambda>s.
               Inr (s\<lparr>ncalls_vars := (ncalls_vars s)(v := None)\<rparr>)))"

section \<open>The loop\<close>

text \<open>\<open>sigcb\<close> is \<open>event_sigcb\<close>, \<open>None\<close> for NULL. The result is whether the loop returns -1.\<close>

fun sig_loop :: "('a evstate_scheme \<Rightarrow> (int \<times> 'a evstate_scheme) outcome) option \<Rightarrow> nat \<Rightarrow> 'a evstate_scheme \<Rightarrow> (bool \<times> 'a evstate_scheme) outcome" where
  "sig_loop sigcb 0 s = Inl Out_of_fuel"
| "sig_loop sigcb (Suc n) s =
     (if \<not> event_gotsig s then Inr (False, s)
      else
        let s = s\<lparr>event_gotsig := False\<rparr> in
        case sigcb of
          None \<Rightarrow> sig_loop sigcb n s
        | Some f \<Rightarrow>
            bnd (f s) (\<lambda>(res, s). if res = - 1 then Inr (True, s) else sig_loop sigcb n s))"

text \<open>
  \<open>event_base_loop\<close>: one unit of the bound per iteration, which is also the bound of the
  callback loops the iteration runs. A loop that is never asked to stop runs for ever, so
  for such a program every bound is too small.
\<close>

fun event_base_loop :: "('a evstate_scheme) eventop \<Rightarrow> ('a evstate_scheme) callbacks \<Rightarrow> ('a evstate_scheme \<Rightarrow> (int \<times> 'a evstate_scheme) outcome) option \<Rightarrow> nat \<Rightarrow> 32 word \<Rightarrow> 'a evstate_scheme \<Rightarrow> (int \<times> 'a evstate_scheme) outcome" where
  "event_base_loop evsel cbs sigcb 0 flags s = Inl Out_of_fuel"
| "event_base_loop evsel cbs sigcb (Suc n) flags s =
     bnd (op_recalc evsel 0 s) (\<lambda>(res, s).
     if res = - 1 then Inr (- 1, s)
     else if event_gotterm s \<noteq> 0 then Inr (0, s\<lparr>event_gotterm := 0\<rparr>)
     else bnd (sig_loop sigcb n s) (\<lambda>(fail, s).
     if fail then Inr (- 1, s)
     else
       let (tv, s) = gettimeofday s in
       bnd (if timercmp_less tv (event_tv s) then timeout_correct (timersub (event_tv s) tv) s
            else Inr s) (\<lambda>s.
       let s = s\<lparr>event_tv := tv\<rparr> in
       bnd (if event_count_active s = 0 \<and> \<not> has flags EVLOOP_NONBLOCK then timeout_next s
            else Inr (timerclear, s)) (\<lambda>(tv, s).
       if \<not> event_haveevents s then Inr (1, s)
       else bnd (op_dispatch evsel tv s) (\<lambda>(res, s).
       if res = - 1 then Inr (- 1, s)
       else bnd (timeout_process evsel s) (\<lambda>s.
       if event_count_active s \<noteq> 0 then
         bnd (event_process_active cbs n s) (\<lambda>s.
           if event_count_active s = 0 \<and> has flags EVLOOP_ONCE then Inr (0, s)
           else event_base_loop evsel cbs sigcb n flags s)
       else if has flags EVLOOP_NONBLOCK then Inr (0, s)
       else event_base_loop evsel cbs sigcb n flags s))))))"

end
