(* ===== verification/EventInv.thy ===== *)
theory EventInv
  imports EventCore
begin

text \<open>
  The invariant of the event core: flags and queues agree, the timeout tree is an ordered
  red-black tree, the two counters count the queued events that are not internal. Every
  operation of \<open>EventCore\<close> keeps it; what an operation does through a back end is covered
  by the contract \<open>event_backend\<close>.
\<close>

section \<open>The invariant\<close>

text \<open>The elements of each queue.\<close>

abbreviation timeq :: "'a evstate_scheme \<Rightarrow> nat list" where
  "timeq s \<equiv> rb_inorder (timetree s)"

abbreviation activeq :: "'a evstate_scheme \<Rightarrow> nat list" where
  "activeq s \<equiv> concat (activequeues s)"

definition tree_inv :: "'a evstate_scheme \<Rightarrow> bool" where
  "tree_inv s \<longleftrightarrow> rb_tree (timetree s) \<and> ascending (compare (evs s)) (timeq s) \<and>
     (\<forall>e. bit (ev_flags (evs s e)) 0 \<longleftrightarrow> e \<in> set (timeq s))"

definition io_inv :: "'a evstate_scheme \<Rightarrow> bool" where
  "io_inv s \<longleftrightarrow> distinct (eventqueue s) \<and>
     (\<forall>e. bit (ev_flags (evs s e)) 1 \<longleftrightarrow> e \<in> set (eventqueue s))"

definition sig_inv :: "'a evstate_scheme \<Rightarrow> bool" where
  "sig_inv s \<longleftrightarrow> distinct (signalqueue s) \<and>
     (\<forall>e. bit (ev_flags (evs s e)) 2 \<longleftrightarrow> e \<in> set (signalqueue s))"

text \<open>\<open>in_active s e i\<close>: event \<open>e\<close> is on the active queue of priority \<open>i\<close>.\<close>

definition in_active :: "'a evstate_scheme \<Rightarrow> nat \<Rightarrow> nat \<Rightarrow> bool" where
  "in_active s e i \<longleftrightarrow> i < length (activequeues s) \<and> e \<in> set (activequeues s ! i)"

definition active_inv :: "'a evstate_scheme \<Rightarrow> bool" where
  "active_inv s \<longleftrightarrow> (\<forall>q \<in> set (activequeues s). distinct q) \<and>
     (\<forall>e i. in_active s e i \<longleftrightarrow>
        bit (ev_flags (evs s e)) 3 \<and> ev_pri (evs s e) = int i)"

text \<open>Every event has a priority for which there is a queue; every event on a queue has a base.\<close>

definition pri_inv :: "'a evstate_scheme \<Rightarrow> bool" where
  "pri_inv s \<longleftrightarrow> (\<forall>e. 0 \<le> ev_pri (evs s e) \<and> ev_pri (evs s e) < nactivequeues s)"

definition flag_inv :: "'a evstate_scheme \<Rightarrow> bool" where
  "flag_inv s \<longleftrightarrow> (\<forall>e. flags_ok (ev_flags (evs s e)))"

definition counted :: "'a evstate_scheme \<Rightarrow> nat \<Rightarrow> bool" where
  "counted s e \<longleftrightarrow> \<not> bit (ev_flags (evs s e)) 4"

definition ncounted :: "'a evstate_scheme \<Rightarrow> nat list \<Rightarrow> int" where
  "ncounted s xs = int (length (filter (counted s) xs))"

definition count_inv :: "'a evstate_scheme \<Rightarrow> bool" where
  "count_inv s \<longleftrightarrow>
     event_count_active s = ncounted s (activeq s) \<and>
     event_count s = ncounted s (timeq s) + ncounted s (eventqueue s) +
       ncounted s (signalqueue s) + ncounted s (activeq s)"

definition event_inv :: "'a evstate_scheme \<Rightarrow> bool" where
  "event_inv s \<longleftrightarrow> tree_inv s \<and> io_inv s \<and> sig_inv s \<and> active_inv s \<and> pri_inv s \<and> flag_inv s \<and> count_inv s"

lemmas inv_defs = tree_inv_def io_inv_def sig_inv_def active_inv_def pri_inv_def flag_inv_def count_inv_def
  event_inv_def

lemma upd_ev_simps [simp]:
  "evs (upd_ev e f s) = (evs s)(e := f (evs s e))"
  "event_count (upd_ev e f s) = event_count s"
  "event_count_active (upd_ev e f s) = event_count_active s"
  "event_gotterm (upd_ev e f s) = event_gotterm s"
  "activequeues (upd_ev e f s) = activequeues s"
  "eventqueue (upd_ev e f s) = eventqueue s"
  "event_tv (upd_ev e f s) = event_tv s"
  "timetree (upd_ev e f s) = timetree s"
  "signalqueue (upd_ev e f s) = signalqueue s"
  "event_gotsig (upd_ev e f s) = event_gotsig s"
  "clock (upd_ev e f s) = clock s"
  "ticks (upd_ev e f s) = ticks s"
  "ncalls_vars (upd_ev e f s) = ncalls_vars s"
  "next_var (upd_ev e f s) = next_var s"
  "onces (upd_ev e f s) = onces s"
  "evstate.more (upd_ev e f s) = evstate.more s"
  "nactivequeues (upd_ev e f s) = nactivequeues s"
  by (simp_all add: upd_ev_def nactivequeues_def)

text \<open>
  The invariant reads an event's flags, time and priority only, and of the state the
  queues, the tree and the counters.
\<close>

definition same_core :: "'a evstate_scheme \<Rightarrow> 'a evstate_scheme \<Rightarrow> bool" where
  "same_core s s' \<longleftrightarrow>
     (\<forall>e. ev_flags (evs s' e) = ev_flags (evs s e) \<and> ev_pri (evs s' e) = ev_pri (evs s e) \<and>
        ev_timeout (evs s' e) = ev_timeout (evs s e)) \<and>
     timetree s' = timetree s \<and> eventqueue s' = eventqueue s \<and> signalqueue s' = signalqueue s \<and>
     activequeues s' = activequeues s \<and> event_count s' = event_count s \<and>
     event_count_active s' = event_count_active s"

lemma same_core_inv:
  assumes "same_core s s'"
  shows "event_inv s' = event_inv s"
proof -
  have "compare (evs s') = compare (evs s)"
    using assms by (intro compare_cong) (simp add: same_core_def)
  moreover have "counted s' = counted s"
    using assms by (simp add: same_core_def counted_def fun_eq_iff)
  ultimately show ?thesis
    using assms
    by (simp add: same_core_def inv_defs in_active_def nactivequeues_def ncounted_def)
qed

lemma in_active_iff: "(\<exists>i. in_active s e i) \<longleftrightarrow> e \<in> set (activeq s)"
  unfolding in_active_def set_concat by (metis UN_iff in_set_conv_nth)

lemma active_inv_iff:
  "active_inv s \<Longrightarrow> pri_inv s \<Longrightarrow> bit (ev_flags (evs s e)) 3 \<longleftrightarrow> e \<in> set (activeq s)"
  unfolding in_active_iff [symmetric] active_inv_def pri_inv_def
  by (metis int_nat_eq)

section \<open>Counting\<close>

lemma ncounted_simps [simp]:
  "ncounted s [] = 0"
  "ncounted s (x # xs) = ncounted s xs + (if counted s x then 1 else 0)"
  "ncounted s (xs @ ys) = ncounted s xs + ncounted s ys"
  by (simp_all add: ncounted_def)

lemma ncounted_cong:
  "(\<And>x. x \<in> set xs \<Longrightarrow> counted s' x = counted s x) \<Longrightarrow> ncounted s' xs = ncounted s xs"
  unfolding ncounted_def by (metis filter_cong_set)

lemma ncounted_remove1:
  "distinct xs \<Longrightarrow> x \<in> set xs \<Longrightarrow>
    ncounted s (remove1 x xs) = ncounted s xs - (if counted s x then 1 else 0)"
  using length_filter_remove1 [of xs x "counted s"] by (simp add: ncounted_def)

lemma ncounted_mset: "mset xs = mset ys \<Longrightarrow> ncounted s xs = ncounted s ys"
  unfolding ncounted_def by (metis mset_filter size_mset)

lemma ncounted_concat_update:
  assumes "i < length qs"
  shows "ncounted s (concat (qs[i := q])) = ncounted s (concat qs) - ncounted s (qs ! i) + ncounted s q"
  using assms
proof (induction qs arbitrary: i)
  case Nil
  then show ?case by simp
next
  case (Cons p qs)
  then show ?case by (cases i) auto
qed

lemma ncounted_nonneg [simp]: "0 \<le> ncounted s xs"
  by (simp add: ncounted_def)

section \<open>Queue insertion\<close>

definition count1 :: "'a evstate_scheme \<Rightarrow> nat \<Rightarrow> int" where
  "count1 s ev = (if counted s ev then 1 else 0)"

definition set_flag :: "nat \<Rightarrow> 32 word \<Rightarrow> 'a evstate_scheme \<Rightarrow> 'a evstate_scheme" where
  "set_flag ev q s = (upd_ev ev (\<lambda>e. e\<lparr>ev_flags := or (ev_flags e) q\<rparr>) s)
     \<lparr>event_count := event_count s + count1 s ev\<rparr>"

definition clear_flag :: "nat \<Rightarrow> 32 word \<Rightarrow> 'a evstate_scheme \<Rightarrow> 'a evstate_scheme" where
  "clear_flag ev q s = (upd_ev ev (\<lambda>e. e\<lparr>ev_flags := and (ev_flags e) (not q)\<rparr>) s)
     \<lparr>event_count := event_count s - count1 s ev\<rparr>"

lemma flag_step_simps [simp]:
  "timetree (set_flag ev q s) = timetree s" "timetree (clear_flag ev q s) = timetree s"
  "eventqueue (set_flag ev q s) = eventqueue s" "eventqueue (clear_flag ev q s) = eventqueue s"
  "signalqueue (set_flag ev q s) = signalqueue s" "signalqueue (clear_flag ev q s) = signalqueue s"
  "activequeues (set_flag ev q s) = activequeues s"
  "activequeues (clear_flag ev q s) = activequeues s"
  "nactivequeues (set_flag ev q s) = nactivequeues s"
  "nactivequeues (clear_flag ev q s) = nactivequeues s"
  "event_count_active (set_flag ev q s) = event_count_active s"
  "event_count_active (clear_flag ev q s) = event_count_active s"
  "event_count (set_flag ev q s) = event_count s + count1 s ev"
  "event_count (clear_flag ev q s) = event_count s - count1 s ev"
  "evs (set_flag ev q s) = (evs s)(ev := (evs s ev)\<lparr>ev_flags := or (ev_flags (evs s ev)) q\<rparr>)"
  "evs (clear_flag ev q s) = (evs s)(ev := (evs s ev)\<lparr>ev_flags := and (ev_flags (evs s ev)) (not q)\<rparr>)"
  by (simp_all add: set_flag_def clear_flag_def nactivequeues_def)

text \<open>A step that only sets or clears one of the four queue flags of one event.\<close>

definition queue_flag :: "32 word \<Rightarrow> bool" where
  "queue_flag q \<longleftrightarrow> q = EVLIST_TIMEOUT \<or> q = EVLIST_INSERTED \<or> q = EVLIST_SIGNAL \<or> q = EVLIST_ACTIVE"

lemma queue_flag_intros [simp]:
  "queue_flag EVLIST_TIMEOUT" "queue_flag EVLIST_INSERTED" "queue_flag EVLIST_SIGNAL"
  "queue_flag EVLIST_ACTIVE"
  by (simp_all add: queue_flag_def)

lemma queue_flag_facts:
  assumes "queue_flag q"
  shows "flags_ok q" "\<not> bit q 4"
  using assms by (auto simp: queue_flag_def flag_simps)

lemma counted_flag_step [simp]:
  assumes "queue_flag q"
  shows "counted (set_flag ev q s) = counted s" "counted (clear_flag ev q s) = counted s"
  using queue_flag_facts [OF assms] by (auto simp: counted_def fun_eq_iff flag_simps)

text \<open>Which parts of the invariant a change of one flag or of one field leaves alone.\<close>

lemma flag_frame:
  assumes "queue_flag q"
  shows "flag_inv s \<Longrightarrow> flag_inv (set_flag ev q s)" "flag_inv s \<Longrightarrow> flag_inv (clear_flag ev q s)"
    "pri_inv s \<Longrightarrow> pri_inv (set_flag ev q s)" "pri_inv s \<Longrightarrow> pri_inv (clear_flag ev q s)"
    "\<not> bit q 0 \<Longrightarrow> tree_inv s \<Longrightarrow> tree_inv (set_flag ev q s)"
    "\<not> bit q 0 \<Longrightarrow> tree_inv s \<Longrightarrow> tree_inv (clear_flag ev q s)"
    "\<not> bit q 1 \<Longrightarrow> io_inv s \<Longrightarrow> io_inv (set_flag ev q s)"
    "\<not> bit q 1 \<Longrightarrow> io_inv s \<Longrightarrow> io_inv (clear_flag ev q s)"
    "\<not> bit q 2 \<Longrightarrow> sig_inv s \<Longrightarrow> sig_inv (set_flag ev q s)"
    "\<not> bit q 2 \<Longrightarrow> sig_inv s \<Longrightarrow> sig_inv (clear_flag ev q s)"
    "\<not> bit q 3 \<Longrightarrow> active_inv s \<Longrightarrow> active_inv (set_flag ev q s)"
    "\<not> bit q 3 \<Longrightarrow> active_inv s \<Longrightarrow> active_inv (clear_flag ev q s)"
  using queue_flag_facts [OF assms]
  by (simp_all add: flag_inv_def flags_ok_or flags_ok_clear pri_inv_def tree_inv_def io_inv_def
      sig_inv_def active_inv_def in_active_def bit_flag_update)

lemma field_frame [simp]:
  "tree_inv (s\<lparr>eventqueue := x\<rparr>) = tree_inv s" "tree_inv (s\<lparr>signalqueue := x\<rparr>) = tree_inv s"
  "tree_inv (s\<lparr>activequeues := qs\<rparr>) = tree_inv s" "tree_inv (s\<lparr>event_count_active := k\<rparr>) = tree_inv s"
  "io_inv (s\<lparr>timetree := t\<rparr>) = io_inv s" "io_inv (s\<lparr>signalqueue := x\<rparr>) = io_inv s"
  "io_inv (s\<lparr>activequeues := qs\<rparr>) = io_inv s" "io_inv (s\<lparr>event_count_active := k\<rparr>) = io_inv s"
  "sig_inv (s\<lparr>timetree := t\<rparr>) = sig_inv s" "sig_inv (s\<lparr>eventqueue := x\<rparr>) = sig_inv s"
  "sig_inv (s\<lparr>activequeues := qs\<rparr>) = sig_inv s" "sig_inv (s\<lparr>event_count_active := k\<rparr>) = sig_inv s"
  "active_inv (s\<lparr>timetree := t\<rparr>) = active_inv s" "active_inv (s\<lparr>eventqueue := x\<rparr>) = active_inv s"
  "active_inv (s\<lparr>signalqueue := x\<rparr>) = active_inv s" "active_inv (s\<lparr>event_count_active := k\<rparr>) = active_inv s"
  "pri_inv (s\<lparr>timetree := t\<rparr>) = pri_inv s" "pri_inv (s\<lparr>eventqueue := x\<rparr>) = pri_inv s"
  "pri_inv (s\<lparr>signalqueue := x\<rparr>) = pri_inv s" "pri_inv (s\<lparr>event_count_active := k\<rparr>) = pri_inv s"
  "pri_inv (s\<lparr>activequeues := (activequeues s)[i := q]\<rparr>) = pri_inv s"
  "flag_inv (s\<lparr>timetree := t\<rparr>) = flag_inv s" "flag_inv (s\<lparr>eventqueue := x\<rparr>) = flag_inv s"
  "flag_inv (s\<lparr>signalqueue := x\<rparr>) = flag_inv s" "flag_inv (s\<lparr>event_count_active := k\<rparr>) = flag_inv s"
  "flag_inv (s\<lparr>activequeues := qs\<rparr>) = flag_inv s"
  "counted (s\<lparr>timetree := t\<rparr>) = counted s" "counted (s\<lparr>eventqueue := x\<rparr>) = counted s"
  "counted (s\<lparr>signalqueue := x\<rparr>) = counted s" "counted (s\<lparr>event_count_active := k\<rparr>) = counted s"
  "counted (s\<lparr>activequeues := qs\<rparr>) = counted s"
  by (simp_all add: tree_inv_def io_inv_def sig_inv_def active_inv_def pri_inv_def flag_inv_def
      in_active_def nactivequeues_def counted_def fun_eq_iff)

text \<open>The four insertions, as the queue changes around \<open>set_flag\<close>.\<close>

lemma insert_other:
  assumes "queue_flag q" "\<not> has (ev_flags (evs s ev)) q" "q \<noteq> EVLIST_ACTIVE" "q \<noteq> EVLIST_TIMEOUT"
  shows "event_queue_insert ev q s = Inr (if q = EVLIST_SIGNAL
      then (set_flag ev q s)\<lparr>signalqueue := signalqueue s @ [ev]\<rparr>
      else (set_flag ev q s)\<lparr>eventqueue := eventqueue s @ [ev]\<rparr>)"
  using assms
  by (auto simp: event_queue_insert_def set_flag_def upd_ev_def Let_def count1_def counted_def
      queue_flag_def flag_simps)

lemma insert_active:
  assumes "\<not> has (ev_flags (evs s ev)) EVLIST_ACTIVE" "pri_inv s"
  shows "event_queue_insert ev EVLIST_ACTIVE s = Inr ((set_flag ev EVLIST_ACTIVE s)
      \<lparr>event_count_active := event_count_active s + count1 s ev,
       activequeues := (activequeues s)[nat (ev_pri (evs s ev)) :=
         activequeues s ! nat (ev_pri (evs s ev)) @ [ev]]\<rparr>)"
  using assms
  by (auto simp: event_queue_insert_def set_flag_def upd_ev_def Let_def count1_def counted_def
      nactivequeues_def pri_inv_def flag_simps)

lemma insert_timeout:
  assumes "\<not> has (ev_flags (evs s ev)) EVLIST_TIMEOUT" "tree_inv s"
  shows "\<exists>t. event_queue_insert ev EVLIST_TIMEOUT s =
      Inr ((set_flag ev EVLIST_TIMEOUT s)\<lparr>timetree := t\<rparr>) \<and> rb_tree t \<and>
    rb_inorder t = ins_ascending (compare (evs s)) ev (timeq s)"
proof -
  have "ev \<notin> set (timeq s)"
    using assms by (simp add: tree_inv_def flag_simps)
  then obtain t where t: "rb_insert (compare (evs s)) (timetree s) ev = Inr (None, t)"
    "rb_tree t" "rb_inorder t = ins_ascending (compare (evs s)) ev (timeq s)"
    using etree.insert_new assms(2) unfolding tree_inv_def by blast
  then have "event_queue_insert ev EVLIST_TIMEOUT s =
      Inr ((set_flag ev EVLIST_TIMEOUT s)\<lparr>timetree := t\<rparr>)"
    using assms(1)
    by (auto simp: event_queue_insert_def set_flag_def upd_ev_def Let_def count1_def counted_def
        flag_simps EVLIST_TIMEOUT_def EVLIST_ACTIVE_def EVLIST_SIGNAL_def)
  with t show ?thesis
    by blast
qed

text \<open>Insertion keeps the invariant.\<close>

lemma ncounted_frame [simp]:
  "ncounted (s\<lparr>timetree := t\<rparr>) = ncounted s" "ncounted (s\<lparr>eventqueue := x\<rparr>) = ncounted s"
  "ncounted (s\<lparr>signalqueue := x\<rparr>) = ncounted s" "ncounted (s\<lparr>event_count_active := k\<rparr>) = ncounted s"
  "ncounted (s\<lparr>activequeues := qs\<rparr>) = ncounted s"
  "queue_flag q \<Longrightarrow> ncounted (set_flag ev q s) = ncounted s"
  "queue_flag q \<Longrightarrow> ncounted (clear_flag ev q s) = ncounted s"
  by (simp_all add: ncounted_def fun_eq_iff)

lemma ncounted_ins_ascending:
  assumes "e \<notin> set xs" "\<And>x. x \<noteq> e \<Longrightarrow> cmp x e < 0 \<longleftrightarrow> \<not> cmp e x < (0::int)"
  shows "ncounted s (ins_ascending cmp e xs) = ncounted s xs + count1 s e"
proof -
  have "filter (\<lambda>x. cmp e x < 0) xs = filter (\<lambda>x. \<not> cmp x e < 0) xs"
    using assms by (intro filter_cong refl) metis
  moreover have "ncounted s (filter P xs @ filter (\<lambda>x. \<not> P x) xs) = ncounted s xs" for P
    by (rule ncounted_mset) simp
  ultimately show ?thesis
    by (simp add: ins_ascending_def count1_def)
qed

lemma compare_dichotomy: "x \<noteq> e \<Longrightarrow> compare E x e < 0 \<longleftrightarrow> \<not> compare E e x < 0"
  using etree.cmp_cases [of E x e] etree.cmp_asym [of E] by blast

lemma insert_timeout_inv:
  assumes "event_inv s" "\<not> has (ev_flags (evs s ev)) EVLIST_TIMEOUT"
    and t: "rb_tree t" "rb_inorder t = ins_ascending (compare (evs s)) ev (timeq s)"
  shows "event_inv ((set_flag ev EVLIST_TIMEOUT s)\<lparr>timetree := t\<rparr>)" (is "event_inv ?s")
proof -
  have tree: "tree_inv s" and new: "ev \<notin> set (timeq s)"
    using assms(1,2) by (auto simp: event_inv_def tree_inv_def flag_simps)
  have "ncounted s (rb_inorder t) = ncounted s (timeq s) + count1 s ev"
    unfolding t(2) by (rule ncounted_ins_ascending [OF new compare_dichotomy])
  then have "count_inv ?s"
    using assms(1) by (simp add: event_inv_def count_inv_def)
  moreover have "tree_inv ?s"
    using tree t by (auto simp: tree_inv_def etree.set_ins_ascending etree.ascending_ins flag_simps)
  ultimately show ?thesis
    using assms(1) by (simp add: event_inv_def flag_frame flag_simps)
qed

lemma insert_io_inv:
  assumes "event_inv s" "\<not> has (ev_flags (evs s ev)) EVLIST_INSERTED"
  shows "event_inv ((set_flag ev EVLIST_INSERTED s)\<lparr>eventqueue := eventqueue s @ [ev]\<rparr>)"
    (is "event_inv ?s")
proof -
  have "count_inv ?s"
    using assms(1) by (simp add: event_inv_def count_inv_def count1_def)
  moreover have "io_inv ?s"
    using assms by (auto simp: event_inv_def io_inv_def flag_simps)
  ultimately show ?thesis
    using assms(1) by (simp add: event_inv_def flag_frame flag_simps)
qed

lemma insert_signal_inv:
  assumes "event_inv s" "\<not> has (ev_flags (evs s ev)) EVLIST_SIGNAL"
  shows "event_inv ((set_flag ev EVLIST_SIGNAL s)\<lparr>signalqueue := signalqueue s @ [ev]\<rparr>)"
    (is "event_inv ?s")
proof -
  have "count_inv ?s"
    using assms(1) by (simp add: event_inv_def count_inv_def count1_def)
  moreover have "sig_inv ?s"
    using assms by (auto simp: event_inv_def sig_inv_def flag_simps)
  ultimately show ?thesis
    using assms(1) by (simp add: event_inv_def flag_frame flag_simps)
qed

text \<open>A change of one active queue, by the flag of the event that joins or leaves it.\<close>

lemma active_inv_update:
  assumes inv: "active_inv s" and i: "i < length (activequeues s)" "ev_pri (evs s ev) = int i"
    and q: "distinct q" "set q = (if b then insert ev (set (activequeues s ! i))
      else set (activequeues s ! i) - {ev})"
    and s': "activequeues s' = (activequeues s)[i := q]"
      "\<And>e. ev_pri (evs s' e) = ev_pri (evs s e)"
      "\<And>e. e \<noteq> ev \<Longrightarrow> bit (ev_flags (evs s' e)) 3 = bit (ev_flags (evs s e)) 3"
      "bit (ev_flags (evs s' ev)) 3 = b"
  shows "active_inv s'"
proof -
  have "in_active s' e j \<longleftrightarrow> bit (ev_flags (evs s' e)) 3 \<and> ev_pri (evs s' e) = int j" for e j
  proof (cases "j = i")
    case True
    have "in_active s e i \<longleftrightarrow> bit (ev_flags (evs s e)) 3 \<and> ev_pri (evs s e) = int i"
      using inv by (simp add: active_inv_def)
    with True i q(2) s' show ?thesis
      by (cases "e = ev") (auto simp: in_active_def)
  next
    case False
    have "in_active s e j \<longleftrightarrow> bit (ev_flags (evs s e)) 3 \<and> ev_pri (evs s e) = int j"
      using inv by (simp add: active_inv_def)
    with False i s' show ?thesis
      by (cases "e = ev") (auto simp: in_active_def)
  qed
  moreover have "\<forall>p \<in> set (activequeues s'). distinct p"
    using inv q(1) s'(1) set_update_subset_insert [of "activequeues s" i q]
    by (auto simp: active_inv_def)
  ultimately show ?thesis
    by (simp add: active_inv_def)
qed

lemma active_index:
  assumes "pri_inv s"
  shows "nat (ev_pri (evs s ev)) < length (activequeues s)"
    "ev_pri (evs s ev) = int (nat (ev_pri (evs s ev)))"
  using assms unfolding pri_inv_def nactivequeues_def by (smt (verit) int_nat_eq nat_less_iff)+

lemma insert_active_inv:
  assumes "event_inv s" "\<not> has (ev_flags (evs s ev)) EVLIST_ACTIVE"
  shows "event_inv ((set_flag ev EVLIST_ACTIVE s)
      \<lparr>event_count_active := event_count_active s + count1 s ev,
       activequeues := (activequeues s)[nat (ev_pri (evs s ev)) :=
         activequeues s ! nat (ev_pri (evs s ev)) @ [ev]]\<rparr>)" (is "event_inv ?s")
proof -
  let ?i = "nat (ev_pri (evs s ev))"
  have act: "active_inv s" and pri: "pri_inv s"
    using assms(1) by (auto simp: event_inv_def)
  note i = active_index [OF pri, of ev]
  have "distinct (activequeues s ! ?i)" "ev \<notin> set (activequeues s ! ?i)"
    using act i assms(2) by (auto simp: active_inv_def in_active_def flag_simps)
  then have "active_inv ?s"
    by (intro active_inv_update [OF act i, where b = True]) (auto simp: flag_simps)
  moreover have "count_inv ?s"
    using assms(1) i(1)
    by (simp add: event_inv_def count_inv_def ncounted_concat_update count1_def)
  moreover have "pri_inv ?s"
    using flag_frame(3) [OF queue_flag_intros(4) pri, of ev] by (simp add: pri_inv_def nactivequeues_def)
  ultimately show ?thesis
    using assms(1) by (simp add: event_inv_def flag_frame flag_simps)
qed

section \<open>Queue removal\<close>

lemma remove_other:
  assumes "has (ev_flags (evs s ev)) q" "q = EVLIST_INSERTED \<or> q = EVLIST_SIGNAL"
  shows "event_queue_remove ev q s = Inr (if q = EVLIST_SIGNAL
      then (clear_flag ev q s)\<lparr>signalqueue := remove1 ev (signalqueue s)\<rparr>
      else (clear_flag ev q s)\<lparr>eventqueue := remove1 ev (eventqueue s)\<rparr>)"
  using assms
  by (auto simp: event_queue_remove_def clear_flag_def upd_ev_def Let_def count1_def counted_def
      flag_simps EVLIST_INSERTED_def EVLIST_ACTIVE_def EVLIST_SIGNAL_def EVLIST_TIMEOUT_def)

lemma remove_active:
  assumes "has (ev_flags (evs s ev)) EVLIST_ACTIVE" "pri_inv s"
  shows "event_queue_remove ev EVLIST_ACTIVE s = Inr ((clear_flag ev EVLIST_ACTIVE s)
      \<lparr>event_count_active := event_count_active s - count1 s ev,
       activequeues := (activequeues s)[nat (ev_pri (evs s ev)) :=
         remove1 ev (activequeues s ! nat (ev_pri (evs s ev)))]\<rparr>)"
  using assms
  by (auto simp: event_queue_remove_def clear_flag_def upd_ev_def Let_def count1_def counted_def
      nactivequeues_def pri_inv_def flag_simps)

lemma remove_timeout:
  assumes "has (ev_flags (evs s ev)) EVLIST_TIMEOUT" "tree_inv s"
  shows "\<exists>t. event_queue_remove ev EVLIST_TIMEOUT s =
      Inr ((clear_flag ev EVLIST_TIMEOUT s)\<lparr>timetree := t\<rparr>) \<and> rb_tree t \<and>
    rb_inorder t = remove1 ev (timeq s)"
proof -
  have "ev \<in> set (timeq s)"
    using assms by (simp add: tree_inv_def flag_simps)
  then obtain t where t: "rb_remove (timetree s) ev = Inr t" "rb_tree t"
    "rb_inorder t = remove1 ev (timeq s)"
    using etree.remove_present assms(2) unfolding tree_inv_def by blast
  then have "event_queue_remove ev EVLIST_TIMEOUT s =
      Inr ((clear_flag ev EVLIST_TIMEOUT s)\<lparr>timetree := t\<rparr>)"
    using assms(1)
    by (auto simp: event_queue_remove_def clear_flag_def upd_ev_def Let_def count1_def counted_def
        flag_simps EVLIST_TIMEOUT_def EVLIST_ACTIVE_def EVLIST_SIGNAL_def)
  with t show ?thesis
    by blast
qed

lemma remove_timeout_inv:
  assumes "event_inv s" "has (ev_flags (evs s ev)) EVLIST_TIMEOUT"
    and t: "rb_tree t" "rb_inorder t = remove1 ev (timeq s)"
  shows "event_inv ((clear_flag ev EVLIST_TIMEOUT s)\<lparr>timetree := t\<rparr>)" (is "event_inv ?s")
proof -
  have tree: "tree_inv s" and old: "ev \<in> set (timeq s)" "distinct (timeq s)"
    using assms(1,2) by (auto simp: event_inv_def tree_inv_def flag_simps dest: etree.ascending_distinct)
  then have "count_inv ?s"
    using assms(1) t(2) by (simp add: event_inv_def count_inv_def ncounted_remove1 count1_def)
  moreover have "tree_inv ?s"
    using tree t old by (auto simp: tree_inv_def etree.ascending_remove1 flag_simps)
  ultimately show ?thesis
    using assms(1) by (simp add: event_inv_def flag_frame flag_simps)
qed

lemma remove_io_inv:
  assumes "event_inv s" "has (ev_flags (evs s ev)) EVLIST_INSERTED"
  shows "event_inv ((clear_flag ev EVLIST_INSERTED s)\<lparr>eventqueue := remove1 ev (eventqueue s)\<rparr>)"
    (is "event_inv ?s")
proof -
  have io: "io_inv s" "ev \<in> set (eventqueue s)" "distinct (eventqueue s)"
    using assms by (auto simp: event_inv_def io_inv_def flag_simps)
  then have "count_inv ?s"
    using assms(1) by (simp add: event_inv_def count_inv_def ncounted_remove1 count1_def)
  moreover have "io_inv ?s"
    using io by (auto simp: io_inv_def flag_simps)
  ultimately show ?thesis
    using assms(1) by (simp add: event_inv_def flag_frame flag_simps)
qed

lemma remove_signal_inv:
  assumes "event_inv s" "has (ev_flags (evs s ev)) EVLIST_SIGNAL"
  shows "event_inv ((clear_flag ev EVLIST_SIGNAL s)\<lparr>signalqueue := remove1 ev (signalqueue s)\<rparr>)"
    (is "event_inv ?s")
proof -
  have sig: "sig_inv s" "ev \<in> set (signalqueue s)" "distinct (signalqueue s)"
    using assms by (auto simp: event_inv_def sig_inv_def flag_simps)
  then have "count_inv ?s"
    using assms(1) by (simp add: event_inv_def count_inv_def ncounted_remove1 count1_def)
  moreover have "sig_inv ?s"
    using sig by (auto simp: sig_inv_def flag_simps)
  ultimately show ?thesis
    using assms(1) by (simp add: event_inv_def flag_frame flag_simps)
qed

lemma remove_active_inv:
  assumes "event_inv s" "has (ev_flags (evs s ev)) EVLIST_ACTIVE"
  shows "event_inv ((clear_flag ev EVLIST_ACTIVE s)
      \<lparr>event_count_active := event_count_active s - count1 s ev,
       activequeues := (activequeues s)[nat (ev_pri (evs s ev)) :=
         remove1 ev (activequeues s ! nat (ev_pri (evs s ev)))]\<rparr>)" (is "event_inv ?s")
proof -
  let ?i = "nat (ev_pri (evs s ev))"
  have act: "active_inv s" and pri: "pri_inv s"
    using assms(1) by (auto simp: event_inv_def)
  note i = active_index [OF pri, of ev]
  have d: "distinct (activequeues s ! ?i)"
    using act i by (auto simp: active_inv_def)
  have "in_active s ev ?i"
    using act i(2) assms(2) by (simp add: active_inv_def flag_simps)
  then have m: "ev \<in> set (activequeues s ! ?i)"
    by (simp add: in_active_def)
  have "active_inv ?s"
    using d by (intro active_inv_update [OF act i, where b = False]) (auto simp: flag_simps)
  moreover have "count_inv ?s"
    using assms(1) i(1) d m
    by (simp add: event_inv_def count_inv_def ncounted_concat_update ncounted_remove1 count1_def)
  moreover have "pri_inv ?s"
    using flag_frame(4) [OF queue_flag_intros(4) pri, of ev] by (simp add: pri_inv_def nactivequeues_def)
  ultimately show ?thesis
    using assms(1) by (simp add: event_inv_def flag_frame flag_simps)
qed

section \<open>Queue steps, all four queues\<close>

text \<open>What a queue step leaves unchanged, and the flag it changes.\<close>

definition frame_eq :: "'a evstate_scheme \<Rightarrow> 'a evstate_scheme \<Rightarrow> bool" where
  "frame_eq s s' \<longleftrightarrow>
     event_gotterm s' = event_gotterm s \<and> event_tv s' = event_tv s \<and>
     event_gotsig s' = event_gotsig s \<and> clock s' = clock s \<and> ticks s' = ticks s \<and>
     ncalls_vars s' = ncalls_vars s \<and> next_var s' = next_var s \<and> onces s' = onces s \<and>
     evstate.more s' = evstate.more s \<and> length (activequeues s') = length (activequeues s)"

definition flag_to :: "nat \<Rightarrow> 32 word \<Rightarrow> 'a evstate_scheme \<Rightarrow> 'a evstate_scheme \<Rightarrow> bool" where
  "flag_to ev f s s' \<longleftrightarrow> evs s' = (evs s)(ev := (evs s ev)\<lparr>ev_flags := f\<rparr>) \<and> frame_eq s s'"

lemma frame_eq_refl [simp]: "frame_eq s s"
  by (simp add: frame_eq_def)

lemma frame_eq_trans: "frame_eq s s' \<Longrightarrow> frame_eq s' s'' \<Longrightarrow> frame_eq s s''"
  by (simp add: frame_eq_def)

text \<open>The queue of each flag.\<close>

definition queue_of :: "32 word \<Rightarrow> 'a evstate_scheme \<Rightarrow> nat set" where
  "queue_of q s =
     (if q = EVLIST_TIMEOUT then set (timeq s)
      else if q = EVLIST_INSERTED then set (eventqueue s)
      else if q = EVLIST_SIGNAL then set (signalqueue s)
      else set (activeq s))"

lemma EVLIST_distinct [simp]:
  "EVLIST_TIMEOUT \<noteq> EVLIST_INSERTED" "EVLIST_TIMEOUT \<noteq> EVLIST_SIGNAL" "EVLIST_TIMEOUT \<noteq> EVLIST_ACTIVE"
  "EVLIST_INSERTED \<noteq> EVLIST_TIMEOUT" "EVLIST_INSERTED \<noteq> EVLIST_SIGNAL" "EVLIST_INSERTED \<noteq> EVLIST_ACTIVE"
  "EVLIST_SIGNAL \<noteq> EVLIST_TIMEOUT" "EVLIST_SIGNAL \<noteq> EVLIST_INSERTED" "EVLIST_SIGNAL \<noteq> EVLIST_ACTIVE"
  "EVLIST_ACTIVE \<noteq> EVLIST_TIMEOUT" "EVLIST_ACTIVE \<noteq> EVLIST_INSERTED" "EVLIST_ACTIVE \<noteq> EVLIST_SIGNAL"
  by (simp_all add: EVLIST_TIMEOUT_def EVLIST_INSERTED_def EVLIST_SIGNAL_def EVLIST_ACTIVE_def)

lemma queue_of_flag:
  "event_inv s \<Longrightarrow> queue_flag q \<Longrightarrow> e \<in> queue_of q s \<longleftrightarrow> has (ev_flags (evs s e)) q"
  using active_inv_iff [of s e]
  by (auto simp: event_inv_def tree_inv_def io_inv_def sig_inv_def queue_flag_def queue_of_def
      flag_simps)

lemma queue_insert_ok:
  assumes "event_inv s" "queue_flag q" "\<not> has (ev_flags (evs s ev)) q"
  shows "\<exists>s'. event_queue_insert ev q s = Inr s' \<and> event_inv s' \<and>
    flag_to ev (or (ev_flags (evs s ev)) q) s s' \<and>
    (q = EVLIST_TIMEOUT \<longrightarrow> timeq s' = ins_ascending (compare (evs s)) ev (timeq s)) \<and>
    (q \<noteq> EVLIST_TIMEOUT \<longrightarrow> timetree s' = timetree s) \<and>
    (q \<noteq> EVLIST_INSERTED \<longrightarrow> eventqueue s' = eventqueue s) \<and>
    (q \<noteq> EVLIST_SIGNAL \<longrightarrow> signalqueue s' = signalqueue s) \<and>
    (q \<noteq> EVLIST_ACTIVE \<longrightarrow> activequeues s' = activequeues s \<and> event_count_active s' = event_count_active s)"
proof -
  have parts: "tree_inv s" "pri_inv s"
    using assms(1) by (auto simp: event_inv_def)
  consider "q = EVLIST_TIMEOUT" | "q = EVLIST_INSERTED" | "q = EVLIST_SIGNAL" | "q = EVLIST_ACTIVE"
    using assms(2) by (auto simp: queue_flag_def)
  then show ?thesis
  proof cases
    case 1
    then show ?thesis
      using insert_timeout [OF _ parts(1), of ev] insert_timeout_inv [OF assms(1), of ev] assms(3)
      by (auto simp: flag_to_def frame_eq_def set_flag_def upd_ev_def)
  next
    case 2
    then show ?thesis
      using insert_other [OF assms(2,3)] insert_io_inv [OF assms(1), of ev] assms(3)
      by (auto simp: flag_to_def frame_eq_def set_flag_def upd_ev_def)
  next
    case 3
    then show ?thesis
      using insert_other [OF assms(2,3)] insert_signal_inv [OF assms(1), of ev] assms(3)
      by (auto simp: flag_to_def frame_eq_def set_flag_def upd_ev_def)
  next
    case 4
    then show ?thesis
      using insert_active [OF _ parts(2), of ev] insert_active_inv [OF assms(1), of ev] assms(3)
      by (auto simp: flag_to_def frame_eq_def set_flag_def upd_ev_def)
  qed
qed

lemma queue_remove_ok:
  assumes "event_inv s" "queue_flag q" "has (ev_flags (evs s ev)) q"
  shows "\<exists>s'. event_queue_remove ev q s = Inr s' \<and> event_inv s' \<and>
    flag_to ev (and (ev_flags (evs s ev)) (not q)) s s' \<and>
    (q = EVLIST_TIMEOUT \<longrightarrow> timeq s' = remove1 ev (timeq s)) \<and>
    (q \<noteq> EVLIST_TIMEOUT \<longrightarrow> timetree s' = timetree s) \<and>
    (q \<noteq> EVLIST_INSERTED \<longrightarrow> eventqueue s' = eventqueue s) \<and>
    (q \<noteq> EVLIST_SIGNAL \<longrightarrow> signalqueue s' = signalqueue s) \<and>
    (q \<noteq> EVLIST_ACTIVE \<longrightarrow> activequeues s' = activequeues s \<and> event_count_active s' = event_count_active s)"
proof -
  have parts: "tree_inv s" "pri_inv s"
    using assms(1) by (auto simp: event_inv_def)
  consider "q = EVLIST_TIMEOUT" | "q = EVLIST_INSERTED" | "q = EVLIST_SIGNAL" | "q = EVLIST_ACTIVE"
    using assms(2) by (auto simp: queue_flag_def)
  then show ?thesis
  proof cases
    case 1
    then show ?thesis
      using remove_timeout [OF _ parts(1), of ev] remove_timeout_inv [OF assms(1), of ev] assms(3)
      by (auto simp: flag_to_def frame_eq_def clear_flag_def upd_ev_def)
  next
    case 2
    then show ?thesis
      using remove_other [OF assms(3)] remove_io_inv [OF assms(1), of ev] assms(3)
      by (auto simp: flag_to_def frame_eq_def clear_flag_def upd_ev_def)
  next
    case 3
    then show ?thesis
      using remove_other [OF assms(3)] remove_signal_inv [OF assms(1), of ev] assms(3)
      by (auto simp: flag_to_def frame_eq_def clear_flag_def upd_ev_def)
  next
    case 4
    then show ?thesis
      using remove_active [OF _ parts(2), of ev] remove_active_inv [OF assms(1), of ev] assms(3)
      by (auto simp: flag_to_def frame_eq_def clear_flag_def upd_ev_def)
  qed
qed

end
