(* ===== verification/EventProofs.thy ===== *)
theory EventProofs
  imports EventInv
begin

text \<open>
  What the operations of \<open>EventCore\<close> do on a state that satisfies the invariant. The
  contract \<open>event_backend\<close> is what the event core relies on of a \<open>struct eventop\<close>; lemmas
  about operations that call a back end are proved inside it and reach \<open>epoll\<close> by the
  interpretation in \<open>Epoll\<close>.
\<close>

section \<open>Single steps\<close>

text \<open>A store through \<open>ev_pncalls\<close> is safe when the local variable it names is live.\<close>

definition loop_safe :: "nat \<Rightarrow> 'a evstate_scheme \<Rightarrow> bool" where
  "loop_safe ev s \<longleftrightarrow>
     (\<forall>a. ev_ncalls (evs s ev) \<noteq> 0 \<longrightarrow> ev_pncalls (evs s ev) = Some a \<longrightarrow> ncalls_vars s a \<noteq> None)"

lemma abort_loop_vars:
  assumes "abort_loop ev s = Inr s'"
  shows "\<exists>V. s' = s\<lparr>ncalls_vars := V\<rparr> \<and> dom V = dom (ncalls_vars s)"
proof (cases "ev_ncalls (evs s ev) \<noteq> 0 \<and> ev_pncalls (evs s ev) \<noteq> None")
  case True
  then obtain a where a: "ev_pncalls (evs s ev) = Some a"
    by auto
  with True assms have "s' = s\<lparr>ncalls_vars := (ncalls_vars s)(a \<mapsto> 0)\<rparr>" "a \<in> dom (ncalls_vars s)"
    by (auto simp: abort_loop_def store_ncalls_def domIff split: if_splits)
  then show ?thesis
    by (intro exI [of _ "(ncalls_vars s)(a \<mapsto> 0)"]) auto
next
  case False
  then have "s' = s\<lparr>ncalls_vars := ncalls_vars s\<rparr>"
    using assms by (auto simp: abort_loop_def)
  then show ?thesis
    by blast
qed

lemma abort_loop_safe: "loop_safe ev s \<Longrightarrow> \<exists>s'. abort_loop ev s = Inr s'"
  by (auto simp: abort_loop_def store_ncalls_def loop_safe_def split: option.splits)

lemma same_core_vars [simp]: "same_core s (s\<lparr>ncalls_vars := V\<rparr>)"
  by (simp add: same_core_def)

lemma abort_loop_inv: "event_inv s \<Longrightarrow> abort_loop ev s = Inr s' \<Longrightarrow> event_inv s'"
  using abort_loop_vars [of ev s s'] same_core_inv [OF same_core_vars] by blast

lemma queue_step_inv:
  assumes "event_inv s" "queue_flag q"
  shows "event_queue_insert ev q s = Inr s' \<Longrightarrow> event_inv s'"
    and "event_queue_remove ev q s = Inr s' \<Longrightarrow> event_inv s'"
proof -
  show "event_inv s'" if "event_queue_insert ev q s = Inr s'"
  proof (cases "has (ev_flags (evs s ev)) q")
    case True
    with that assms(1) show ?thesis
      by (simp add: event_queue_insert_def split: if_splits)
  next
    case False
    with queue_insert_ok [OF assms this] that show ?thesis by auto
  qed
  show "event_inv s'" if r: "event_queue_remove ev q s = Inr s'"
  proof -
    have "has (ev_flags (evs s ev)) q"
      using r by (auto simp: event_queue_remove_def split: if_splits)
    with queue_remove_ok [OF assms this] r show ?thesis by auto
  qed
qed

text \<open>Updates of event fields the invariant does not read.\<close>

lemma upd_ev_inv:
  assumes "\<And>e. ev_flags (f e) = ev_flags e" "\<And>e. ev_pri (f e) = ev_pri e"
    "\<And>e. ev_timeout (f e) = ev_timeout e"
  shows "event_inv (upd_ev ev f s) = event_inv s"
  using assms by (intro same_core_inv) (simp add: same_core_def)

text \<open>The time of an event that is not in the tree may change.\<close>

lemma set_timeout_inv:
  assumes "event_inv s" "\<not> has (ev_flags (evs s ev)) EVLIST_TIMEOUT"
  shows "event_inv (upd_ev ev (\<lambda>e. e\<lparr>ev_timeout := t\<rparr>) s)" (is "event_inv ?s")
proof -
  have new: "ev \<notin> set (timeq s)" and asc: "ascending (compare (evs s)) (timeq s)"
    using assms by (auto simp: event_inv_def tree_inv_def flag_simps)
  have "compare (evs ?s) x y = compare (evs s) x y" if "x \<noteq> ev" "y \<noteq> ev" for x y
    using that by (simp add: compare_def)
  then have "sorted_wrt (\<lambda>x y. compare (evs ?s) x y < 0) (timeq s) =
      sorted_wrt (\<lambda>x y. compare (evs s) x y < 0) (timeq s)"
    using new by (intro sorted_wrt_cong_set) metis
  then have "ascending (compare (evs ?s)) (timeq s)"
    using asc by (simp add: ascending_def)
  moreover have "counted ?s = counted s"
    by (simp add: counted_def fun_eq_iff)
  ultimately show ?thesis
    using assms(1)
    by (simp add: event_inv_def tree_inv_def io_inv_def sig_inv_def active_inv_def in_active_def
        pri_inv_def flag_inv_def count_inv_def ncounted_def)
qed

lemma clock_inv [simp]: "event_inv (s\<lparr>ticks := k\<rparr>) = event_inv s"
  by (rule same_core_inv) (simp add: same_core_def)

lemma more_inv [simp]: "event_inv (s\<lparr>evstate.more := m\<rparr>) = event_inv s"
  by (rule same_core_inv) (simp add: same_core_def)

section \<open>Adding a timeout\<close>

lemma flag_to_has [simp]:
  "flag_to ev f s s' \<Longrightarrow> ev_flags (evs s' ev) = f"
  "flag_to ev f s s' \<Longrightarrow> e \<noteq> ev \<Longrightarrow> evs s' e = evs s e"
  by (simp_all add: flag_to_def)

lemma event_add_timeout_inv:
  assumes "event_inv s" "event_add_timeout ev tv s = Inr s'"
  shows "event_inv s'"
proof -
  obtain s1 s2 where s1: "(if has (ev_flags (evs s ev)) EVLIST_TIMEOUT
      then event_queue_remove ev EVLIST_TIMEOUT s else Inr s) = Inr s1"
    and s2: "(if has (ev_flags (evs s1 ev)) EVLIST_ACTIVE \<and> has (ev_res (evs s1 ev)) EV_TIMEOUT
      then bnd (abort_loop ev s1) (event_queue_remove ev EVLIST_ACTIVE) else Inr s1) = Inr s2"
    and s3: "event_queue_insert ev EVLIST_TIMEOUT (upd_ev ev (\<lambda>e. e\<lparr>ev_timeout :=
      timeradd (clock s2 (ticks s2)) tv\<rparr>) (s2\<lparr>ticks := Suc (ticks s2)\<rparr>)) = Inr s'"
    using assms(2) by (auto simp: event_add_timeout_def gettimeofday_def Let_def)
  have i1: "event_inv s1"
    using s1 assms(1) queue_step_inv(2) [OF assms(1), of EVLIST_TIMEOUT] by (auto split: if_splits)
  have i2: "event_inv s2"
    using s2 i1 abort_loop_inv [OF i1] queue_step_inv(2) [of _ EVLIST_ACTIVE]
    by (auto split: if_splits) (blast intro: queue_flag_intros)
  have "\<not> has (ev_flags (evs s2 ev)) EVLIST_TIMEOUT"
    using s3 by (auto simp: event_queue_insert_def flag_simps split: if_splits)
  then have "event_inv (upd_ev ev (\<lambda>e. e\<lparr>ev_timeout := timeradd (clock s2 (ticks s2)) tv\<rparr>)
      (s2\<lparr>ticks := Suc (ticks s2)\<rparr>))"
    using i2 by (intro set_timeout_inv) auto
  from queue_step_inv(1) [OF this _ s3] show ?thesis
    by simp
qed

text \<open>
  The two steps that take an event off the tree, and off the active queue when a timeout
  put it there, before its new time is set.
\<close>

lemma clear_unset: "\<not> has f q \<Longrightarrow> and f (not q) = f" for f q :: "32 word"
proof (rule bit_eqI)
  fix n
  assume "\<not> has f q"
  then have "\<not> bit (and f q) n"
    by (simp add: has_def)
  then have "\<not> (bit f n \<and> bit q n)"
    by (simp add: bit_and_iff)
  then show "bit (and f (not q)) n = bit f n"
    by (auto simp: flag_simps)
qed

lemma remove_active_map:
  assumes "active_inv s" "pri_inv s"
  shows "(activequeues s)[nat (ev_pri (evs s ev)) := remove1 ev (activequeues s ! nat (ev_pri (evs s ev)))]
    = map (remove1 ev) (activequeues s)"
proof (rule nth_equalityI)
  fix i
  assume i: "i < length ((activequeues s)[nat (ev_pri (evs s ev)) :=
    remove1 ev (activequeues s ! nat (ev_pri (evs s ev)))])"
  show "(activequeues s)[nat (ev_pri (evs s ev)) :=
      remove1 ev (activequeues s ! nat (ev_pri (evs s ev)))] ! i = map (remove1 ev) (activequeues s) ! i"
  proof (cases "i = nat (ev_pri (evs s ev))")
    case True
    with i show ?thesis by simp
  next
    case False
    then have "\<not> in_active s ev i"
      using assms(1) by (auto simp: active_inv_def)
    with i False show ?thesis
      by (simp add: in_active_def remove1_idem)
  qed
qed simp

definition off_queues :: "32 word \<Rightarrow> nat \<Rightarrow> 'a evstate_scheme \<Rightarrow> 'a evstate_scheme \<Rightarrow> bool" where
  "off_queues q ev s s' \<longleftrightarrow>
     timeq s' = (if q = EVLIST_TIMEOUT then remove1 ev (timeq s) else timeq s) \<and>
     eventqueue s' = (if q = EVLIST_INSERTED then remove1 ev (eventqueue s) else eventqueue s) \<and>
     signalqueue s' = (if q = EVLIST_SIGNAL then remove1 ev (signalqueue s) else signalqueue s) \<and>
     activequeues s' = (if q = EVLIST_ACTIVE then map (remove1 ev) (activequeues s) else activequeues s)"

lemma queue_remove_off:
  assumes "event_inv s" "queue_flag q" "has (ev_flags (evs s ev)) q" "event_queue_remove ev q s = Inr s'"
  shows "off_queues q ev s s'"
proof -
  have a: "active_inv s" "pri_inv s"
    using assms(1) by (auto simp: event_inv_def)
  obtain s'' where s'': "event_queue_remove ev q s = Inr s''"
    "q = EVLIST_TIMEOUT \<longrightarrow> timeq s'' = remove1 ev (timeq s)"
    "q \<noteq> EVLIST_TIMEOUT \<longrightarrow> timetree s'' = timetree s"
    "q \<noteq> EVLIST_INSERTED \<longrightarrow> eventqueue s'' = eventqueue s"
    "q \<noteq> EVLIST_SIGNAL \<longrightarrow> signalqueue s'' = signalqueue s"
    "q \<noteq> EVLIST_ACTIVE \<longrightarrow> activequeues s'' = activequeues s"
    using queue_remove_ok [OF assms(1-3)] by blast
  have "s'' = s'"
    using s''(1) assms(4) by simp
  note s'' = s'' [unfolded this]
  have "eventqueue s' = remove1 ev (eventqueue s)" if "q = EVLIST_INSERTED"
    using remove_other [OF assms(3)] that assms(4) by auto
  moreover have "signalqueue s' = remove1 ev (signalqueue s)" if "q = EVLIST_SIGNAL"
    using remove_other [OF assms(3)] that assms(4) by auto
  moreover have "activequeues s' = map (remove1 ev) (activequeues s)" if "q = EVLIST_ACTIVE"
    using remove_active [of s ev] that assms(3,4) a(2) remove_active_map [OF a] by auto
  ultimately show ?thesis
    using s'' by (simp add: off_queues_def)
qed

lemma queue_off_ok:
  assumes inv: "event_inv s" and q: "queue_flag q"
  shows "\<exists>s1. (if has (ev_flags (evs s ev)) q then event_queue_remove ev q s else Inr s) = Inr s1 \<and>
    event_inv s1 \<and> flag_to ev (and (ev_flags (evs s ev)) (not q)) s s1 \<and> off_queues q ev s s1"
proof (cases "has (ev_flags (evs s ev)) q")
  case True
  with queue_remove_ok [OF inv q True] queue_remove_off [OF inv q True] show ?thesis
    by auto
next
  case False
  have off: "ev \<notin> queue_of q s"
    using queue_of_flag [OF inv q] False by simp
  then have "map (remove1 ev) (activequeues s) = activequeues s" if "q = EVLIST_ACTIVE"
    using that by (simp add: queue_of_def map_idI remove1_idem)
  with off have "off_queues q ev s s"
    by (simp add: off_queues_def queue_of_def remove1_idem split: if_splits)
  moreover have "and (ev_flags (evs s ev)) (not q) = ev_flags (evs s ev)"
    using False by (rule clear_unset)
  ultimately show ?thesis
    using False inv by (simp add: flag_to_def)
qed

lemma timeout_off_ok:
  assumes "event_inv s"
  shows "\<exists>s1. (if has (ev_flags (evs s ev)) EVLIST_TIMEOUT
      then event_queue_remove ev EVLIST_TIMEOUT s else Inr s) = Inr s1 \<and> event_inv s1 \<and>
    flag_to ev (and (ev_flags (evs s ev)) (not EVLIST_TIMEOUT)) s s1 \<and>
    timeq s1 = remove1 ev (timeq s)"
  using queue_off_ok [OF assms queue_flag_intros(1), of ev] unfolding off_queues_def by metis

definition timed_out :: "event \<Rightarrow> bool" where
  "timed_out e \<longleftrightarrow> has (ev_flags e) EVLIST_ACTIVE \<and> has (ev_res e) EV_TIMEOUT"

lemma active_off_ok:
  assumes "event_inv s" "loop_safe ev s"
  shows "\<exists>s1. (if has (ev_flags (evs s ev)) EVLIST_ACTIVE \<and> has (ev_res (evs s ev)) EV_TIMEOUT
      then bnd (abort_loop ev s) (event_queue_remove ev EVLIST_ACTIVE) else Inr s) = Inr s1 \<and>
    event_inv s1 \<and> clock s1 = clock s \<and> ticks s1 = ticks s \<and> timetree s1 = timetree s \<and>
    evs s1 = (evs s)(ev := (evs s ev)\<lparr>ev_flags :=
      (if timed_out (evs s ev) then and (ev_flags (evs s ev)) (not EVLIST_ACTIVE)
       else ev_flags (evs s ev))\<rparr>)"
proof (cases "timed_out (evs s ev)")
  case True
  obtain s' where s': "abort_loop ev s = Inr s'"
    using abort_loop_safe [OF assms(2)] by auto
  moreover obtain V where "s' = s\<lparr>ncalls_vars := V\<rparr>"
    using abort_loop_vars [OF s'] by auto
  moreover have "event_inv s'"
    using abort_loop_inv [OF assms(1) s'] .
  ultimately show ?thesis
    using queue_remove_ok [of s' EVLIST_ACTIVE ev] True
    by (auto simp: flag_to_def frame_eq_def timed_out_def)
next
  case False
  then show ?thesis
    using assms(1) by (auto simp: timed_out_def)
qed

lemma event_add_timeout_ok:
  assumes inv: "event_inv s" and safe: "loop_safe ev s"
  shows "\<exists>s' f. event_add_timeout ev tv s = Inr s' \<and> event_inv s' \<and>
    evs s' = (evs s)(ev := (evs s ev)\<lparr>ev_flags := f, ev_timeout := timeradd (clock s (ticks s)) tv\<rparr>) \<and>
    (\<forall>n. bit f n \<longleftrightarrow> n = 0 \<or> bit (ev_flags (evs s ev)) n \<and> (n = 3 \<longrightarrow> \<not> timed_out (evs s ev))) \<and>
    timeq s' = ins_ascending (compare (evs s')) ev (remove1 ev (timeq s)) \<and>
    ticks s' = Suc (ticks s)"
proof -
  obtain s1 where s1: "(if has (ev_flags (evs s ev)) EVLIST_TIMEOUT
      then event_queue_remove ev EVLIST_TIMEOUT s else Inr s) = Inr s1" "event_inv s1"
    "flag_to ev (and (ev_flags (evs s ev)) (not EVLIST_TIMEOUT)) s s1"
    "timeq s1 = remove1 ev (timeq s)"
    using timeout_off_ok [OF inv] by blast
  have "loop_safe ev s1"
    using safe s1(3) by (simp add: loop_safe_def flag_to_def frame_eq_def)
  from active_off_ok [OF s1(2) this] obtain s2 where s2:
    "(if has (ev_flags (evs s1 ev)) EVLIST_ACTIVE \<and> has (ev_res (evs s1 ev)) EV_TIMEOUT
      then bnd (abort_loop ev s1) (event_queue_remove ev EVLIST_ACTIVE) else Inr s1) = Inr s2"
    "event_inv s2" "clock s2 = clock s1" "ticks s2 = ticks s1" "timetree s2 = timetree s1"
    "evs s2 = (evs s1)(ev := (evs s1 ev)\<lparr>ev_flags :=
      (if timed_out (evs s1 ev) then and (ev_flags (evs s1 ev)) (not EVLIST_ACTIVE)
       else ev_flags (evs s1 ev))\<rparr>)"
    by blast
  define t where "t = timeradd (clock s (ticks s)) tv"
  define s3 where "s3 = upd_ev ev (\<lambda>e. e\<lparr>ev_timeout := t\<rparr>) (s2\<lparr>ticks := Suc (ticks s2)\<rparr>)"
  define g where "g = ev_flags (evs s2 ev)"
  have tm: "timed_out (evs s1 ev) = timed_out (evs s ev)"
    using s1(3) by (simp add: timed_out_def flag_to_def flag_simps)
  have g: "bit g n \<longleftrightarrow> n \<noteq> 0 \<and> bit (ev_flags (evs s ev)) n \<and> (n = 3 \<longrightarrow> \<not> timed_out (evs s ev))" for n
    using s1(3) s2(6) tm by (auto simp: g_def flag_to_def flag_simps)
  have off: "\<not> has (ev_flags (evs s2 ev)) EVLIST_TIMEOUT"
    using g [of 0] by (simp add: g_def flag_simps)
  have inv3: "event_inv s3"
    unfolding s3_def using s2(2) off by (intro set_timeout_inv) auto
  have e3: "evs s3 = (evs s)(ev := (evs s ev)\<lparr>ev_flags := g, ev_timeout := t\<rparr>)"
    using s1(3) s2(6) by (simp add: s3_def g_def flag_to_def)
  have tk: "clock s1 = clock s" "ticks s1 = ticks s"
    using s1(3) by (simp_all add: flag_to_def frame_eq_def)
  have run: "event_add_timeout ev tv s = event_queue_insert ev EVLIST_TIMEOUT s3"
    using s1(1) s2(1,3,4) tk by (simp add: event_add_timeout_def gettimeofday_def s3_def t_def)
  have "\<not> has (ev_flags (evs s3 ev)) EVLIST_TIMEOUT"
    using off by (simp add: e3 g_def)
  from queue_insert_ok [OF inv3 _ this] obtain s' where s':
    "event_queue_insert ev EVLIST_TIMEOUT s3 = Inr s'" "event_inv s'"
    "flag_to ev (or (ev_flags (evs s3 ev)) EVLIST_TIMEOUT) s3 s'"
    "timeq s' = ins_ascending (compare (evs s3)) ev (timeq s3)"
    by auto
  have e': "evs s' = (evs s)(ev := (evs s ev)\<lparr>ev_flags := or g EVLIST_TIMEOUT, ev_timeout := t\<rparr>)"
    using s'(3) by (cases "evs s ev") (simp add: flag_to_def e3)
  have "compare (evs s') = compare (evs s3)"
    by (rule compare_cong) (simp add: e' e3)
  moreover have "timeq s3 = remove1 ev (timeq s)"
    using s1(4) s2(5) by (simp add: s3_def)
  moreover have "ticks s' = Suc (ticks s)"
    using s'(3) s2(4) tk by (simp add: flag_to_def frame_eq_def s3_def)
  ultimately show ?thesis
    using run s'(1,2,4) e' g
    by (intro exI [of _ s'] exI [of _ "or g EVLIST_TIMEOUT"]) (auto simp: flag_simps t_def)
qed

end
