(* ===== verification/EventBackend.thy ===== *)
theory EventBackend
  imports EventProofs
begin

text \<open>
  What the event core relies on of a \<open>struct eventop\<close>, as two locales: \<open>event_deleter\<close>, the
  contract of \<open>evsel->del\<close>, and \<open>event_backend\<close>, which adds those of \<open>add\<close>, \<open>recalc\<close> and
  \<open>dispatch\<close>. The lemmas about \<open>event_del\<close>, \<open>timeout_process\<close>, \<open>event_process_active\<close> and
  \<open>event_base_loop\<close> are proved from the contract; \<open>Epoll\<close> interprets it.
\<close>

section \<open>Deleting an event\<close>

definition deleted_flags :: "32 word \<Rightarrow> 32 word" where
  "deleted_flags f =
     and (and (and f (not EVLIST_TIMEOUT)) (not EVLIST_ACTIVE))
       (not (if has f EVLIST_INSERTED then EVLIST_INSERTED else EVLIST_SIGNAL))"

lemma bit_deleted_flags:
  "bit (deleted_flags f) n \<longleftrightarrow>
     bit f n \<and> n \<noteq> 0 \<and> n \<noteq> 3 \<and> (if bit f 1 then n \<noteq> 1 else n \<noteq> 2)"
  by (auto simp: deleted_flags_def flag_simps)

text \<open>What is left alone when an event leaves its queues; its local variable may be set to 0.\<close>

definition same_rest :: "'a evstate_scheme \<Rightarrow> 'a evstate_scheme \<Rightarrow> bool" where
  "same_rest s s' \<longleftrightarrow>
     event_gotterm s' = event_gotterm s \<and> event_tv s' = event_tv s \<and>
     event_gotsig s' = event_gotsig s \<and> clock s' = clock s \<and> ticks s' = ticks s \<and>
     dom (ncalls_vars s') = dom (ncalls_vars s) \<and> next_var s' = next_var s \<and> onces s' = onces s"

lemma same_rest_refl [simp]: "same_rest s s"
  by (simp add: same_rest_def)

lemma same_rest_trans: "same_rest s s' \<Longrightarrow> same_rest s' s'' \<Longrightarrow> same_rest s s''"
  by (simp add: same_rest_def)

lemma same_rest_more [simp]: "same_rest s (s'\<lparr>evstate.more := m\<rparr>) = same_rest s s'"
  by (simp add: same_rest_def)

lemma flag_to_rest: "flag_to ev f s s' \<Longrightarrow> same_rest s s'"
  by (simp add: flag_to_def frame_eq_def same_rest_def)

definition deleted :: "nat \<Rightarrow> 'a evstate_scheme \<Rightarrow> 'a evstate_scheme \<Rightarrow> bool" where
  "deleted ev s s' \<longleftrightarrow>
     evs s' = (evs s)(ev := (evs s ev)\<lparr>ev_flags := deleted_flags (ev_flags (evs s ev))\<rparr>) \<and>
     timeq s' = remove1 ev (timeq s) \<and>
     activequeues s' = map (remove1 ev) (activequeues s) \<and>
     eventqueue s' = remove1 ev (eventqueue s) \<and>
     signalqueue s' = (if has (ev_flags (evs s ev)) EVLIST_INSERTED then signalqueue s
       else remove1 ev (signalqueue s)) \<and>
     same_rest s s'"

lemma deleted_more [simp]: "deleted ev s (s'\<lparr>evstate.more := m\<rparr>) = deleted ev s s'"
  by (simp add: deleted_def)

lemma event_del_queues:
  assumes inv: "event_inv s" and base: "ev_base (evs s ev)" and safe: "loop_safe ev s"
  shows "\<exists>s'. event_del (op_del evsel) ev s =
      (if has (ev_flags (evs s ev)) EVLIST_INSERTED \<or> has (ev_flags (evs s ev)) EVLIST_SIGNAL
       then op_del evsel ev s' else Inr (0, s')) \<and>
    event_inv s' \<and> deleted ev s s' \<and> evstate.more s' = evstate.more s"
proof -
  let ?f = "ev_flags (evs s ev)"
  obtain s0 where s0: "abort_loop ev s = Inr s0"
    using abort_loop_safe [OF safe] by auto
  then obtain V where V: "s0 = s\<lparr>ncalls_vars := V\<rparr>" "dom V = dom (ncalls_vars s)"
    using abort_loop_vars by blast
  have i0: "event_inv s0"
    using abort_loop_inv [OF inv s0] .
  obtain s1 where s1: "(if has (ev_flags (evs s0 ev)) EVLIST_TIMEOUT
      then event_queue_remove ev EVLIST_TIMEOUT s0 else Inr s0) = Inr s1" "event_inv s1"
    "flag_to ev (and (ev_flags (evs s0 ev)) (not EVLIST_TIMEOUT)) s0 s1"
    "off_queues EVLIST_TIMEOUT ev s0 s1"
    using queue_off_ok [OF i0 queue_flag_intros(1)] by blast
  obtain s2 where s2: "(if has (ev_flags (evs s1 ev)) EVLIST_ACTIVE
      then event_queue_remove ev EVLIST_ACTIVE s1 else Inr s1) = Inr s2" "event_inv s2"
    "flag_to ev (and (ev_flags (evs s1 ev)) (not EVLIST_ACTIVE)) s1 s2"
    "off_queues EVLIST_ACTIVE ev s1 s2"
    using queue_off_ok [OF s1(2) queue_flag_intros(4)] by blast
  define q where "q = (if has ?f EVLIST_INSERTED then EVLIST_INSERTED else EVLIST_SIGNAL)"
  have q: "queue_flag q"
    by (simp add: q_def)
  have f2: "ev_flags (evs s2 ev) = and (and ?f (not EVLIST_TIMEOUT)) (not EVLIST_ACTIVE)"
    using s1(3) s2(3) V by simp
  then have has2: "has (ev_flags (evs s2 ev)) EVLIST_INSERTED = has ?f EVLIST_INSERTED"
    "has (ev_flags (evs s2 ev)) EVLIST_SIGNAL = has ?f EVLIST_SIGNAL"
    by (simp_all add: flag_simps)
  obtain s3 where s3: "(if has (ev_flags (evs s2 ev)) q
      then event_queue_remove ev q s2 else Inr s2) = Inr s3" "event_inv s3"
    "flag_to ev (and (ev_flags (evs s2 ev)) (not q)) s2 s3" "off_queues q ev s2 s3"
    using queue_off_ok [OF s2(2) q] by blast
  have nosig: "eventqueue s = remove1 ev (eventqueue s)" if "q = EVLIST_SIGNAL"
    using that inv by (auto simp: q_def event_inv_def io_inv_def flag_simps remove1_idem split: if_splits)
  have "\<not> \<not> flags_ok ?f"
    using inv by (simp add: event_inv_def flag_inv_def)
  then have "event_del (op_del evsel) ev s =
      (if has ?f EVLIST_INSERTED \<or> has ?f EVLIST_SIGNAL then op_del evsel ev s3 else Inr (0, s3))"
    using base s0 s1(1) s2(1) s3(1) has2 by (auto simp: event_del_def q_def split: if_splits)
  moreover have "deleted ev s s3"
  proof -
    have "same_rest s s0"
      using V by (simp add: same_rest_def)
    then have "same_rest s s3"
      using flag_to_rest [OF s1(3)] flag_to_rest [OF s2(3)] flag_to_rest [OF s3(3)]
      by (blast intro: same_rest_trans)
    moreover have "evs s3 = (evs s)(ev := (evs s ev)\<lparr>ev_flags := deleted_flags ?f\<rparr>)"
      using s1(3) s2(3) s3(3) V(1) by (simp add: flag_to_def deleted_flags_def q_def)
    moreover have "timeq s3 = remove1 ev (timeq s)"
      "activequeues s3 = map (remove1 ev) (activequeues s)"
      "eventqueue s3 = remove1 ev (eventqueue s)"
      "signalqueue s3 = (if has ?f EVLIST_INSERTED then signalqueue s else remove1 ev (signalqueue s))"
      using s1(4) s2(4) s3(4) V(1) nosig by (simp_all add: off_queues_def q_def split: if_splits)
    ultimately show ?thesis
      by (simp add: deleted_def)
  qed
  moreover have "evstate.more s3 = evstate.more s"
    using s1(3) s2(3) s3(3) V(1) by (simp add: flag_to_def frame_eq_def)
  ultimately show ?thesis
    using s3(2) by blast
qed

text \<open>
  \<open>event_frame\<close>: the back end's invariant \<open>binv\<close> reads the descriptors and interests of
  events and the back end's own state. \<open>event_deleter\<close>: \<open>del\<close> changes that state only, keeps
  \<open>binv\<close>, and returns for every event with a descriptor that is not negative.
\<close>

definition same_interest :: "'a evstate_scheme \<Rightarrow> 'a evstate_scheme \<Rightarrow> bool" where
  "same_interest s s' \<longleftrightarrow>
     (\<forall>e. ev_fd (evs s' e) = ev_fd (evs s e) \<and> ev_events (evs s' e) = ev_events (evs s e) \<and>
        ev_base (evs s' e) = ev_base (evs s e))"

lemma same_interest_upd [simp]:
  "evs s' = (evs s)(ev := e) \<Longrightarrow> ev_fd e = ev_fd (evs s ev) \<Longrightarrow> ev_events e = ev_events (evs s ev) \<Longrightarrow>
    ev_base e = ev_base (evs s ev) \<Longrightarrow> same_interest s s'"
  by (simp add: same_interest_def)

lemma same_interest_refl [simp]: "same_interest s s"
  by (simp add: same_interest_def)

lemma same_interest_trans: "same_interest s s' \<Longrightarrow> same_interest s' s'' \<Longrightarrow> same_interest s s''"
  by (simp add: same_interest_def)

text \<open>The events that \<open>event_del\<close> can delete without a fault.\<close>

definition deletable :: "nat \<Rightarrow> 'a evstate_scheme \<Rightarrow> bool" where
  "deletable ev s \<longleftrightarrow> ev_base (evs s ev) \<and> loop_safe ev s \<and>
     (has (ev_flags (evs s ev)) EVLIST_INSERTED \<or> has (ev_flags (evs s ev)) EVLIST_SIGNAL \<longrightarrow>
      0 \<le> ev_fd (evs s ev))"

locale event_frame =
  fixes binv :: "'a evstate_scheme \<Rightarrow> bool"
  assumes binv_frame: "same_interest s s' \<Longrightarrow> evstate.more s' = evstate.more s \<Longrightarrow> binv s \<Longrightarrow> binv s'"

locale event_deleter = event_frame binv
  for binv :: "'a evstate_scheme \<Rightarrow> bool" +
  fixes evsel :: "('a evstate_scheme) eventop"
  assumes del_total: "binv s \<Longrightarrow> 0 \<le> ev_fd (evs s ev) \<Longrightarrow> \<exists>r s'. op_del evsel ev s = Inr (r, s')"
    and del_more: "binv s \<Longrightarrow> op_del evsel ev s = Inr (r, s') \<Longrightarrow>
      binv s' \<and> (\<exists>m. s' = s\<lparr>evstate.more := m\<rparr>)"
begin

lemma event_del_ok:
  assumes "event_inv s" "binv s" "deletable ev s"
  shows "\<exists>r s'. event_del (op_del evsel) ev s = Inr (r, s') \<and> event_inv s' \<and> binv s' \<and> deleted ev s s'"
proof -
  let ?reg = "has (ev_flags (evs s ev)) EVLIST_INSERTED \<or> has (ev_flags (evs s ev)) EVLIST_SIGNAL"
  obtain s1 where s1: "event_del (op_del evsel) ev s = (if ?reg then op_del evsel ev s1 else Inr (0, s1))"
    "event_inv s1" "deleted ev s s1" "evstate.more s1 = evstate.more s"
    using event_del_queues [OF assms(1)] assms(3) unfolding deletable_def by blast
  have b: "binv s1"
    using s1(3) by (intro binv_frame [OF _ s1(4) assms(2)]) (auto simp: deleted_def)
  show ?thesis
  proof (cases ?reg)
    case True
    then have "0 \<le> ev_fd (evs s1 ev)"
      using assms(3) s1(3) by (simp add: deletable_def deleted_def)
    then obtain r s2 where "op_del evsel ev s1 = Inr (r, s2)"
      using del_total [OF b] by blast
    moreover from this obtain m where "binv s2" "s2 = s1\<lparr>evstate.more := m\<rparr>"
      using del_more [OF b] by blast
    ultimately show ?thesis
      using s1 True by auto
  next
    case False
    with s1 b show ?thesis by auto
  qed
qed

lemma event_del_returns:
  assumes "event_inv s" "binv s" "ev_base (evs s ev)" "event_del (op_del evsel) ev s = Inr (r, s')"
  shows "event_inv s' \<and> binv s' \<and> deleted ev s s'"
proof -
  let ?reg = "has (ev_flags (evs s ev)) EVLIST_INSERTED \<or> has (ev_flags (evs s ev)) EVLIST_SIGNAL"
  have "flags_ok (ev_flags (evs s ev))"
    using assms(1) by (simp add: event_inv_def flag_inv_def)
  then obtain sa where "abort_loop ev s = Inr sa"
    using assms(3,4) by (auto simp: event_del_def)
  then have "loop_safe ev s"
    by (auto simp: abort_loop_def store_ncalls_def loop_safe_def split: if_splits)
  then obtain s1 where s1: "event_del (op_del evsel) ev s = (if ?reg then op_del evsel ev s1 else Inr (0, s1))"
    "event_inv s1" "deleted ev s s1" "evstate.more s1 = evstate.more s"
    using event_del_queues [OF assms(1,3)] by blast
  have b: "binv s1"
    using s1(3) by (intro binv_frame [OF _ s1(4) assms(2)]) (auto simp: deleted_def)
  show ?thesis
  proof (cases ?reg)
    case True
    then have "op_del evsel ev s1 = Inr (r, s')"
      using s1(1) assms(4) by simp
    from del_more [OF b this] show ?thesis
      using s1(2,3) by auto
  next
    case False
    then have "s' = s1"
      using s1(1) assms(4) by simp
    with s1(2,3) b show ?thesis by simp
  qed
qed

end

section \<open>Activating an event\<close>

definition activated :: "32 word \<Rightarrow> 16 word \<Rightarrow> event \<Rightarrow> event" where
  "activated res n e = e\<lparr>ev_res := res, ev_ncalls := n, ev_pncalls := None,
     ev_flags := or (ev_flags e) EVLIST_ACTIVE\<rparr>"

text \<open>The active queues after \<open>ev\<close>, of priority \<open>i\<close>, has joined the end of its queue.\<close>

definition joined :: "nat \<Rightarrow> int \<Rightarrow> nat list list \<Rightarrow> nat list list" where
  "joined ev p qs = qs[nat p := qs ! nat p @ [ev]]"

lemma event_active_new:
  assumes inv: "event_inv s" and base: "ev_base (evs s ev)"
    and new: "\<not> has (ev_flags (evs s ev)) EVLIST_ACTIVE"
  shows "\<exists>s'. event_active ev res n s = Inr s' \<and> event_inv s' \<and>
    evs s' = (evs s)(ev := activated res n (evs s ev)) \<and>
    activequeues s' = joined ev (ev_pri (evs s ev)) (activequeues s) \<and>
    timetree s' = timetree s \<and> eventqueue s' = eventqueue s \<and> signalqueue s' = signalqueue s \<and>
    same_rest s s' \<and> evstate.more s' = evstate.more s"
proof -
  define s1 where "s1 = upd_ev ev (\<lambda>e. e\<lparr>ev_res := res, ev_ncalls := n, ev_pncalls := None\<rparr>) s"
  have i1: "event_inv s1"
    unfolding s1_def using inv by (subst upd_ev_inv) auto
  have n1: "\<not> has (ev_flags (evs s1 ev)) EVLIST_ACTIVE"
    using new by (simp add: s1_def)
  have "pri_inv s1"
    using i1 by (simp add: event_inv_def)
  note run = insert_active [OF n1 this]
  have "event_active ev res n s = event_queue_insert ev EVLIST_ACTIVE s1"
    using new base by (simp add: event_active_def s1_def)
  then show ?thesis
    using run insert_active_inv [OF i1 n1]
    by (simp add: s1_def activated_def joined_def set_flag_def same_rest_def)
qed

lemma event_active_again:
  assumes "has (ev_flags (evs s ev)) EVLIST_ACTIVE"
  shows "event_active ev res n s = Inr (upd_ev ev (\<lambda>e. e\<lparr>ev_res := or (ev_res e) res\<rparr>) s)"
    and "event_inv (upd_ev ev (\<lambda>e. e\<lparr>ev_res := or (ev_res e) res\<rparr>) s) = event_inv s"
  using assms by (simp_all add: event_active_def upd_ev_inv)

lemma event_active_ok:
  assumes "event_inv s" "ev_base (evs s ev)"
  shows "\<exists>s'. event_active ev res n s = Inr s' \<and> event_inv s' \<and> evstate.more s' = evstate.more s \<and>
    same_rest s s' \<and> same_interest s s'"
proof (cases "has (ev_flags (evs s ev)) EVLIST_ACTIVE")
  case True
  then show ?thesis
    using event_active_again [OF True] assms(1) by (auto simp: same_rest_def same_interest_def)
next
  case False
  with event_active_new [OF assms False] show ?thesis
    by (fastforce simp: activated_def same_interest_def)
qed

section \<open>Expired timeouts\<close>

text \<open>What \<open>timeout_process\<close> makes of an event that has timed out.\<close>

definition expire :: "event \<Rightarrow> event" where
  "expire e = activated EV_TIMEOUT 1 (e\<lparr>ev_flags := deleted_flags (ev_flags e)\<rparr>)"

definition due :: "'a evstate_scheme \<Rightarrow> timeval \<Rightarrow> nat \<Rightarrow> bool" where
  "due s now e \<longleftrightarrow> \<not> timercmp_greater (ev_timeout (evs s e)) now"

text \<open>The active queues after the events \<open>xs\<close> have, in this order, moved to their ends.\<close>

definition requeued :: "(nat \<Rightarrow> event) \<Rightarrow> nat list \<Rightarrow> nat list list \<Rightarrow> nat list list" where
  "requeued E xs qs = map (\<lambda>i. filter (\<lambda>e. e \<notin> set xs) (qs ! i) @ filter (\<lambda>e. ev_pri (E e) = int i) xs)
     [0..<length qs]"

lemma requeued_Nil [simp]: "requeued E [] qs = qs"
  by (auto simp: requeued_def map_nth intro: nth_equalityI)

lemma filter_remove1_notin:
  "distinct xs \<Longrightarrow> filter (\<lambda>e. e \<notin> A) (remove1 x xs) = filter (\<lambda>e. e \<notin> insert x A) xs"
  by (simp add: distinct_remove1_removeAll removeAll_filter_not_eq) (rule filter_cong_set, auto)

lemma requeued_Cons:
  assumes "\<forall>q \<in> set qs. distinct q" "x \<notin> set xs"
    "0 \<le> ev_pri (E x)" "nat (ev_pri (E x)) < length qs" "\<And>e. ev_pri (E' e) = ev_pri (E e)"
  shows "requeued E' xs (joined x (ev_pri (E x)) (map (remove1 x) qs)) = requeued E (x # xs) qs"
proof (rule nth_equalityI)
  fix i
  assume "i < length (requeued E' xs (joined x (ev_pri (E x)) (map (remove1 x) qs)))"
  then have i: "i < length qs"
    by (simp add: requeued_def joined_def)
  then have "filter (\<lambda>e. e \<notin> set xs) (remove1 x (qs ! i)) = filter (\<lambda>e. e \<notin> set (x # xs)) (qs ! i)"
    using filter_remove1_notin [of "qs ! i" "set xs" x] assms(1) by (simp add: conj_commute)
  moreover have "nat (ev_pri (E x)) = i \<longleftrightarrow> ev_pri (E x) = int i"
    using assms(3) by auto
  ultimately show "requeued E' xs (joined x (ev_pri (E x)) (map (remove1 x) qs)) ! i =
      requeued E (x # xs) qs ! i"
    using i assms(2,4,5) by (auto simp: requeued_def joined_def nth_list_update)
qed (simp add: requeued_def joined_def)

context event_deleter
begin

text \<open>One turn of the loop, on the first event of the tree.\<close>

lemma timeout_turn:
  assumes inv: "event_inv s" and b: "binv s" and q: "timeq s = ev # rest"
    and dl: "deletable ev s"
  shows "\<exists>s1 r s2 s3. event_queue_remove ev EVLIST_TIMEOUT s = Inr s1 \<and>
    event_del (op_del evsel) ev s1 = Inr (r, s2) \<and> event_active ev EV_TIMEOUT 1 s2 = Inr s3 \<and>
    event_inv s3 \<and> binv s3 \<and> evs s3 = (evs s)(ev := expire (evs s ev)) \<and> timeq s3 = rest \<and>
    activequeues s3 = joined ev (ev_pri (evs s ev)) (map (remove1 ev) (activequeues s)) \<and>
    same_rest s s3"
proof -
  have on: "has (ev_flags (evs s ev)) EVLIST_TIMEOUT"
    using inv q by (simp add: event_inv_def tree_inv_def flag_simps)
  obtain s1 where s1: "event_queue_remove ev EVLIST_TIMEOUT s = Inr s1" "event_inv s1"
    "flag_to ev (and (ev_flags (evs s ev)) (not EVLIST_TIMEOUT)) s s1"
    using queue_remove_ok [OF inv queue_flag_intros(1) on] by blast
  note off1 = queue_remove_off [OF inv queue_flag_intros(1) on s1(1), unfolded off_queues_def]
  have b1: "binv s1"
    using s1(3) by (intro binv_frame [OF _ _ b]) (auto simp: flag_to_def frame_eq_def)
  have "deletable ev s1"
    using s1(3) dl by (simp add: deletable_def flag_to_def frame_eq_def loop_safe_def has_EVLIST
        bit_flag_update bit_EVLIST)
  from event_del_ok [OF s1(2) b1 this] obtain r s2 where s2: "event_del (op_del evsel) ev s1 = Inr (r, s2)"
    "event_inv s2" "binv s2" "deleted ev s1 s2"
    by blast
  have "ev_base (evs s2 ev)" "\<not> has (ev_flags (evs s2 ev)) EVLIST_ACTIVE"
    using s2(4) s1(3) dl by (simp_all add: deleted_def flag_to_def bit_deleted_flags has_EVLIST deletable_def)
  from event_active_new [OF s2(2) this] obtain s3 where s3:
    "event_active ev EV_TIMEOUT 1 s2 = Inr s3" "event_inv s3"
    "evs s3 = (evs s2)(ev := activated EV_TIMEOUT 1 (evs s2 ev))"
    "activequeues s3 = joined ev (ev_pri (evs s2 ev)) (activequeues s2)"
    "timetree s3 = timetree s2" "same_rest s2 s3" "evstate.more s3 = evstate.more s2"
    by blast
  have "deleted_flags (and (ev_flags (evs s ev)) (not EVLIST_TIMEOUT)) = deleted_flags (ev_flags (evs s ev))"
    by (rule bit_eqI) (auto simp: bit_deleted_flags flag_simps)
  then have "evs s3 = (evs s)(ev := expire (evs s ev))"
    using s3(3) s2(4) s1(3) by (simp add: deleted_def flag_to_def expire_def activated_def)
  moreover have "binv s3"
    using s3(3) by (intro binv_frame [OF _ s3(7) s2(3)]) (auto simp: activated_def)
  moreover have "distinct (ev # rest)"
    using inv q etree.ascending_distinct [of "evs s"] by (metis event_inv_def tree_inv_def)
  then have "timeq s3 = rest"
    using s3(5) s2(4) off1 q by (simp add: deleted_def remove1_idem)
  moreover have "activequeues s3 = joined ev (ev_pri (evs s ev)) (map (remove1 ev) (activequeues s))"
    using s3(4) s2(4) s1(3) off1 by (simp add: deleted_def flag_to_def)
  moreover have "same_rest s s3"
    using flag_to_rest [OF s1(3)] s2(4) s3(6) unfolding deleted_def by (blast intro: same_rest_trans)
  ultimately show ?thesis
    using s1 s2 s3 by blast
qed

end

text \<open>What the loop does: the due events leave the tree and join their active queues.\<close>

definition expired :: "timeval \<Rightarrow> 'a evstate_scheme \<Rightarrow> 'a evstate_scheme \<Rightarrow> bool" where
  "expired now s s' \<longleftrightarrow>
     (let xs = filter (due s now) (timeq s) in
      timeq s' = filter (\<lambda>e. \<not> due s now e) (timeq s) \<and>
      (\<forall>e. evs s' e = (if e \<in> set xs then expire (evs s e) else evs s e)) \<and>
      activequeues s' = requeued (evs s) xs (activequeues s) \<and>
      same_rest s s')"

text \<open>The due events are the first ones of the tree.\<close>

lemma due_tail:
  assumes "ascending (compare (evs s)) (ev # rest)" "\<not> due s now ev" "e \<in> set rest"
  shows "\<not> due s now e"
proof -
  have "compare (evs s) ev e < 0"
    using assms(1,3) by (simp add: ascending_def)
  with assms(2) show ?thesis
    by (auto simp: due_def compare_less_iff timercmp_greater_iff dest: timercmp_less_trans)
qed

lemma expired_stop:
  assumes "ascending (compare (evs s)) (timeq s)" "timeq s = [] \<or> \<not> due s now (hd (timeq s))"
  shows "expired now s s"
proof -
  have none: "\<not> due s now e" if "e \<in> set (timeq s)" for e
    using assms that due_tail [of s] by (cases "timeq s") auto
  then have "filter (due s now) (timeq s) = []" "filter (\<lambda>e. \<not> due s now e) (timeq s) = timeq s"
    by (auto simp: filter_empty_conv filter_id_conv)
  then show ?thesis
    by (simp add: expired_def)
qed

lemma expired_turn:
  assumes inv: "event_inv s" and q: "timeq s = ev # rest" and d: "due s now ev"
    and s1: "evs s1 = (evs s)(ev := expire (evs s ev))" "timeq s1 = rest"
      "activequeues s1 = joined ev (ev_pri (evs s ev)) (map (remove1 ev) (activequeues s))"
      "same_rest s s1"
    and s2: "expired now s1 s2"
  shows "expired now s s2"
proof -
  have parts: "active_inv s" "pri_inv s" "distinct (ev # rest)"
    using inv q etree.ascending_distinct [of "evs s"] by (metis event_inv_def tree_inv_def)+
  have dd: "due s1 now = due s now"
    by (rule ext) (simp add: s1(1) due_def expire_def activated_def)
  define xs where "xs = filter (due s now) rest"
  have xs: "filter (due s1 now) (timeq s1) = xs" "filter (due s now) (timeq s) = ev # xs"
    "ev \<notin> set xs"
    using parts(3) d by (simp_all add: xs_def s1(2) q dd)
  have "ev_pri (evs s1 e) = ev_pri (evs s e)" for e
    by (simp add: s1(1) expire_def activated_def)
  then have "requeued (evs s1) xs (activequeues s1) = requeued (evs s) (ev # xs) (activequeues s)"
    unfolding s1(3) using parts xs(3) active_index [OF parts(2), of ev]
    by (intro requeued_Cons) (auto simp: active_inv_def pri_inv_def)
  then show ?thesis
    using s2 d xs same_rest_trans [OF s1(4)]
    by (auto simp: expired_def Let_def q s1(1,2) dd)
qed

context event_deleter
begin

lemma timeout_loop_ok:
  assumes "event_inv s" "binv s" "length (timeq s) \<le> n"
    "\<forall>e \<in> set (timeq s). deletable e s"
  shows "\<exists>s'. timeout_loop evsel n now (first_of (timeq s)) s = Inr s' \<and>
    event_inv s' \<and> binv s' \<and> expired now s s'"
  using assms
proof (induction n arbitrary: s)
  case 0
  then have "expired now s s"
    by (intro expired_stop) (auto simp: event_inv_def tree_inv_def)
  with 0 show ?case by (simp add: first_of_def)
next
  case (Suc n)
  have asc: "ascending (compare (evs s)) (timeq s)"
    using Suc.prems(1) by (simp add: event_inv_def tree_inv_def)
  show ?case
  proof (cases "timeq s = [] \<or> \<not> due s now (hd (timeq s))")
    case True
    then have "expired now s s"
      by (intro expired_stop asc)
    moreover have "timeout_loop evsel (Suc n) now (first_of (timeq s)) s = Inr s"
      using True by (cases "timeq s") (auto simp: first_of_def due_def)
    ultimately show ?thesis
      using Suc.prems(1,2) by blast
  next
    case False
    then obtain ev rest where q: "timeq s = ev # rest" and d: "due s now ev"
      by (cases "timeq s") auto
    obtain s1 r s2 s3 where t: "event_queue_remove ev EVLIST_TIMEOUT s = Inr s1"
      "event_del (op_del evsel) ev s1 = Inr (r, s2)" "event_active ev EV_TIMEOUT 1 s2 = Inr s3"
      "event_inv s3" "binv s3" "evs s3 = (evs s)(ev := expire (evs s ev))" "timeq s3 = rest"
      "activequeues s3 = joined ev (ev_pri (evs s ev)) (map (remove1 ev) (activequeues s))"
      "same_rest s s3"
      using timeout_turn [OF Suc.prems(1,2) q] Suc.prems(4) q by (metis list.set_intros(1))
    have dist: "distinct (timeq s)"
      using etree.ascending_distinct asc by blast
    have "rb_next (timetree s) ev = first_of (timeq s3)"
      using next_ok [OF dist, of "[]" ev rest] q t(7) by simp
    then have run: "timeout_loop evsel (Suc n) now (first_of (timeq s)) s =
        timeout_loop evsel n now (first_of (timeq s3)) s3"
      using d t(1-3) by (simp add: q first_of_def due_def)
    have ns: "ev \<notin> set rest"
      using dist q by simp
    have "\<forall>e \<in> set (timeq s3). deletable e s3"
    proof
      fix e
      assume "e \<in> set (timeq s3)"
      then have e: "e \<noteq> ev" "e \<in> set (timeq s)"
        using ns by (auto simp: t(7) q)
      then have same: "evs s3 e = evs s e"
        by (simp add: t(6))
      have "dom (ncalls_vars s3) = dom (ncalls_vars s)"
        using t(9) by (simp add: same_rest_def)
      then have "ncalls_vars s3 a = None \<longleftrightarrow> ncalls_vars s a = None" for a
        by (metis domIff)
      moreover have "deletable e s"
        using e(2) Suc.prems(4) by blast
      ultimately show "deletable e s3"
        by (simp add: deletable_def loop_safe_def same)
    qed
    moreover have "length (timeq s3) \<le> n"
      using Suc.prems(3) by (simp add: q t(7))
    ultimately obtain s' where s': "timeout_loop evsel n now (first_of (timeq s3)) s3 = Inr s'"
      "event_inv s'" "binv s'" "expired now s3 s'"
      using Suc.IH [OF t(4,5)] by blast
    have "expired now s s'"
      using expired_turn [OF Suc.prems(1) q d t(6-9) s'(4)] .
    with run s' show ?thesis by auto
  qed
qed

lemma timeout_process_ok:
  assumes "event_inv s" "binv s" "\<forall>e \<in> set (timeq s). deletable e s"
  shows "\<exists>s'. timeout_process evsel s = Inr s' \<and> event_inv s' \<and> binv s' \<and>
    expired (clock s (ticks s)) (s\<lparr>ticks := Suc (ticks s)\<rparr>) s'"
proof -
  let ?s = "s\<lparr>ticks := Suc (ticks s)\<rparr>"
  have "binv ?s"
    by (rule binv_frame [OF _ _ assms(2)]) (simp_all add: same_interest_def)
  moreover have "\<forall>e \<in> set (timeq ?s). deletable e ?s"
    using assms(3) by (simp add: deletable_def loop_safe_def)
  ultimately show ?thesis
    using timeout_loop_ok [of ?s "length (timeq s)" "clock s (ticks s)"] assms(1)
    by (simp add: timeout_process_def gettimeofday_def rb_min_first)
qed

end

section \<open>The time to wait\<close>

lemma timeout_next_ok:
  assumes inv: "event_inv s" and valid: "\<forall>e. valid_tv (ev_timeout (evs s e))" "\<forall>k. valid_tv (clock s k)"
  shows "timeout_next s = Inr (case timeq s of
      [] \<Rightarrow> (TIMEOUT_DEFAULT, s)
    | ev # _ \<Rightarrow> (if timercmp_less (clock s (ticks s)) (ev_timeout (evs s ev))
          then timersub (ev_timeout (evs s ev)) (clock s (ticks s)) else timerclear,
        s\<lparr>ticks := Suc (ticks s)\<rparr>))"
proof (cases "timeq s")
  case Nil
  then show ?thesis
    by (simp add: timeout_next_def rb_min_first first_of_def)
next
  case (Cons ev rest)
  show ?thesis
  proof (cases "timercmp_less (clock s (ticks s)) (ev_timeout (evs s ev))")
    case True
    then have "\<not> timercmp_less (ev_timeout (evs s ev)) (clock s (ticks s))"
      by (auto dest: timercmp_less_trans)
    with timersub_nonneg [OF _ _ this] valid Cons True show ?thesis
      by (simp add: timeout_next_def rb_min_first first_of_def gettimeofday_def timercmp_le_iff Let_def)
  next
    case False
    with Cons show ?thesis
      by (simp add: timeout_next_def rb_min_first first_of_def gettimeofday_def timercmp_le_iff Let_def)
  qed
qed

section \<open>A clock that goes backwards\<close>

lemma fold_upd_ev:
  assumes "distinct xs"
  shows "fold (\<lambda>ev. upd_ev ev f) xs s = s\<lparr>evs := \<lambda>e. if e \<in> set xs then f (evs s e) else evs s e\<rparr>"
  using assms
proof (induction xs arbitrary: s)
  case Nil
  then show ?case by simp
next
  case (Cons x xs)
  then show ?case
    by (auto simp: upd_ev_def fun_eq_iff intro!: arg_cong [where f = "\<lambda>E. s\<lparr>evs := E\<rparr>"])
qed

lemma timeout_correct_ok:
  assumes inv: "event_inv s" and valid: "\<forall>e. valid_tv (ev_timeout (evs s e))" "valid_tv off"
  shows "\<exists>s'. timeout_correct off s = Inr s' \<and> event_inv s' \<and>
    s' = s\<lparr>evs := \<lambda>e. if e \<in> set (timeq s)
      then (evs s e)\<lparr>ev_timeout := timersub (ev_timeout (evs s e)) off\<rparr> else evs s e\<rparr>"
proof -
  define s' where "s' = s\<lparr>evs := \<lambda>e. if e \<in> set (timeq s)
      then (evs s e)\<lparr>ev_timeout := timersub (ev_timeout (evs s e)) off\<rparr> else evs s e\<rparr>"
  have asc: "ascending (compare (evs s)) (timeq s)"
    using inv by (simp add: event_inv_def tree_inv_def)
  then have dist: "distinct (timeq s)"
    using etree.ascending_distinct by blast
  have "compare (evs s') x y < 0 \<longleftrightarrow> compare (evs s) x y < 0"
    if "x \<in> set (timeq s)" "y \<in> set (timeq s)" for x y
    using that valid by (simp add: s'_def compare_less_iff timersub_mono timersub_inject)
  then have "ascending (compare (evs s')) (timeq s)"
    using asc sorted_wrt_cong_set [of "timeq s" "\<lambda>x y. compare (evs s') x y < 0" "\<lambda>x y. compare (evs s) x y < 0"]
    by (simp add: ascending_def)
  moreover have "ev_flags (evs s' e) = ev_flags (evs s e)" "ev_pri (evs s' e) = ev_pri (evs s e)" for e
    by (simp_all add: s'_def)
  moreover from this have "counted s' = counted s"
    by (simp add: counted_def fun_eq_iff)
  ultimately have "event_inv s'"
    using inv by (simp add: event_inv_def tree_inv_def io_inv_def sig_inv_def active_inv_def
        in_active_def pri_inv_def flag_inv_def count_inv_def ncounted_def nactivequeues_def)
      (simp add: s'_def)
  moreover have "timeout_correct off s = Inr s'"
    by (simp add: timeout_correct_def foreach_ok [OF dist] fold_upd_ev [OF dist] s'_def)
  ultimately show ?thesis
    unfolding s'_def by blast
qed

end
