(* ===== verification/EventLoop.thy ===== *)
theory EventLoop
  imports EventBackend
begin

text \<open>
  The operations of \<open>event.c\<close> that go through the back end: \<open>event_add\<close>, the callback loop
  \<open>event_process_active\<close> and \<open>event_base_loop\<close>. The locale \<open>event_backend\<close> extends
  \<open>event_deleter\<close> by the contracts of \<open>add\<close>, \<open>recalc\<close> and \<open>dispatch\<close>; from them every
  operation keeps the invariant.
\<close>

section \<open>Steps the back end cannot see\<close>

definition valid_times :: "'a evstate_scheme \<Rightarrow> bool" where
  "valid_times s \<longleftrightarrow> (\<forall>e. valid_tv (ev_timeout (evs s e))) \<and> (\<forall>k. valid_tv (clock s k)) \<and>
     valid_tv (event_tv s)"

definition core_inv :: "'a evstate_scheme \<Rightarrow> bool" where
  "core_inv s \<longleftrightarrow> event_inv s \<and> valid_times s"

definition quiet :: "'a evstate_scheme \<Rightarrow> 'a evstate_scheme \<Rightarrow> bool" where
  "quiet s s' \<longleftrightarrow> same_interest s s' \<and> evstate.more s' = evstate.more s \<and> (valid_times s \<longrightarrow> valid_times s')"

lemma quiet_refl [simp]: "quiet s s"
  by (simp add: quiet_def same_interest_def)

lemma quiet_trans: "quiet s s' \<Longrightarrow> quiet s' s'' \<Longrightarrow> quiet s s''"
  by (simp add: quiet_def same_interest_def)

lemma quiet_fields [simp]:
  "quiet s (s\<lparr>ticks := k\<rparr>)" "quiet s (s\<lparr>ncalls_vars := V\<rparr>)" "valid_tv t \<Longrightarrow> quiet s (s\<lparr>event_tv := t\<rparr>)"
  "quiet s (s\<lparr>event_gotterm := g\<rparr>)" "quiet s (s\<lparr>event_gotsig := b\<rparr>)"
  "quiet s (s\<lparr>next_var := v, ncalls_vars := V\<rparr>)" "quiet s (s\<lparr>onces := x\<rparr>)"
  by (simp_all add: quiet_def same_interest_def valid_times_def)

lemma quiet_upd:
  "(\<And>e. ev_fd (f e) = ev_fd e \<and> ev_events (f e) = ev_events e \<and> ev_base (f e) = ev_base e) \<Longrightarrow>
    (\<And>e. ev_timeout (f e) = ev_timeout e) \<Longrightarrow> quiet s (upd_ev ev f s)"
  by (simp add: quiet_def same_interest_def valid_times_def)

lemma quiet_flag_to: "flag_to ev f s s' \<Longrightarrow> quiet s s'"
  by (simp add: quiet_def same_interest_def flag_to_def frame_eq_def valid_times_def)

lemma quiet_deleted: "deleted ev s s' \<Longrightarrow> evstate.more s' = evstate.more s \<Longrightarrow> quiet s s'"
  by (simp add: quiet_def same_interest_def deleted_def same_rest_def valid_times_def)

lemma queue_insert_quiet:
  assumes "event_inv s" "queue_flag q" "event_queue_insert ev q s = Inr s'"
  shows "event_inv s'" "quiet s s'"
proof -
  show "event_inv s'"
    using queue_step_inv(1) assms by blast
  show "quiet s s'"
  proof (cases "has (ev_flags (evs s ev)) q")
    case True
    with assms(3) show ?thesis
      by (simp add: event_queue_insert_def split: if_splits)
  next
    case False
    with queue_insert_ok [OF assms(1,2) False] assms(3) show ?thesis
      by (auto intro: quiet_flag_to)
  qed
qed

lemma queue_remove_quiet:
  assumes "event_inv s" "queue_flag q" "event_queue_remove ev q s = Inr s'"
  shows "event_inv s'" "quiet s s'"
proof -
  show "event_inv s'"
    using queue_step_inv(2) assms by blast
  have "has (ev_flags (evs s ev)) q"
    using assms(3) by (auto simp: event_queue_remove_def split: if_splits)
  with queue_remove_ok [OF assms(1,2) this] assms(3) show "quiet s s'"
    by (auto intro: quiet_flag_to)
qed

lemma abort_loop_quiet: "event_inv s \<Longrightarrow> abort_loop ev s = Inr s' \<Longrightarrow> event_inv s' \<and> quiet s s'"
  using abort_loop_inv abort_loop_vars by fastforce

lemma event_add_timeout_quiet:
  assumes "event_inv s" "addable tv" "event_add_timeout ev tv s = Inr s'"
  shows "quiet s s'"
proof -
  obtain s1 s2 where s1: "(if has (ev_flags (evs s ev)) EVLIST_TIMEOUT
      then event_queue_remove ev EVLIST_TIMEOUT s else Inr s) = Inr s1"
    and s2: "(if has (ev_flags (evs s1 ev)) EVLIST_ACTIVE \<and> has (ev_res (evs s1 ev)) EV_TIMEOUT
      then bnd (abort_loop ev s1) (event_queue_remove ev EVLIST_ACTIVE) else Inr s1) = Inr s2"
    and s3: "event_queue_insert ev EVLIST_TIMEOUT (upd_ev ev (\<lambda>e. e\<lparr>ev_timeout :=
      timeradd (clock s2 (ticks s2)) tv\<rparr>) (s2\<lparr>ticks := Suc (ticks s2)\<rparr>)) = Inr s'"
    using assms(3) by (auto simp: event_add_timeout_def gettimeofday_def Let_def)
  have 1: "event_inv s1 \<and> quiet s s1"
    using s1 assms(1) queue_remove_quiet [OF assms(1) queue_flag_intros(1)] by (auto split: if_splits)
  have 2: "event_inv s2 \<and> quiet s1 s2"
  proof (cases "timed_out (evs s1 ev)")
    case True
    then obtain sa where sa: "abort_loop ev s1 = Inr sa" "event_queue_remove ev EVLIST_ACTIVE sa = Inr s2"
      using s2 by (auto simp: timed_out_def)
    with 1 abort_loop_quiet [of s1 ev sa] queue_remove_quiet [OF _ queue_flag_intros(4) sa(2)] show ?thesis
      by (blast intro: quiet_trans)
  next
    case False
    with s2 1 show ?thesis by (auto simp: timed_out_def)
  qed
  have off: "\<not> has (ev_flags (evs s2 ev)) EVLIST_TIMEOUT"
    using s3 by (auto simp: event_queue_insert_def flag_simps split: if_splits)
  let ?s3 = "upd_ev ev (\<lambda>e. e\<lparr>ev_timeout := timeradd (clock s2 (ticks s2)) tv\<rparr>) (s2\<lparr>ticks := Suc (ticks s2)\<rparr>)"
  have "event_inv ?s3"
    using 2 off by (intro set_timeout_inv) auto
  from queue_insert_quiet(2) [OF this queue_flag_intros(1) s3] have "quiet ?s3 s'" .
  moreover have "quiet s2 ?s3"
    using assms(2) by (simp add: quiet_def same_interest_def valid_times_def valid_timeradd_addable)
  ultimately show ?thesis
    using 1 2 by (blast intro: quiet_trans)
qed

section \<open>The contract of a back end\<close>

text \<open>\<open>event_adder\<close> is the contract of \<open>add\<close>; \<open>event_backend\<close> is that of the whole table.\<close>

locale event_adder = event_frame binv
  for binv :: "'a evstate_scheme \<Rightarrow> bool" +
  fixes add :: "nat \<Rightarrow> 'a evstate_scheme \<Rightarrow> (int \<times> 'a evstate_scheme) outcome"
  assumes add_inv: "core_inv s \<Longrightarrow> binv s \<Longrightarrow>
      has (ev_events (evs s ev)) (or EV_READ EV_WRITE) \<or> has (ev_events (evs s ev)) EV_SIGNAL \<Longrightarrow>
      add ev s = Inr (r, s') \<Longrightarrow> core_inv s' \<and> binv s' \<and> same_interest s s'"
begin

lemma keeps_quiet: "core_inv s \<Longrightarrow> binv s \<Longrightarrow> quiet s s' \<Longrightarrow> event_inv s' \<Longrightarrow>
    core_inv s' \<and> binv s' \<and> same_interest s s'"
  unfolding core_inv_def quiet_def using binv_frame by blast

lemma event_add_keeps:
  assumes g: "core_inv s" "binv s" and tv: "\<And>t. tv = Some t \<Longrightarrow> addable t"
    and run: "event_add add ev tv s = Inr (r, s')"
  shows "core_inv s' \<and> binv s' \<and> same_interest s s'"
proof -
  have inv: "event_inv s"
    using g(1) by (simp add: core_inv_def)
  obtain s1 where s1: "(case tv of None \<Rightarrow> Inr s | Some tv \<Rightarrow> event_add_timeout ev tv s) = Inr s1"
    and io: "event_add_io add ev s1 = Inr (r, s')"
    using run by (auto simp: event_add_def split: if_splits)
  have 1: "core_inv s1 \<and> binv s1 \<and> same_interest s s1"
  proof (cases tv)
    case None
    with s1 g show ?thesis by (simp add: same_interest_def)
  next
    case (Some t)
    with s1 have "event_add_timeout ev t s = Inr s1"
      by simp
    with tv [OF Some] show ?thesis
      using event_add_timeout_inv event_add_timeout_quiet inv keeps_quiet [OF g] by blast
  qed
  then have i1: "event_inv s1"
    by (simp add: core_inv_def)
  have step: "core_inv s' \<and> binv s' \<and> same_interest s s'"
    if "queue_flag q" "event_queue_insert ev q s1 = Inr s2" "add ev s2 = Inr (r, s')"
      "has (ev_events (evs s1 ev)) (or EV_READ EV_WRITE) \<or> has (ev_events (evs s1 ev)) EV_SIGNAL" for q s2
  proof -
    have q: "event_inv s2" "quiet s1 s2"
      using queue_insert_quiet [OF i1 that(1,2)] by blast+
    then have "core_inv s2 \<and> binv s2 \<and> same_interest s1 s2"
      using keeps_quiet 1 by blast
    moreover have "ev_events (evs s2 ev) = ev_events (evs s1 ev)"
      using q(2) by (simp add: quiet_def same_interest_def)
    ultimately have "core_inv s' \<and> binv s' \<and> same_interest s2 s'" "same_interest s1 s2"
      using add_inv [OF _ _ _ that(3)] that(4) by auto
    then show ?thesis
      using 1 same_interest_trans by blast
  qed
  show ?thesis
    using io 1 step [of EVLIST_INSERTED] step [of EVLIST_SIGNAL]
    by (auto simp: event_add_io_def split: if_splits)
qed

end

locale event_backend = event_deleter binv evsel + event_adder binv "op_add evsel"
  for binv :: "'a evstate_scheme \<Rightarrow> bool" and evsel +
  assumes recalc_inv: "core_inv s \<Longrightarrow> binv s \<Longrightarrow> op_recalc evsel k s = Inr (r, s') \<Longrightarrow> core_inv s' \<and> binv s'"
    and dispatch_inv: "core_inv s \<Longrightarrow> binv s \<Longrightarrow> op_dispatch evsel tv s = Inr (r, s') \<Longrightarrow>
      core_inv s' \<and> binv s'"

context event_deleter
begin

definition good :: "'a evstate_scheme \<Rightarrow> bool" where
  "good s \<longleftrightarrow> core_inv s \<and> binv s"

lemma goodD: "good s \<Longrightarrow> event_inv s" "good s \<Longrightarrow> binv s" "good s \<Longrightarrow> valid_times s"
  by (simp_all add: good_def core_inv_def)

lemma good_quiet: "good s \<Longrightarrow> quiet s s' \<Longrightarrow> event_inv s' \<Longrightarrow> good s'"
  unfolding good_def core_inv_def quiet_def using binv_frame by blast

lemma event_del_good:
  assumes g: "good s" and run: "event_del (op_del evsel) ev s = Inr (r, s')"
  shows "good s'"
proof (cases "ev_base (evs s ev)")
  case True
  from event_del_returns [OF goodD(1,2) [OF g] True run]
  have "event_inv s'" "binv s'" "deleted ev s s'"
    by auto
  then show ?thesis
    using goodD(3) [OF g] by (simp add: good_def core_inv_def valid_times_def deleted_def same_rest_def)
next
  case False
  with assms show ?thesis by (simp add: event_del_def)
qed

lemma event_active_good:
  assumes g: "good s" and run: "event_active ev res n s = Inr s'"
  shows "good s'"
proof (cases "has (ev_flags (evs s ev)) EVLIST_ACTIVE")
  case True
  with g run event_active_again [OF True] show ?thesis
    using good_quiet [OF g quiet_upd] goodD(1) [OF g] by auto
next
  case False
  then have "ev_base (evs s ev)"
    using run by (auto simp: event_active_def Let_def split: if_splits)
  with event_active_new [OF goodD(1) [OF g] this False, of res n] run have "event_inv s'" "quiet s s'"
    by (auto simp: quiet_def same_rest_def activated_def valid_times_def)
  with good_quiet [OF g] show ?thesis by blast
qed

end

context event_backend
begin

lemma event_add_good:
  assumes "good s" "\<And>t. tv = Some t \<Longrightarrow> addable t" "event_add (op_add evsel) ev tv s = Inr (r, s')"
  shows "good s'"
  using event_add_keeps assms unfolding good_def by blast

lemma timeout_loop_good:
  "good s \<Longrightarrow> timeout_loop evsel n now cur s = Inr s' \<Longrightarrow> good s'"
proof (induction n arbitrary: cur s)
  case 0
  then show ?case by (cases cur) auto
next
  case (Suc n)
  show ?case
  proof (cases "cur = None \<or> timercmp_greater (ev_timeout (evs s (the cur))) now")
    case True
    with Suc.prems show ?thesis by (cases cur) auto
  next
    case False
    then obtain ev s1 r s2 s3 where st: "event_queue_remove ev EVLIST_TIMEOUT s = Inr s1"
      "event_del (op_del evsel) ev s1 = Inr (r, s2)" "event_active ev EV_TIMEOUT 1 s2 = Inr s3"
      "timeout_loop evsel n now (rb_next (timetree s) ev) s3 = Inr s'"
      using Suc.prems(2) by (auto simp: Let_def)
    have "good s1"
      using queue_remove_quiet [OF goodD(1) [OF Suc.prems(1)] queue_flag_intros(1) st(1)]
        good_quiet [OF Suc.prems(1)] by blast
    from event_active_good [OF event_del_good [OF this st(2)] st(3)] show ?thesis
      by (rule Suc.IH [OF _ st(4)])
  qed
qed

lemma timeout_process_good:
  assumes "good s" "timeout_process evsel s = Inr s'"
  shows "good s'"
  using timeout_loop_good [OF good_quiet [OF assms(1) quiet_fields(1)]] goodD(1) [OF assms(1)] assms(2)
  by (simp add: timeout_process_def gettimeofday_def)

end

section \<open>Callbacks and the loop\<close>

text \<open>Other changes of the state that the invariants do not read.\<close>

lemma same_core_fields [simp]:
  "event_inv (s\<lparr>event_gotterm := g\<rparr>) = event_inv s" "event_inv (s\<lparr>event_gotsig := b\<rparr>) = event_inv s"
  "event_inv (s\<lparr>event_tv := t\<rparr>) = event_inv s" "event_inv (s\<lparr>ncalls_vars := V\<rparr>) = event_inv s"
  "event_inv (s\<lparr>next_var := v, ncalls_vars := V\<rparr>) = event_inv s" "event_inv (s\<lparr>onces := x\<rparr>) = event_inv s"
  "event_inv (s\<lparr>next_var := v\<rparr>) = event_inv s"
  by (rule same_core_inv, simp add: same_core_def)+

lemma timeout_next_quiet: "timeout_next s = Inr (tv, s') \<Longrightarrow> s' = s \<or> s' = s\<lparr>ticks := Suc (ticks s)\<rparr>"
  by (auto simp: timeout_next_def gettimeofday_def Let_def split: option.splits if_splits)

lemma timeout_correct_quiet:
  assumes "event_inv s" "valid_tv off" "timeout_correct off s = Inr s'"
  shows "quiet s s'"
proof -
  have "distinct (timeq s)"
    using assms(1) etree.ascending_distinct [of "evs s"] by (metis event_inv_def tree_inv_def)
  then show ?thesis
    using assms(2,3)
    by (simp add: timeout_correct_def foreach_ok fold_upd_ev quiet_def same_interest_def
        valid_times_def valid_timersub) (auto simp: valid_timersub split: if_splits)
qed

context event_backend
begin

definition good_callbacks :: "('a evstate_scheme) callbacks \<Rightarrow> bool" where
  "good_callbacks cbs \<longleftrightarrow> (\<forall>cb fd res arg s s'. good s \<longrightarrow> cbs cb fd res arg s = Inr s' \<longrightarrow> good s')"

lemma good_fields [simp]:
  "good s \<Longrightarrow> good (s\<lparr>ticks := k\<rparr>)" "good s \<Longrightarrow> good (s\<lparr>event_gotterm := g\<rparr>)"
  "good s \<Longrightarrow> good (s\<lparr>event_gotsig := b\<rparr>)" "good s \<Longrightarrow> valid_tv t \<Longrightarrow> good (s\<lparr>event_tv := t\<rparr>)"
  "good s \<Longrightarrow> good (s\<lparr>ncalls_vars := V\<rparr>)" "good s \<Longrightarrow> good (s\<lparr>next_var := v, ncalls_vars := V\<rparr>)"
  "good s \<Longrightarrow> good (s\<lparr>onces := x\<rparr>)"
  using good_quiet [of s] goodD(1) [of s] by (metis quiet_fields same_core_fields clock_inv)+

lemma good_upd:
  assumes "good s"
    "\<And>e. ev_flags (f e) = ev_flags e \<and> ev_pri (f e) = ev_pri e \<and> ev_timeout (f e) = ev_timeout e"
    "\<And>e. ev_fd (f e) = ev_fd e \<and> ev_events (f e) = ev_events e \<and> ev_base (f e) = ev_base e"
  shows "good (upd_ev ev f s)"
  using assms good_quiet [OF assms(1) quiet_upd] goodD(1) [OF assms(1)] by (simp add: upd_ev_inv)

lemma run_callback_good:
  assumes "good_callbacks cbs" "good s" "run_callback cbs cb fd res arg s = Inr s'"
  shows "good s'"
proof -
  have cb: "good s2" if "cbs c f r a s1 = Inr s2" "good s1" for c f r a s1 s2
    using assms(1) that unfolding good_callbacks_def by blast
  have once: "good s'" if once: "event_once_cb cbs fd res arg s = Inr s'"
  proof -
    obtain rec where rec: "onces s arg = Some rec"
      using once by (cases "onces s arg") (auto simp: event_once_cb_def)
    with once obtain s1 where s1: "(if once_cb rec = CB_loopexit then Inr (event_loopexit_cb s)
        else cbs (once_cb rec) fd res (once_arg rec) s) = Inr s1"
      "s' = s1\<lparr>onces := (onces s1)(arg := None)\<rparr>"
      by (auto simp: event_once_cb_def)
    then have "good s1"
      using assms(2) cb by (auto simp: event_loopexit_cb_def split: if_splits)
    with s1(2) show ?thesis by simp
  qed
  show ?thesis
    using assms(2,3) cb once by (auto simp: run_callback_def event_loopexit_cb_def split: if_splits)
qed

lemma call_loop_good:
  "good_callbacks cbs \<Longrightarrow> good s \<Longrightarrow> call_loop cbs n ev v s = Inr s' \<Longrightarrow> good s'"
proof (induction n arbitrary: s)
  case (Suc n)
  from Suc.prems(3) obtain k where k: "ncalls_vars s v = Some k"
    by (cases "ncalls_vars s v") auto
  show ?case
  proof (cases "k = 0")
    case False
    let ?s = "upd_ev ev (\<lambda>e. e\<lparr>ev_ncalls := k - 1\<rparr>) (s\<lparr>ncalls_vars := (ncalls_vars s)(v \<mapsto> k - 1)\<rparr>)"
    obtain s1 where s1: "run_callback cbs (ev_callback (evs ?s ev)) (ev_fd (evs ?s ev))
        (ucast (ev_res (evs ?s ev))) (ev_arg (evs ?s ev)) ?s = Inr s1" "call_loop cbs n ev v s1 = Inr s'"
      using Suc.prems(3) k False by (auto simp: Let_def)
    have "good ?s"
      using Suc.prems(2) by (intro good_upd) auto
    from run_callback_good [OF Suc.prems(1) this s1(1)] show ?thesis
      using Suc.IH [OF Suc.prems(1) _ s1(2)] by blast
  qed (use Suc.prems k in auto)
qed simp

lemma active_loop_good:
  "good_callbacks cbs \<Longrightarrow> good s \<Longrightarrow> active_loop cbs n i v s = Inr s' \<Longrightarrow> good s'"
proof (induction n arbitrary: s)
  case (Suc n)
  show ?case
  proof (cases "activequeues s ! i")
    case Nil
    with Suc.prems show ?thesis by (auto split: if_splits)
  next
    case (Cons ev q)
    then obtain s1 where s1: "event_queue_remove ev EVLIST_ACTIVE s = Inr s1"
      and run: "bnd (call_loop cbs n ev v (upd_ev ev (\<lambda>e. e\<lparr>ev_pncalls := Some v\<rparr>)
        (s1\<lparr>ncalls_vars := (ncalls_vars s1)(v \<mapsto> ev_ncalls (evs s1 ev))\<rparr>)))
        (active_loop cbs n i v) = Inr s'"
      using Suc.prems(3) by (auto simp: Let_def split: if_splits)
    let ?s = "upd_ev ev (\<lambda>e. e\<lparr>ev_pncalls := Some v\<rparr>)
        (s1\<lparr>ncalls_vars := (ncalls_vars s1)(v \<mapsto> ev_ncalls (evs s1 ev))\<rparr>)"
    have "event_inv s"
      using goodD(1) [OF Suc.prems(2)] .
    from queue_remove_quiet [OF this queue_flag_intros(4) s1] have "good s1"
      using good_quiet [OF Suc.prems(2)] by blast
    then have g: "good ?s"
      by (intro good_upd) auto
    obtain s2 where s2: "call_loop cbs n ev v ?s = Inr s2" "active_loop cbs n i v s2 = Inr s'"
      using run by auto
    show ?thesis
      using Suc.IH [OF Suc.prems(1) call_loop_good [OF Suc.prems(1) g s2(1)] s2(2)] .
  qed
qed simp

lemma event_process_active_good:
  assumes "good_callbacks cbs" "good s" "event_process_active cbs n s = Inr s'"
  shows "good s'"
proof (cases "event_count_active s = 0")
  case True
  with assms(2,3) show ?thesis by (simp add: event_process_active_def)
next
  case False
  then obtain i s1 where s1: "active_loop cbs n i (next_var s)
      (s\<lparr>next_var := Suc (next_var s), ncalls_vars := (ncalls_vars s)(next_var s \<mapsto> 0)\<rparr>) = Inr s1"
    "s' = s1\<lparr>ncalls_vars := (ncalls_vars s1)(next_var s := None)\<rparr>"
    using assms(3) by (auto simp: event_process_active_def Let_def split: option.splits)
  have "good s1"
    using active_loop_good [OF assms(1) _ s1(1)] assms(2) by simp
  with s1(2) show ?thesis by simp
qed

text \<open>\<open>event_sigcb\<close> may do what a callback may do.\<close>

definition good_sigcb :: "('a evstate_scheme \<Rightarrow> (int \<times> 'a evstate_scheme) outcome) option \<Rightarrow> bool" where
  "good_sigcb f \<longleftrightarrow> (\<forall>g s r s'. f = Some g \<longrightarrow> good s \<longrightarrow> g s = Inr (r, s') \<longrightarrow> good s')"

lemma sig_loop_good:
  "good_sigcb f \<Longrightarrow> good s \<Longrightarrow> sig_loop f n s = Inr (b, s') \<Longrightarrow> good s'"
proof (induction n arbitrary: s)
  case (Suc n)
  show ?case
  proof (cases "event_gotsig s")
    case True
    show ?thesis
    proof (cases f)
      case None
      with True Suc.prems(3) have "sig_loop f n (s\<lparr>event_gotsig := False\<rparr>) = Inr (b, s')"
        by simp
      then show ?thesis
        by (rule Suc.IH [OF Suc.prems(1) good_fields(3) [OF Suc.prems(2)]])
    next
      case (Some g)
      with True Suc.prems(3) obtain r s1 where s1: "g (s\<lparr>event_gotsig := False\<rparr>) = Inr (r, s1)"
        "(if r = - 1 then Inr (True, s1) else sig_loop f n s1) = Inr (b, s')"
        by (auto simp: Let_def)
      have "good (s\<lparr>event_gotsig := False\<rparr>)"
        using Suc.prems(2) by simp
      then have "good s1"
        using Suc.prems(1) Some s1(1) unfolding good_sigcb_def by blast
      with s1(2) Suc.IH [OF Suc.prems(1)] show ?thesis
        by (auto split: if_splits)
    qed
  next
    case False
    with Suc.prems show ?thesis by simp
  qed
qed simp

lemma correct_good:
  assumes g: "good s" and off: "valid_tv off" and run: "timeout_correct off s = Inr s'"
  shows "good s'"
proof -
  have "event_inv s'"
    using timeout_correct_ok [OF goodD(1) [OF g] _ off] goodD(3) [OF g] run
    by (auto simp: valid_times_def)
  with timeout_correct_quiet [OF goodD(1) [OF g] off run] good_quiet [OF g] show ?thesis by blast
qed

text \<open>One iteration at a time: the loop keeps the invariants until it returns.\<close>

lemma event_base_loop_good:
  assumes cbs: "good_callbacks cbs" and sig: "good_sigcb f"
  shows "good s \<Longrightarrow> event_base_loop evsel cbs f n flags s = Inr (r, s') \<Longrightarrow> good s'"
proof (induction n arbitrary: s)
  case 0
  then show ?case by simp
next
  case (Suc n)
  obtain r1 s1 where s1: "op_recalc evsel 0 s = Inr (r1, s1)"
    using Suc.prems(2) by auto
  have g1: "good s1"
    using recalc_inv [OF _ _ s1] Suc.prems(1) by (simp add: good_def)
  show ?case
  proof (cases "r1 = - 1 \<or> event_gotterm s1 \<noteq> 0")
    case True
    with s1 Suc.prems(2) g1 show ?thesis by (auto split: if_splits)
  next
    case False
    then obtain b s2 where s2: "sig_loop f n s1 = Inr (b, s2)"
      using s1 Suc.prems(2) by auto
    have g2: "good s2"
      using sig_loop_good [OF sig g1 s2] .
    let ?now = "clock s2 (ticks s2)"
    let ?s2 = "s2\<lparr>ticks := Suc (ticks s2)\<rparr>"
    have v: "valid_tv ?now" "valid_tv (event_tv s2)"
      using goodD(3) [OF g2] by (simp_all add: valid_times_def)
    show ?thesis
    proof (cases b)
      case True
      with s1 s2 False Suc.prems(2) g2 show ?thesis by auto
    next
      case b: False
      then obtain s3 where s3: "(if timercmp_less ?now (event_tv s2)
          then timeout_correct (timersub (event_tv ?s2) ?now) ?s2 else Inr ?s2) = Inr s3"
        using s1 s2 False Suc.prems(2) by (auto simp: gettimeofday_def)
      have g3: "good (s3\<lparr>event_tv := ?now\<rparr>)" (is "good ?s3")
        using s3 g2 correct_good [OF _ valid_timersub [OF v(2,1)], of ?s2 s3] v(1)
        by (auto split: if_splits)
      obtain tv s4 where s4: "(if event_count_active ?s3 = 0 \<and> \<not> has flags EVLOOP_NONBLOCK
          then timeout_next ?s3 else Inr (timerclear, ?s3)) = Inr (tv, s4)"
        and rest: "(if \<not> event_haveevents s4 then Inr (1, s4)
          else bnd (op_dispatch evsel tv s4) (\<lambda>(res, s).
            if res = - 1 then Inr (- 1, s)
            else bnd (timeout_process evsel s) (\<lambda>s.
            if event_count_active s \<noteq> 0 then
              bnd (event_process_active cbs n s) (\<lambda>s.
                if event_count_active s = 0 \<and> has flags EVLOOP_ONCE then Inr (0, s)
                else event_base_loop evsel cbs f n flags s)
            else if has flags EVLOOP_NONBLOCK then Inr (0, s)
            else event_base_loop evsel cbs f n flags s))) = Inr (r, s')"
        using s1 s2 False b s3 Suc.prems(2) by (auto simp: gettimeofday_def Let_def)
      have g4: "good s4"
        using s4 g3 timeout_next_quiet [of ?s3 tv s4] by (auto split: if_splits)
      show ?thesis
      proof (cases "event_haveevents s4")
        case False
        with rest g4 show ?thesis by simp
      next
        case True
        with rest obtain r5 s5 where s5: "op_dispatch evsel tv s4 = Inr (r5, s5)"
          by auto
        have g5: "good s5"
          using dispatch_inv [OF _ _ s5] g4 by (simp add: good_def)
        show ?thesis
        proof (cases "r5 = - 1")
          case True
          with rest s5 g4 g5 show ?thesis by (auto split: if_splits)
        next
          case False
          with rest s5 True obtain s6 where s6: "timeout_process evsel s5 = Inr s6"
            by auto
          have g6: "good s6"
            using timeout_process_good [OF g5 s6] .
          have go: "good s'" if "event_process_active cbs n s6 = Inr s7"
            "event_base_loop evsel cbs f n flags s7 = Inr (r, s')" for s7
            using Suc.IH [OF event_process_active_good [OF cbs g6 that(1)] that(2)] .
          show ?thesis
            using rest s5 s6 True False g6 Suc.IH [OF g6] go event_process_active_good [OF cbs g6]
            by (auto split: if_splits)
        qed
      qed
    qed
  qed
qed

end

section \<open>The calls event_process_active makes\<close>

text \<open>
  Callbacks that only record the call they were given; \<open>rec\<close> adds it to the record. The
  calls an event gets are \<open>ev_ncalls\<close> many, each with its descriptor, result and argument.
\<close>

definition recording :: "('a \<Rightarrow> callback \<times> int \<times> 16 word \<times> nat \<Rightarrow> 'a) \<Rightarrow> ('a evstate_scheme) callbacks \<Rightarrow> bool" where
  "recording rec cbs \<longleftrightarrow> (\<forall>cb fd res arg s.
     cbs cb fd res arg s = Inr (s\<lparr>evstate.more := rec (evstate.more s) (cb, fd, res, arg)\<rparr>))"

definition calls_of :: "event \<Rightarrow> (callback \<times> int \<times> 16 word \<times> nat) list" where
  "calls_of e = replicate (unat (ev_ncalls e)) (ev_callback e, ev_fd e, ucast (ev_res e), ev_arg e)"

definition plain_callback :: "event \<Rightarrow> bool" where
  "plain_callback e \<longleftrightarrow> ev_callback e \<noteq> CB_once \<and> ev_callback e \<noteq> CB_loopexit"

lemma call_loop_recording:
  assumes "recording rec cbs" "plain_callback (evs s ev)" "ncalls_vars s v = Some (ev_ncalls (evs s ev))"
    "unat (ev_ncalls (evs s ev)) < n"
  shows "call_loop cbs n ev v s = Inr (s\<lparr>evs := (evs s)(ev := (evs s ev)\<lparr>ev_ncalls := 0\<rparr>),
    ncalls_vars := (ncalls_vars s)(v \<mapsto> 0),
    evstate.more := foldl rec (evstate.more s) (calls_of (evs s ev))\<rparr>)"
  using assms(2-)
proof (induction n arbitrary: s)
  case 0
  from 0(3) show ?case by (rule less_zeroE)
next
  case (Suc n)
  let ?e = "evs s ev"
  show ?case
  proof (cases "ev_ncalls ?e = 0")
    case True
    then have "?e\<lparr>ev_ncalls := 0\<rparr> = ?e"
      by simp
    then have "(evs s)(ev := ?e\<lparr>ev_ncalls := 0\<rparr>) = evs s"
      by (simp only: fun_upd_triv)
    moreover have "(ncalls_vars s)(v \<mapsto> 0) = ncalls_vars s"
      using Suc.prems(2) True by auto
    ultimately show ?thesis
      using True Suc.prems(2) by (simp only:) (simp add: calls_of_def)
  next
    case False
    let ?k = "ev_ncalls ?e - 1"
    have k: "unat (ev_ncalls ?e) = Suc (unat ?k)"
      using False by (simp add: unat_minus_one unat_gt_0)
    define s1 where "s1 = s\<lparr>evs := (evs s)(ev := ?e\<lparr>ev_ncalls := ?k\<rparr>),
      ncalls_vars := (ncalls_vars s)(v \<mapsto> ?k),
      evstate.more := rec (evstate.more s) (ev_callback ?e, ev_fd ?e, ucast (ev_res ?e), ev_arg ?e)\<rparr>"
    have "call_loop cbs (Suc n) ev v s = call_loop cbs n ev v s1"
      using False Suc.prems(1,2) assms(1)
      by (cases s) (simp add: Let_def upd_ev_def run_callback_def plain_callback_def recording_def s1_def)
    also have "\<dots> = Inr (s1\<lparr>evs := (evs s1)(ev := (evs s1 ev)\<lparr>ev_ncalls := 0\<rparr>),
        ncalls_vars := (ncalls_vars s1)(v \<mapsto> 0),
        evstate.more := foldl rec (evstate.more s1) (calls_of (evs s1 ev))\<rparr>)"
      using Suc.prems(1,3) k by (intro Suc.IH) (simp_all add: s1_def plain_callback_def)
    finally show ?thesis
      by (simp add: s1_def calls_of_def k fun_upd_same del: call_loop.simps fun_upd_apply)
  qed
qed

text \<open>An event that has been called: off the queue, no call left.\<close>

definition served :: "nat \<Rightarrow> event \<Rightarrow> event" where
  "served v e = e\<lparr>ev_flags := and (ev_flags e) (not EVLIST_ACTIVE), ev_ncalls := 0, ev_pncalls := Some v\<rparr>"

lemma ncalls_bound: "unat (k :: 16 word) < 65536"
  using unsigned_less [of k] by simp

lemma remove_head:
  assumes inv: "event_inv s" and q: "i < length (activequeues s)" "activequeues s ! i = ev # q"
  shows "\<exists>s1. event_queue_remove ev EVLIST_ACTIVE s = Inr s1 \<and> event_inv s1 \<and>
    activequeues s1 = (activequeues s)[i := q] \<and>
    evs s1 = (evs s)(ev := (evs s ev)\<lparr>ev_flags := and (ev_flags (evs s ev)) (not EVLIST_ACTIVE)\<rparr>) \<and>
    timetree s1 = timetree s \<and> eventqueue s1 = eventqueue s \<and> signalqueue s1 = signalqueue s \<and>
    frame_eq s s1"
proof -
  have parts: "active_inv s" "pri_inv s"
    using inv by (auto simp: event_inv_def)
  have "in_active s ev i"
    using q by (simp add: in_active_def)
  then have on: "has (ev_flags (evs s ev)) EVLIST_ACTIVE" and pri: "ev_pri (evs s ev) = int i"
    using parts(1) by (auto simp: active_inv_def has_EVLIST)
  from queue_remove_ok [OF inv queue_flag_intros(4) on] obtain s1 where s1:
    "event_queue_remove ev EVLIST_ACTIVE s = Inr s1" "event_inv s1"
    "flag_to ev (and (ev_flags (evs s ev)) (not EVLIST_ACTIVE)) s s1"
    "timetree s1 = timetree s" "eventqueue s1 = eventqueue s" "signalqueue s1 = signalqueue s"
    by (metis EVLIST_distinct(10,11,12))
  moreover have "activequeues s1 = (activequeues s)[i := q]"
    using remove_active [OF on parts(2)] s1(1) pri q(2) by auto
  ultimately show ?thesis
    by (auto simp: flag_to_def)
qed

lemma active_loop_recording:
  assumes "recording rec cbs"
  shows "event_inv s \<Longrightarrow> i < length (activequeues s) \<Longrightarrow> activequeues s ! i = q \<Longrightarrow>
    \<forall>e \<in> set q. plain_callback (evs s e) \<Longrightarrow> length q + 65536 < n \<Longrightarrow>
    \<exists>s'. active_loop cbs n i v s = Inr s' \<and> event_inv s' \<and>
      activequeues s' = (activequeues s)[i := []] \<and>
      (\<forall>e. evs s' e = (if e \<in> set q then served v (evs s e) else evs s e)) \<and>
      timetree s' = timetree s \<and> eventqueue s' = eventqueue s \<and> signalqueue s' = signalqueue s \<and>
      (\<forall>w. w \<noteq> v \<longrightarrow> ncalls_vars s' w = ncalls_vars s w) \<and>
      evstate.more s' = foldl rec (evstate.more s) (concat (map (\<lambda>e. calls_of (evs s e)) q))"
proof (induction q arbitrary: s n)
  case Nil
  then obtain m where "n = Suc m"
    by (metis not_less_zero old.nat.exhaust)
  with Nil have "active_loop cbs n i v s = Inr s"
    by simp
  moreover have "(activequeues s)[i := []] = activequeues s"
    using Nil by (metis list_update_id)
  ultimately show ?case
    using Nil by simp
next
  case (Cons ev q)
  from Cons.prems(5) obtain m where n: "n = Suc m"
    by (metis not_less_zero old.nat.exhaust)
  obtain s1 where s1: "event_queue_remove ev EVLIST_ACTIVE s = Inr s1" "event_inv s1"
    "activequeues s1 = (activequeues s)[i := q]"
    "evs s1 = (evs s)(ev := (evs s ev)\<lparr>ev_flags := and (ev_flags (evs s ev)) (not EVLIST_ACTIVE)\<rparr>)"
    "timetree s1 = timetree s" "eventqueue s1 = eventqueue s" "signalqueue s1 = signalqueue s"
    "frame_eq s s1"
    using remove_head [OF Cons.prems(1-3)] by blast
  have dist: "ev \<notin> set q"
    using Cons.prems(1-3) by (auto simp: event_inv_def active_inv_def dest!: nth_mem)
  define s2 where "s2 = upd_ev ev (\<lambda>e. e\<lparr>ev_pncalls := Some v\<rparr>)
    (s1\<lparr>ncalls_vars := (ncalls_vars s1)(v \<mapsto> ev_ncalls (evs s1 ev))\<rparr>)"
  define s3 where "s3 = s2\<lparr>evs := (evs s2)(ev := (evs s2 ev)\<lparr>ev_ncalls := 0\<rparr>),
    ncalls_vars := (ncalls_vars s2)(v \<mapsto> 0),
    evstate.more := foldl rec (evstate.more s2) (calls_of (evs s2 ev))\<rparr>"
  have "call_loop cbs m ev v s2 = Inr s3"
    unfolding s3_def using Cons.prems(4,5) n ncalls_bound [of "ev_ncalls (evs s ev)"]
    by (intro call_loop_recording [OF assms]) (simp_all add: s2_def s1(4) plain_callback_def)
  then have run: "active_loop cbs n i v s = active_loop cbs m i v s3"
    using Cons.prems(2,3) s1(1) by (simp add: n s2_def Let_def)
  have e3: "evs s3 = (evs s)(ev := served v (evs s ev))"
    by (cases "evs s ev") (simp add: s3_def s2_def s1(4) served_def)
  have calls: "calls_of (evs s2 ev) = calls_of (evs s ev)"
    by (simp add: s2_def s1(4) calls_of_def)
  have "event_inv s3"
    using s1(2) by (subst same_core_inv [of s1]) (simp_all add: same_core_def s3_def s2_def)
  moreover have "activequeues s3 ! i = q" "i < length (activequeues s3)"
    using Cons.prems(2) by (simp_all add: s3_def s2_def s1(3))
  moreover have "\<forall>e \<in> set q. plain_callback (evs s3 e)"
    using Cons.prems(4) dist by (auto simp: e3)
  ultimately obtain s' where s': "active_loop cbs m i v s3 = Inr s'" "event_inv s'"
    "activequeues s' = (activequeues s3)[i := []]"
    "\<forall>e. evs s' e = (if e \<in> set q then served v (evs s3 e) else evs s3 e)"
    "timetree s' = timetree s3" "eventqueue s' = eventqueue s3" "signalqueue s' = signalqueue s3"
    "\<forall>w. w \<noteq> v \<longrightarrow> ncalls_vars s' w = ncalls_vars s3 w"
    "evstate.more s' = foldl rec (evstate.more s3) (concat (map (\<lambda>e. calls_of (evs s3 e)) q))"
    using Cons.IH [of s3 m] Cons.prems(5) n by auto
  have maps: "map (\<lambda>e. calls_of (evs s3 e)) q = map (\<lambda>e. calls_of (evs s e)) q"
    using dist by (auto simp: e3)
  have "evstate.more s3 = foldl rec (evstate.more s) (calls_of (evs s ev))"
    using s1(8) by (simp add: s3_def calls) (simp add: s2_def frame_eq_def)
  with s'(9) [unfolded maps] have "evstate.more s' =
      foldl rec (evstate.more s) (concat (map (\<lambda>e. calls_of (evs s e)) (ev # q)))"
    by simp
  moreover have "\<forall>e. evs s' e = (if e \<in> set (ev # q) then served v (evs s e) else evs s e)"
    using s'(4) dist by (simp add: e3)
  moreover have "activequeues s' = (activequeues s)[i := []]"
    by (simp add: s'(3) s3_def s2_def s1(3))
  moreover have "timetree s' = timetree s" "eventqueue s' = eventqueue s" "signalqueue s' = signalqueue s"
    by (simp_all add: s'(5-7) s3_def s2_def s1(5-7))
  moreover have "\<forall>w. w \<noteq> v \<longrightarrow> ncalls_vars s' w = ncalls_vars s w"
    using s'(8) s1(8) by (simp add: s3_def s2_def frame_eq_def)
  ultimately show ?case
    using run s'(1,2) by simp
qed

lemma first_active_Some:
  "first_active k qs = Some i \<Longrightarrow>
    k \<le> i \<and> i - k < length qs \<and> qs ! (i - k) \<noteq> [] \<and> (\<forall>j < i - k. qs ! j = [])"
proof (induction qs arbitrary: k)
  case (Cons q qs)
  show ?case
  proof (cases "q = []")
    case True
    with Cons have 1: "Suc k \<le> i" "i - Suc k < length qs" "qs ! (i - Suc k) \<noteq> []"
      "\<forall>j < i - Suc k. qs ! j = []"
      by (metis first_active.simps(2))+
    then obtain d where d: "i - k = Suc d" "i - Suc k = d"
      by (metis Suc_diff_le diff_Suc_Suc)
    with 1 True show ?thesis
      by (auto simp: nth_Cons split: nat.splits)
  qed (use Cons in auto)
qed simp

lemma first_active_None: "first_active k qs = None \<longleftrightarrow> concat qs = []"
  by (induction qs arbitrary: k) auto

text \<open>
  One run: the first queue that is not empty is served from its head, completely, and no
  other queue. The bound is enough when it exceeds the length of the queue by \<open>2^16\<close>, the
  most calls one event can get.
\<close>

lemma process_active_recording:
  assumes rec: "recording rec cbs" and inv: "event_inv s" and some: "event_count_active s \<noteq> 0"
    and plain: "\<forall>e \<in> set (activeq s). plain_callback (evs s e)" and n: "length (activeq s) + 65536 < n"
  shows "\<exists>i q s'. i < length (activequeues s) \<and> activequeues s ! i = q \<and> q \<noteq> [] \<and>
    (\<forall>j < i. activequeues s ! j = []) \<and>
    event_process_active cbs n s = Inr s' \<and> event_inv s' \<and>
    activequeues s' = (activequeues s)[i := []] \<and>
    (\<forall>e. evs s' e = (if e \<in> set q then served (next_var s) (evs s e) else evs s e)) \<and>
    timeq s' = timeq s \<and> eventqueue s' = eventqueue s \<and> signalqueue s' = signalqueue s \<and>
    evstate.more s' = foldl rec (evstate.more s) (concat (map (\<lambda>e. calls_of (evs s e)) q))"
proof -
  let ?v = "next_var s"
  have "ncounted s (activeq s) \<noteq> 0"
    using inv some by (simp add: event_inv_def count_inv_def)
  then have "activeq s \<noteq> []"
    by (metis ncounted_simps(1))
  then obtain i where fa: "first_active 0 (activequeues s) = Some i"
    by (cases "first_active 0 (activequeues s)") (auto simp: first_active_None)
  let ?q = "activequeues s ! i"
  have i: "i < length (activequeues s)" "?q \<noteq> []" "\<forall>j < i. activequeues s ! j = []"
    using first_active_Some [OF fa] by auto
  have sub: "set ?q \<subseteq> set (activeq s)"
    using nth_mem [OF i(1)] by (auto simp: Bex_def)
  have "length ?q \<le> length (activeq s)"
    using i(1) by (metis elem_le_sum_list length_concat length_map nth_map)
  then have "length ?q + 65536 < n"
    using n by simp
  moreover let ?s = "s\<lparr>next_var := Suc ?v, ncalls_vars := (ncalls_vars s)(?v \<mapsto> 0)\<rparr>"
  have "event_inv ?s" "\<forall>e \<in> set ?q. plain_callback (evs ?s e)"
    using inv plain sub by auto
  ultimately obtain s' where s': "active_loop cbs n i ?v ?s = Inr s'" "event_inv s'"
    "activequeues s' = (activequeues s)[i := []]"
    "\<forall>e. evs s' e = (if e \<in> set ?q then served ?v (evs s e) else evs s e)"
    "timetree s' = timetree s" "eventqueue s' = eventqueue s" "signalqueue s' = signalqueue s"
    "evstate.more s' = foldl rec (evstate.more s) (concat (map (\<lambda>e. calls_of (evs s e)) ?q))"
    using active_loop_recording [OF rec, of ?s i ?q n ?v] i(1) by auto
  have "event_process_active cbs n s = Inr (s'\<lparr>ncalls_vars := (ncalls_vars s')(?v := None)\<rparr>)"
    using some fa s'(1) by (simp add: event_process_active_def Let_def)
  with s' i show ?thesis
    by (intro exI [of _ i] exI [of _ ?q] exI [of _ "s'\<lparr>ncalls_vars := (ncalls_vars s')(?v := None)\<rparr>"])
      simp
qed

end
