(* ===== verification/Signal.thy ===== *)
theory Signal
  imports EventLoop
begin

text \<open>
  The state the \<open>epoll\<close> back end adds to the event core, the system calls it makes, and
  \<open>signal.c\<close>. The kernel is a parameter: a record of functions that answer each call from
  the history of calls made so far. Every call is appended to \<open>calls\<close>, so what the code
  asks of the kernel, and in which order, is part of the state.
\<close>

section \<open>System calls\<close>

text \<open>
  \<open>data.ptr\<close> of a registration points into the array \<open>fds\<close>: the block (counted up when
  \<open>realloc\<close> moves it) and the index.
\<close>

type_synonym evep_ptr = "nat \<times> nat"

datatype epoll_op = EPOLL_CTL_ADD | EPOLL_CTL_MOD | EPOLL_CTL_DEL

definition EPOLLIN :: "32 word" where "EPOLLIN = 0x01"
definition EPOLLOUT :: "32 word" where "EPOLLOUT = 0x04"
definition EPOLLERR :: "32 word" where "EPOLLERR = 0x08"
definition EPOLLHUP :: "32 word" where "EPOLLHUP = 0x10"

text \<open>\<open>Sigaction sig None\<close> is a call with a NULL action, which only queries.\<close>

datatype syscall =
    Epoll_create int
  | Allocate int
  | Reallocate int
  | Socketpair
  | Epoll_ctl epoll_op int "32 word" evep_ptr
  | Epoll_wait int int
  | Sigprocmask_block "int set"
  | Sigprocmask_unblock "int set"
  | Sigaction int "(int set) option"
  | Read_fd int
  | Write_fd int

text \<open>
  \<open>sys_fails h c\<close>: call \<open>c\<close> after history \<open>h\<close> returns -1 or NULL. \<open>sys_moves\<close>: a
  \<open>realloc\<close> that succeeds moves the block. \<open>sys_ready\<close>: what \<open>epoll_wait\<close> stores;
  \<open>sys_eintr\<close>: a failing \<open>epoll_wait\<close> was interrupted; \<open>sys_signals\<close>: the signals whose
  handler runs while they are unblocked around that call.
\<close>

record kernel =
  sys_noepoll :: bool
  sys_rlimit :: "int option"
  sys_pair :: "int \<times> int"
  sys_fails :: "syscall list \<Rightarrow> syscall \<Rightarrow> bool"
  sys_moves :: "syscall list \<Rightarrow> bool"
  sys_ready :: "syscall list \<Rightarrow> (evep_ptr \<times> 32 word) list"
  sys_eintr :: "syscall list \<Rightarrow> bool"
  sys_signals :: "syscall list \<Rightarrow> int list"

section \<open>State\<close>

text \<open>
  \<open>struct epollop\<close> (\<open>fds\<close>, whose length is \<open>nfds\<close>; \<open>nevents\<close>; \<open>evsigmask\<close>) and the
  statics of \<open>signal.c\<close>. \<open>ev_signal\<close> is the address of the static event.
\<close>

record evepoll =
  evread :: "nat option"
  evwrite :: "nat option"

definition evepoll_zero :: evepoll where
  "evepoll_zero = \<lparr>evread = None, evwrite = None\<rparr>"

record epollstate = evstate +
  fds :: "evepoll list"
  fds_block :: nat
  nevents :: int
  evsigmask :: "int set"
  evsigcaught :: "int \<Rightarrow> 32 word"
  needrecalc :: bool
  evsignal_caught :: bool
  ev_signal_pair :: "int \<times> int"
  ev_signal_added :: bool
  calls :: "syscall list"

definition ev_signal :: nat where
  "ev_signal = 0"

definition NSIG :: int where
  "NSIG = 65"

definition EVENT_SIGNAL :: "event \<Rightarrow> int" where
  "EVENT_SIGNAL e = ev_fd e"

text \<open>One system call: whether it failed, and the state with the call recorded.\<close>

definition syscall :: "kernel \<Rightarrow> syscall \<Rightarrow> 'a epollstate_scheme \<Rightarrow> bool \<times> 'a epollstate_scheme" where
  "syscall K c s = (sys_fails K (calls s) c, s\<lparr>calls := calls s @ [c]\<rparr>)"

section \<open>signal.c\<close>

text \<open>\<open>evsignal_cb\<close>, the callback of \<open>ev_signal\<close>; \<open>add\<close> is the back end's.\<close>

definition evsignal_cb :: "kernel \<Rightarrow> (nat \<Rightarrow> 'a epollstate_scheme \<Rightarrow> (int \<times> 'a epollstate_scheme) outcome) \<Rightarrow> int \<Rightarrow> nat \<Rightarrow> 'a epollstate_scheme \<Rightarrow> 'a epollstate_scheme outcome" where
  "evsignal_cb K add fd arg s =
     (let (fail, s) = syscall K (Read_fd fd) s
      in if fail then Inl Exit_errx else bnd (event_add add arg None s) (\<lambda>(r, s). Inr s))"

definition evsignal_init :: "kernel \<Rightarrow> 'a epollstate_scheme \<Rightarrow> 'a epollstate_scheme outcome" where
  "evsignal_init K s =
     (let s = s\<lparr>evsigmask := {}\<rparr>;
          (fail, s) = syscall K Socketpair s
      in if fail then Inl Exit_errx
         else
           let s = s\<lparr>ev_signal_pair := sys_pair K\<rparr>;
               s = event_set ev_signal (snd (ev_signal_pair s)) EV_READ CB_signal ev_signal s
           in Inr (upd_ev ev_signal (\<lambda>e. e\<lparr>ev_flags := or (ev_flags e) EVLIST_INTERNAL\<rparr>) s))"

definition evsignal_add :: "nat \<Rightarrow> 'a epollstate_scheme \<Rightarrow> (int \<times> 'a epollstate_scheme) outcome" where
  "evsignal_add ev s =
     (if has (ev_events (evs s ev)) (or EV_READ EV_WRITE) then Inl Exit_errx
      else Inr (0, s\<lparr>evsigmask := insert (EVENT_SIGNAL (evs s ev)) (evsigmask s)\<rparr>))"

definition evsignal_del :: "kernel \<Rightarrow> nat \<Rightarrow> 'a epollstate_scheme \<Rightarrow> (int \<times> 'a epollstate_scheme) outcome" where
  "evsignal_del K ev s =
     (let evsignal = EVENT_SIGNAL (evs s ev);
          s = s\<lparr>evsigmask := evsigmask s - {evsignal}, needrecalc := True\<rparr>;
          (fail, s) = syscall K (Sigaction evsignal None) s
      in Inr (if fail then - 1 else 0, s))"

definition evsignal_handler :: "kernel \<Rightarrow> int \<Rightarrow> 'a epollstate_scheme \<Rightarrow> 'a epollstate_scheme outcome" where
  "evsignal_handler K sig s =
     (if \<not> (0 \<le> sig \<and> sig < NSIG) then Inl Out_of_bounds
      else
        let s = s\<lparr>evsigcaught := (evsigcaught s)(sig := evsigcaught s sig + 1), evsignal_caught := True\<rparr>;
            (fail, s) = syscall K (Write_fd (fst (ev_signal_pair s))) s
        in Inr s)"

text \<open>The \<open>TAILQ_FOREACH\<close> that reinstalls the handler.\<close>

fun reinstall :: "kernel \<Rightarrow> int set \<Rightarrow> nat list \<Rightarrow> 'a epollstate_scheme \<Rightarrow> int \<times> 'a epollstate_scheme" where
  "reinstall K sigs [] s = (0, s)"
| "reinstall K sigs (ev # q) s =
     (let (fail, s) = syscall K (Sigaction (EVENT_SIGNAL (evs s ev)) (Some sigs)) s
      in if fail then (- 1, s) else reinstall K sigs q s)"

definition evsignal_recalc :: "kernel \<Rightarrow> (nat \<Rightarrow> 'a epollstate_scheme \<Rightarrow> (int \<times> 'a epollstate_scheme) outcome) \<Rightarrow> 'a epollstate_scheme \<Rightarrow> (int \<times> 'a epollstate_scheme) outcome" where
  "evsignal_recalc K add s =
     bnd (if \<not> ev_signal_added s
          then bnd (event_add add ev_signal None (s\<lparr>ev_signal_added := True\<rparr>)) (\<lambda>(r, s). Inr s)
          else Inr s) (\<lambda>s.
     if signalqueue s = [] \<and> \<not> needrecalc s then Inr (0, s)
     else
       let s = s\<lparr>needrecalc := False\<rparr>;
           (fail, s) = syscall K (Sigprocmask_block (evsigmask s)) s
       in if fail then Inr (- 1, s)
          else Inr (reinstall K (evsigmask s) (signalqueue s) s))"

definition evsignal_deliver :: "kernel \<Rightarrow> 'a epollstate_scheme \<Rightarrow> int \<times> 'a epollstate_scheme" where
  "evsignal_deliver K s =
     (if signalqueue s = [] then (0, s)
      else let (fail, s) = syscall K (Sigprocmask_unblock (evsigmask s)) s
           in (if fail then - 1 else 0, s))"

text \<open>The \<open>TAILQ_FOREACH\<close> of \<open>evsignal_process\<close>; \<open>TAILQ_REMOVE\<close> leaves \<open>ev_signal_next\<close> of
  the removed event as it was, so the loop visits the queue it started with.\<close>

fun process_caught :: "(nat \<Rightarrow> 'a epollstate_scheme \<Rightarrow> (int \<times> 'a epollstate_scheme) outcome) \<Rightarrow> nat list \<Rightarrow> 'a epollstate_scheme \<Rightarrow> 'a epollstate_scheme outcome" where
  "process_caught del [] s = Inr s"
| "process_caught del (ev # q) s =
     (let sig = EVENT_SIGNAL (evs s ev) in
      if \<not> (0 \<le> sig \<and> sig < NSIG) then Inl Out_of_bounds
      else
        let ncalls = evsigcaught s sig in
        bnd (if ncalls \<noteq> 0 then
               bnd (if \<not> has (ev_events (evs s ev)) EV_PERSIST then event_del del ev s else Inr (0, s))
                 (\<lambda>(r, s). event_active ev EV_SIGNAL (ucast ncalls) s)
             else Inr s) (process_caught del q))"

definition evsignal_process :: "(nat \<Rightarrow> 'a epollstate_scheme \<Rightarrow> (int \<times> 'a epollstate_scheme) outcome) \<Rightarrow> 'a epollstate_scheme \<Rightarrow> 'a epollstate_scheme outcome" where
  "evsignal_process del s =
     bnd (process_caught del (signalqueue s) s) (\<lambda>s.
       Inr (s\<lparr>evsigcaught := \<lambda>_. 0, evsignal_caught := False\<rparr>))"

end
