(* ===== verification/Epoll.thy ===== *)
theory Epoll
  imports Signal
begin

text \<open>
  \<open>epoll.c\<close>: the table \<open>epollops\<close> and its five functions. \<open>epoll_add\<close> calls \<open>epoll_recalc\<close>,
  which calls \<open>evsignal_recalc\<close>, which the first time calls \<open>event_add\<close> and so \<open>epoll_add\<close>
  again; \<open>ev_signal_added\<close> is set before that call, so three levels are all there can be,
  and \<open>epoll_add_at\<close> takes the number of levels left.
\<close>

section \<open>The functions of epoll.c\<close>

definition NEVENT :: int where
  "NEVENT = 32000"

definition epoll_init :: "kernel \<Rightarrow> 'a epollstate_scheme \<Rightarrow> (bool \<times> 'a epollstate_scheme) outcome" where
  "epoll_init K s =
     (if sys_noepoll K then Inr (False, s)
      else
        let nfiles = (case sys_rlimit K of None \<Rightarrow> NEVENT | Some cur \<Rightarrow> c_int (cur - 1));
            (fail, s) = syscall K (Epoll_create nfiles) s in
        if fail then Inr (False, s) else
        let (fail, s) = syscall K (Allocate 1) s in
        if fail then Inr (False, s) else
        let (fail, s) = syscall K (Allocate nfiles) s in
        if fail then Inr (False, s) else
        let s = s\<lparr>nevents := nfiles\<rparr>;
            (fail, s) = syscall K (Allocate nfiles) s in
        if fail then Inr (False, s) else
        let s = s\<lparr>fds := replicate (nat nfiles) evepoll_zero, fds_block := 0\<rparr>
        in bnd (evsignal_init K s) (\<lambda>s. Inr (True, s)))"

text \<open>\<open>while (nfds < max) nfds <<= 1;\<close> after 32 shifts \<open>nfds\<close> is 0 and stays 0.\<close>

fun grow_nfds :: "nat \<Rightarrow> int \<Rightarrow> int \<Rightarrow> int outcome" where
  "grow_nfds n n0 lim =
     (if \<not> n0 < lim then Inr n0
      else case n of 0 \<Rightarrow> Inl Hang | Suc n \<Rightarrow> grow_nfds n (c_int (n0 * 2)) lim)"

declare grow_nfds.simps [simp del]

definition nfds :: "'a epollstate_scheme \<Rightarrow> int" where
  "nfds s = int (length (fds s))"

definition grow_fds :: "kernel \<Rightarrow> int \<Rightarrow> 'a epollstate_scheme \<Rightarrow> (bool \<times> 'a epollstate_scheme) outcome" where
  "grow_fds K lim s =
     (if lim > nfds s then
        bnd (grow_nfds 33 (nfds s) lim) (\<lambda>n.
        let moves = sys_moves K (calls s);
            (fail, s) = syscall K (Reallocate n) s in
        if fail then Inr (False, s)
        else Inr (True, s\<lparr>fds := fds s @ replicate (nat (n - nfds s)) evepoll_zero,
                          fds_block := (if moves then Suc (fds_block s) else fds_block s)\<rparr>))
      else Inr (True, s))"

definition epoll_recalc_with :: "kernel \<Rightarrow> (nat \<Rightarrow> 'a epollstate_scheme \<Rightarrow> (int \<times> 'a epollstate_scheme) outcome) \<Rightarrow> int \<Rightarrow> 'a epollstate_scheme \<Rightarrow> (int \<times> 'a epollstate_scheme) outcome" where
  "epoll_recalc_with K add lim s =
     bnd (grow_fds K lim s) (\<lambda>(ok, s).
       if \<not> ok then Inr (- 1, s) else evsignal_recalc K add s)"

text \<open>The events mask of a table entry and of an event.\<close>

definition entry_mask :: "evepoll \<Rightarrow> 32 word" where
  "entry_mask e = or (if evread e \<noteq> None then EPOLLIN else 0) (if evwrite e \<noteq> None then EPOLLOUT else 0)"

definition event_mask :: "event \<Rightarrow> 32 word" where
  "event_mask e = or (if has (ev_events e) EV_READ then EPOLLIN else 0)
                     (if has (ev_events e) EV_WRITE then EPOLLOUT else 0)"

text \<open>The part of \<open>epoll_add\<close> after the table is long enough.\<close>

definition epoll_register :: "kernel \<Rightarrow> nat \<Rightarrow> 'a epollstate_scheme \<Rightarrow> (int \<times> 'a epollstate_scheme) outcome" where
  "epoll_register K ev s =
     (let fd = ev_fd (evs s ev) in
      if \<not> (0 \<le> fd \<and> fd < nfds s) then Inl Out_of_bounds
      else
        let i = nat fd;
            evep = fds s ! i;
            op = (if evread evep \<noteq> None \<or> evwrite evep \<noteq> None then EPOLL_CTL_MOD else EPOLL_CTL_ADD);
            events = or (entry_mask evep) (event_mask (evs s ev));
            (fail, s) = syscall K (Epoll_ctl op fd events (fds_block s, i)) s
        in if fail then Inr (- 1, s)
           else
             let evep = (if has (ev_events (evs s ev)) EV_READ then evep\<lparr>evread := Some ev\<rparr> else evep);
                 evep = (if has (ev_events (evs s ev)) EV_WRITE then evep\<lparr>evwrite := Some ev\<rparr> else evep)
             in Inr (0, s\<lparr>fds := (fds s)[i := evep]\<rparr>))"

fun epoll_add_at :: "kernel \<Rightarrow> nat \<Rightarrow> nat \<Rightarrow> 'a epollstate_scheme \<Rightarrow> (int \<times> 'a epollstate_scheme) outcome" where
  "epoll_add_at K 0 ev s = Inl Out_of_fuel"
| "epoll_add_at K (Suc n) ev s =
     (if has (ev_events (evs s ev)) EV_SIGNAL then evsignal_add ev s
      else
        let fd = ev_fd (evs s ev) in
        bnd (if fd \<ge> nfds s then epoll_recalc_with K (epoll_add_at K n) fd s else Inr (0, s)) (\<lambda>(r, s).
        if r = - 1 then Inr (- 1, s) else epoll_register K ev s))"

definition epoll_add :: "kernel \<Rightarrow> nat \<Rightarrow> 'a epollstate_scheme \<Rightarrow> (int \<times> 'a epollstate_scheme) outcome" where
  "epoll_add K = epoll_add_at K 3"

definition epoll_recalc :: "kernel \<Rightarrow> int \<Rightarrow> 'a epollstate_scheme \<Rightarrow> (int \<times> 'a epollstate_scheme) outcome" where
  "epoll_recalc K = epoll_recalc_with K (epoll_add K)"

definition epoll_del :: "kernel \<Rightarrow> nat \<Rightarrow> 'a epollstate_scheme \<Rightarrow> (int \<times> 'a epollstate_scheme) outcome" where
  "epoll_del K ev s =
     (if has (ev_events (evs s ev)) EV_SIGNAL then evsignal_del K ev s
      else
        let fd = ev_fd (evs s ev) in
        if fd \<ge> nfds s then Inr (0, s)
        else if fd < 0 then Inl Out_of_bounds
        else
          let i = nat fd;
              evep = fds s ! i;
              events = event_mask (evs s ev);
              both = and events (or EPOLLIN EPOLLOUT) = or EPOLLIN EPOLLOUT;
              keepwrite = (\<not> both \<and> has events EPOLLIN \<and> evwrite evep \<noteq> None);
              keepread = (\<not> both \<and> \<not> keepwrite \<and> has events EPOLLOUT \<and> evread evep \<noteq> None);
              events = (if keepwrite then EPOLLOUT else if keepread then EPOLLIN else events);
              op = (if keepwrite \<or> keepread then EPOLL_CTL_MOD else EPOLL_CTL_DEL);
              evep = (if \<not> keepread then evep\<lparr>evread := None\<rparr> else evep);
              evep = (if \<not> keepwrite then evep\<lparr>evwrite := None\<rparr> else evep);
              s = s\<lparr>fds := (fds s)[i := evep]\<rparr>;
              (fail, s) = syscall K (Epoll_ctl op fd events (fds_block s, i)) s
          in Inr (if fail then - 1 else 0, s))"

text \<open>One turn of the loop of \<open>epoll_dispatch\<close>; the pointer the kernel returns is followed.\<close>

definition dispatch_one :: "kernel \<Rightarrow> evep_ptr \<times> 32 word \<Rightarrow> 'a epollstate_scheme \<Rightarrow> 'a epollstate_scheme outcome" where
  "dispatch_one K pw s =
     (let ((blk, i), what) = pw;
          what = (if has what EPOLLHUP then or what (or EPOLLIN EPOLLOUT)
                  else if has what EPOLLERR then or what (or EPOLLIN EPOLLOUT)
                  else what)
      in if \<not> (has what EPOLLIN \<or> has what EPOLLOUT) then Inr s
         else if blk \<noteq> fds_block s then Inl Use_after_free
         else if i \<ge> length (fds s) then Inl Out_of_bounds
         else
           let evep = fds s ! i;
               er = (if has what EPOLLIN then evread evep else None);
               ew = (if has what EPOLLOUT then evwrite evep else None)
           in bnd (case er of
                     None \<Rightarrow> Inr (0, s)
                   | Some e \<Rightarrow> if \<not> has (ev_events (evs s e)) EV_PERSIST
                              then event_del (epoll_del K) e s else Inr (0, s)) (\<lambda>(r, s).
              bnd (case ew of
                     None \<Rightarrow> Inr (0, s)
                   | Some e \<Rightarrow> if ew \<noteq> er \<and> \<not> has (ev_events (evs s e)) EV_PERSIST
                              then event_del (epoll_del K) e s else Inr (0, s)) (\<lambda>(r, s).
              bnd (case er of None \<Rightarrow> Inr s | Some e \<Rightarrow> event_active e EV_READ 1 s) (\<lambda>s.
              case ew of None \<Rightarrow> Inr s | Some e \<Rightarrow> event_active e EV_WRITE 1 s))))"

fun dispatch_loop :: "kernel \<Rightarrow> (evep_ptr \<times> 32 word) list \<Rightarrow> 'a epollstate_scheme \<Rightarrow> 'a epollstate_scheme outcome" where
  "dispatch_loop K [] s = Inr s"
| "dispatch_loop K (pw # pws) s = bnd (dispatch_one K pw s) (dispatch_loop K pws)"

fun deliver_signals :: "kernel \<Rightarrow> int list \<Rightarrow> 'a epollstate_scheme \<Rightarrow> 'a epollstate_scheme outcome" where
  "deliver_signals K [] s = Inr s"
| "deliver_signals K (sig # sigs) s = bnd (evsignal_handler K sig s) (deliver_signals K sigs)"

text \<open>The number of milliseconds passed to \<open>epoll_wait\<close>.\<close>

definition wait_ms :: "timeval \<Rightarrow> int" where
  "wait_ms tv = c_int (tv_sec tv * 1000 + (tv_usec tv + 999) div 1000)"

definition epoll_dispatch :: "kernel \<Rightarrow> timeval \<Rightarrow> 'a epollstate_scheme \<Rightarrow> (int \<times> 'a epollstate_scheme) outcome" where
  "epoll_dispatch K tv s =
     (let (r, s) = evsignal_deliver K s in
      if r = - 1 then Inr (- 1, s)
      else
        let h = calls s;
            (fail, s) = syscall K (Epoll_wait (nevents s) (wait_ms tv)) s
        in bnd (deliver_signals K (sys_signals K h) s) (\<lambda>s.
           bnd (evsignal_recalc K (epoll_add K) s) (\<lambda>(r, s).
           if r = - 1 then Inr (- 1, s)
           else if fail then
             (if \<not> sys_eintr K h then Inr (- 1, s)
              else bnd (evsignal_process (epoll_del K) s) (\<lambda>s. Inr (0, s)))
           else
             bnd (if evsignal_caught s then evsignal_process (epoll_del K) s else Inr s) (\<lambda>s.
             bnd (dispatch_loop K (sys_ready K h) s) (\<lambda>s. Inr (0, s))))))"

definition epollops :: "kernel \<Rightarrow> ('a epollstate_scheme) eventop" where
  "epollops K = \<lparr>op_init = epoll_init K, op_add = epoll_add K, op_del = epoll_del K,
     op_recalc = epoll_recalc K, op_dispatch = epoll_dispatch K\<rparr>"

end
