(* ===== verification/EpollProofs.thy ===== *)
theory EpollProofs
  imports Epoll
begin

text \<open>
  The \<open>epoll\<close> back end satisfies the contract \<open>event_backend\<close>. Its invariant has two parts:
  the table \<open>fds\<close> names, for each descriptor, events for that descriptor that want that
  direction; and as long as no \<open>epoll_ctl\<close> has failed, the interest set of the kernel,
  which the recorded calls determine, is the one the table stands for.
\<close>

section \<open>The interest set of the kernel\<close>

text \<open>The effect of one successful call, as documented for \<open>epoll_ctl\<close>.\<close>

fun apply_call :: "syscall \<Rightarrow> (int \<Rightarrow> 32 word option) \<Rightarrow> int \<Rightarrow> 32 word option" where
  "apply_call (Epoll_ctl op fd events p) R =
     R(fd := (if op = EPOLL_CTL_DEL then None else Some events))"
| "apply_call c R = R"

text \<open>Over a history, latest call first.\<close>

fun interest_rev :: "kernel \<Rightarrow> syscall list \<Rightarrow> int \<Rightarrow> 32 word option" where
  "interest_rev K [] = (\<lambda>_. None)"
| "interest_rev K (c # h) =
     (if sys_fails K (rev h) c then interest_rev K h else apply_call c (interest_rev K h))"

fun is_ctl :: "syscall \<Rightarrow> bool" where
  "is_ctl (Epoll_ctl op fd events p) = True"
| "is_ctl c = False"

fun ctl_ok_rev :: "kernel \<Rightarrow> syscall list \<Rightarrow> bool" where
  "ctl_ok_rev K [] = True"
| "ctl_ok_rev K (c # h) = (\<not> (is_ctl c \<and> sys_fails K (rev h) c) \<and> ctl_ok_rev K h)"

definition interest :: "kernel \<Rightarrow> syscall list \<Rightarrow> int \<Rightarrow> 32 word option" where
  "interest K h = interest_rev K (rev h)"

definition ctl_ok :: "kernel \<Rightarrow> syscall list \<Rightarrow> bool" where
  "ctl_ok K h = ctl_ok_rev K (rev h)"

lemma interest_snoc:
  "interest K (h @ [c]) = (if sys_fails K h c then interest K h else apply_call c (interest K h))"
  by (simp add: interest_def)

lemma ctl_ok_snoc: "ctl_ok K (h @ [c]) \<longleftrightarrow> \<not> (is_ctl c \<and> sys_fails K h c) \<and> ctl_ok K h"
  by (simp add: ctl_ok_def)

lemma interest_other: "\<not> is_ctl c \<Longrightarrow> interest K (h @ [c]) = interest K h"
  by (cases c) (simp_all add: interest_snoc)

section \<open>The invariant of the table\<close>

definition entry_ok :: "(nat \<Rightarrow> event) \<Rightarrow> nat \<Rightarrow> evepoll \<Rightarrow> bool" where
  "entry_ok E i p \<longleftrightarrow>
     (\<forall>e. evread p = Some e \<longrightarrow> ev_fd (E e) = int i \<and> has (ev_events (E e)) EV_READ) \<and>
     (\<forall>e. evwrite p = Some e \<longrightarrow> ev_fd (E e) = int i \<and> has (ev_events (E e)) EV_WRITE)"

definition table_ok :: "'a epollstate_scheme \<Rightarrow> bool" where
  "table_ok s \<longleftrightarrow> (\<forall>i < length (fds s). entry_ok (evs s) i (fds s ! i))"

definition entry_interest :: "evepoll \<Rightarrow> 32 word option" where
  "entry_interest p = (if evread p = None \<and> evwrite p = None then None else Some (entry_mask p))"

definition table_interest :: "evepoll list \<Rightarrow> int \<Rightarrow> 32 word option" where
  "table_interest T fd = (if 0 \<le> fd \<and> nat fd < length T then entry_interest (T ! nat fd) else None)"

definition kernel_ok :: "kernel \<Rightarrow> 'a epollstate_scheme \<Rightarrow> bool" where
  "kernel_ok K s \<longleftrightarrow> (ctl_ok K (calls s) \<longrightarrow> interest K (calls s) = table_interest (fds s))"

definition epoll_inv :: "kernel \<Rightarrow> 'a epollstate_scheme \<Rightarrow> bool" where
  "epoll_inv K s \<longleftrightarrow> table_ok s \<and> kernel_ok K s"

lemma more_fields:
  "evstate.more s' = evstate.more s \<Longrightarrow> fds s' = fds s \<and> calls s' = calls s"
  by (cases s; cases s') simp

lemma epoll_inv_frame:
  assumes "same_interest s s'" "evstate.more s' = evstate.more s" "epoll_inv K s"
  shows "epoll_inv K s'"
  using assms more_fields [OF assms(2)]
  by (simp add: epoll_inv_def table_ok_def entry_ok_def kernel_ok_def same_interest_def)

lemma table_interest_update:
  assumes "i < length T"
  shows "table_interest (T[i := p]) = (table_interest T)(int i := entry_interest p)"
proof
  fix fd
  show "table_interest (T[i := p]) fd = ((table_interest T)(int i := entry_interest p)) fd"
  proof (cases "fd = int i")
    case True
    with assms show ?thesis by (simp add: table_interest_def)
  next
    case False
    then have "0 \<le> fd \<Longrightarrow> nat fd \<noteq> i"
      by auto
    with False show ?thesis
      by (auto simp: table_interest_def nth_list_update)
  qed
qed

lemma table_interest_append: "table_interest (T @ replicate n evepoll_zero) = table_interest T"
proof
  fix fd
  have "(T @ replicate n evepoll_zero) ! nat fd = evepoll_zero"
    if "\<not> nat fd < length T" "nat fd < length T + n"
    using that by (simp add: nth_append)
  then show "table_interest (T @ replicate n evepoll_zero) fd = table_interest T fd"
    by (cases "nat fd < length T")
      (auto simp: table_interest_def nth_append entry_interest_def evepoll_zero_def)
qed

section \<open>Calls that leave the event core alone\<close>

definition only_epoll :: "'a epollstate_scheme \<Rightarrow> 'a epollstate_scheme \<Rightarrow> bool" where
  "only_epoll s s' \<longleftrightarrow> (\<exists>m. s' = s\<lparr>evstate.more := m\<rparr>)"

lemma only_epoll_refl [simp]: "only_epoll s s"
  unfolding only_epoll_def by (rule exI [of _ "evstate.more s"]) simp

lemma only_epoll_trans: "only_epoll s s' \<Longrightarrow> only_epoll s' s'' \<Longrightarrow> only_epoll s s''"
  unfolding only_epoll_def by auto

lemma only_epoll_fields [simp]:
  "only_epoll s (s\<lparr>calls := c\<rparr>)" "only_epoll s (s\<lparr>fds := f\<rparr>)" "only_epoll s (s\<lparr>fds := f, fds_block := b\<rparr>)"
  "only_epoll s (s\<lparr>evsigmask := x\<rparr>)" "only_epoll s (s\<lparr>evsigmask := x, needrecalc := n\<rparr>)"
  "only_epoll s (s\<lparr>needrecalc := n\<rparr>)" "only_epoll s (s\<lparr>ev_signal_added := d\<rparr>)"
  "only_epoll s (s\<lparr>evsigcaught := g, evsignal_caught := d\<rparr>)" "only_epoll s (s\<lparr>fds := f, calls := c\<rparr>)"
  unfolding only_epoll_def by (cases s; auto)+

lemma only_epoll_core:
  assumes "only_epoll s s'"
  shows "core_inv s' = core_inv s" "evs s' = evs s" "same_interest s s'"
  using assms by (auto simp: only_epoll_def core_inv_def valid_times_def same_interest_def)

lemma syscall_state [simp]: "snd (syscall K c s) = s\<lparr>calls := calls s @ [c]\<rparr>"
  by (simp add: syscall_def)

lemma epoll_inv_call:
  "\<not> is_ctl c \<Longrightarrow> epoll_inv K s \<Longrightarrow> epoll_inv K (s\<lparr>calls := calls s @ [c]\<rparr>)"
  by (simp add: epoll_inv_def table_ok_def kernel_ok_def interest_other ctl_ok_snoc)

lemma epoll_inv_fields [simp]:
  "epoll_inv K (s\<lparr>evsigmask := x\<rparr>) = epoll_inv K s"
  "epoll_inv K (s\<lparr>evsigmask := x, needrecalc := n\<rparr>) = epoll_inv K s"
  "epoll_inv K (s\<lparr>needrecalc := n\<rparr>) = epoll_inv K s"
  "epoll_inv K (s\<lparr>ev_signal_added := d\<rparr>) = epoll_inv K s"
  "epoll_inv K (s\<lparr>evsigcaught := g, evsignal_caught := d\<rparr>) = epoll_inv K s"
  by (simp_all add: epoll_inv_def table_ok_def kernel_ok_def)

text \<open>One \<open>epoll_ctl\<close> together with the update of its table entry.\<close>

lemma epoll_inv_ctl:
  assumes inv: "epoll_inv K s" and i: "i < length (fds s)" and ok: "entry_ok (evs s) i p"
    and mask: "entry_interest p = (if op = EPOLL_CTL_DEL then None else Some m)"
    and s': "calls s' = calls s @ [Epoll_ctl op (int i) m q]" "fds s' = (fds s)[i := p]" "evs s' = evs s"
  shows "epoll_inv K s'"
proof -
  have "table_ok s'"
    using inv i ok s' by (auto simp: epoll_inv_def table_ok_def nth_list_update)
  moreover have "kernel_ok K s'"
    using inv mask s'(1,2) table_interest_update [OF i, of p]
    by (auto simp: epoll_inv_def kernel_ok_def interest_snoc ctl_ok_snoc)
  ultimately show ?thesis
    by (simp add: epoll_inv_def)
qed

text \<open>An \<open>epoll_ctl\<close> that fails and changes no entry.\<close>

lemma epoll_inv_ctl_fail:
  assumes "epoll_inv K s" "sys_fails K (calls s) (Epoll_ctl op fd m q)"
  shows "epoll_inv K (s\<lparr>calls := calls s @ [Epoll_ctl op fd m q]\<rparr>)"
  using assms by (simp add: epoll_inv_def table_ok_def kernel_ok_def ctl_ok_snoc)

section \<open>del\<close>

lemma mask_bits:
  "has (event_mask e) EPOLLIN = has (ev_events e) EV_READ"
  "has (event_mask e) EPOLLOUT = has (ev_events e) EV_WRITE"
  "(and (event_mask e) (or EPOLLIN EPOLLOUT) = or EPOLLIN EPOLLOUT) =
     (has (ev_events e) EV_READ \<and> has (ev_events e) EV_WRITE)"
  by (auto simp: event_mask_def EPOLLIN_def EPOLLOUT_def has_def)

lemma epoll_del_ok:
  assumes inv: "epoll_inv K s" and fd: "0 \<le> ev_fd (evs s ev)"
  shows "\<exists>r s'. epoll_del K ev s = Inr (r, s') \<and> epoll_inv K s' \<and> only_epoll s s'"
proof (cases "has (ev_events (evs s ev)) EV_SIGNAL")
  case True
  let ?c = "Sigaction (ev_fd (evs s ev)) None"
  let ?s = "s\<lparr>evsigmask := evsigmask s - {ev_fd (evs s ev)}, needrecalc := True\<rparr>"
  have "epoll_inv K (?s\<lparr>calls := calls ?s @ [?c]\<rparr>)"
    using inv by (intro epoll_inv_call) simp_all
  moreover have "only_epoll s (?s\<lparr>calls := calls ?s @ [?c]\<rparr>)"
    by (rule only_epoll_trans [OF only_epoll_fields(5) only_epoll_fields(1)])
  ultimately show ?thesis
    using True by (simp add: epoll_del_def evsignal_del_def EVENT_SIGNAL_def syscall_def Let_def)
next
  case nosig: False
  show ?thesis
  proof (cases "ev_fd (evs s ev) \<ge> nfds s")
    case True
    with nosig inv show ?thesis
      by (simp add: epoll_del_def)
  next
    case False
    define i where "i = nat (ev_fd (evs s ev))"
    have i: "i < length (fds s)" "ev_fd (evs s ev) = int i"
      using False fd by (auto simp: i_def nfds_def)
    define p where "p = fds s ! i"
    let ?r = "has (ev_events (evs s ev)) EV_READ"
    let ?w = "has (ev_events (evs s ev)) EV_WRITE"
    define keepwrite where "keepwrite = (?r \<and> \<not> ?w \<and> evwrite p \<noteq> None)"
    define keepread where "keepread = (?w \<and> \<not> ?r \<and> evread p \<noteq> None)"
    define m where "m = (if keepwrite then EPOLLOUT else if keepread then EPOLLIN else event_mask (evs s ev))"
    define op where "op = (if keepwrite \<or> keepread then EPOLL_CTL_MOD else EPOLL_CTL_DEL)"
    define p' where "p' = \<lparr>evread = (if keepread then evread p else None),
      evwrite = (if keepwrite then evwrite p else None)\<rparr>"
    define s' where "s' = s\<lparr>fds := (fds s)[i := p'],
      calls := calls s @ [Epoll_ctl op (int i) m (fds_block s, i)]\<rparr>"
    note run_simps = epoll_del_def mask_bits syscall_def s'_def m_def op_def p'_def
      keepread_def keepwrite_def p_def [symmetric] i(2)
    have guards: "\<not> nfds s \<le> int i" "\<not> int i < 0"
      using False i by simp_all
    consider "?r \<and> ?w" | "?r \<and> \<not> ?w \<and> evwrite p \<noteq> None" | "?r \<and> \<not> ?w \<and> evwrite p = None"
      | "\<not> ?r \<and> ?w \<and> evread p \<noteq> None" | "\<not> ?r \<and> ?w \<and> evread p = None" | "\<not> ?r \<and> \<not> ?w"
      by argo
    then have run: "\<exists>r. epoll_del K ev s = Inr (r, s')"
      by cases (use nosig guards in \<open>cases p; simp add: run_simps Let_def\<close>)+
    have "entry_ok (evs s) i p"
      using inv i(1) by (simp add: epoll_inv_def table_ok_def p_def)
    then have "entry_ok (evs s) i p'"
      by (simp add: entry_ok_def p'_def)
    moreover have "entry_interest p' = (if op = EPOLL_CTL_DEL then None else Some m)"
      by (auto simp: entry_interest_def entry_mask_def p'_def op_def m_def keepread_def keepwrite_def)
    ultimately have "epoll_inv K s'"
      by (intro epoll_inv_ctl [OF inv i(1)]) (simp_all add: s'_def)
    with run show ?thesis
      by (auto simp: s'_def)
  qed
qed

section \<open>recalc and add\<close>

definition keeps_epoll :: "kernel \<Rightarrow> 'a epollstate_scheme \<Rightarrow> 'a epollstate_scheme \<Rightarrow> bool" where
  "keeps_epoll K s s' \<longleftrightarrow> (core_inv s \<and> epoll_inv K s \<longrightarrow>
     core_inv s' \<and> epoll_inv K s' \<and> same_interest s s')"

lemma keeps_trans: "keeps_epoll K s s' \<Longrightarrow> keeps_epoll K s' s'' \<Longrightarrow> keeps_epoll K s s''"
  using same_interest_trans by (auto simp: keeps_epoll_def)

lemma keeps_refl [simp]: "keeps_epoll K s s"
  by (simp add: keeps_epoll_def)

lemma keeps_only: "only_epoll s s' \<Longrightarrow> (epoll_inv K s \<Longrightarrow> epoll_inv K s') \<Longrightarrow> keeps_epoll K s s'"
  using only_epoll_core(1,3) by (auto simp: keeps_epoll_def)

lemma keeps_call: "\<not> is_ctl c \<Longrightarrow> keeps_epoll K s (s\<lparr>calls := calls s @ [c]\<rparr>)"
  by (intro keeps_only epoll_inv_call) simp_all

lemma keeps_fields [simp]:
  "keeps_epoll K s (s\<lparr>needrecalc := n\<rparr>)" "keeps_epoll K s (s\<lparr>ev_signal_added := d\<rparr>)"
  "keeps_epoll K s (s\<lparr>evsigcaught := g, evsignal_caught := d\<rparr>)"
  "keeps_epoll K s (s\<lparr>evsigmask := x\<rparr>)"
  by (intro keeps_only; simp)+

lemma entry_ok_zero [simp]: "entry_ok E i evepoll_zero"
  by (simp add: entry_ok_def evepoll_zero_def)

lemma grow_fds_keeps:
  assumes "grow_fds K k s = Inr (ok, s')"
  shows "keeps_epoll K s s'"
proof (cases "k > nfds s")
  case True
  then obtain n where n: "grow_nfds 33 (nfds s) k = Inr n"
    using assms by (auto simp: grow_fds_def)
  let ?s = "s\<lparr>calls := calls s @ [Reallocate n]\<rparr>"
  have 1: "keeps_epoll K s ?s"
    by (rule keeps_call) simp
  show ?thesis
  proof (cases ok)
    case True
    define f where "f = nat (n - nfds ?s)"
    define b where "b = (if sys_moves K (calls s) then Suc (fds_block s) else fds_block s)"
    have s': "s' = ?s\<lparr>fds := fds s @ replicate f evepoll_zero, fds_block := b\<rparr>"
      using assms n True \<open>k > nfds s\<close>
      by (simp add: grow_fds_def syscall_def Let_def f_def b_def split: if_splits)
    have "epoll_inv K s'" if "epoll_inv K ?s"
      using that by (auto simp: s' epoll_inv_def table_ok_def kernel_ok_def table_interest_append
          nth_append entry_ok_zero)
    then have "keeps_epoll K ?s s'"
      by (intro keeps_only) (simp_all add: s')
    with 1 show ?thesis by (rule keeps_trans)
  next
    case False
    with assms n \<open>k > nfds s\<close> 1 show ?thesis
      by (auto simp: grow_fds_def syscall_def Let_def split: if_splits)
  qed
next
  case False
  with assms show ?thesis by (simp add: grow_fds_def)
qed

lemma reinstall_keeps: "reinstall K sigs q s = (r, s') \<Longrightarrow> keeps_epoll K s s'"
proof (induction q arbitrary: s)
  case (Cons ev q)
  let ?s = "s\<lparr>calls := calls s @ [Sigaction (EVENT_SIGNAL (evs s ev)) (Some sigs)]\<rparr>"
  have "keeps_epoll K s ?s"
    by (rule keeps_call) simp
  moreover have "s' = ?s \<or> keeps_epoll K ?s s'"
    using Cons by (auto simp: syscall_def Let_def split: if_splits)
  ultimately show ?case
    by (auto intro: keeps_trans)
qed simp

lemma evsignal_recalc_keeps:
  assumes adder: "event_adder (epoll_inv K) add" and run: "evsignal_recalc K add s = Inr (r, s')"
  shows "keeps_epoll K s s'"
proof -
  obtain s1 where s1: "(if \<not> ev_signal_added s
      then bnd (event_add add ev_signal None (s\<lparr>ev_signal_added := True\<rparr>)) (\<lambda>(r, s). Inr s)
      else Inr s) = Inr s1"
    and rest: "(if signalqueue s1 = [] \<and> \<not> needrecalc s1 then Inr (0, s1)
     else
       let s = s1\<lparr>needrecalc := False\<rparr>;
           (fail, s) = syscall K (Sigprocmask_block (evsigmask s)) s
       in if fail then Inr (- 1, s)
          else Inr (reinstall K (evsigmask s) (signalqueue s) s)) = (Inr (r, s') :: fault + _)"
    using run unfolding evsignal_recalc_def bnd_eq_Inr by (elim exE conjE) (rule that)
  have added: "keeps_epoll K (s\<lparr>ev_signal_added := True\<rparr>) s1" if "\<not> ev_signal_added s"
    using s1 that event_adder.event_add_keeps [OF adder, of "s\<lparr>ev_signal_added := True\<rparr>" None ev_signal]
    by (auto simp: keeps_epoll_def)
  have 1: "keeps_epoll K s s1"
  proof (cases "ev_signal_added s")
    case False
    show ?thesis
      using keeps_trans [OF keeps_fields(2) added [OF False]] .
  next
    case True
    with s1 show ?thesis by simp
  qed
  let ?s = "s1\<lparr>needrecalc := False\<rparr>"
  let ?t = "?s\<lparr>calls := calls ?s @ [Sigprocmask_block (evsigmask ?s)]\<rparr>"
  have "keeps_epoll K s1 ?t"
    by (rule keeps_trans [OF keeps_fields(1) keeps_call]) simp
  then have t: "keeps_epoll K s ?t"
    by (rule keeps_trans [OF 1])
  have "s' = s1 \<or> s' = ?t \<or> reinstall K (evsigmask ?t) (signalqueue ?t) ?t = (r, s')"
    using rest by (auto simp: syscall_def Let_def split: if_splits)
  then show ?thesis
    using 1 t keeps_trans [OF t reinstall_keeps] by blast
qed

lemma mask_update:
  assumes "r \<or> w"
  shows "entry_interest \<lparr>evread = (if r then Some e else evread p), evwrite = (if w then Some e else evwrite p)\<rparr> =
    Some (or (entry_mask p) (or (if r then EPOLLIN else 0) (if w then EPOLLOUT else 0)))"
  using assms by (auto simp: entry_interest_def entry_mask_def EPOLLIN_def EPOLLOUT_def)

text \<open>The table entry and the call of \<open>epoll_register\<close>.\<close>

definition new_entry :: "nat \<Rightarrow> event \<Rightarrow> evepoll \<Rightarrow> evepoll" where
  "new_entry ev e p = \<lparr>evread = (if has (ev_events e) EV_READ then Some ev else evread p),
     evwrite = (if has (ev_events e) EV_WRITE then Some ev else evwrite p)\<rparr>"

definition register_call :: "'a epollstate_scheme \<Rightarrow> nat \<Rightarrow> nat \<Rightarrow> syscall" where
  "register_call s ev i = Epoll_ctl
     (if evread (fds s ! i) \<noteq> None \<or> evwrite (fds s ! i) \<noteq> None then EPOLL_CTL_MOD else EPOLL_CTL_ADD)
     (int i) (or (entry_mask (fds s ! i)) (event_mask (evs s ev))) (fds_block s, i)"

lemma epoll_register_run:
  assumes run: "epoll_register K ev s = Inr (r, s')"
  shows "\<exists>i < length (fds s). ev_fd (evs s ev) = int i \<and>
    s' = (if sys_fails K (calls s) (register_call s ev i) then s\<lparr>calls := calls s @ [register_call s ev i]\<rparr>
      else s\<lparr>calls := calls s @ [register_call s ev i], fds := (fds s)[i := new_entry ev (evs s ev) (fds s ! i)]\<rparr>)"
proof -
  define i where "i = nat (ev_fd (evs s ev))"
  have i: "i < length (fds s)" "ev_fd (evs s ev) = int i"
    using run by (auto simp: epoll_register_def Let_def i_def nfds_def split: if_splits)
  define p where "p = fds s ! i"
  define op where "op = (if evread p \<noteq> None \<or> evwrite p \<noteq> None then EPOLL_CTL_MOD else EPOLL_CTL_ADD)"
  define m where "m = or (entry_mask p) (event_mask (evs s ev))"
  define c where "c = Epoll_ctl op (int i) m (fds_block s, i)"
  let ?r = "has (ev_events (evs s ev)) EV_READ"
  let ?w = "has (ev_events (evs s ev)) EV_WRITE"
  let ?p' = "new_entry ev (evs s ev) p"
  have upd: "?r \<Longrightarrow> ?w \<Longrightarrow> p\<lparr>evread := Some ev, evwrite := Some ev\<rparr> = ?p'"
    "?r \<Longrightarrow> \<not> ?w \<Longrightarrow> p\<lparr>evread := Some ev\<rparr> = ?p'" "\<not> ?r \<Longrightarrow> ?w \<Longrightarrow> p\<lparr>evwrite := Some ev\<rparr> = ?p'"
    "\<not> ?r \<Longrightarrow> \<not> ?w \<Longrightarrow> p = ?p'"
    by (cases p; simp add: new_entry_def)+
  have inside: "0 \<le> int i \<and> int i < nfds s"
    using i(1) by (simp add: nfds_def)
  have "epoll_register K ev s = (if sys_fails K (calls s) c then Inr (- 1, s\<lparr>calls := calls s @ [c]\<rparr>)
      else Inr (0, s\<lparr>calls := calls s @ [c], fds := (fds s)[i := ?p']\<rparr>))"
    unfolding epoll_register_def Let_def i(2) nat_int p_def [symmetric] op_def [symmetric]
      m_def [symmetric] c_def [symmetric]
    using inside upd(4) by (simp add: syscall_def upd(1-3) p_def [symmetric])
  with run have "s' = (if sys_fails K (calls s) c then s\<lparr>calls := calls s @ [c]\<rparr>
      else s\<lparr>calls := calls s @ [c], fds := (fds s)[i := ?p']\<rparr>)"
    by (simp split: if_splits)
  moreover have "c = register_call s ev i"
    by (simp add: c_def op_def m_def p_def register_call_def)
  ultimately show ?thesis
    using i unfolding p_def by auto
qed

lemma epoll_register_keeps:
  assumes run: "epoll_register K ev s = Inr (r, s')"
    and want: "has (ev_events (evs s ev)) (or EV_READ EV_WRITE)"
  shows "keeps_epoll K s s'"
proof -
  obtain i where i: "i < length (fds s)" "ev_fd (evs s ev) = int i"
    and s': "s' = (if sys_fails K (calls s) (register_call s ev i) then s\<lparr>calls := calls s @ [register_call s ev i]\<rparr>
      else s\<lparr>calls := calls s @ [register_call s ev i], fds := (fds s)[i := new_entry ev (evs s ev) (fds s ! i)]\<rparr>)"
    using epoll_register_run [OF run] by blast
  let ?r = "has (ev_events (evs s ev)) EV_READ"
  let ?w = "has (ev_events (evs s ev)) EV_WRITE"
  have rw: "?r \<or> ?w"
    using want by (simp add: has_or)
  show ?thesis
  proof (cases "sys_fails K (calls s) (register_call s ev i)")
    case True
    then show ?thesis
      using epoll_inv_ctl_fail [of K s] by (intro keeps_only) (simp_all add: s' register_call_def)
  next
    case False
    let ?p' = "new_entry ev (evs s ev) (fds s ! i)"
    define m where "m = or (entry_mask (fds s ! i)) (event_mask (evs s ev))"
    define op where "op = (if evread (fds s ! i) \<noteq> None \<or> evwrite (fds s ! i) \<noteq> None then EPOLL_CTL_MOD else EPOLL_CTL_ADD)"
    have op: "op \<noteq> EPOLL_CTL_DEL"
      by (simp add: op_def)
    have ok: "entry_ok (evs s) i ?p'" if "epoll_inv K s"
      using that i by (auto simp: epoll_inv_def table_ok_def entry_ok_def new_entry_def)
    have "entry_interest ?p' = Some m"
      using mask_update [OF rw] by (simp add: new_entry_def m_def event_mask_def)
    then have "epoll_inv K s'" if "epoll_inv K s"
      using op False by (intro epoll_inv_ctl [OF that i(1) ok [OF that], of op m])
        (simp_all add: s' register_call_def m_def op_def)
    moreover have "only_epoll s s'"
      using False only_epoll_trans [OF only_epoll_fields(1) only_epoll_fields(2)] by (simp add: s')
    ultimately show ?thesis
      by (rule keeps_only [rotated])
  qed
qed

lemma epoll_recalc_with_keeps:
  assumes adder: "event_adder (epoll_inv K) add" and run: "epoll_recalc_with K add k s = Inr (r, s')"
  shows "keeps_epoll K s s'"
proof -
  obtain ok s1 where s1: "grow_fds K k s = Inr (ok, s1)"
    "(if \<not> ok then Inr (- 1, s1) else evsignal_recalc K add s1) = Inr (r, s')"
    using run by (auto simp: epoll_recalc_with_def)
  have g: "keeps_epoll K s s1"
    using grow_fds_keeps [OF s1(1)] .
  show ?thesis
    using s1(2) g keeps_trans [OF g evsignal_recalc_keeps [OF adder]] by (auto split: if_splits)
qed

section \<open>The contract\<close>

interpretation eframe: event_frame "epoll_inv K" for K
  by unfold_locales (rule epoll_inv_frame)

lemma epoll_adder: "event_adder (epoll_inv K) (epoll_add_at K n)"
proof (induction n)
  case 0
  show ?case by unfold_locales simp
next
  case (Suc n)
  show ?case
  proof (unfold_locales, goal_cases)
    case (1 s ev r s')
    have k: "keeps_epoll K s s'"
    proof (cases "has (ev_events (evs s ev)) EV_SIGNAL")
      case True
      then have "s' = s\<lparr>evsigmask := insert (ev_fd (evs s ev)) (evsigmask s)\<rparr>"
        using 1(4) by (auto simp: evsignal_add_def EVENT_SIGNAL_def split: if_splits)
      then show ?thesis by simp
    next
      case False
      then obtain r1 s1 where s1: "(if ev_fd (evs s ev) \<ge> nfds s
          then epoll_recalc_with K (epoll_add_at K n) (ev_fd (evs s ev)) s else Inr (0, s)) = Inr (r1, s1)"
        "(if r1 = - 1 then Inr (- 1, s1) else epoll_register K ev s1) = Inr (r, s')"
        using 1(4) by (auto simp: Let_def)
      have k1: "keeps_epoll K s s1"
        using s1(1) epoll_recalc_with_keeps [OF Suc.IH] by (auto split: if_splits)
      then have "ev_events (evs s1 ev) = ev_events (evs s ev)"
        using 1(1,2) by (simp add: keeps_epoll_def same_interest_def)
      then have "has (ev_events (evs s1 ev)) (or EV_READ EV_WRITE)"
        using 1(3) False by simp
      then show ?thesis
        using s1(2) k1 keeps_trans [OF k1 epoll_register_keeps] by (auto split: if_splits)
    qed
    with 1(1,2) show ?case by (simp add: keeps_epoll_def)
  qed
qed

interpretation eadder: event_adder "epoll_inv K" "epoll_add K" for K
  unfolding epoll_add_def by (rule epoll_adder)

lemma epoll_del_returns:
  assumes inv: "epoll_inv K s" and run: "epoll_del K ev s = Inr (r, s')"
  shows "epoll_inv K s' \<and> only_epoll s s'"
proof (cases "0 \<le> ev_fd (evs s ev)")
  case True
  with epoll_del_ok [OF inv True] run show ?thesis by auto
next
  case False
  show ?thesis
  proof (cases "has (ev_events (evs s ev)) EV_SIGNAL")
    case True
    let ?s = "s\<lparr>evsigmask := evsigmask s - {ev_fd (evs s ev)}, needrecalc := True\<rparr>"
    have "s' = ?s\<lparr>calls := calls ?s @ [Sigaction (ev_fd (evs s ev)) None]\<rparr>"
      using run True by (simp add: epoll_del_def evsignal_del_def EVENT_SIGNAL_def syscall_def Let_def)
    moreover have "epoll_inv K (?s\<lparr>calls := calls ?s @ [Sigaction (ev_fd (evs s ev)) None]\<rparr>)"
      using inv by (intro epoll_inv_call) simp_all
    ultimately show ?thesis
      using only_epoll_trans [OF only_epoll_fields(5) only_epoll_fields(1)] by simp
  next
    case nosig: False
    with run False inv show ?thesis
      by (auto simp: epoll_del_def Let_def nfds_def split: if_splits)
  qed
qed

interpretation edel: event_deleter "epoll_inv K" "epollops K" for K
proof (unfold_locales, goal_cases)
  case (1 s ev)
  then show ?case
    using epoll_del_ok [of K s ev] by (auto simp: epollops_def)
next
  case (2 s ev r s')
  then show ?case
    using epoll_del_returns [of K s ev r s'] by (simp add: epollops_def only_epoll_def)
qed

lemma keeps_good: "keeps_epoll K s s' \<Longrightarrow> edel.good K s \<Longrightarrow> edel.good K s'"
  by (simp add: keeps_epoll_def edel.good_def)

lemma epoll_recalc_keeps: "epoll_recalc K k s = Inr (r, s') \<Longrightarrow> keeps_epoll K s s'"
  unfolding epoll_recalc_def using epoll_recalc_with_keeps [OF eadder.event_adder_axioms] .

section \<open>dispatch\<close>

lemma event_del_epoll: "edel.good K s \<Longrightarrow> event_del (epoll_del K) ev s = Inr (r, s') \<Longrightarrow> edel.good K s'"
  using edel.event_del_good [of K s ev r s'] by (simp add: epollops_def)

lemma process_caught_good:
  "edel.good K s \<Longrightarrow> process_caught (epoll_del K) q s = Inr s' \<Longrightarrow> edel.good K s'"
proof (induction q arbitrary: s)
  case (Cons ev q)
  show ?case
  proof (cases "evsigcaught s (EVENT_SIGNAL (evs s ev)) = 0")
    case True
    with Cons show ?thesis by (auto simp: Let_def split: if_splits)
  next
    case False
    then obtain r s1 s2 where st: "(if \<not> has (ev_events (evs s ev)) EV_PERSIST
        then event_del (epoll_del K) ev s else Inr (0, s)) = Inr (r, s1)"
      "event_active ev EV_SIGNAL (ucast (evsigcaught s (EVENT_SIGNAL (evs s ev)))) s1 = Inr s2"
      "process_caught (epoll_del K) q s2 = Inr s'"
      using Cons.prems(2) by (auto simp: Let_def split: if_splits)
    have "edel.good K s1"
      using st(1) Cons.prems(1) event_del_epoll [OF Cons.prems(1)] by (auto split: if_splits)
    from Cons.IH [OF edel.event_active_good [OF this st(2)] st(3)] show ?thesis .
  qed
qed simp

lemma evsignal_process_good:
  assumes "edel.good K s" "evsignal_process (epoll_del K) s = Inr s'"
  shows "edel.good K s'"
proof -
  obtain s1 where s1: "process_caught (epoll_del K) (signalqueue s) s = Inr s1"
    "s' = s1\<lparr>evsigcaught := \<lambda>_. 0, evsignal_caught := False\<rparr>"
    using assms(2) by (auto simp: evsignal_process_def)
  show ?thesis
    unfolding s1(2) by (rule keeps_good [OF keeps_fields(3) process_caught_good [OF assms(1) s1(1)]])
qed

lemma dispatch_one_good:
  assumes g: "edel.good K s" and run: "dispatch_one K pw s = Inr s'"
  shows "edel.good K s'"
proof -
  have del: "edel.good K s2"
    if "edel.good K s1" "(case o1 of None \<Rightarrow> Inr (0, s1)
       | Some e \<Rightarrow> if c e then event_del (epoll_del K) e s1 else Inr (0, s1)) = Inr (r, s2)"
    for o1 c s1 r s2
    using that event_del_epoll [OF that(1)] by (auto split: option.splits if_splits)
  have act: "edel.good K s2"
    if "edel.good K s1" "(case o1 of None \<Rightarrow> Inr s1 | Some e \<Rightarrow> event_active e res 1 s1) = Inr s2"
    for o1 res s1 s2
    using that edel.event_active_good [OF that(1)] by (auto split: option.splits)
  obtain blk i w where pw: "pw = ((blk, i), w)"
    by (cases pw) auto
  define what where "what = (if has w EPOLLHUP then or w (or EPOLLIN EPOLLOUT)
    else if has w EPOLLERR then or w (or EPOLLIN EPOLLOUT) else w)"
  define er where "er = (if has what EPOLLIN then evread (fds s ! i) else None)"
  define ew where "ew = (if has what EPOLLOUT then evwrite (fds s ! i) else None)"
  show ?thesis
  proof (cases "has what EPOLLIN \<or> has what EPOLLOUT")
    case False
    then have "s' = s"
      using run by (simp add: dispatch_one_def pw what_def [symmetric] Let_def)
    with g show ?thesis by simp
  next
    case True
    then obtain r1 s1 r2 s2 s3 where st:
      "(case er of None \<Rightarrow> Inr (0, s)
        | Some e \<Rightarrow> if \<not> has (ev_events (evs s e)) EV_PERSIST
            then event_del (epoll_del K) e s else Inr (0, s)) = Inr (r1, s1)"
      "(case ew of None \<Rightarrow> Inr (0, s1)
        | Some e \<Rightarrow> if ew \<noteq> er \<and> \<not> has (ev_events (evs s1 e)) EV_PERSIST
            then event_del (epoll_del K) e s1 else Inr (0, s1)) = Inr (r2, s2)"
      "(case er of None \<Rightarrow> Inr s2 | Some e \<Rightarrow> event_active e EV_READ 1 s2) = Inr s3"
      "(case ew of None \<Rightarrow> Inr s3 | Some e \<Rightarrow> event_active e EV_WRITE 1 s3) = Inr s'"
      using run unfolding dispatch_one_def pw Let_def prod.case what_def [symmetric]
        er_def [symmetric] ew_def [symmetric]
      by (auto split: if_split_asm)
    show ?thesis
      using act [OF act [OF del [OF del [OF g st(1)] st(2)] st(3)] st(4)] .
  qed
qed

lemma dispatch_loop_good: "edel.good K s \<Longrightarrow> dispatch_loop K pws s = Inr s' \<Longrightarrow> edel.good K s'"
  by (induction pws arbitrary: s) (auto dest: dispatch_one_good)

lemma handler_keeps:
  assumes "evsignal_handler K sig s = Inr s'"
  shows "keeps_epoll K s s'"
proof -
  let ?s = "s\<lparr>evsigcaught := (evsigcaught s)(sig := evsigcaught s sig + 1), evsignal_caught := True\<rparr>"
  have "s' = ?s\<lparr>calls := calls ?s @ [Write_fd (fst (ev_signal_pair ?s))]\<rparr>"
    using assms by (auto simp: evsignal_handler_def syscall_def Let_def split: if_splits)
  moreover have "keeps_epoll K s (?s\<lparr>calls := calls ?s @ [Write_fd (fst (ev_signal_pair ?s))]\<rparr>)"
    by (rule keeps_trans [OF keeps_fields(3) keeps_call]) simp
  ultimately show ?thesis by simp
qed

lemma deliver_signals_keeps: "deliver_signals K sigs s = Inr s' \<Longrightarrow> keeps_epoll K s s'"
proof (induction sigs arbitrary: s)
  case (Cons sig sigs)
  then obtain s1 where s1: "evsignal_handler K sig s = Inr s1" "deliver_signals K sigs s1 = Inr s'"
    by auto
  show ?case
    using keeps_trans [OF handler_keeps [OF s1(1)] Cons.IH [OF s1(2)]] .
qed simp

lemma deliver_keeps: "keeps_epoll K s (snd (evsignal_deliver K s))"
  by (simp add: evsignal_deliver_def syscall_def keeps_call)

lemma epoll_dispatch_good:
  assumes g: "edel.good K s" and run: "epoll_dispatch K tv s = Inr (r, s')"
  shows "edel.good K s'"
proof -
  obtain r0 s0 where s0: "evsignal_deliver K s = (r0, s0)"
    by (cases "evsignal_deliver K s") auto
  have g0: "edel.good K s0"
    using keeps_good [OF deliver_keeps g] s0 by simp
  show ?thesis
  proof (cases "r0 = - 1")
    case True
    with run s0 g0 show ?thesis by (simp add: epoll_dispatch_def)
  next
    case False
    let ?h = "calls s0"
    let ?c = "Epoll_wait (nevents s0) (wait_ms tv)"
    let ?s = "s0\<lparr>calls := ?h @ [?c]\<rparr>"
    have gs: "edel.good K ?s"
      by (rule keeps_good [OF keeps_call g0]) simp
    obtain s1 r2 s2 where s1: "deliver_signals K (sys_signals K ?h) ?s = Inr s1"
      and s2: "evsignal_recalc K (epoll_add K) s1 = Inr (r2, s2)"
      and rest: "(if r2 = - 1 then Inr (- 1, s2)
         else if sys_fails K ?h ?c then
           (if \<not> sys_eintr K ?h then Inr (- 1, s2)
            else bnd (evsignal_process (epoll_del K) s2) (\<lambda>s. Inr (0, s)))
         else
           bnd (if evsignal_caught s2 then evsignal_process (epoll_del K) s2 else Inr s2) (\<lambda>s.
           bnd (dispatch_loop K (sys_ready K ?h) s) (\<lambda>s. Inr (0, s)))) = Inr (r, s')"
      using run s0 False by (auto simp: epoll_dispatch_def syscall_def Let_def)
    have g2: "edel.good K s2"
      using keeps_good [OF evsignal_recalc_keeps [OF eadder.event_adder_axioms s2]
          keeps_good [OF deliver_signals_keeps [OF s1] gs]] .
    have p: "edel.good K s3" if "evsignal_process (epoll_del K) s2 = Inr s3" for s3
      using evsignal_process_good [OF g2 that] .
    show ?thesis
      using rest g2 p dispatch_loop_good by (auto split: if_splits)
  qed
qed

interpretation ep: event_backend "epoll_inv K" "epollops K" for K
proof (unfold_locales, goal_cases)
  case (1 s ev r s')
  then show ?case
    using eadder.add_inv [of s K ev r s'] by (simp add: epollops_def)
next
  case (2 s k r s')
  then show ?case
    using epoll_recalc_keeps [of K k s r s'] by (simp add: epollops_def keeps_epoll_def)
next
  case (3 s tv r s')
  then show ?case
    using epoll_dispatch_good [of K s tv r s'] by (simp add: epollops_def edel.good_def)
qed

end
