(* ===== verification/EventProps.thy ===== *)
theory EventProps
  imports EpollProofs
begin

text \<open>
  The properties of the event core (\<open>event.c\<close>, \<open>epoll.c\<close>, \<open>signal.c\<close>), stated on the model
  of the code with the \<open>epoll\<close> back end, each with a run on a concrete state.
\<close>

section \<open>States for the runs\<close>

definition blank_event :: event where
  "blank_event = event_zero\<lparr>ev_base := True, ev_flags := EVLIST_INIT\<rparr>"

definition idle :: epollstate where
  "idle = \<lparr>evs = \<lambda>_. blank_event, event_count = 0, event_count_active = 0, event_gotterm = 0,
     activequeues = [[]], eventqueue = [], event_tv = timerclear, timetree = Leaf, signalqueue = [],
     event_gotsig = False, clock = \<lambda>k. \<lparr>tv_sec = int k, tv_usec = 0\<rparr>, ticks = 10,
     ncalls_vars = \<lambda>_. None, next_var = 0, onces = \<lambda>_. None,
     fds = replicate 4 evepoll_zero, fds_block = 0, nevents = 4, evsigmask = {},
     evsigcaught = \<lambda>_. 0, needrecalc = False, evsignal_caught = False, ev_signal_pair = (0, 1),
     ev_signal_added = True, calls = []\<rparr>"

definition calm :: kernel where
  "calm = \<lparr>sys_noepoll = False, sys_rlimit = Some 5, sys_pair = (0, 1), sys_fails = \<lambda>_ _. False,
     sys_moves = \<lambda>_. False, sys_ready = \<lambda>_. [], sys_eintr = \<lambda>_. False, sys_signals = \<lambda>_. []\<rparr>"

lemmas blank_defs = blank_event_def event_zero_def

lemma idle_core: "core_inv idle"
  by (auto simp add: core_inv_def inv_defs valid_times_def in_active_def nactivequeues_def idle_def
      blank_defs rb_tree_def ascending_def flag_simps timer_defs)

lemma idle_epoll: "epoll_inv K idle"
  by (auto simp: epoll_inv_def entry_ok_def table_ok_def kernel_ok_def interest_def table_interest_def
      entry_interest_def idle_def evepoll_zero_def fun_eq_iff)

section \<open>The loop and the invariant\<close>

text \<open>
  C1: the loop keeps the invariants. Whatever the flags and the number of iterations, and for
  all callbacks that keep them, \<open>event_base_loop\<close> on the \<open>epoll\<close> back end returns in a state
  in which the flags of every event agree with the queues it is on, the timeout tree is an
  ordered red-black tree, both counters are right, and the descriptor table agrees with the
  interest set of the kernel.
\<close>

theorem loop_keeps_invariants:
  assumes "\<And>cb fd res arg s s'. core_inv s \<Longrightarrow> epoll_inv K s \<Longrightarrow> cbs cb fd res arg s = Inr s' \<Longrightarrow>
      core_inv s' \<and> epoll_inv K s'"
    and "\<And>f s r s'. sigcb = Some f \<Longrightarrow> core_inv s \<Longrightarrow> epoll_inv K s \<Longrightarrow> f s = Inr (r, s') \<Longrightarrow>
      core_inv s' \<and> epoll_inv K s'"
    and "core_inv s" "epoll_inv K s"
    and "event_base_loop (epollops K) cbs sigcb n flags s = Inr (r, s')"
  shows "core_inv s' \<and> epoll_inv K s'"
proof -
  have "ep.good_callbacks K cbs"
    unfolding ep.good_callbacks_def edel.good_def using assms(1) by blast
  moreover have "ep.good_sigcb K sigcb"
    unfolding ep.good_sigcb_def edel.good_def using assms(2) by blast
  ultimately show ?thesis
    using ep.event_base_loop_good [where K = K] assms(3-5) unfolding edel.good_def by blast
qed

theorem loop_keeps_invariants_witness:
  "\<exists>s'. event_base_loop (epollops calm) (\<lambda>_ _ _ _. Inr) None 2 0 idle = Inr (1, s') \<and>
    core_inv s' \<and> epoll_inv calm s'"
proof -
  obtain s' where s': "event_base_loop (epollops calm) (\<lambda>_ _ _ _. Inr) None 2 0 idle = Inr (1, s')"
    by (simp add: numeral_2_eq_2 epollops_def epoll_recalc_def epoll_recalc_with_def grow_fds_def nfds_def
        evsignal_recalc_def gettimeofday_def Let_def timeout_next_def rb_min_first first_of_def
        event_haveevents_def idle_def timer_defs)
  show ?thesis
    using loop_keeps_invariants [where K = calm and sigcb = None and cbs = "\<lambda>_ _ _ _. Inr", OF _ _ idle_core
        idle_epoll s'] s' by auto
qed

lemma epoll_init_state:
  assumes "epoll_init K s = Inr (True, s')"
  shows "evs s' = (evs s)(ev_signal := (evs s ev_signal)\<lparr>ev_base := True, ev_callback := CB_signal,
      ev_arg := ev_signal, ev_fd := snd (sys_pair K), ev_events := EV_READ, ev_ncalls := 0,
      ev_pncalls := None, ev_pri := nactivequeues s div 2, ev_flags := or EVLIST_INIT EVLIST_INTERNAL\<rparr>)"
    and "event_count s' = event_count s \<and> event_count_active s' = event_count_active s \<and>
      event_gotterm s' = event_gotterm s \<and> activequeues s' = activequeues s \<and>
      eventqueue s' = eventqueue s \<and> event_tv s' = event_tv s \<and> timetree s' = timetree s \<and>
      signalqueue s' = signalqueue s \<and> clock s' = clock s"
    and "\<exists>n. fds s' = replicate n evepoll_zero"
    and "\<exists>cs. calls s' = calls s @ cs \<and> (\<forall>c \<in> set cs. \<not> is_ctl c)"
proof -
  note run = assms [unfolded epoll_init_def evsignal_init_def event_set_def syscall_def Let_def]
  show "evs s' = (evs s)(ev_signal := (evs s ev_signal)\<lparr>ev_base := True, ev_callback := CB_signal,
      ev_arg := ev_signal, ev_fd := snd (sys_pair K), ev_events := EV_READ, ev_ncalls := 0,
      ev_pncalls := None, ev_pri := nactivequeues s div 2, ev_flags := or EVLIST_INIT EVLIST_INTERNAL\<rparr>)"
    using run by (cases "evs s ev_signal") (auto simp: nactivequeues_def split: if_splits)
  show "event_count s' = event_count s \<and> event_count_active s' = event_count_active s \<and>
      event_gotterm s' = event_gotterm s \<and> activequeues s' = activequeues s \<and>
      eventqueue s' = eventqueue s \<and> event_tv s' = event_tv s \<and> timetree s' = timetree s \<and>
      signalqueue s' = signalqueue s \<and> clock s' = clock s"
    using run by (auto split: if_splits)
  show "\<exists>n. fds s' = replicate n evepoll_zero"
    using run by (auto simp: upd_ev_def split: if_splits)
  show "\<exists>cs. calls s' = calls s @ cs \<and> (\<forall>c \<in> set cs. \<not> is_ctl c)"
    using run by (auto simp: upd_ev_def split: if_splits)
qed

lemma no_ctl_interest: "\<forall>c \<in> set cs. \<not> is_ctl c \<Longrightarrow> interest K cs = (\<lambda>_. None)"
  by (induction cs rule: rev_induct) (auto simp: interest_other, simp add: interest_def)

text \<open>
  C2: \<open>event_init\<close> establishes the invariants on zeroed memory: no event is queued, there is
  one active queue, and the kernel has no interest registered.
\<close>

theorem event_init_establishes:
  assumes "\<And>e. ev_flags (evs s e) = 0 \<and> ev_pri (evs s e) = 0 \<and> valid_tv (ev_timeout (evs s e))"
    and "\<And>k. valid_tv (clock s k)" and "calls s = []"
    and "event_init (epollops K) s = Inr s'"
  shows "core_inv s' \<and> epoll_inv K s' \<and> event_count s' = 0 \<and> activequeues s' = [[]] \<and>
    timetree s' = Leaf \<and> event_tv s' = clock s (ticks s) \<and> interest K (calls s') = (\<lambda>_. None)"
proof -
  define s1 where "s1 = s\<lparr>event_count := 0, event_count_active := 0, event_gotterm := 0,
    activequeues := [], event_gotsig := False, ticks := Suc (ticks s), event_tv := clock s (ticks s),
    timetree := Leaf, eventqueue := [], signalqueue := []\<rparr>"
  obtain ok s2 where s2: "epoll_init K s1 = Inr (ok, s2)"
    "(if \<not> ok then Inl Exit_errx else bnd (event_base_priority_init 1 s2) (\<lambda>(r, s). Inr s)) = Inr s'"
    using assms(4) by (auto simp: event_init_def gettimeofday_def epollops_def s1_def Let_def)
  then have "epoll_init K s1 = Inr (True, s2)"
    by (cases ok) auto
  note st = epoll_init_state [OF this]
  have "event_count_active s2 = 0"
    using st(2) by (simp add: s1_def)
  then have s': "s' = s2\<lparr>activequeues := [[]]\<rparr>"
    using s2(2) by (auto simp: event_base_priority_init_def split: if_splits)
  have fields: "event_count s2 = 0" "event_count_active s2 = 0" "eventqueue s2 = []" "signalqueue s2 = []"
    "timetree s2 = Leaf" "event_tv s2 = clock s (ticks s)" "clock s2 = clock s"
    using st(2) by (simp_all add: s1_def)
  have evs2: "evs s2 e = (if e = ev_signal then (evs s ev_signal)\<lparr>ev_base := True,
      ev_callback := CB_signal, ev_arg := ev_signal, ev_fd := snd (sys_pair K), ev_events := EV_READ,
      ev_ncalls := 0, ev_pncalls := None, ev_pri := 0, ev_flags := or EVLIST_INIT EVLIST_INTERNAL\<rparr>
      else evs s e)" for e
    using st(1) by (simp add: s1_def nactivequeues_def)
  have "event_inv s'"
    using assms(1)
    by (auto simp: s' inv_defs in_active_def nactivequeues_def fields evs2 rb_tree_def ascending_def
        flag_simps flags_ok_or)
  moreover have "valid_times s'"
    using assms(1,2) by (simp add: s' valid_times_def fields evs2)
  moreover obtain n cs where T: "fds s2 = replicate n evepoll_zero" and C: "calls s2 = cs"
    and cs: "\<forall>c \<in> set cs. \<not> is_ctl c"
    using st(3,4) assms(3) by (auto simp: s1_def)
  have "table_interest (replicate n evepoll_zero) = (\<lambda>_. None)"
    using table_interest_append [of "[]" n] by (simp add: table_interest_def fun_eq_iff)
  then have "epoll_inv K s'" "interest K (calls s') = (\<lambda>_. None)"
    using no_ctl_interest [OF cs] by (simp_all add: s' epoll_inv_def table_ok_def kernel_ok_def T C)
  ultimately show ?thesis
    by (simp add: s' core_inv_def fields)
qed

theorem event_init_establishes_witness:
  "\<exists>s'. event_init (epollops calm) (idle\<lparr>evs := \<lambda>_. event_zero\<rparr>) = Inr s' \<and> core_inv s' \<and>
    activequeues s' = [[]]"
proof -
  let ?s = "idle\<lparr>evs := \<lambda>_. event_zero\<rparr>"
  obtain s' where s': "event_init (epollops calm) ?s = Inr s'"
    by (simp add: event_init_def epollops_def epoll_init_def evsignal_init_def syscall_def Let_def
        gettimeofday_def event_base_priority_init_def calm_def idle_def event_set_def)
  have "core_inv s' \<and> epoll_inv calm s' \<and> event_count s' = 0 \<and> activequeues s' = [[]] \<and>
    timetree s' = Leaf \<and> event_tv s' = clock ?s (ticks ?s) \<and> interest calm (calls s') = (\<lambda>_. None)"
    by (rule event_init_establishes [OF _ _ _ s']) (simp_all add: idle_def event_zero_def timer_defs)
  with s' show ?thesis by blast
qed

section \<open>Timeouts\<close>

text \<open>
  C3: \<open>timeout_process\<close> activates exactly the events that are due. They leave the timeout tree
  and every other queue and join the end of their priority's active queue, earliest first,
  with result \<open>EV_TIMEOUT\<close> and one call; no other event is touched; no fault is possible.
\<close>

theorem timeout_process_expires:
  assumes "event_inv s" "epoll_inv K s" "\<And>e. e \<in> set (timeq s) \<Longrightarrow> deletable e s"
  shows "\<exists>s'. timeout_process (epollops K) s = Inr s' \<and> event_inv s' \<and> epoll_inv K s' \<and>
    (let now = clock s (ticks s);
         xs = filter (\<lambda>e. \<not> timercmp_greater (ev_timeout (evs s e)) now) (timeq s) in
     timeq s' = filter (\<lambda>e. timercmp_greater (ev_timeout (evs s e)) now) (timeq s) \<and>
     (\<forall>e. evs s' e = (if e \<in> set xs then expire (evs s e) else evs s e)) \<and>
     activequeues s' = requeued (evs s) xs (activequeues s))"
proof -
  have "\<forall>e \<in> set (timeq s). deletable e s"
    using assms(3) by blast
  from edel.timeout_process_ok [OF assms(1,2) this] obtain s' where s':
    "timeout_process (epollops K) s = Inr s'" "event_inv s'" "epoll_inv K s'"
    "expired (clock s (ticks s)) (s\<lparr>ticks := Suc (ticks s)\<rparr>) s'"
    by blast
  have "due (s\<lparr>ticks := Suc (ticks s)\<rparr>) now = (\<lambda>e. \<not> timercmp_greater (ev_timeout (evs s e)) now)" for now
    by (rule ext) (simp add: due_def)
  with s'(4) have "let now = clock s (ticks s);
         xs = filter (\<lambda>e. \<not> timercmp_greater (ev_timeout (evs s e)) now) (timeq s) in
     timeq s' = filter (\<lambda>e. timercmp_greater (ev_timeout (evs s e)) now) (timeq s) \<and>
     (\<forall>e. evs s' e = (if e \<in> set xs then expire (evs s e) else evs s e)) \<and>
     activequeues s' = requeued (evs s) xs (activequeues s)"
    by (simp add: expired_def Let_def)
  with s'(1-3) show ?thesis by blast
qed

text \<open>Events 1 and 2 wait for times 5 and 40; the clock reads 10.\<close>

definition waiting :: epollstate where
  "waiting = idle\<lparr>evs := (\<lambda>_. blank_event)
      (1 := blank_event\<lparr>ev_flags := or EVLIST_INIT EVLIST_TIMEOUT, ev_timeout := \<lparr>tv_sec = 5, tv_usec = 0\<rparr>\<rparr>,
       2 := blank_event\<lparr>ev_flags := or EVLIST_INIT EVLIST_TIMEOUT, ev_timeout := \<lparr>tv_sec = 40, tv_usec = 0\<rparr>\<rparr>),
     event_count := 2, timetree := Node Leaf RB_BLACK 1 (Node Leaf RB_RED 2 Leaf)\<rparr>"

lemma waiting_inv: "event_inv waiting"
  by (auto simp: inv_defs in_active_def nactivequeues_def waiting_def idle_def blank_defs rb_tree_def
      ascending_def compare_def ncounted_def counted_def flag_simps flags_ok_or timer_defs)

theorem timeout_process_expires_witness:
  "\<exists>s'. timeout_process (epollops calm) waiting = Inr s' \<and> timeq s' = [2] \<and> activequeues s' = [[1]]"
proof -
  have "epoll_inv calm waiting"
    using idle_epoll [of calm] by (simp add: epoll_inv_def table_ok_def kernel_ok_def waiting_def entry_ok_def
        idle_def evepoll_zero_def nth_Cons')
  moreover have "deletable e waiting" if "e \<in> set (timeq waiting)" for e
    using that by (auto simp: deletable_def waiting_def idle_def blank_defs loop_safe_def flag_simps)
  ultimately obtain s' where "timeout_process (epollops calm) waiting = Inr s'"
    "timeq s' = [2]" "activequeues s' = requeued (evs waiting) [1] (activequeues waiting)"
    using timeout_process_expires [OF waiting_inv, of calm]
    by (auto simp: waiting_def idle_def timer_defs Let_def)
  then show ?thesis
    by (simp add: requeued_def waiting_def idle_def blank_defs)
qed

text \<open>
  C4: \<open>timeout_next\<close> tells the loop how long to wait: the default when there is no timeout,
  nothing when the earliest is due, and else the time left until it. With valid times its two
  assertions cannot fire and the answer is a valid time that is not negative.
\<close>

theorem timeout_next_waits:
  assumes "core_inv s"
  shows "\<exists>tv s'. timeout_next s = Inr (tv, s') \<and> valid_tv tv \<and> 0 \<le> usecs tv \<and>
    (timeq s = [] \<longrightarrow> tv = TIMEOUT_DEFAULT) \<and>
    (\<forall>e \<in> set (timeq s). usecs tv \<le> max 0 (usecs (ev_timeout (evs s e)) - usecs (clock s (ticks s)))) \<and>
    (timeq s \<noteq> [] \<longrightarrow> (\<exists>e \<in> set (timeq s).
       usecs tv = max 0 (usecs (ev_timeout (evs s e)) - usecs (clock s (ticks s)))))"
proof -
  have inv: "event_inv s" and v: "\<forall>e. valid_tv (ev_timeout (evs s e))" "\<forall>k. valid_tv (clock s k)"
    using assms by (simp_all add: core_inv_def valid_times_def)
  note run = timeout_next_ok [OF inv v]
  show ?thesis
  proof (cases "timeq s")
    case Nil
    with run show ?thesis
      by (simp add: TIMEOUT_DEFAULT_def valid_tv_def usecs_def)
  next
    case (Cons ev rest)
    let ?now = "clock s (ticks s)"
    let ?tv = "if timercmp_less ?now (ev_timeout (evs s ev)) then timersub (ev_timeout (evs s ev)) ?now
      else timerclear"
    have tv: "valid_tv ?tv" "usecs ?tv = max 0 (usecs (ev_timeout (evs s ev)) - usecs ?now)"
      using v by (auto simp: valid_timersub valid_timerclear usecs_timersub timercmp_less_usecs)
        (simp add: timerclear_def usecs_def)
    have first: "usecs (ev_timeout (evs s ev)) \<le> usecs (ev_timeout (evs s e))" if "e \<in> set rest" for e
    proof -
      have "compare (evs s) ev e < 0"
        using inv that Cons by (simp add: event_inv_def tree_inv_def ascending_def)
      then show ?thesis
        using v by (auto simp: compare_less_iff timercmp_less_usecs)
    qed
    have "\<forall>e \<in> set (timeq s). usecs ?tv \<le> max 0 (usecs (ev_timeout (evs s e)) - usecs ?now)"
      using first unfolding tv(2) by (fastforce simp: Cons)
    with run Cons tv show ?thesis by auto
  qed
qed

theorem timeout_next_waits_witness:
  "\<exists>tv s'. timeout_next waiting = Inr (tv, s') \<and> usecs tv = 0"
proof -
  have "core_inv waiting"
    using waiting_inv by (simp add: core_inv_def valid_times_def waiting_def idle_def blank_defs timer_defs)
  from timeout_next_waits [OF this] show ?thesis
    by (auto simp: waiting_def idle_def blank_defs timer_defs)
qed

text \<open>
  when the clock has been set back, \<open>timeout_correct\<close> moves every pending timeout by the
  same amount and no other event; because the order of the tree is the order of the shifted
  times, changing the keys in place leaves the tree an ordered red-black tree.
\<close>

theorem timeout_correct_shifts:
  assumes "core_inv s" "valid_tv d"
  shows "\<exists>s'. timeout_correct d s = Inr s' \<and> event_inv s' \<and> timetree s' = timetree s \<and>
    (\<forall>e \<in> set (timeq s). usecs (ev_timeout (evs s' e)) = usecs (ev_timeout (evs s e)) - usecs d) \<and>
    (\<forall>e. e \<notin> set (timeq s) \<longrightarrow> evs s' e = evs s e)"
  using timeout_correct_ok [of s d] assms by (auto simp: core_inv_def valid_times_def usecs_timersub)

theorem timeout_correct_shifts_witness:
  "\<exists>s'. timeout_correct \<lparr>tv_sec = 3, tv_usec = 1\<rparr> waiting = Inr s' \<and>
    usecs (ev_timeout (evs s' 1)) = 1999999 \<and> usecs (ev_timeout (evs s' 2)) = 36999999"
proof -
  have "core_inv waiting"
    using waiting_inv by (simp add: core_inv_def valid_times_def waiting_def idle_def blank_defs timer_defs)
  moreover have "valid_tv \<lparr>tv_sec = 3, tv_usec = 1\<rparr>"
    by (simp add: valid_tv_def)
  ultimately show ?thesis
    using timeout_correct_shifts [of waiting "\<lparr>tv_sec = 3, tv_usec = 1\<rparr>"]
    by (auto simp: waiting_def blank_defs usecs_def)
qed

section \<open>Adding, deleting, calling\<close>







text \<open>
  C6: \<open>event_add\<close> on a timer returns 0 with any back end: the event is on the timeout tree at
  the place its new time, now plus the timeout, gives it, whether it was pending before or not;
  an activation by an earlier timeout is withdrawn, any other is kept; no other event changes.
\<close>

theorem event_add_timer:
  assumes "event_inv s" "ev_base (evs s ev)" "loop_safe ev s"
    and "\<not> has (ev_events (evs s ev)) (or EV_READ EV_WRITE)" "\<not> has (ev_events (evs s ev)) EV_SIGNAL"
  shows "\<exists>s' f. event_add add ev (Some tv) s = Inr (0, s') \<and> event_inv s' \<and>
    timeq s' = ins_ascending (compare (evs s')) ev (remove1 ev (timeq s)) \<and>
    evs s' = (evs s)(ev := (evs s ev)\<lparr>ev_flags := f, ev_timeout := timeradd (clock s (ticks s)) tv\<rparr>) \<and>
    has f EVLIST_TIMEOUT \<and>
    has f EVLIST_ACTIVE = (has (ev_flags (evs s ev)) EVLIST_ACTIVE \<and> \<not> has (ev_res (evs s ev)) EV_TIMEOUT)"
proof -
  obtain s' f where s': "event_add_timeout ev tv s = Inr s'" "event_inv s'"
    "evs s' = (evs s)(ev := (evs s ev)\<lparr>ev_flags := f, ev_timeout := timeradd (clock s (ticks s)) tv\<rparr>)"
    "\<forall>n. bit f n \<longleftrightarrow> n = 0 \<or> bit (ev_flags (evs s ev)) n \<and> (n = 3 \<longrightarrow> \<not> timed_out (evs s ev))"
    "timeq s' = ins_ascending (compare (evs s')) ev (remove1 ev (timeq s))"
    using event_add_timeout_ok [OF assms(1,3)] by blast
  have "flags_ok (ev_flags (evs s ev))"
    using assms(1) by (simp add: event_inv_def flag_inv_def)
  then have "event_add add ev (Some tv) s = Inr (0, s')"
    using assms(2,4,5) s'(1,3) by (simp add: event_add_def event_add_io_def)
  with s'(2-5) show ?thesis
    by (intro exI [of _ s'] exI [of _ f]) (auto simp: has_EVLIST timed_out_def)
qed

theorem event_add_timer_witness:
  "\<exists>s'. event_add (epoll_add calm) 3 (Some \<lparr>tv_sec = 7, tv_usec = 0\<rparr>) waiting = Inr (0, s') \<and>
    timeq s' = [1, 3, 2]"
proof -
  have "ev_base (evs waiting 3)" "loop_safe 3 waiting"
    "\<not> has (ev_events (evs waiting 3)) (or EV_READ EV_WRITE)" "\<not> has (ev_events (evs waiting 3)) EV_SIGNAL"
    by (simp_all add: waiting_def idle_def blank_defs loop_safe_def)
  from event_add_timer [OF waiting_inv this, of "epoll_add calm" "\<lparr>tv_sec = 7, tv_usec = 0\<rparr>"]
  obtain s' f where "event_add (epoll_add calm) 3 (Some \<lparr>tv_sec = 7, tv_usec = 0\<rparr>) waiting = Inr (0, s')"
    "timeq s' = ins_ascending (compare (evs s')) 3 (remove1 3 (timeq waiting))"
    "evs s' = (evs waiting)(3 := (evs waiting 3)\<lparr>ev_flags := f, ev_timeout :=
       timeradd (clock waiting (ticks waiting)) \<lparr>tv_sec = 7, tv_usec = 0\<rparr>\<rparr>)"
    by blast
  then show ?thesis
    by (simp add: ins_ascending_def compare_def waiting_def idle_def blank_defs timer_defs)
qed

text \<open>
  C7: \<open>event_del\<close> with the \<open>epoll\<close> back end always returns on an event whose memory is valid,
  and takes it off the timeout tree, the active queues, the event queue and the signal queue
  without disturbing the order of the others.
\<close>

theorem event_del_removes:
  assumes "event_inv s" "epoll_inv K s" "deletable ev s"
    and "\<not> (has (ev_flags (evs s ev)) EVLIST_INSERTED \<and> has (ev_flags (evs s ev)) EVLIST_SIGNAL)"
  shows "\<exists>r s'. event_del (epoll_del K) ev s = Inr (r, s') \<and> event_inv s' \<and> epoll_inv K s' \<and>
    timeq s' = remove1 ev (timeq s) \<and> activequeues s' = map (remove1 ev) (activequeues s) \<and>
    eventqueue s' = remove1 ev (eventqueue s) \<and> signalqueue s' = remove1 ev (signalqueue s) \<and>
    ev \<notin> set (timeq s') \<union> set (activeq s') \<union> set (eventqueue s') \<union> set (signalqueue s') \<and>
    (\<forall>e. e \<noteq> ev \<longrightarrow> evs s' e = evs s e)"
proof -
  obtain r s' where s': "event_del (epoll_del K) ev s = Inr (r, s')" "event_inv s'" "epoll_inv K s'"
    "deleted ev s s'"
    using edel.event_del_ok [OF assms(1-3)] by (auto simp: epollops_def)
  have "signalqueue s = remove1 ev (signalqueue s)" if "has (ev_flags (evs s ev)) EVLIST_INSERTED"
    using that assms(1,4) by (simp add: event_inv_def sig_inv_def has_EVLIST remove1_idem)
  then have q: "signalqueue s' = remove1 ev (signalqueue s)"
    using s'(4) by (auto simp: deleted_def)
  have f: "\<not> has (ev_flags (evs s' ev)) EVLIST_TIMEOUT \<and> \<not> has (ev_flags (evs s' ev)) EVLIST_ACTIVE \<and>
    \<not> has (ev_flags (evs s' ev)) EVLIST_INSERTED \<and> \<not> has (ev_flags (evs s' ev)) EVLIST_SIGNAL"
    using s'(4) assms(4) by (auto simp: deleted_def has_EVLIST bit_deleted_flags)
  have "ev \<notin> queue_of EVLIST_TIMEOUT s' \<union> queue_of EVLIST_ACTIVE s' \<union> queue_of EVLIST_INSERTED s' \<union>
      queue_of EVLIST_SIGNAL s'"
    using f queue_of_flag [OF s'(2)] by simp
  then have "ev \<notin> set (timeq s') \<union> set (activeq s') \<union> set (eventqueue s') \<union> set (signalqueue s')"
    by (simp add: queue_of_def)
  with s' q show ?thesis
    by (auto simp: deleted_def)
qed

theorem event_del_removes_witness:
  "\<exists>r s'. event_del (epoll_del calm) 1 waiting = Inr (r, s') \<and> timeq s' = [2]"
proof -
  have "epoll_inv calm waiting"
    using idle_epoll [of calm] by (simp add: epoll_inv_def table_ok_def kernel_ok_def waiting_def entry_ok_def
        idle_def evepoll_zero_def nth_Cons')
  moreover have "deletable 1 waiting"
    "\<not> (has (ev_flags (evs waiting 1)) EVLIST_INSERTED \<and> has (ev_flags (evs waiting 1)) EVLIST_SIGNAL)"
    by (simp_all add: deletable_def waiting_def idle_def blank_defs loop_safe_def flag_simps)
  ultimately show ?thesis
    using event_del_removes [OF waiting_inv, of calm 1] by (auto simp: waiting_def)
qed

end
