(* ===== verification/EpollProps.thy ===== *)
theory EpollProps
  imports EventProps
begin

text \<open>
  Properties of the \<open>epoll\<close> back end and of the signal code: agreement of the kernel's interest
  set with the descriptor table, the calls made, and the runs in which the code faults.
\<close>

lemma has_EV_READ [simp]:
  "has (EV_READ :: 16 word) EV_READ" "\<not> has (EV_READ :: 16 word) EV_WRITE"
  "\<not> has (EV_READ :: 16 word) EV_SIGNAL" "has (EV_READ :: 16 word) (or EV_READ EV_WRITE)"
  by (simp_all add: has_def EV_READ_def EV_WRITE_def EV_SIGNAL_def)


lemma epoll_add_unfold:
  "epoll_add K ev s =
     (if has (ev_events (evs s ev)) EV_SIGNAL then evsignal_add ev s
      else bnd (if ev_fd (evs s ev) \<ge> nfds s
                then epoll_recalc_with K (epoll_add_at K 2) (ev_fd (evs s ev)) s else Inr (0, s)) (\<lambda>(r, s).
        if r = - 1 then Inr (- 1, s) else epoll_register K ev s))"
  by (simp add: epoll_add_def numeral_3_eq_3 numeral_2_eq_2 Let_def)

text \<open>
  C8: the descriptor table is the kernel's interest set. From any state that satisfies the
  invariant, after \<open>epoll_add\<close> (which may grow the table and register the signal socket
  first) the mask the kernel has for every descriptor is the mask of the table entry, provided
  no \<open>epoll_ctl\<close> has failed.
\<close>

theorem epoll_add_registers:
  assumes "core_inv s" "epoll_inv K s"
    and "has (ev_events (evs s ev)) (or EV_READ EV_WRITE) \<or> has (ev_events (evs s ev)) EV_SIGNAL"
    and "epoll_add K ev s = Inr (r, s')" "ctl_ok K (calls s')"
  shows "interest K (calls s') = table_interest (fds s') \<and> table_ok s'"
  using eadder.add_inv [OF assms(1-4)] assms(5) by (simp add: epoll_inv_def kernel_ok_def)

definition reader :: epollstate where
  "reader = idle\<lparr>evs := (\<lambda>_. blank_event)
     (1 := blank_event\<lparr>ev_fd := 2, ev_events := EV_READ\<rparr>,
      2 := blank_event\<lparr>ev_fd := 2, ev_events := EV_WRITE\<rparr>,
      3 := blank_event\<lparr>ev_fd := 4, ev_events := EV_READ\<rparr>)\<rparr>"

lemma reader_core: "core_inv reader"
  by (auto simp: core_inv_def inv_defs valid_times_def in_active_def nactivequeues_def idle_def
      reader_def blank_defs rb_tree_def ascending_def flag_simps timer_defs nth_Cons')

lemma reader_epoll: "epoll_inv K reader"
  using idle_epoll [of K] by (simp add: epoll_inv_def table_ok_def kernel_ok_def reader_def entry_ok_def
      idle_def evepoll_zero_def nth_Cons')

theorem epoll_add_registers_witness:
  "\<exists>r s'. epoll_add calm 1 reader = Inr (r, s') \<and> interest calm (calls s') 2 = Some EPOLLIN"
proof -
  obtain s' where s': "epoll_add calm 1 reader = Inr (0, s')" "ctl_ok calm (calls s')"
    "fds s' ! 2 = \<lparr>evread = Some 1, evwrite = None\<rparr>" "length (fds s') = 4"
    by (simp add: epoll_add_unfold epoll_register_def syscall_def nfds_def Let_def reader_def
        idle_def blank_defs calm_def ctl_ok_def evepoll_zero_def)
  have "has (ev_events (evs reader 1)) (or EV_READ EV_WRITE)"
    by (simp add: reader_def)
  then show ?thesis
    using epoll_add_registers [OF reader_core reader_epoll _ s'(1,2)] s'(1,3,4)
    by (auto simp: table_interest_def entry_interest_def entry_mask_def)
qed

text \<open>
  deleting one direction of a descriptor that another event still wants keeps that event:
  the entry for the other direction stays and the kernel is told \<open>EPOLL_CTL_MOD\<close> with its mask
  alone; when nothing is left the descriptor is removed with \<open>EPOLL_CTL_DEL\<close>.
\<close>

theorem epoll_del_keeps_other:
  assumes "has (ev_events (evs s ev)) EV_READ" "\<not> has (ev_events (evs s ev)) EV_WRITE"
    "\<not> has (ev_events (evs s ev)) EV_SIGNAL"
    and "ev_fd (evs s ev) = int i" "i < length (fds s)"
  shows "\<exists>r s'. epoll_del K ev s = Inr (r, s') \<and>
    fds s' ! i = \<lparr>evread = None, evwrite = evwrite (fds s ! i)\<rparr> \<and>
    (\<forall>j. j \<noteq> i \<longrightarrow> fds s' ! j = fds s ! j) \<and>
    (\<exists>m q. calls s' = calls s @ [Epoll_ctl
      (if evwrite (fds s ! i) = None then EPOLL_CTL_DEL else EPOLL_CTL_MOD) (int i) m q] \<and>
      (evwrite (fds s ! i) \<noteq> None \<longrightarrow> m = EPOLLOUT))"
proof (cases "evwrite (fds s ! i)")
  case None
  with assms show ?thesis
    by (cases "fds s ! i") (simp add: epoll_del_def mask_bits syscall_def nfds_def Let_def)
next
  case (Some e)
  with assms show ?thesis
    by (cases "fds s ! i") (simp add: epoll_del_def mask_bits syscall_def nfds_def Let_def)
qed

theorem epoll_del_keeps_other_witness:
  "\<exists>r s'. epoll_del calm 1 (reader\<lparr>fds := (fds reader)[2 := \<lparr>evread = Some 1, evwrite = Some 2\<rparr>]\<rparr>) = Inr (r, s') \<and>
    fds s' ! 2 = \<lparr>evread = None, evwrite = Some 2\<rparr>"
proof -
  let ?s = "reader\<lparr>fds := (fds reader)[2 := \<lparr>evread = Some 1, evwrite = Some 2\<rparr>]\<rparr>"
  have "has (ev_events (evs ?s 1)) EV_READ" "\<not> has (ev_events (evs ?s 1)) EV_WRITE"
    "\<not> has (ev_events (evs ?s 1)) EV_SIGNAL" "ev_fd (evs ?s 1) = int 2" "2 < length (fds ?s)"
    by (simp_all add: reader_def idle_def)
  from epoll_del_keeps_other [OF this, of calm] show ?thesis
    by (auto simp: reader_def idle_def)
qed

text \<open>
  \<open>event_loopexit\<close> ends the loop. When the flag its callback sets is up and the back end's
  \<open>recalc\<close> succeeds, \<open>event_base_loop\<close> returns 0 at the start of the next iteration, before it
  waits, and takes the flag down again.
\<close>

theorem loopexit_ends_loop:
  assumes "op_recalc evsel 0 (event_loopexit_cb s) = Inr (r, s')" "r \<noteq> - 1"
    and "event_gotterm s' = event_gotterm (event_loopexit_cb s)"
  shows "event_base_loop evsel cbs sigcb (Suc n) flags (event_loopexit_cb s) = Inr (0, s'\<lparr>event_gotterm := 0\<rparr>)"
  using assms by (simp add: event_loopexit_cb_def)

theorem loopexit_ends_loop_witness:
  "event_base_loop (epollops calm) (\<lambda>_ _ _ _. Inr) None (Suc 0) 0 (event_loopexit_cb waiting) =
    Inr (0, waiting)"
proof -
  have r: "op_recalc (epollops calm) 0 (event_loopexit_cb waiting) = Inr (0, event_loopexit_cb waiting)"
    by (simp add: epollops_def epoll_recalc_def epoll_recalc_with_def grow_fds_def nfds_def
        evsignal_recalc_def event_loopexit_cb_def waiting_def idle_def)
  have "waiting\<lparr>event_gotterm := 0\<rparr> = waiting"
    by (simp add: waiting_def idle_def)
  then show ?thesis
    using loopexit_ends_loop [OF r] by (simp add: event_loopexit_cb_def)
qed

section \<open>Runs that fault\<close>

text \<open>
  \<open>epoll_add\<close> does not make room for the descriptor that equals the length of the table: it
  asks \<open>epoll_recalc\<close> for \<open>fd\<close> entries, which grows the table only when it has fewer, and then
  uses entry \<open>fd\<close> outside the array.
\<close>

theorem epoll_add_out_of_bounds:
  assumes "\<not> has (ev_events (evs s ev)) EV_SIGNAL" "ev_fd (evs s ev) = nfds s"
    and "ev_signal_added s" "signalqueue s = []" "\<not> needrecalc s"
  shows "epoll_add K ev s = Inl Out_of_bounds"
  using assms by (simp add: epoll_add_unfold epoll_recalc_with_def grow_fds_def
      evsignal_recalc_def epoll_register_def)

theorem epoll_add_out_of_bounds_witness: "epoll_add calm 3 reader = Inl Out_of_bounds"
  by (rule epoll_add_out_of_bounds) (simp_all add: reader_def idle_def nfds_def)



text \<open>
  \<open>ev_pncalls\<close> outlives the variable it points to. An event that is active with two calls
  deletes itself in its callback; the loop ends, but \<open>ev_ncalls\<close> is still 1 and \<open>ev_pncalls\<close>
  still the address of the dead local variable, so deleting the event once more writes to it.
\<close>

definition twice :: epollstate where
  "twice = idle\<lparr>evs := (\<lambda>_. blank_event)
      (1 := blank_event\<lparr>ev_flags := or EVLIST_INIT EVLIST_ACTIVE, ev_ncalls := 2\<rparr>),
     event_count := 1, event_count_active := 1, activequeues := [[1]]\<rparr>"

definition self_deleting :: "epollstate callbacks" where
  "self_deleting cb fd res arg s = bnd (event_del (epoll_del calm) 1 s) (\<lambda>(r, s). Inr s)"

theorem second_delete_writes_dangling:
  "\<exists>s'. event_process_active self_deleting 4 twice = Inr s' \<and> \<not> has (ev_flags (evs s' 1)) EVLIST_ACTIVE \<and>
    event_del (epoll_del calm) 1 s' = Inl Dangling_write"
  by (simp add: event_process_active_def twice_def idle_def blank_defs event_queue_remove_def Let_def
      upd_ev_def nactivequeues_def flag_simps run_callback_def self_deleting_def event_del_def flags_ok_or
      flags_ok_clear abort_loop_def store_ncalls_def eval_nat_numeral)

end
