(* ===== verification/RBProps.thy ===== *)
theory RBProps
  imports Event
begin

text \<open>
  Properties of the red-black tree macros of \<open>tree.h\<close> as \<open>event.c\<close> instantiates them, with
  \<open>compare\<close> as the comparison function.
\<close>

text \<open>
  C10: \<open>RB_INSERT\<close> on a red-black tree ordered by timeout and address never reads NULL. A new
  event ends up at its place in the in-order sequence of a red-black tree that is still
  ordered; for an event that is already in the tree the tree is unchanged and the event is
  returned, which is what \<open>event_queue_insert\<close> asserts not to happen.
\<close>

theorem rb_insert_orders:
  assumes "rb_tree t" "ascending (compare E) (rb_inorder t)"
  shows "\<exists>found t'. rb_insert (compare E) t e = Inr (found, t') \<and>
    rb_tree t' \<and> ascending (compare E) (rb_inorder t') \<and> set (rb_inorder t') = insert e (set (rb_inorder t)) \<and>
    (if e \<in> set (rb_inorder t) then found = Some e \<and> t' = t
     else found = None \<and> rb_inorder t' = ins_ascending (compare E) e (rb_inorder t))"
proof (cases "e \<in> set (rb_inorder t)")
  case True
  with etree.insert_present [OF assms(2) True] assms show ?thesis
    by auto
next
  case False
  with etree.insert_new [OF assms False] etree.ascending_ins [OF assms(2)] show ?thesis
    by (auto simp: etree.set_ins_ascending)
qed

definition times :: "nat \<Rightarrow> event" where
  "times e = event_zero\<lparr>ev_timeout := \<lparr>tv_sec = int (10 - e), tv_usec = 0\<rparr>\<rparr>"

theorem rb_insert_orders_witness:
  "\<exists>t. rb_insert (compare times) (Node Leaf RB_BLACK 3 Leaf) 5 = Inr (None, t) \<and> rb_inorder t = [5, 3]"
proof -
  have "rb_tree (Node Leaf RB_BLACK (3 :: nat) Leaf)"
    "ascending (compare times) (rb_inorder (Node Leaf RB_BLACK 3 Leaf))"
    by (simp_all add: rb_tree_def ascending_def)
  from rb_insert_orders [OF this, of 5] show ?thesis
    by (auto simp: ins_ascending_def compare_def times_def event_zero_def timer_defs)
qed

text \<open>
  C11: \<open>RB_REMOVE\<close> of an element of a red-black tree never reads NULL, takes exactly that element
  out of the in-order sequence, and leaves a red-black tree.
\<close>

theorem rb_remove_repairs:
  assumes "rb_tree t" "ascending (compare E) (rb_inorder t)" "e \<in> set (rb_inorder t)"
  shows "\<exists>t'. rb_remove t e = Inr t' \<and> rb_tree t' \<and> ascending (compare E) (rb_inorder t') \<and>
    rb_inorder t' = remove1 e (rb_inorder t)"
  using etree.remove_present [OF assms] etree.ascending_remove1 [OF assms(2)] by auto

theorem rb_remove_repairs_witness:
  "\<exists>t. rb_remove (Node (Node Leaf RB_RED 5 Leaf) RB_BLACK 3 Leaf) 5 = Inr t \<and> rb_inorder t = [3 :: nat]"
proof -
  let ?t = "Node (Node Leaf RB_RED 5 Leaf) RB_BLACK (3 :: nat) Leaf"
  have "rb_tree ?t" "ascending (compare times) (rb_inorder ?t)" "5 \<in> set (rb_inorder ?t)"
    by (simp_all add: rb_tree_def ascending_def compare_def times_def event_zero_def timer_defs)
  from rb_remove_repairs [OF this] show ?thesis by auto
qed






text \<open>
  C13: \<open>RB_FOREACH\<close>, from \<open>RB_MIN\<close> by repeated \<open>RB_NEXT\<close>, ends and visits every element of an
  ordered tree exactly once in ascending order, as \<open>timeout_correct\<close> relies on; \<open>RB_MIN\<close> is
  the earliest event and \<open>RB_FIND\<close> finds exactly the elements of the tree.
\<close>

theorem rb_foreach_visits_all:
  assumes "ascending (compare E) (rb_inorder t)"
  shows "rb_foreach t = Inr (rb_inorder t) \<and>
    rb_min t = (if rb_inorder t = [] then None else Some (hd (rb_inorder t))) \<and>
    rb_find (compare E) t e = (if e \<in> set (rb_inorder t) then Some e else None)"
  using foreach_ok [OF etree.ascending_distinct [OF assms]] etree.find_ok [OF assms]
  by (cases "rb_inorder t") (auto simp: rb_min_first first_of_def)

theorem rb_foreach_visits_all_witness:
  "rb_foreach (Node (Node Leaf RB_RED 5 Leaf) RB_BLACK (3 :: nat) Leaf) = Inr [5, 3]"
  using rb_foreach_visits_all [of times "Node (Node Leaf RB_RED 5 Leaf) RB_BLACK 3 Leaf"]
  by (simp add: ascending_def compare_def times_def event_zero_def timer_defs)

end
