(* ===== verification/Evbuffer.thy ===== *)
theory Evbuffer
  imports Prelude
begin

text \<open>
  \<open>buffer.c\<close>: the growable byte buffer. The block at \<open>orig_buffer\<close> is a byte list, the
  pointer \<open>buffer\<close> an offset into it, and the three sizes are 64-bit words that wrap as
  \<open>size_t\<close> does. The allocator, \<open>read\<close>, \<open>write\<close>, \<open>ioctl\<close> and \<open>vsnprintf\<close> are parameters.
  The calls of the change callback a function makes are returned in order; they are the last
  thing each function does to the buffer.
\<close>

section \<open>State\<close>

record evbuffer =
  orig_buffer :: "byte list"
  buffer :: nat
  misalign :: size
  totallen :: size
  off :: size
  cb :: "nat option"
  cbarg :: nat

text \<open>A call \<open>(*cb)(buf, old, now, arg)\<close>.\<close>

type_synonym notification = "nat \<times> size \<times> size \<times> nat"

type_synonym 'r bufres = "('r \<times> evbuffer \<times> notification list) outcome"

text \<open>The allocator: whether a request succeeds, and the bytes found in new memory.\<close>

record allocator =
  alloc_ok :: "nat \<Rightarrow> bool"
  junk :: "nat \<Rightarrow> byte"

definition evbuffer_zero :: evbuffer where
  "evbuffer_zero = \<lparr>orig_buffer = [], buffer = 0, misalign = 0, totallen = 0, off = 0, cb = None, cbarg = 0\<rparr>"

definition evbuffer_new :: "bool \<Rightarrow> evbuffer option" where
  "evbuffer_new calloc_ok = (if calloc_ok then Some evbuffer_zero else None)"

definition evbuffer_setcb :: "evbuffer \<Rightarrow> nat option \<Rightarrow> nat \<Rightarrow> evbuffer" where
  "evbuffer_setcb b f arg = b\<lparr>cb := f, cbarg := arg\<rparr>"

text \<open>The call made when the length went from \<open>old\<close> to \<open>now\<close>.\<close>

definition notify :: "evbuffer \<Rightarrow> size \<Rightarrow> size \<Rightarrow> notification list" where
  "notify b old now = (case cb b of None \<Rightarrow> [] | Some f \<Rightarrow> [(f, old, now, cbarg b)])"

section \<open>Draining, aligning, expanding, adding\<close>

definition evbuffer_drain :: "evbuffer \<Rightarrow> size \<Rightarrow> evbuffer \<times> notification list" where
  "evbuffer_drain b len =
     (let oldoff = off b;
          b = (if len \<ge> off b then b\<lparr>off := 0, buffer := 0, misalign := 0\<rparr>
               else b\<lparr>buffer := buffer b + unat len, misalign := misalign b + len, off := off b - len\<rparr>)
      in (b, if off b \<noteq> oldoff then notify b oldoff (off b) else []))"

definition evbuffer_align :: "evbuffer \<Rightarrow> evbuffer outcome" where
  "evbuffer_align b =
     bnd (load (orig_buffer b) (buffer b) (unat (off b))) (\<lambda>xs.
     bnd (store (orig_buffer b) 0 xs) (\<lambda>m.
     Inr (b\<lparr>orig_buffer := m, buffer := 0, misalign := 0\<rparr>)))"

text \<open>\<open>while (length < need) length <<= 1;\<close> after 64 shifts \<open>length\<close> is 0 and stays 0.\<close>

fun grow_length :: "nat \<Rightarrow> size \<Rightarrow> size \<Rightarrow> size outcome" where
  "grow_length n len need =
     (if \<not> len < need then Inr len
      else case n of 0 \<Rightarrow> Inl Hang | Suc n \<Rightarrow> grow_length n (len * 2) need)"

declare grow_length.simps [simp del]

definition evbuffer_expand :: "allocator \<Rightarrow> evbuffer \<Rightarrow> size \<Rightarrow> (int \<times> evbuffer) outcome" where
  "evbuffer_expand A b datlen =
     (let need = misalign b + off b + datlen in
      if totallen b \<ge> need then Inr (0, b)
      else if misalign b \<ge> datlen then bnd (evbuffer_align b) (\<lambda>b. Inr (0, b))
      else
        let len = (if totallen b < 256 then 256 else totallen b) in
        bnd (grow_length 64 len need) (\<lambda>len.
        bnd (if buffer b \<noteq> 0 then evbuffer_align b else Inr b) (\<lambda>b.
        if \<not> alloc_ok A (unat len) then Inr (- 1, b)
        else Inr (0, b\<lparr>orig_buffer := take (unat len) (orig_buffer b) @
                        map (junk A) [length (orig_buffer b)..<unat len],
                      buffer := 0, totallen := len\<rparr>))))"

definition evbuffer_add :: "allocator \<Rightarrow> evbuffer \<Rightarrow> byte list \<Rightarrow> int bufres" where
  "evbuffer_add A b xs =
     (let datlen = word_of_nat (length xs);
          need = misalign b + off b + datlen;
          oldoff = off b
      in bnd (if totallen b < need then evbuffer_expand A b datlen else Inr (0, b)) (\<lambda>(r, b).
         if r = - 1 then Inr (- 1, b, [])
         else bnd (store (orig_buffer b) (buffer b + unat (off b)) xs) (\<lambda>m.
           let b = b\<lparr>orig_buffer := m, off := off b + datlen\<rparr>
           in Inr (0, b, if datlen \<noteq> 0 then notify b oldoff (off b) else []))))"

section \<open>Moving one buffer into another\<close>

definition swap_storage :: "evbuffer \<Rightarrow> evbuffer \<Rightarrow> evbuffer" where
  "swap_storage x y = x\<lparr>orig_buffer := orig_buffer y, buffer := buffer y, misalign := misalign y,
     totallen := totallen y, off := off y\<rparr>"

definition evbuffer_add_buffer :: "allocator \<Rightarrow> evbuffer \<Rightarrow> evbuffer \<Rightarrow> (int \<times> evbuffer \<times> evbuffer \<times> notification list) outcome" where
  "evbuffer_add_buffer A outbuf inbuf =
     (if off outbuf = 0 then
        let oldoff = off inbuf;
            tmp = outbuf;
            outbuf = swap_storage outbuf inbuf;
            inbuf = swap_storage inbuf tmp
        in Inr (0, outbuf, inbuf,
             (if off inbuf \<noteq> oldoff then notify inbuf oldoff (off inbuf) else []) @
             (if oldoff \<noteq> 0 then notify outbuf 0 oldoff else []))
      else
        bnd (load (orig_buffer inbuf) (buffer inbuf) (unat (off inbuf))) (\<lambda>xs.
        bnd (evbuffer_add A outbuf xs) (\<lambda>(res, outbuf, ns).
        if res = 0 then
          let (inbuf, ms) = evbuffer_drain inbuf (off inbuf)
          in Inr (res, outbuf, inbuf, ns @ ms)
        else Inr (res, outbuf, inbuf, ns))))"

section \<open>Formatted output\<close>

text \<open>
  \<open>texts k\<close> is what \<open>vsnprintf\<close> formats when it is called for the \<open>k\<close>-th time with the same
  \<open>va_list\<close>, \<open>None\<close> for an error. It stores at most \<open>space - 1\<close> bytes and a NUL.
\<close>

definition put_text :: "evbuffer \<Rightarrow> byte list \<Rightarrow> size \<Rightarrow> evbuffer outcome" where
  "put_text b text space =
     (if space = 0 then Inr b
      else bnd (store (orig_buffer b) (buffer b + unat (off b)) (take (unat space - 1) text @ [0])) (\<lambda>m.
             Inr (b\<lparr>orig_buffer := m\<rparr>)))"

fun evbuffer_add_vprintf :: "nat \<Rightarrow> allocator \<Rightarrow> (nat \<Rightarrow> byte list option) \<Rightarrow> nat \<Rightarrow> size \<Rightarrow> evbuffer \<Rightarrow> int bufres" where
  "evbuffer_add_vprintf 0 A texts k oldoff b = Inl Out_of_fuel"
| "evbuffer_add_vprintf (Suc n) A texts k oldoff b =
     (let space = totallen b - misalign b - off b in
      case texts k of
        None \<Rightarrow> Inr (- 1, b, [])
      | Some text \<Rightarrow>
          bnd (put_text b text space) (\<lambda>b.
          if word_of_nat (length text) < space then
            let b = b\<lparr>off := off b + word_of_nat (length text)\<rparr>
            in Inr (int (length text), b, notify b oldoff (off b))
          else bnd (evbuffer_expand A b (word_of_nat (length text + 1))) (\<lambda>(r, b).
            if r = - 1 then Inr (- 1, b, [])
            else evbuffer_add_vprintf n A texts (Suc k) oldoff b)))"

definition evbuffer_add_printf :: "nat \<Rightarrow> allocator \<Rightarrow> (nat \<Rightarrow> byte list option) \<Rightarrow> evbuffer \<Rightarrow> int bufres" where
  "evbuffer_add_printf n A texts b = evbuffer_add_vprintf n A texts 0 (off b) b"

section \<open>Taking bytes out\<close>

definition evbuffer_remove :: "evbuffer \<Rightarrow> size \<Rightarrow> (byte list \<times> evbuffer \<times> notification list) outcome" where
  "evbuffer_remove b datlen =
     (let nread = (if datlen \<ge> off b then off b else datlen)
      in bnd (load (orig_buffer b) (buffer b) (unat nread)) (\<lambda>xs.
           let (b, ns) = evbuffer_drain b nread in Inr (xs, b, ns)))"

definition CR :: byte where "CR = 13"
definition LF :: byte where "LF = 10"

definition is_eol :: "byte \<Rightarrow> bool" where
  "is_eol c \<longleftrightarrow> c = CR \<or> c = LF"

text \<open>The scan for the first end-of-line byte; the index where the loop stops.\<close>

fun scan_eol :: "byte list \<Rightarrow> nat" where
  "scan_eol [] = 0"
| "scan_eol (c # cs) = (if is_eol c then 0 else Suc (scan_eol cs))"

definition evbuffer_readline :: "allocator \<Rightarrow> evbuffer \<Rightarrow> (byte list option \<times> evbuffer \<times> notification list) outcome" where
  "evbuffer_readline A b =
     bnd (load (orig_buffer b) (buffer b) (unat (off b))) (\<lambda>data.
       let i = scan_eol data in
       if i = length data then Inr (None, b, [])
       else if \<not> alloc_ok A (i + 1) then
         let (b, ns) = evbuffer_drain b (word_of_nat i) in Inr (None, b, ns)
       else
         let line = take i data;
             i = (if i < length data - 1 \<and> is_eol (data ! (i + 1)) \<and> data ! (i + 1) \<noteq> data ! i
                  then i + 1 else i);
             (b, ns) = evbuffer_drain b (word_of_nat (i + 1))
         in Inr (Some line, b, ns))"

section \<open>Reading and writing descriptors\<close>

definition EVBUFFER_MAX_READ :: int where
  "EVBUFFER_MAX_READ = 4096"

text \<open>
  How many bytes \<open>evbuffer_read\<close> asks for. \<open>fionread\<close> is what \<open>ioctl(FIONREAD)\<close> stores,
  \<open>None\<close> when it fails.
\<close>

definition read_amount :: "evbuffer \<Rightarrow> int option \<Rightarrow> int \<Rightarrow> int" where
  "read_amount b fionread howmuch =
     (let n = (case fionread of
                 None \<Rightarrow> EVBUFFER_MAX_READ
               | Some n \<Rightarrow>
                   if n = 0 then EVBUFFER_MAX_READ
                   else if n > EVBUFFER_MAX_READ \<and> n > howmuch then
                     let n = (if word_of_int n > totallen b * 4 then sint (ucast (totallen b * 4) :: 32 word) else n)
                     in if n < EVBUFFER_MAX_READ then EVBUFFER_MAX_READ else n
                   else n)
      in if howmuch < 0 \<or> howmuch > n then n else howmuch)"

text \<open>\<open>readf n\<close>: the bytes \<open>read\<close> delivers when asked for \<open>n\<close>, at most \<open>n\<close> of them.\<close>

definition evbuffer_read :: "allocator \<Rightarrow> int option \<Rightarrow> (int \<Rightarrow> byte list option) \<Rightarrow> evbuffer \<Rightarrow> int \<Rightarrow> int bufres" where
  "evbuffer_read A fionread readf b howmuch =
     (let oldoff = off b;
          howmuch = read_amount b fionread howmuch
      in bnd (evbuffer_expand A b (word_of_int howmuch)) (\<lambda>(r, b).
         if r = - 1 then Inr (- 1, b, [])
         else case readf howmuch of
           None \<Rightarrow> Inr (- 1, b, [])
         | Some xs \<Rightarrow>
             let xs = take (nat howmuch) xs in
             if xs = [] then Inr (0, b, [])
             else bnd (store (orig_buffer b) (buffer b + unat (off b)) xs) (\<lambda>m.
               let b = b\<lparr>orig_buffer := m, off := off b + word_of_nat (length xs)\<rparr>
               in Inr (int (length xs), b,
                    if off b \<noteq> oldoff then notify b oldoff (off b) else []))))"

text \<open>\<open>writef xs\<close>: how many of the bytes \<open>xs\<close> \<open>write\<close> accepts, or -1.\<close>

definition evbuffer_write :: "(byte list \<Rightarrow> int) \<Rightarrow> evbuffer \<Rightarrow> (int \<times> evbuffer \<times> byte list \<times> notification list) outcome" where
  "evbuffer_write writef b =
     bnd (load (orig_buffer b) (buffer b) (unat (off b))) (\<lambda>xs.
       let n = writef xs in
       if n = - 1 then Inr (- 1, b, [], [])
       else if n = 0 then Inr (0, b, [], [])
       else
         let (b, ns) = evbuffer_drain b (word_of_int n)
         in Inr (n, b, take (nat n) xs, ns))"

section \<open>Searching\<close>

text \<open>\<open>memchr\<close> over the first \<open>remain\<close> bytes: the index of the first \<open>c\<close>.\<close>

fun memchr :: "byte \<Rightarrow> byte list \<Rightarrow> nat option" where
  "memchr c [] = None"
| "memchr c (x # xs) = (if x = c then Some 0 else map_option Suc (memchr c xs))"

text \<open>
  The loop of \<open>evbuffer_find\<close>: \<open>search\<close> is the offset from \<open>buffer\<close>, \<open>remain\<close> is \<open>off\<close> minus
  it. \<open>memcmp\<close> reads as many bytes as the pattern has, whatever \<open>off\<close> is.
\<close>

function find_loop :: "byte list \<Rightarrow> nat \<Rightarrow> nat \<Rightarrow> nat \<Rightarrow> byte list \<Rightarrow> nat option outcome" where
  "find_loop m p len search what =
     (if search > len \<or> what = [] then Inl Out_of_bounds
      else bnd (load m (p + search) (len - search)) (\<lambda>xs.
        case memchr (hd what) xs of
          None \<Rightarrow> Inr None
        | Some i \<Rightarrow>
            if len - search < length what then Inr None
            else bnd (load m (p + search + i) (length what)) (\<lambda>ys.
              if ys = what then Inr (Some (search + i))
              else find_loop m p len (search + i + 1) what)))"
  by pat_completeness auto
termination
  by (relation "measure (\<lambda>(m, p, len, search, what). Suc len - search)") auto

declare find_loop.simps [simp del]

definition evbuffer_find :: "evbuffer \<Rightarrow> byte list \<Rightarrow> nat option outcome" where
  "evbuffer_find b what = find_loop (orig_buffer b) (buffer b) (unat (off b)) 0 what"

end
