(* ===== verification/EvbufferProofs.thy ===== *)
theory EvbufferProofs
  imports Evbuffer
begin

text \<open>
  What the operations of \<open>buffer.c\<close> do to the bytes a buffer holds. The invariant says the
  block has \<open>totallen\<close> bytes, that \<open>buffer\<close> is \<open>misalign\<close> bytes into it and that the \<open>off\<close>
  bytes from there lie inside; \<open>bytes\<close> is the abstraction, the bytes waiting to be read.
  The locale \<open>byte_queue\<close> is the contract of a byte buffer, with the stream property proved
  from it; it is interpreted on \<open>evbuffer_add\<close> and \<open>evbuffer_remove\<close>.
\<close>

section \<open>Invariant and abstraction\<close>

definition evbuf_inv :: "evbuffer \<Rightarrow> bool" where
  "evbuf_inv b \<longleftrightarrow> length (orig_buffer b) = unat (totallen b) \<and> buffer b = unat (misalign b) \<and>
     unat (misalign b) + unat (off b) \<le> unat (totallen b)"

definition bytes :: "evbuffer \<Rightarrow> byte list" where
  "bytes b = take (unat (off b)) (drop (buffer b) (orig_buffer b))"

lemma length_bytes: "evbuf_inv b \<Longrightarrow> length (bytes b) = unat (off b)"
  by (auto simp: evbuf_inv_def bytes_def)

lemma load_bytes: "evbuf_inv b \<Longrightarrow> load (orig_buffer b) (buffer b) (unat (off b)) = Inr (bytes b)"
  by (simp add: evbuf_inv_def load_def bytes_def)

lemma load_prefix:
  "evbuf_inv b \<Longrightarrow> n \<le> unat (off b) \<Longrightarrow> load (orig_buffer b) (buffer b) n = Inr (take n (bytes b))"
  by (simp add: evbuf_inv_def load_def bytes_def min_def)

lemma evbuffer_zero_inv: "evbuf_inv evbuffer_zero" "bytes evbuffer_zero = []"
  by (simp_all add: evbuf_inv_def evbuffer_zero_def bytes_def)

lemma totallen_bound: "unat (totallen b) < 2 ^ 64"
  using unsigned_less [of "totallen b"] by simp

section \<open>Draining\<close>

lemma drain_all:
  "off b \<le> len \<Longrightarrow> evbuffer_drain b len = (b\<lparr>off := 0, buffer := 0, misalign := 0\<rparr>,
    if off b \<noteq> 0 then notify b (off b) 0 else [])"
  by (simp add: evbuffer_drain_def notify_def Let_def split: option.splits)

lemma drain_some:
  "\<not> off b \<le> len \<Longrightarrow> evbuffer_drain b len =
    (b\<lparr>buffer := buffer b + unat len, misalign := misalign b + len, off := off b - len\<rparr>,
     if len \<noteq> 0 then notify b (off b) (off b - len) else [])"
  by (simp add: evbuffer_drain_def notify_def Let_def split: option.splits)

lemma drain_ok:
  assumes inv: "evbuf_inv b" and run: "evbuffer_drain b len = (b', ns)"
  shows "evbuf_inv b'" "bytes b' = drop (unat len) (bytes b)"
    "ns = (if unat len = 0 \<or> bytes b = [] then [] else notify b (off b) (off b'))"
    "cb b' = cb b" "cbarg b' = cbarg b" "totallen b' = totallen b"
proof -
  have L: "length (bytes b) = unat (off b)"
    using inv by (rule length_bytes)
  show "cb b' = cb b" "cbarg b' = cbarg b" "totallen b' = totallen b"
    using run by (auto simp: evbuffer_drain_def Let_def split: if_splits)
  have "evbuf_inv b' \<and> bytes b' = drop (unat len) (bytes b) \<and>
    ns = (if unat len = 0 \<or> bytes b = [] then [] else notify b (off b) (off b'))"
  proof (cases "off b \<le> len")
    case True
    have "bytes b = [] \<longleftrightarrow> off b = 0"
      using L by (metis length_0_conv unat_eq_zero)
    moreover have "unat len = 0 \<Longrightarrow> off b = 0"
      using True by (simp add: unat_eq_zero)
    ultimately show ?thesis
      using True inv run L by (auto simp: drain_all evbuf_inv_def word_le_nat_alt bytes_def)
  next
    case False
    then have lt: "unat len < unat (off b)"
      by (simp add: word_le_nat_alt)
    then have m: "unat (misalign b + len) = unat (misalign b) + unat len"
      using inv totallen_bound [of b] unfolding evbuf_inv_def by (intro unat_plus_size) linarith
    have o: "unat (off b - len) = unat (off b) - unat len"
      using lt by (intro unat_minus_size) simp
    have "bytes b \<noteq> []"
      using L lt by auto
    moreover have "b' = b\<lparr>buffer := buffer b + unat len, misalign := misalign b + len, off := off b - len\<rparr>"
      "ns = (if len \<noteq> 0 then notify b (off b) (off b - len) else [])"
      using run drain_some [OF False] by simp_all
    moreover from this m o lt inv have "evbuf_inv b'"
      by (simp add: evbuf_inv_def)
    moreover from calculation o have "bytes b' = drop (unat len) (bytes b)"
      by (simp add: bytes_def drop_take add.commute)
    ultimately show ?thesis
      by (simp add: unat_eq_zero)
  qed
  then show "evbuf_inv b'" "bytes b' = drop (unat len) (bytes b)"
    "ns = (if unat len = 0 \<or> bytes b = [] then [] else notify b (off b) (off b'))"
    by auto
qed

section \<open>Room\<close>

text \<open>The bytes an allocation of a 64-bit machine can hold, with the misaligned ones.\<close>

definition fits :: "evbuffer \<Rightarrow> nat \<Rightarrow> bool" where
  "fits b n \<longleftrightarrow> unat (misalign b) + unat (off b) + n \<le> 2 ^ 63"

lemma need_ok: "fits b (unat n) \<Longrightarrow> unat (misalign b + off b + n) = unat (misalign b) + unat (off b) + unat n"
  by (simp add: fits_def unat_plus_size)

lemma align_ok:
  assumes "evbuf_inv b"
  shows "\<exists>b'. evbuffer_align b = Inr b' \<and> evbuf_inv b' \<and> bytes b' = bytes b \<and> off b' = off b \<and>
    misalign b' = 0 \<and> totallen b' = totallen b \<and> cb b' = cb b \<and> cbarg b' = cbarg b"
proof -
  let ?m = "bytes b @ drop (length (bytes b)) (orig_buffer b)"
  let ?b = "b\<lparr>orig_buffer := ?m, buffer := 0, misalign := 0\<rparr>"
  have L: "length (bytes b) = unat (off b)" "unat (off b) \<le> length (orig_buffer b)"
    using assms by (auto simp: length_bytes evbuf_inv_def)
  then have "evbuffer_align b = Inr ?b"
    by (simp add: evbuffer_align_def load_bytes [OF assms] store_def)
  moreover have "evbuf_inv ?b" "bytes ?b = bytes b"
    using assms L by (simp_all add: evbuf_inv_def) (simp add: bytes_def)
  ultimately show ?thesis by simp
qed

lemma unat_double: "unat (x :: size) < 2 ^ 63 \<Longrightarrow> unat (x * 2) = unat x * 2"
  by (simp add: unat_word_ariths)

text \<open>The doubling loop ends when the space needed is at most half the address space.\<close>

lemma grow_length_ok:
  assumes "0 < unat len" "unat need \<le> 2 ^ 63" "2 ^ 63 \<le> unat len * 2 ^ n"
  shows "\<exists>r. grow_length n len need = Inr r \<and> unat need \<le> unat r \<and> unat len \<le> unat r"
  using assms
proof (induction n arbitrary: len)
  case 0
  then have "\<not> len < need"
    by (simp add: word_less_nat_alt)
  then show ?case
    by (subst grow_length.simps) (simp add: word_less_nat_alt)
next
  case (Suc n)
  show ?case
  proof (cases "len < need")
    case False
    then show ?thesis
      by (subst grow_length.simps) (simp add: word_less_nat_alt)
  next
    case True
    then have "unat len < 2 ^ 63"
      using Suc.prems(2) by (simp add: word_less_nat_alt)
    then have d: "unat (len * 2) = unat len * 2"
      by (rule unat_double)
    obtain r where "grow_length n (len * 2) need = Inr r" "unat need \<le> unat r"
      "unat (len * 2) \<le> unat r"
      using Suc.IH [of "len * 2"] Suc.prems d by auto
    with True d show ?thesis
      by (subst grow_length.simps) auto
  qed
qed

text \<open>A request above half the address space never returns: the doubling overflows to 0.\<close>

lemma grow_length_zero: "0 < need \<Longrightarrow> grow_length n 0 need = Inl Hang"
  by (induction n) (subst grow_length.simps; simp)+

lemma grow_length_hangs:
  assumes "len = 2 ^ k" "k < 64" "64 \<le> n + k" "2 ^ 63 < unat need"
  shows "grow_length n len need = Inl Hang"
  using assms
proof (induction n arbitrary: len k)
  case 0
  then show ?case by simp
next
  case (Suc n)
  have "len = word_of_nat (2 ^ k)"
    using Suc.prems(1) by simp
  moreover have "(2 :: nat) ^ k < 2 ^ 64"
    using Suc.prems(2) by (intro power_strict_increasing) auto
  ultimately have "unat len = 2 ^ k"
    using Suc.prems(2) by (simp only: unsigned_of_nat) (simp add: take_bit_nat_eq_self del: of_nat_power)
  also have "(2 :: nat) ^ k \<le> 2 ^ 63"
    using Suc.prems(2) by (intro power_increasing) auto
  finally have lt: "len < need"
    using Suc.prems(4) by (simp add: word_less_nat_alt)
  have "grow_length n (len * 2) need = Inl Hang"
  proof (cases "k = 63")
    case True
    then have "len * 2 = 2 ^ 64"
      using Suc.prems(1) by simp
    then have "len * 2 = 0"
      by simp
    moreover have "0 < need"
      using lt by (metis word_neq_0_conv word_not_simps(1))
    ultimately show ?thesis
      by (simp add: grow_length_zero)
  next
    case False
    with Suc.prems show ?thesis
      by (intro Suc.IH [of _ "Suc k"]) auto
  qed
  with lt show ?case
    by (subst grow_length.simps) simp
qed

section \<open>Expanding\<close>

definition same_user :: "evbuffer \<Rightarrow> evbuffer \<Rightarrow> bool" where
  "same_user b b' \<longleftrightarrow> cb b' = cb b \<and> cbarg b' = cbarg b"

text \<open>
  \<open>evbuffer_expand\<close> keeps the bytes; when it returns 0 there is room for \<open>datlen\<close> more, and
  it returns -1 only when the allocator refuses.
\<close>

lemma expand_ok:
  assumes inv: "evbuf_inv b" and fit: "fits b (unat datlen)"
  shows "\<exists>r b'. evbuffer_expand A b datlen = Inr (r, b') \<and> evbuf_inv b' \<and> bytes b' = bytes b \<and>
    off b' = off b \<and> same_user b b' \<and> unat (totallen b) \<le> unat (totallen b') \<and>
    (r = 0 \<and> unat (misalign b') + unat (off b) + unat datlen \<le> unat (totallen b') \<or>
     r = - 1 \<and> (\<exists>n. \<not> alloc_ok A n))"
proof -
  let ?need = "misalign b + off b + datlen"
  have need: "unat ?need = unat (misalign b) + unat (off b) + unat datlen"
    using need_ok [OF fit] .
  consider "?need \<le> totallen b" | "\<not> ?need \<le> totallen b" "datlen \<le> misalign b"
    | "\<not> ?need \<le> totallen b" "\<not> datlen \<le> misalign b"
    by blast
  then show ?thesis
  proof cases
    case 1
    with inv need show ?thesis
      by (auto simp: evbuffer_expand_def word_le_nat_alt same_user_def)
  next
    case 2
    obtain b' where b': "evbuffer_align b = Inr b'" "evbuf_inv b'" "bytes b' = bytes b" "off b' = off b"
      "misalign b' = 0" "totallen b' = totallen b" "same_user b b'"
      using align_ok [OF inv] by (auto simp: same_user_def)
    have "unat (off b) + unat datlen \<le> unat (totallen b)"
      using 2(2) inv by (simp add: word_le_nat_alt evbuf_inv_def)
    with 2 b' show ?thesis
      by (simp add: evbuffer_expand_def)
  next
    case 3
    define len where "len = (if totallen b < 256 then 256 else totallen b)"
    have len: "256 \<le> unat len" "unat (totallen b) \<le> unat len"
      by (auto simp: len_def word_less_nat_alt)
    then have "0 < unat len" "2 ^ 63 \<le> unat len * 2 ^ 64"
      by simp_all
    then obtain r where r: "grow_length 64 len ?need = Inr r" "unat ?need \<le> unat r" "unat len \<le> unat r"
      using grow_length_ok [of len ?need 64] need fit by (auto simp: fits_def)
    obtain b1 where b1: "(if buffer b \<noteq> 0 then evbuffer_align b else Inr b) = Inr b1" "evbuf_inv b1"
      "bytes b1 = bytes b" "off b1 = off b" "misalign b1 = 0" "totallen b1 = totallen b" "same_user b b1"
    proof (cases "buffer b = 0")
      case True
      then have "misalign b = 0"
        using inv by (simp add: evbuf_inv_def unat_eq_zero)
      with True inv that [of b] show ?thesis by (simp add: same_user_def)
    next
      case False
      with align_ok [OF inv] that show ?thesis by (auto simp: same_user_def)
    qed
    have run: "evbuffer_expand A b datlen =
        (if \<not> alloc_ok A (unat r) then Inr (- 1, b1)
         else Inr (0, b1\<lparr>orig_buffer := take (unat r) (orig_buffer b1) @
             map (junk A) [length (orig_buffer b1)..<unat r], buffer := 0, totallen := r\<rparr>))"
      using 3 r(1) b1(1) by (simp add: evbuffer_expand_def len_def [symmetric])
    show ?thesis
    proof (cases "alloc_ok A (unat r)")
      case False
      with run b1 show ?thesis by auto
    next
      case True
      define b2 where "b2 = b1\<lparr>orig_buffer := take (unat r) (orig_buffer b1) @
             map (junk A) [length (orig_buffer b1)..<unat r], buffer := 0, totallen := r\<rparr>"
      have m1: "length (orig_buffer b1) \<le> unat r" "buffer b1 = 0" "unat (off b1) \<le> length (orig_buffer b1)"
        using b1(2,5,6) len(2) r(3) by (simp_all add: evbuf_inv_def)
      have "evbuf_inv b2"
        using m1 b1(2,5) by (simp add: evbuf_inv_def b2_def)
      moreover have "bytes b2 = bytes b"
        using m1 b1(3) by (simp add: bytes_def b2_def)
      moreover have "unat (misalign b2) + unat (off b) + unat datlen \<le> unat (totallen b2)"
        using need r(2) b1(5) by (simp add: b2_def)
      moreover have "unat (totallen b) \<le> unat (totallen b2)"
        using len(2) r(3) by (simp add: b2_def)
      ultimately show ?thesis
        using True run b1 by (simp add: b2_def [symmetric]) (simp add: b2_def same_user_def)
    qed
  qed
qed

section \<open>Adding\<close>

lemma unat_length: "n \<le> 2 ^ 63 \<Longrightarrow> unat (word_of_nat n :: size) = n"
  by (simp add: unsigned_of_nat take_bit_nat_eq_self)

lemma append_ok:
  assumes inv: "evbuf_inv b" and room: "unat (misalign b) + unat (off b) + length xs \<le> unat (totallen b)"
  shows "\<exists>m. store (orig_buffer b) (buffer b + unat (off b)) xs = Inr m \<and>
    (let b' = b\<lparr>orig_buffer := m, off := off b + word_of_nat (length xs)\<rparr> in
     evbuf_inv b' \<and> bytes b' = bytes b @ xs \<and> unat (off b') = unat (off b) + length xs \<and> same_user b b')"
proof -
  let ?p = "buffer b + unat (off b)"
  let ?m = "take ?p (orig_buffer b) @ xs @ drop (?p + length xs) (orig_buffer b)"
  have st: "store (orig_buffer b) ?p xs = Inr ?m"
    using inv room by (simp add: store_def evbuf_inv_def)
  have len: "?p \<le> length (orig_buffer b)" "?p + length xs \<le> length (orig_buffer b)"
    using inv room by (simp_all add: evbuf_inv_def)
  have "length xs < 2 ^ 64"
    using room totallen_bound [of b] by linarith
  then have "unat (word_of_nat (length xs) :: size) = length xs"
    by (simp add: unsigned_of_nat take_bit_nat_eq_self)
  then have o: "unat (off b + word_of_nat (length xs)) = unat (off b) + length xs"
    using room totallen_bound [of b] unat_plus_size [of "off b" "word_of_nat (length xs)"] by linarith
  have "bytes (b\<lparr>orig_buffer := ?m, off := off b + word_of_nat (length xs)\<rparr>) = bytes b @ xs"
    using len o by (simp add: bytes_def drop_take)
  moreover have "evbuf_inv (b\<lparr>orig_buffer := ?m, off := off b + word_of_nat (length xs)\<rparr>)"
    using inv room len o by (simp add: evbuf_inv_def)
  ultimately show ?thesis
    using st o by (simp add: Let_def same_user_def)
qed

lemma add_ok:
  assumes inv: "evbuf_inv b" and fit: "fits b (length xs)"
  shows "\<exists>r b' ns. evbuffer_add A b xs = Inr (r, b', ns) \<and> evbuf_inv b' \<and> same_user b b' \<and>
    (r = 0 \<and> bytes b' = bytes b @ xs \<and> unat (off b') = unat (off b) + length xs \<and>
       ns = (if xs = [] then [] else notify b (off b) (off b')) \<or>
     r = - 1 \<and> bytes b' = bytes b \<and> off b' = off b \<and> ns = [] \<and> (\<exists>n. \<not> alloc_ok A n))"
proof -
  let ?n = "word_of_nat (length xs) :: size"
  have n: "unat ?n = length xs"
    using fit by (intro unat_length) (simp add: fits_def)
  have n0: "?n = 0 \<longleftrightarrow> xs = []"
    using n by (metis length_0_conv unat_eq_zero)
  have need: "unat (misalign b + off b + ?n) = unat (misalign b) + unat (off b) + length xs"
    using need_ok [of b ?n] fit n by simp
  obtain r b1 where b1: "(if totallen b < misalign b + off b + ?n then evbuffer_expand A b ?n else Inr (0, b)) = Inr (r, b1)"
    "evbuf_inv b1" "bytes b1 = bytes b" "off b1 = off b" "same_user b b1"
    "r = 0 \<and> unat (misalign b1) + unat (off b) + length xs \<le> unat (totallen b1) \<or>
      r = - 1 \<and> (\<exists>n. \<not> alloc_ok A n)"
  proof (cases "totallen b < misalign b + off b + ?n")
    case True
    with expand_ok [OF inv, of ?n A] fit n that show ?thesis by auto
  next
    case False
    with inv need that [of 0 b] show ?thesis
      by (simp add: word_less_nat_alt same_user_def)
  qed
  show ?thesis
  proof (cases "r = - 1")
    case True
    with b1 show ?thesis
      by (simp add: evbuffer_add_def)
  next
    case False
    then have r: "r = 0" and room: "unat (misalign b1) + unat (off b1) + length xs \<le> unat (totallen b1)"
      using b1(4,6) by auto
    obtain m where m: "store (orig_buffer b1) (buffer b1 + unat (off b1)) xs = Inr m"
      "let b' = b1\<lparr>orig_buffer := m, off := off b1 + ?n\<rparr> in
       evbuf_inv b' \<and> bytes b' = bytes b1 @ xs \<and> unat (off b') = unat (off b1) + length xs \<and> same_user b1 b'"
      using append_ok [OF b1(2) room] by blast
    let ?b = "b1\<lparr>orig_buffer := m, off := off b1 + ?n\<rparr>"
    have note_eq: "notify ?b old now = notify b old now" for old now
      using b1(5) by (simp add: notify_def same_user_def split: option.splits)
    have "evbuffer_add A b xs = Inr (0, ?b, if xs = [] then [] else notify b (off b) (off ?b))"
      using b1(1) r m(1) n0 note_eq by (simp add: evbuffer_add_def)
    with m(2) b1(3-5) show ?thesis
      by (simp add: Let_def same_user_def)
  qed
qed

section \<open>Moving\<close>

text \<open>\<open>evbuffer_add_buffer\<close>: everything moves, whichever of the two ways is taken.\<close>

lemma add_buffer_ok:
  assumes out: "evbuf_inv outbuf" and inb: "evbuf_inv inbuf"
    and fit: "fits outbuf (length (bytes inbuf))"
  shows "\<exists>r outbuf' inbuf' ns. evbuffer_add_buffer A outbuf inbuf = Inr (r, outbuf', inbuf', ns) \<and>
    evbuf_inv outbuf' \<and> evbuf_inv inbuf' \<and> same_user outbuf outbuf' \<and> same_user inbuf inbuf' \<and>
    (r = 0 \<and> bytes outbuf' = bytes outbuf @ bytes inbuf \<and> bytes inbuf' = [] \<or>
     r = - 1 \<and> bytes outbuf' = bytes outbuf \<and> inbuf' = inbuf)"
proof (cases "off outbuf = 0")
  case True
  let ?o = "swap_storage outbuf inbuf"
  let ?i = "swap_storage inbuf outbuf"
  have "evbuf_inv ?o" "evbuf_inv ?i" "bytes ?o = bytes inbuf" "bytes ?i = []" "bytes outbuf = []"
    using out inb True by (simp_all add: evbuf_inv_def bytes_def swap_storage_def)
  moreover have "same_user outbuf ?o" "same_user inbuf ?i"
    by (simp_all add: same_user_def swap_storage_def)
  ultimately show ?thesis
    using True by (simp add: evbuffer_add_buffer_def Let_def)
next
  case False
  obtain r out' ns where add: "evbuffer_add A outbuf (bytes inbuf) = Inr (r, out', ns)"
    "evbuf_inv out'" "same_user outbuf out'"
    "r = 0 \<and> bytes out' = bytes outbuf @ bytes inbuf \<or> r = - 1 \<and> bytes out' = bytes outbuf"
    using add_ok [OF out fit] by blast
  obtain in' ms where d: "evbuffer_drain inbuf (off inbuf) = (in', ms)"
    by (cases "evbuffer_drain inbuf (off inbuf)") auto
  note dr = drain_ok [OF inb d]
  have "bytes in' = []"
    using dr(2) length_bytes [OF inb] by simp
  with add d dr False inb show ?thesis
    by (auto simp: evbuffer_add_buffer_def load_bytes [OF inb] same_user_def)
qed

section \<open>Taking out\<close>

lemma evbuffer_remove_ok:
  assumes inv: "evbuf_inv b"
  shows "\<exists>b' ns. evbuffer_remove b n = Inr (take (unat n) (bytes b), b', ns) \<and> evbuf_inv b' \<and>
    bytes b' = drop (unat n) (bytes b) \<and> same_user b b'"
proof -
  let ?k = "if n \<ge> off b then off b else n"
  obtain b' ns where d: "evbuffer_drain b ?k = (b', ns)"
    by (cases "evbuffer_drain b ?k") auto
  note dr = drain_ok [OF inv d]
  have L: "length (bytes b) = unat (off b)"
    by (rule length_bytes [OF inv])
  have "take (unat ?k) (bytes b) = take (unat n) (bytes b)" "drop (unat ?k) (bytes b) = drop (unat n) (bytes b)"
    using L by (simp_all add: word_le_nat_alt)
  moreover have "unat ?k \<le> unat (off b)"
    by (simp add: word_le_nat_alt)
  ultimately show ?thesis
    using load_prefix [OF inv, of "unat ?k"] d dr
    by (simp add: evbuffer_remove_def Let_def same_user_def)
qed

lemma write_ok:
  assumes inv: "evbuf_inv b" and n: "writef (bytes b) = n" "- 1 \<le> n" "n \<le> int (length (bytes b))"
  shows "\<exists>b' ns. evbuffer_write writef b = Inr (n, b', take (nat n) (bytes b), ns) \<and> evbuf_inv b' \<and>
    bytes b' = drop (nat n) (bytes b) \<and> same_user b b'"
proof (cases "n \<le> 0")
  case True
  with n consider "n = - 1" | "n = 0" by linarith
  then show ?thesis
    using n(1) inv by cases (auto simp: evbuffer_write_def load_bytes [OF inv] Let_def same_user_def)
next
  case False
  obtain b' ns where d: "evbuffer_drain b (word_of_int n) = (b', ns)"
    by (cases "evbuffer_drain b (word_of_int n)") auto
  have "length (bytes b) < 2 ^ 64"
    using length_bytes [OF inv] by simp
  then have "nat n < 2 ^ 64"
    using n(3) by linarith
  then have "unat (word_of_int n :: size) = nat n"
    using False by (simp add: unsigned_of_int take_bit_int_eq_self nat_less_iff)
  with drain_ok [OF inv d] d n False show ?thesis
    by (simp add: evbuffer_write_def load_bytes [OF inv] Let_def same_user_def)
qed

section \<open>Lines\<close>

text \<open>The specification: the bytes before the first end of line, and how many bytes the end takes.\<close>

definition eol_len :: "byte list \<Rightarrow> nat" where
  "eol_len cs = (case cs of
      c # d # _ \<Rightarrow> if is_eol d \<and> d \<noteq> c then 2 else 1
    | _ \<Rightarrow> 1)"

lemma scan_eol_takeWhile: "scan_eol cs = length (takeWhile (\<lambda>c. \<not> is_eol c) cs)"
  by (induction cs) auto

lemma readline_none:
  assumes inv: "evbuf_inv b" and none: "\<forall>c \<in> set (bytes b). \<not> is_eol c"
  shows "evbuffer_readline A b = Inr (None, b, [])"
proof -
  have "takeWhile (\<lambda>c. \<not> is_eol c) (bytes b) = bytes b"
    using none by (simp add: takeWhile_eq_all_conv)
  then have "scan_eol (bytes b) = length (bytes b)"
    by (simp only: scan_eol_takeWhile)
  then show ?thesis
    by (simp add: evbuffer_readline_def load_bytes [OF inv] Let_def)
qed

lemma readline_some:
  assumes inv: "evbuf_inv b" and eq: "bytes b = line @ c # rest"
    and line: "\<forall>c \<in> set line. \<not> is_eol c" and eol: "is_eol c" and mem: "alloc_ok A (length line + 1)"
  shows "\<exists>b' ns. evbuffer_readline A b = Inr (Some line, b', ns) \<and> evbuf_inv b' \<and>
    bytes b' = drop (eol_len (c # rest)) (c # rest) \<and> same_user b b'"
proof -
  let ?n = "length line + eol_len (c # rest)"
  have "takeWhile (\<lambda>c. \<not> is_eol c) (bytes b) = line"
    using line eol by (simp add: eq)
  then have i: "scan_eol (bytes b) = length line"
    by (simp only: scan_eol_takeWhile)
  obtain b' ns where d: "evbuffer_drain b (word_of_nat ?n) = (b', ns)"
    by (cases "evbuffer_drain b (word_of_nat ?n)") auto
  have pos: "1 \<le> eol_len (c # rest)" "eol_len (c # rest) \<le> length (c # rest)"
    by (auto simp: eol_len_def split: list.splits)
  have "?n \<le> length (bytes b)"
    using pos by (simp add: eq)
  also have "length (bytes b) < 2 ^ 64"
    using length_bytes [OF inv] by simp
  finally have u: "unat (word_of_nat ?n :: size) = ?n"
    unfolding unsigned_of_nat by (simp add: take_bit_nat_eq_self del: of_nat_add)
  have next_eol: "length line < length (bytes b) - 1 \<and> is_eol (bytes b ! (length line + 1)) \<and>
      bytes b ! (length line + 1) \<noteq> bytes b ! length line \<longleftrightarrow> eol_len (c # rest) = 2"
    by (cases rest) (auto simp: eq eol_len_def nth_append)
  define j where "j = (if length line < length (bytes b) - 1 \<and> is_eol (bytes b ! (length line + 1)) \<and>
      bytes b ! (length line + 1) \<noteq> bytes b ! length line then length line + 1 else length line)"
  have j: "j + 1 = ?n"
    unfolding j_def next_eol by (auto simp: eol_len_def split: list.splits)
  have "length line \<noteq> length (bytes b)" "take (length line) (bytes b) = line"
    by (simp_all add: eq)
  then have "evbuffer_readline A b = Inr (Some line, b', ns)"
    unfolding evbuffer_readline_def load_bytes [OF inv] bnd_Inr Let_def i j_def [symmetric] j d
    using mem by simp
  moreover have "bytes b' = drop (eol_len (c # rest)) (c # rest)"
    using drain_ok(2) [OF inv d] u by (simp add: eq)
  ultimately show ?thesis
    using drain_ok [OF inv d] by (simp add: same_user_def)
qed

section \<open>Reading\<close>

lemma read_amount_nonneg:
  "(\<And>n. fionread = Some n \<Longrightarrow> 0 \<le> n) \<Longrightarrow> 0 \<le> read_amount b fionread howmuch"
  by (auto simp: read_amount_def EVBUFFER_MAX_READ_def Let_def split: option.splits)

lemma read_ok:
  assumes inv: "evbuf_inv b" and k: "read_amount b fionread howmuch = k" "0 \<le> k"
    and fit: "fits b (nat k)"
  shows "\<exists>r b' ns. evbuffer_read A fionread readf b howmuch = Inr (r, b', ns) \<and> evbuf_inv b' \<and>
    same_user b b' \<and>
    (r = - 1 \<and> bytes b' = bytes b \<or>
     (\<exists>xs. readf k = Some xs \<and> bytes b' = bytes b @ take (nat k) xs \<and>
        r = int (length (take (nat k) xs))))"
proof -
  have u: "unat (word_of_int k :: size) = nat k"
    using fit k(2) by (simp add: fits_def unsigned_of_int take_bit_int_eq_self nat_le_iff)
  then have "fits b (unat (word_of_int k :: size))"
    using fit by simp
  from expand_ok [OF inv this] obtain r1 b1 where b1:
    "evbuffer_expand A b (word_of_int k) = Inr (r1, b1)" "evbuf_inv b1" "bytes b1 = bytes b"
    "off b1 = off b" "same_user b b1"
    "r1 = 0 \<and> unat (misalign b1) + unat (off b) + nat k \<le> unat (totallen b1) \<or> r1 = - 1"
    unfolding u by blast
  show ?thesis
  proof (cases "r1 = - 1 \<or> readf k = None")
    case True
    with b1 k(1) show ?thesis
      by (auto simp: evbuffer_read_def)
  next
    case False
    then obtain xs where xs: "readf k = Some xs"
      by auto
    define ys where "ys = take (nat k) xs"
    show ?thesis
    proof (cases "ys = []")
      case True
      with b1 k(1) False xs show ?thesis
        by (simp add: evbuffer_read_def ys_def [symmetric]) (auto simp: ys_def)
    next
      case ne: False
      have "unat (misalign b1) + unat (off b1) + length ys \<le> unat (totallen b1)"
        using False b1(4,6) by (auto simp: ys_def)
      from append_ok [OF b1(2) this] obtain m where m:
        "store (orig_buffer b1) (buffer b1 + unat (off b1)) ys = Inr m"
        "let b' = b1\<lparr>orig_buffer := m, off := off b1 + word_of_nat (length ys)\<rparr> in
         evbuf_inv b' \<and> bytes b' = bytes b1 @ ys \<and> unat (off b') = unat (off b1) + length ys \<and> same_user b1 b'"
        by blast
      let ?b = "b1\<lparr>orig_buffer := m, off := off b1 + word_of_nat (length ys)\<rparr>"
      have "\<exists>ns. evbuffer_read A fionread readf b howmuch = Inr (int (length ys), ?b, ns)"
        using b1(1) k(1) False xs ne m(1) by (simp add: evbuffer_read_def ys_def [symmetric] Let_def)
      moreover have "int (length ys) = int (length (take (nat k) xs))"
        by (simp only: ys_def)
      ultimately show ?thesis
        using m(2) b1(3,5) xs unfolding ys_def [symmetric]
        by (auto simp: Let_def same_user_def ys_def [symmetric] simp del: length_take)
    qed
  qed
qed

section \<open>Formatting\<close>

lemma space_eq:
  assumes "evbuf_inv b"
  shows "unat (totallen b - misalign b - off b) = unat (totallen b) - unat (misalign b) - unat (off b)"
proof -
  have 1: "unat (totallen b - misalign b) = unat (totallen b) - unat (misalign b)"
    using assms by (intro unat_minus_size) (simp add: evbuf_inv_def)
  have "unat (totallen b - misalign b - off b) = unat (totallen b - misalign b) - unat (off b)"
    using assms 1 by (intro unat_minus_size) (auto simp: evbuf_inv_def)
  with 1 show ?thesis by simp
qed

lemma put_text_ok:
  assumes inv: "evbuf_inv b" and space: "space = totallen b - misalign b - off b"
  shows "\<exists>m. put_text b text space = Inr (b\<lparr>orig_buffer := m\<rparr>) \<and> evbuf_inv (b\<lparr>orig_buffer := m\<rparr>) \<and>
    bytes (b\<lparr>orig_buffer := m\<rparr>) = bytes b \<and>
    (length text < unat space \<longrightarrow>
      take (unat (off b) + length text) (drop (buffer b) m) = bytes b @ text)"
proof (cases "space = 0")
  case True
  with inv show ?thesis
    by (intro exI [of _ "orig_buffer b"]) (simp add: put_text_def)
next
  case False
  have sp: "unat space = unat (totallen b) - unat (misalign b) - unat (off b)"
    unfolding space by (rule space_eq [OF inv])
  let ?p = "buffer b + unat (off b)"
  let ?t = "take (unat space - 1) text @ [0]"
  let ?m = "take ?p (orig_buffer b) @ ?t @ drop (?p + length ?t) (orig_buffer b)"
  have pos: "0 < unat space"
    using False by (simp add: unat_gt_0)
  then have tl: "length ?t \<le> unat space"
    by simp
  have len: "?p + length ?t \<le> length (orig_buffer b)" "?p \<le> length (orig_buffer b)"
    using inv tl sp pos unfolding evbuf_inv_def by linarith+
  have run: "put_text b text space = Inr (b\<lparr>orig_buffer := ?m\<rparr>)"
    using False len(1) by (simp add: put_text_def store_def)
  have lm: "length ?m = length (orig_buffer b)"
    using len by simp
  have dm: "drop (buffer b) ?m = bytes b @ ?t @ drop (?p + length ?t) (orig_buffer b)"
    using len(2) by (simp add: bytes_def drop_take)
  have "evbuf_inv (b\<lparr>orig_buffer := ?m\<rparr>)"
    using inv lm by (simp add: evbuf_inv_def)
  moreover have "bytes (b\<lparr>orig_buffer := ?m\<rparr>) = bytes b"
    using dm length_bytes [OF inv] by (simp add: bytes_def)
  moreover have "take (unat (off b) + length text) (drop (buffer b) ?m) = bytes b @ text"
    if "length text < unat space"
    using that dm length_bytes [OF inv] by simp
  ultimately show ?thesis
    using run by blast
qed

lemma vprintf_fits:
  assumes inv: "evbuf_inv b" and fmt: "texts k = Some text" "length text < 2 ^ 31"
    and room: "unat (misalign b) + unat (off b) + length text + 1 \<le> unat (totallen b)"
  shows "\<exists>b' ns. evbuffer_add_vprintf (Suc n) A texts k oldoff b = Inr (int (length text), b', ns) \<and>
    evbuf_inv b' \<and> bytes b' = bytes b @ text \<and> same_user b b'"
proof -
  let ?sp = "totallen b - misalign b - off b"
  have u: "unat (word_of_nat (length text) :: size) = length text"
    using fmt(2) by (intro unat_length) simp
  have sp: "unat ?sp = unat (totallen b) - unat (misalign b) - unat (off b)"
    by (rule space_eq [OF inv])
  then have lt: "word_of_nat (length text) < ?sp" "length text < unat ?sp"
    using room u by (auto simp: word_less_nat_alt)
  obtain m where m: "put_text b text ?sp = Inr (b\<lparr>orig_buffer := m\<rparr>)" "evbuf_inv (b\<lparr>orig_buffer := m\<rparr>)"
    "take (unat (off b) + length text) (drop (buffer b) m) = bytes b @ text"
    using put_text_ok [OF inv refl, of "text"] lt(2) by blast
  let ?b = "b\<lparr>orig_buffer := m, off := off b + word_of_nat (length text)\<rparr>"
  have o: "unat (off b + word_of_nat (length text)) = unat (off b) + length text"
    using u room totallen_bound [of b] unat_plus_size [of "off b" "word_of_nat (length text)"] by linarith
  have "evbuf_inv ?b"
    using m(2) o room by (simp add: evbuf_inv_def)
  moreover have "bytes ?b = bytes b @ text"
    using m(3) o by (simp add: bytes_def)
  moreover have "\<exists>ns. evbuffer_add_vprintf (Suc n) A texts k oldoff b = Inr (int (length text), ?b, ns)"
    using fmt(1) m(1) lt(1) by (simp add: Let_def)
  ultimately show ?thesis
    by (auto simp: same_user_def)
qed

text \<open>
  When every call formats the same text, two turns of the loop are enough: the second has
  room.
\<close>

lemma printf_ok:
  assumes inv: "evbuf_inv b" and fmt: "\<And>k. texts k = Some text" "length text < 2 ^ 31"
    and fit: "fits b (length text + 1)"
  shows "\<exists>r b' ns. evbuffer_add_printf 2 A texts b = Inr (r, b', ns) \<and> evbuf_inv b' \<and> same_user b b' \<and>
    (r = int (length text) \<and> bytes b' = bytes b @ text \<or>
     r = - 1 \<and> bytes b' = bytes b \<and> (\<exists>n. \<not> alloc_ok A n))"
proof (cases "unat (misalign b) + unat (off b) + length text + 1 \<le> unat (totallen b)")
  case True
  from vprintf_fits [where texts = texts and n = "Suc 0" and k = 0, OF inv fmt(1,2) True] obtain b' ns where
    "evbuffer_add_vprintf (Suc (Suc 0)) A texts 0 (off b) b = Inr (int (length text), b', ns)"
    "evbuf_inv b'" "bytes b' = bytes b @ text" "same_user b b'"
    by blast
  then show ?thesis
    unfolding evbuffer_add_printf_def numeral_2_eq_2 by blast
next
  case False
  let ?sp = "totallen b - misalign b - off b"
  have u: "unat (word_of_nat (length text) :: size) = length text"
    using fmt(2) by (intro unat_length) simp
  have u1: "unat (word_of_nat (length text + 1) :: size) = length text + 1"
    using fmt(2) by (intro unat_length) simp
  have sp: "unat ?sp = unat (totallen b) - unat (misalign b) - unat (off b)"
    by (rule space_eq [OF inv])
  have lt: "\<not> word_of_nat (length text) < ?sp"
    using False u sp by (auto simp: word_less_nat_alt)
  obtain m where m: "put_text b text ?sp = Inr (b\<lparr>orig_buffer := m\<rparr>)" "evbuf_inv (b\<lparr>orig_buffer := m\<rparr>)"
    "bytes (b\<lparr>orig_buffer := m\<rparr>) = bytes b"
    using put_text_ok [OF inv refl, of "text"] by blast
  let ?b = "b\<lparr>orig_buffer := m\<rparr>"
  have "fits ?b (unat (word_of_nat (length text + 1) :: size))"
    using fit unfolding u1 by (simp add: fits_def)
  from expand_ok [OF m(2) this, of A] obtain r b1 where b1:
    "evbuffer_expand A ?b (word_of_nat (length text + 1)) = Inr (r, b1)" "evbuf_inv b1"
    "bytes b1 = bytes b" "off b1 = off b" "same_user b b1"
    "r = 0 \<and> unat (misalign b1) + unat (off b) + (length text + 1) \<le> unat (totallen b1) \<or>
      r = - 1 \<and> (\<exists>n. \<not> alloc_ok A n)"
    unfolding u1 m(3) by (auto simp: same_user_def)
  have run: "evbuffer_add_printf 2 A texts b = (if r = - 1 then Inr (- 1, b1, [])
      else evbuffer_add_vprintf (Suc 0) A texts (Suc 0) (off b) b1)"
    using fmt(1) m(1) lt b1(1)
    by (simp add: evbuffer_add_printf_def numeral_2_eq_2 Let_def del: of_nat_add of_nat_Suc)
  show ?thesis
  proof (cases "r = - 1")
    case True
    with run b1 show ?thesis by auto
  next
    case False
    then have "unat (misalign b1) + unat (off b1) + length text + 1 \<le> unat (totallen b1)"
      using b1(4,6) by simp
    from vprintf_fits [where texts = texts and n = 0 and k = "Suc 0", OF b1(2) fmt(1,2) this] False run b1(3,5) show ?thesis
      by (fastforce simp: same_user_def)
  qed
qed

section \<open>Searching\<close>

lemma memchr_Some:
  "memchr c xs = Some i \<Longrightarrow> i < length xs \<and> xs ! i = c \<and> (\<forall>j < i. xs ! j \<noteq> c)"
proof (induction xs arbitrary: i)
  case (Cons x xs)
  show ?case
  proof (cases "x = c")
    case False
    with Cons.prems obtain k where "memchr c xs = Some k" "i = Suc k"
      by auto
    with Cons.IH [of k] False show ?thesis
      by (auto simp: nth_Cons split: nat.splits)
  qed (use Cons.prems in auto)
qed simp

lemma memchr_None: "memchr c xs = None \<longleftrightarrow> c \<notin> set xs"
  by (induction xs) auto

text \<open>\<open>what\<close> stands at offset \<open>j\<close> of the block after \<open>buffer\<close>.\<close>

definition occurs :: "byte list \<Rightarrow> byte list \<Rightarrow> nat \<Rightarrow> bool" where
  "occurs what xs j \<longleftrightarrow> take (length what) (drop j xs) = what \<and> j + length what \<le> length xs"

lemma occurs_hd: "occurs what xs j \<Longrightarrow> what \<noteq> [] \<Longrightarrow> j < length xs \<and> xs ! j = hd what"
proof -
  assume o: "occurs what xs j" and ne: "what \<noteq> []"
  then have j: "j < length xs"
    by (cases what) (auto simp: occurs_def)
  have "hd what = hd (take (length what) (drop j xs))"
    using o by (simp add: occurs_def)
  also have "\<dots> = xs ! j"
    using ne j by (simp add: hd_drop_conv_nth)
  finally show "j < length xs \<and> xs ! j = hd what"
    using j by simp
qed

lemma find_loop_ok:
  assumes "find_loop m p len search what = Inr res" "p + len \<le> length m"
  shows "(\<forall>i. res = Some i \<longrightarrow> search \<le> i \<and> i < len \<and> occurs what (drop p m) i) \<and>
    (\<forall>j. search \<le> j \<longrightarrow> j + length what \<le> len \<longrightarrow> occurs what (drop p m) j \<longrightarrow>
       (\<exists>i. res = Some i \<and> i \<le> j))"
  using assms
proof (induction m p len search what rule: find_loop.induct)
  case (1 m p len search what)
  let ?M = "drop p m"
  have pre: "search \<le> len" "what \<noteq> []"
    using "1.prems"(1) by (auto simp: find_loop.simps [of m p len search what] split: if_splits)
  define xs where "xs = take (len - search) (drop (p + search) m)"
  have ld: "load m (p + search) (len - search) = Inr xs"
    using "1.prems"(2) pre(1) by (simp add: load_def xs_def)
  have lx: "length xs = len - search"
    using "1.prems"(2) by (simp add: xs_def)
  have nth_xs: "xs ! j = ?M ! (search + j)" if "j < len - search" for j
    using that "1.prems"(2) by (simp add: xs_def add.assoc)
  have hit: "\<exists>i. memchr (hd what) xs = Some i \<and> i \<le> j - search"
    if "search \<le> j" "j + length what \<le> len" "occurs what ?M j" for j
  proof -
    have j: "j < len"
      using that(2) pre(2) by (cases what) auto
    then have "xs ! (j - search) = hd what"
      using occurs_hd [OF that(3) pre(2)] nth_xs [of "j - search"] that(1) by simp
    moreover have "j - search < length xs"
      using j that(1) lx by simp
    ultimately show ?thesis
      using memchr_None [of "hd what" xs] memchr_Some [of "hd what" xs]
      by (metis linorder_not_less nth_mem option.exhaust)
  qed
  show ?case
  proof (cases "memchr (hd what) xs")
    case None
    then have "res = None"
      using "1.prems"(1) pre ld by (simp add: find_loop.simps [of m p len search what])
    with hit None show ?thesis by fastforce
  next
    case (Some i)
    show ?thesis
    proof (cases "len - search < length what")
      case True
      then have "res = None"
        using "1.prems"(1) pre ld Some by (simp add: find_loop.simps [of m p len search what])
      with True pre(1) show ?thesis by auto
    next
      case False
      then obtain ys where ys: "load m (p + search + i) (length what) = Inr ys"
        using "1.prems"(1) pre ld Some by (auto simp: find_loop.simps [of m p len search what])
      then have ys': "ys = take (length what) (drop (search + i) ?M)" "search + i + length what \<le> length ?M"
        by (auto simp: load_def add.assoc ac_simps split: if_splits)
      have i: "i < len - search"
        using memchr_Some [OF Some] lx by simp
      show ?thesis
      proof (cases "ys = what")
        case True
        then have "res = Some (search + i)"
          using "1.prems"(1) pre ld Some False ys by (simp add: find_loop.simps [of m p len search what])
        moreover have "occurs what ?M (search + i)"
          using True ys' by (simp add: occurs_def)
        moreover have "search + i \<le> j"
          if "search \<le> j" "j + length what \<le> len" "occurs what ?M j" for j
          using hit [OF that] Some that(1) by auto
        ultimately show ?thesis
          using i by auto
      next
        case ne: False
        have rec: "find_loop m p len (search + i + 1) what = Inr res"
          using "1.prems"(1) pre ld Some False ys ne by (simp add: find_loop.simps [of m p len search what])
        have "\<not> (len < search \<or> what = [])"
          using pre by auto
        note IH = "1.IH" [OF this ld Some False ys ne rec "1.prems"(2)]
        have "search + i + 1 \<le> j"
          if "search \<le> j" "j + length what \<le> len" "occurs what ?M j" for j
        proof -
          have "search + i \<le> j"
            using hit [OF that] Some that(1) by auto
          moreover have "\<not> occurs what ?M (search + i)"
            using ne ys'(1) by (simp add: occurs_def)
          ultimately show ?thesis
            using that(3) by (cases "j = search + i") auto
        qed
        with IH show ?thesis
          by (metis (no_types, lifting) add_leD1)
      qed
    qed
  qed
qed

section \<open>The contract of a byte buffer\<close>

text \<open>
  \<open>put\<close> appends bytes or refuses, \<open>get\<close> takes up to so many from the front. From these two
  laws: whatever is put in comes out once, in order, however the puts and gets interleave.
\<close>

datatype buffer_op = Put "byte list" | Get nat

fun run_ops :: "(byte list \<Rightarrow> 'b \<Rightarrow> 'b option) \<Rightarrow> (nat \<Rightarrow> 'b \<Rightarrow> byte list \<times> 'b) \<Rightarrow> buffer_op list \<Rightarrow> 'b \<Rightarrow> (byte list \<times> 'b) option" where
  "run_ops put get [] b = Some ([], b)"
| "run_ops put get (Put xs # ops) b =
     (case put xs b of None \<Rightarrow> None | Some b' \<Rightarrow> run_ops put get ops b')"
| "run_ops put get (Get n # ops) b =
     (let (xs, b') = get n b in
      case run_ops put get ops b' of None \<Rightarrow> None | Some (out, b'') \<Rightarrow> Some (xs @ out, b''))"

fun all_put :: "buffer_op list \<Rightarrow> byte list" where
  "all_put [] = []"
| "all_put (Put xs # ops) = xs @ all_put ops"
| "all_put (Get n # ops) = all_put ops"

locale byte_queue =
  fixes ok :: "'b \<Rightarrow> bool"
    and content :: "'b \<Rightarrow> byte list"
    and put :: "byte list \<Rightarrow> 'b \<Rightarrow> 'b option"
    and get :: "nat \<Rightarrow> 'b \<Rightarrow> byte list \<times> 'b"
  assumes put_law: "ok b \<Longrightarrow> put xs b = Some b' \<Longrightarrow> ok b' \<and> content b' = content b @ xs"
    and get_law: "ok b \<Longrightarrow> get n b = (xs, b') \<Longrightarrow>
      ok b' \<and> xs = take n (content b) \<and> content b' = drop n (content b)"
begin

lemma stream:
  "ok b \<Longrightarrow> run_ops put get ops b = Some (out, b') \<Longrightarrow>
    ok b' \<and> out @ content b' = content b @ all_put ops"
proof (induction ops arbitrary: b out)
  case Nil
  then show ?case by simp
next
  case (Cons op ops)
  show ?case
  proof (cases op)
    case (Put xs)
    with Cons.prems(2) obtain b1 where b1: "put xs b = Some b1" "run_ops put get ops b1 = Some (out, b')"
      by (auto split: option.splits)
    with put_law [OF Cons.prems(1) b1(1)] Cons.IH [OF _ b1(2)] Put show ?thesis
      by simp
  next
    case (Get n)
    obtain xs b1 where b1: "get n b = (xs, b1)"
      by (cases "get n b") auto
    with Cons.prems(2) Get obtain rest where rest: "run_ops put get ops b1 = Some (rest, b')" "out = xs @ rest"
      by (auto split: option.splits)
    have "ok b1" "xs @ content b1 = content b"
      using get_law [OF Cons.prems(1) b1] by auto
    with Cons.IH [OF _ rest(1)] rest(2) Get show ?thesis
      by (metis all_put.simps(3) append.assoc)
  qed
qed

end

text \<open>The contract on \<open>buffer.c\<close>, for additions that leave the buffer below half the address space.\<close>

definition evbuf_put :: "allocator \<Rightarrow> byte list \<Rightarrow> evbuffer \<Rightarrow> evbuffer option" where
  "evbuf_put A xs b =
     (if fits b (length xs) then
        (case evbuffer_add A b xs of
           Inr (r, b', ns) \<Rightarrow> if r = 0 then Some b' else None
         | Inl e \<Rightarrow> None)
      else None)"

definition evbuf_get :: "nat \<Rightarrow> evbuffer \<Rightarrow> byte list \<times> evbuffer" where
  "evbuf_get n b =
     (case evbuffer_remove b (word_of_nat (min n (2 ^ 64 - 1))) of
        Inr (xs, b', ns) \<Rightarrow> (xs, b')
      | Inl e \<Rightarrow> ([], b))"

interpretation evq: byte_queue evbuf_inv bytes "evbuf_put A" evbuf_get for A
proof (unfold_locales, goal_cases)
  case (1 b xs b')
  then have fit: "fits b (length xs)"
    by (simp add: evbuf_put_def split: if_splits)
  from add_ok [OF 1(1) fit, of A] 1(2) fit show ?case
    by (auto simp: evbuf_put_def)
next
  case (2 b n xs b')
  let ?n = "min n (2 ^ 64 - 1)"
  have u: "unat (word_of_nat ?n :: size) = ?n"
    unfolding unsigned_of_nat by (simp add: take_bit_nat_eq_self)
  have "length (bytes b) < 2 ^ 64"
    using length_bytes [OF 2(1)] by simp
  then have "take ?n (bytes b) = take n (bytes b)" "drop ?n (bytes b) = drop n (bytes b)"
    by (auto simp: min_def)
  with evbuffer_remove_ok [OF 2(1), of "word_of_nat ?n"] 2(2) show ?case
    unfolding u by (auto simp: evbuf_get_def)
qed

end
