(* ===== verification/BufferProps.thy ===== *)
theory BufferProps
  imports EvbufferProofs
begin

text \<open>Properties of the byte buffer of \<open>buffer.c\<close>, each with a run on a concrete buffer.\<close>

definition heap :: allocator where
  "heap = \<lparr>alloc_ok = \<lambda>_. True, junk = \<lambda>_. 0\<rparr>"

text \<open>A buffer with room for eight bytes, and one that holds \<open>xs\<close> after two drained bytes.\<close>

definition eight :: evbuffer where
  "eight = evbuffer_zero\<lparr>orig_buffer := replicate 8 0, totallen := 8\<rparr>"

definition holding :: "byte list \<Rightarrow> evbuffer" where
  "holding xs = evbuffer_zero\<lparr>orig_buffer := [7, 7] @ xs, buffer := 2, misalign := 2,
     totallen := word_of_nat (length xs + 2), off := word_of_nat (length xs)\<rparr>"

lemma eight_inv: "evbuf_inv eight" "bytes eight = []"
  by (simp_all add: evbuf_inv_def bytes_def eight_def evbuffer_zero_def)



text \<open>
  \<open>evbuffer_add\<close> returns for every amount that fits in half the address space (the doubling
  loop of \<open>evbuffer_expand\<close> ends). On success the bytes are appended and the callback is told
  the old and the new length; it fails only when the allocator refuses, and then changes nothing.
\<close>

theorem evbuffer_add_appends:
  assumes "evbuf_inv b" "unat (misalign b) + unat (off b) + length xs \<le> 2 ^ 63"
  shows "\<exists>r b' ns. evbuffer_add A b xs = Inr (r, b', ns) \<and> evbuf_inv b' \<and>
    (r = 0 \<and> bytes b' = bytes b @ xs \<and>
       ns = (if xs = [] then [] else notify b (off b) (off b + word_of_nat (length xs))) \<or>
     r = - 1 \<and> bytes b' = bytes b \<and> ns = [] \<and> (\<exists>n. \<not> alloc_ok A n))"
proof -
  have "fits b (length xs)"
    using assms(2) by (simp add: fits_def)
  from add_ok [OF assms(1) this, of A] obtain r b' ns where run: "evbuffer_add A b xs = Inr (r, b', ns)"
    "evbuf_inv b'"
    "r = 0 \<and> bytes b' = bytes b @ xs \<and> unat (off b') = unat (off b) + length xs \<and>
       ns = (if xs = [] then [] else notify b (off b) (off b')) \<or>
     r = - 1 \<and> bytes b' = bytes b \<and> ns = [] \<and> (\<exists>n. \<not> alloc_ok A n)"
    by blast
  have "off b' = off b + word_of_nat (length xs)" if "unat (off b') = unat (off b) + length xs"
    using arg_cong [OF that, of "word_of_nat :: nat \<Rightarrow> size"] by simp
  with run show ?thesis by auto
qed

theorem evbuffer_add_appends_witness:
  "\<exists>r b' ns. evbuffer_add heap eight [5, 6] = Inr (r, b', ns) \<and> bytes b' = [5, 6]"
proof -
  have "unat (misalign eight) + unat (off eight) + length [5, 6 :: byte] \<le> 2 ^ 63"
    by (simp add: eight_def evbuffer_zero_def)
  from evbuffer_add_appends [OF eight_inv(1) this, of heap] eight_inv(2) show ?thesis
    by (auto simp: heap_def)
qed

text \<open>
  \<open>evbuffer_add_buffer\<close> moves everything. By swapping the storage when the target is empty
  or by copying when it is not, the target ends with its own bytes followed by those of the
  source and the source is empty; if memory runs out, both keep their bytes.
\<close>

theorem evbuffer_add_buffer_moves:
  assumes "evbuf_inv outbuf" "evbuf_inv inbuf"
    and "unat (misalign outbuf) + unat (off outbuf) + length (bytes inbuf) \<le> 2 ^ 63"
  shows "\<exists>r outbuf' inbuf' ns. evbuffer_add_buffer A outbuf inbuf = Inr (r, outbuf', inbuf', ns) \<and>
    evbuf_inv outbuf' \<and> evbuf_inv inbuf' \<and>
    (r = 0 \<and> bytes outbuf' = bytes outbuf @ bytes inbuf \<and> bytes inbuf' = [] \<or>
     r = - 1 \<and> bytes outbuf' = bytes outbuf \<and> inbuf' = inbuf) \<and>
    cb outbuf' = cb outbuf \<and> cb inbuf' = cb inbuf"
proof -
  have "fits outbuf (length (bytes inbuf))"
    using assms(3) by (simp add: fits_def)
  from add_buffer_ok [OF assms(1,2) this, of A] show ?thesis
    by (fastforce simp: same_user_def)
qed

lemma holding_inv:
  assumes "length xs < 100"
  shows "evbuf_inv (holding xs)" "bytes (holding xs) = xs"
proof -
  have "unat (word_of_nat (length xs) :: size) = length xs"
    "unat (word_of_nat (length xs + 2) :: size) = length xs + 2"
    unfolding unsigned_of_nat using assms by (simp_all add: take_bit_nat_eq_self del: of_nat_add)
  moreover have "holding xs = evbuffer_zero\<lparr>orig_buffer := [7, 7] @ xs, buffer := 2, misalign := 2,
     totallen := word_of_nat (length xs + 2), off := word_of_nat (length xs)\<rparr>"
    by (rule holding_def)
  ultimately show "evbuf_inv (holding xs)" "bytes (holding xs) = xs"
    by (simp_all only: evbuf_inv_def bytes_def evbuffer_zero_def evbuffer.simps evbuffer.update_convs)
      simp_all
qed

theorem evbuffer_add_buffer_moves_witness:
  "\<exists>r o' i' ns. evbuffer_add_buffer heap eight (holding [1, 2]) = Inr (r, o', i', ns) \<and>
    evbuf_inv o' \<and> (r = 0 \<and> bytes o' = [1, 2] \<or> r = - 1)"
proof -
  have "evbuf_inv (holding [1, 2])" "bytes (holding [1, 2]) = [1, 2]"
    using holding_inv [of "[1, 2]"] by simp_all
  moreover have "unat (misalign eight) + unat (off eight) + length (bytes (holding [1, 2])) \<le> 2 ^ 63"
    using calculation(2) by (simp add: eight_def evbuffer_zero_def)
  ultimately show ?thesis
    using evbuffer_add_buffer_moves [OF eight_inv(1), of "holding [1, 2]" heap] eight_inv(2) by fastforce
qed



text \<open>
  when every call formats the same text, \<open>evbuffer_add_printf\<close> makes at most two and
  appends exactly the text, without the NUL; the first, truncated attempt leaves no trace.
\<close>

theorem evbuffer_add_printf_appends:
  assumes "evbuf_inv b" "\<And>k. texts k = Some txt" "length txt < 2 ^ 31"
    and "unat (misalign b) + unat (off b) + length txt + 1 \<le> 2 ^ 63"
  shows "\<exists>r b' ns. evbuffer_add_printf 2 A texts b = Inr (r, b', ns) \<and> evbuf_inv b' \<and>
    (r = int (length txt) \<and> bytes b' = bytes b @ txt \<or>
     r = - 1 \<and> bytes b' = bytes b \<and> (\<exists>n. \<not> alloc_ok A n))"
proof -
  have "fits b (length txt + 1)"
    using assms(4) by (simp add: fits_def)
  from printf_ok [where texts = texts, OF assms(1,2,3) this, of A] show ?thesis by blast
qed

theorem evbuffer_add_printf_appends_witness:
  "\<exists>r b' ns. evbuffer_add_printf 2 heap (\<lambda>_. Some (replicate 9 65)) eight = Inr (r, b', ns) \<and>
    bytes b' = replicate 9 65"
proof -
  have "unat (misalign eight) + unat (off eight) + length (replicate 9 (65 :: byte)) + 1 \<le> 2 ^ 63"
    by (simp add: eight_def evbuffer_zero_def)
  from evbuffer_add_printf_appends [OF eight_inv(1) _ _ this, of "\<lambda>_. Some (replicate 9 65)" heap] eight_inv(2)
  show ?thesis by (auto simp: heap_def)
qed

text \<open>
  \<open>evbuffer_find\<close> misses nothing and finds the first: when it returns NULL the pattern does
  not occur among the bytes of the buffer, and an offset it returns is one where the pattern
  stands in memory, with no occurrence in the buffer before it.
\<close>

theorem evbuffer_find_first:
  assumes "evbuf_inv b" "evbuffer_find b what = Inr res"
  shows "(\<forall>i. res = Some i \<longrightarrow> i < unat (off b) \<and> occurs what (drop (buffer b) (orig_buffer b)) i) \<and>
    (\<forall>j. occurs what (bytes b) j \<longrightarrow> (\<exists>i. res = Some i \<and> i \<le> j))"
proof -
  have le: "buffer b + unat (off b) \<le> length (orig_buffer b)"
    using assms(1) by (simp add: evbuf_inv_def)
  note f = find_loop_ok [OF assms(2) [unfolded evbuffer_find_def] le]
  have "occurs what (drop (buffer b) (orig_buffer b)) j \<and> j + length what \<le> unat (off b)"
    if "occurs what (bytes b) j" for j
  proof -
    have len: "j + length what \<le> unat (off b)"
      using that le by (simp add: occurs_def bytes_def)
    then have "take (length what) (drop j (bytes b)) = take (length what) (drop j (drop (buffer b) (orig_buffer b)))"
      unfolding bytes_def by (simp add: drop_take min_absorb1)
    with that len le show ?thesis by (simp add: occurs_def)
  qed
  with f show ?thesis by blast
qed

theorem evbuffer_find_first_witness:
  "\<exists>res. evbuffer_find (holding [1, 2, 1, 3, 0, 0]) [1, 3] = Inr res \<and> (\<exists>i. res = Some i \<and> i \<le> 2)"
proof -
  let ?b = "holding [1, 2, 1, 3, 0, 0]"
  have inv: "evbuf_inv ?b" "bytes ?b = [1, 2, 1, 3, 0, 0]"
    using holding_inv [of "[1, 2, 1, 3, 0, 0]"] by simp_all
  have "\<exists>res. evbuffer_find ?b [1, 3] = Inr res"
    by (simp add: evbuffer_find_def holding_def evbuffer_zero_def find_loop.simps load_def)
  moreover have "occurs [1, 3] (bytes ?b) 2"
    by (simp add: inv occurs_def numeral_2_eq_2)
  ultimately show ?thesis
    using evbuffer_find_first [OF inv(1)] by blast
qed

text \<open>
  \<open>evbuffer_find\<close> can report a match that is not in the buffer: it compares past the last
  byte, with whatever bytes an earlier content left in memory. The buffer here holds two bytes,
  9 and 1, and the pattern is 1, 3.
\<close>

theorem evbuffer_find_past_the_end:
  "\<exists>b. evbuf_inv b \<and> bytes b = [9, 1] \<and> evbuffer_find b [1, 3] = Inr (Some 1)"
proof -
  let ?b = "evbuffer_zero\<lparr>orig_buffer := [9, 1, 3, 0], totallen := 4, off := 2\<rparr>"
  have "evbuf_inv ?b \<and> bytes ?b = [9, 1] \<and> evbuffer_find ?b [1, 3] = Inr (Some 1)"
    by (simp add: evbuf_inv_def bytes_def evbuffer_find_def evbuffer_zero_def find_loop.simps load_def)
  then show ?thesis by blast
qed

text \<open>
  \<open>evbuffer_expand\<close> on an empty buffer does not return for a request above half the address
  space: the doubling overflows to 0 and the loop goes on for ever instead of failing.
\<close>

theorem evbuffer_expand_hangs:
  assumes "2 ^ 63 < unat n"
  shows "evbuffer_expand A evbuffer_zero n = Inl Hang"
proof -
  have "grow_length 64 256 n = Inl Hang"
    using assms by (intro grow_length_hangs [of _ 8]) simp_all
  moreover have "\<not> n \<le> 0" "\<not> (0 :: size) \<ge> n"
    using assms by (auto simp: word_le_nat_alt)
  ultimately show ?thesis
    by (simp add: evbuffer_expand_def evbuffer_zero_def)
qed

theorem evbuffer_expand_hangs_witness: "evbuffer_expand heap evbuffer_zero (- 1) = Inl Hang"
  by (rule evbuffer_expand_hangs) (simp add: unsigned_minus_1_eq_mask mask_eq_exp_minus_1)

end
