(* ===== verification/DataUtils.thy ===== *)
theory DataUtils
  imports Prelude
begin

text \<open>
  The containers of \<open>EventServer/DataUtils.cpp\<close>: \<open>SP_ArrayList\<close>, a growing array of
  pointers, and \<open>SP_CircleQueue\<close>, a growing ring buffer. A pointer is an option, \<open>None\<close> for
  NULL. \<open>ok n\<close> says whether the allocator can give \<open>n\<close> entries, \<open>junk\<close> what new memory holds.
  The second half proves that they implement a list and a queue.
\<close>

section \<open>SP_ArrayList\<close>

record 'p array_list =
  al_max :: int
  al_count :: int
  al_first :: "'p option list"

definition INT_MAX :: int where
  "INT_MAX = 2147483647"

definition LAST_INDEX :: int where
  "LAST_INDEX = - 1"

definition arraylist_new :: "(nat \<Rightarrow> 'p option) \<Rightarrow> int \<Rightarrow> 'p array_list" where
  "arraylist_new junk initCount =
     (let n = (if initCount \<le> 0 then 2 else initCount)
      in \<lparr>al_max = n, al_count = 0, al_first = map junk [0..<nat n]\<rparr>)"

definition arraylist_getCount :: "'p array_list \<Rightarrow> int" where
  "arraylist_getCount a = al_count a"

definition arraylist_append :: "(nat \<Rightarrow> bool) \<Rightarrow> 'p option \<Rightarrow> 'p array_list \<Rightarrow> (int \<times> 'p array_list) outcome" where
  "arraylist_append ok v a =
     (if v = None then Inr (- 1, a)
      else
        bnd (if al_count a \<ge> al_max a then
               if al_max a * 3 > INT_MAX then Inl Int_overflow
               else
                 let n = al_max a * 3 div 2 + 1 in
                 if \<not> ok (nat n) then Inl Assert_failed
                 else Inr (a\<lparr>al_max := n, al_first := take (nat (al_count a)) (al_first a) @
                             replicate (nat (n - al_count a)) None\<rparr>)
             else Inr a) (\<lambda>a.
        bnd (store (al_first a) (nat (al_count a)) [v]) (\<lambda>m.
        Inr (0, a\<lparr>al_first := m, al_count := al_count a + 1\<rparr>))))"

text \<open>\<open>takeItem\<close>: the \<open>memmove\<close> shifts every later slot of the block, not only the used ones.\<close>

definition arraylist_takeItem :: "int \<Rightarrow> 'p array_list \<Rightarrow> ('p option \<times> 'p array_list) outcome" where
  "arraylist_takeItem index a =
     (let index = (if LAST_INDEX = index then al_count a - 1 else index)
      in if index < 0 \<or> index \<ge> al_count a then Inr (None, a)
         else bnd (load (al_first a) (nat index) 1) (\<lambda>ret.
           let a = a\<lparr>al_count := al_count a - 1\<rparr> in
           if index + 1 < al_max a then
             bnd (load (al_first a) (nat (index + 1)) (nat (al_max a - index - 1))) (\<lambda>xs.
             bnd (store (al_first a) (nat index) xs) (\<lambda>m.
             Inr (hd ret, a\<lparr>al_first := m\<rparr>)))
           else bnd (store (al_first a) (nat index) [None]) (\<lambda>m. Inr (hd ret, a\<lparr>al_first := m\<rparr>))))"

definition arraylist_getItem :: "int \<Rightarrow> 'p array_list \<Rightarrow> 'p option outcome" where
  "arraylist_getItem index a =
     (let index = (if LAST_INDEX = index then al_count a - 1 else index)
      in if index < 0 \<or> index \<ge> al_count a then Inr None
         else bnd (load (al_first a) (nat index) 1) (\<lambda>ret. Inr (hd ret)))"

section \<open>SP_CircleQueue\<close>

record 'p circle_queue =
  mEntries :: "'p option list"
  mHead :: "32 word"
  mTail :: "32 word"
  mCount :: "32 word"
  mMaxCount :: "32 word"

definition circlequeue_new :: "(nat \<Rightarrow> 'p option) \<Rightarrow> 'p circle_queue" where
  "circlequeue_new junk = \<lparr>mEntries = map junk [0..<8], mHead = 0, mTail = 0, mCount = 0, mMaxCount = 8\<rparr>"

text \<open>The part of \<open>push\<close> that makes room; \<open>malloc\<close> is not checked.\<close>

definition circle_grow :: "(nat \<Rightarrow> bool) \<Rightarrow> (nat \<Rightarrow> 'p option) \<Rightarrow> 'p circle_queue \<Rightarrow> 'p circle_queue outcome" where
  "circle_grow ok junk q =
     (let n = mMaxCount q * 3 div 2 + 1;
          headLen = (if mHead q < mTail q then mTail q - mHead q else mCount q - mTail q);
          tailLen = (if mHead q < mTail q then 0 else mTail q)
      in if \<not> ok (unat n) then Inl Null_deref
         else
           bnd (load (mEntries q) (unat (mHead q)) (unat headLen)) (\<lambda>xs.
           bnd (store (map junk [0..<unat n]) 0 xs) (\<lambda>m.
           bnd (if tailLen \<noteq> 0 then
                  bnd (load (mEntries q) 0 (unat tailLen)) (\<lambda>ys. store m (unat headLen) ys)
                else Inr m) (\<lambda>m.
           Inr (q\<lparr>mEntries := m, mHead := 0, mTail := headLen + tailLen, mMaxCount := n\<rparr>)))))"

definition circlequeue_push :: "(nat \<Rightarrow> bool) \<Rightarrow> (nat \<Rightarrow> 'p option) \<Rightarrow> 'p option \<Rightarrow> 'p circle_queue \<Rightarrow> 'p circle_queue outcome" where
  "circlequeue_push ok junk item q =
     bnd (if mCount q \<ge> mMaxCount q then circle_grow ok junk q else Inr q) (\<lambda>q.
     bnd (store (mEntries q) (unat (mTail q)) [item]) (\<lambda>m.
     Inr (q\<lparr>mEntries := m, mTail := (mTail q + 1) mod mMaxCount q, mCount := mCount q + 1\<rparr>)))"

definition circlequeue_pop :: "'p circle_queue \<Rightarrow> ('p option \<times> 'p circle_queue) outcome" where
  "circlequeue_pop q =
     (if mCount q > 0 then
        bnd (load (mEntries q) (unat (mHead q)) 1) (\<lambda>ret.
        Inr (hd ret, q\<lparr>mHead := (mHead q + 1) mod mMaxCount q, mCount := mCount q - 1\<rparr>))
      else Inr (None, q))"

definition circlequeue_top :: "'p circle_queue \<Rightarrow> 'p option outcome" where
  "circlequeue_top q =
     (if mCount q > 0 then bnd (load (mEntries q) (unat (mHead q)) 1) (\<lambda>ret. Inr (hd ret)) else Inr None)"

definition circlequeue_getLength :: "'p circle_queue \<Rightarrow> 32 word" where
  "circlequeue_getLength q = mCount q"

section \<open>The array list is a list\<close>

definition al_inv :: "'p array_list \<Rightarrow> bool" where
  "al_inv a \<longleftrightarrow> 0 \<le> al_count a \<and> al_count a \<le> al_max a \<and> 0 < al_max a \<and>
     int (length (al_first a)) = al_max a \<and> None \<notin> set (take (nat (al_count a)) (al_first a))"

definition al_items :: "'p array_list \<Rightarrow> 'p list" where
  "al_items a = map the (take (nat (al_count a)) (al_first a))"

lemma length_al_items: "al_inv a \<Longrightarrow> int (length (al_items a)) = al_count a"
  by (auto simp: al_inv_def al_items_def)

lemma al_items_nth:
  assumes "al_inv a" "i < length (al_items a)"
  shows "al_first a ! i = Some (al_items a ! i)"
proof -
  have "i < nat (al_count a)" "i < length (al_first a)"
    using assms by (auto simp: al_inv_def al_items_def)
  then have "al_first a ! i \<in> set (take (nat (al_count a)) (al_first a))"
    by (metis in_set_conv_nth length_take min_less_iff_conj nth_take)
  then have "al_first a ! i \<noteq> None"
    using assms(1) by (metis al_inv_def)
  then show ?thesis
    using assms(2) by (auto simp: al_items_def)
qed

lemma arraylist_new_ok: "al_inv (arraylist_new junk n) \<and> al_items (arraylist_new junk n) = []"
  by (simp add: arraylist_new_def al_inv_def al_items_def Let_def)

text \<open>What the store at the end of \<open>append\<close> does once there is room.\<close>

lemma arraylist_store:
  assumes "al_inv a" "al_count a < al_max a"
  shows "store (al_first a) (nat (al_count a)) [Some v] = Inr ((al_first a)[nat (al_count a) := Some v]) \<and>
    al_inv (a\<lparr>al_first := (al_first a)[nat (al_count a) := Some v], al_count := al_count a + 1\<rparr>) \<and>
    al_items (a\<lparr>al_first := (al_first a)[nat (al_count a) := Some v], al_count := al_count a + 1\<rparr>) =
      al_items a @ [v]"
proof -
  define n where "n = nat (al_count a)"
  have n: "n < length (al_first a)" "nat (al_count a + 1) = Suc n" "al_count a = int n"
    using assms by (auto simp: al_inv_def n_def)
  have "take (Suc n) ((al_first a)[n := Some v]) = take n (al_first a) @ [Some v]"
    using n(1) by (simp add: take_Suc_conv_app_nth)
  then show ?thesis
    using assms n store_one [OF n(1)] by (auto simp: al_inv_def al_items_def)
qed

lemma arraylist_append_ok:
  assumes "al_inv a" "al_max a * 3 \<le> INT_MAX" "\<And>n. ok n"
  shows "\<exists>a'. arraylist_append ok (Some v) a = Inr (0, a') \<and> al_inv a' \<and> al_items a' = al_items a @ [v]"
proof (cases "al_count a \<ge> al_max a")
  case False
  with arraylist_store [OF assms(1), of v] show ?thesis
    by (simp add: arraylist_append_def)
next
  case True
  let ?n = "al_max a * 3 div 2 + 1"
  let ?a = "a\<lparr>al_max := ?n, al_first := take (nat (al_count a)) (al_first a) @
    replicate (nat (?n - al_count a)) None\<rparr>"
  have "al_inv ?a" "al_count ?a < al_max ?a" "al_items ?a = al_items a"
    using assms(1) True by (auto simp: al_inv_def al_items_def)
  with arraylist_store [of ?a v] True assms(2,3) show ?thesis
    by (simp add: arraylist_append_def Let_def)
qed

lemma arraylist_getItem_ok:
  assumes "al_inv a"
  shows "arraylist_getItem index a =
    Inr (let i = (if index = LAST_INDEX then int (length (al_items a)) - 1 else index)
         in if 0 \<le> i \<and> i < int (length (al_items a)) then Some (al_items a ! nat i) else None)"
proof -
  let ?i = "if index = LAST_INDEX then int (length (al_items a)) - 1 else index"
  have len: "al_count a = int (length (al_items a))"
    using length_al_items [OF assms] by simp
  have "load (al_first a) (nat ?i) 1 = Inr [Some (al_items a ! nat ?i)]"
    if "0 \<le> ?i" "?i < int (length (al_items a))"
  proof -
    have "nat ?i < length (al_items a)" "nat ?i < length (al_first a)"
      using that assms len by (auto simp: al_inv_def)
    with al_items_nth [OF assms this(1)] show ?thesis
      by (simp add: load_def take_Suc_conv_app_nth Cons_nth_drop_Suc [symmetric])
  qed
  then show ?thesis
    unfolding arraylist_getItem_def Let_def len by (auto simp: eq_commute [of LAST_INDEX])
qed

lemma take_delete:
  assumes "Suc i \<le> n" "n \<le> length f"
  shows "take (n - 1) (take i f @ drop (Suc i) f @ zs) = take i (take n f) @ drop (Suc i) (take n f)"
proof -
  obtain k where "n = Suc i + k"
    using assms(1) le_Suc_ex by blast
  with assms(2) show ?thesis
    by (simp add: drop_take)
qed

lemma in_set_take_of: "x \<in> set (take k f) \<Longrightarrow> k \<le> n \<Longrightarrow> x \<in> set (take n f)"
  using set_take_subset_set_take by fast

lemma arraylist_takeItem_ok:
  assumes "al_inv a" "0 \<le> i" "i < int (length (al_items a))"
  shows "\<exists>a'. arraylist_takeItem i a = Inr (Some (al_items a ! nat i), a') \<and> al_inv a' \<and>
    al_items a' = take (nat i) (al_items a) @ drop (Suc (nat i)) (al_items a)"
proof -
  define k where "k = nat i"
  define n where "n = nat (al_count a)"
  define f where "f = al_first a"
  have i: "i = int k" and n: "al_count a = int n" "k < n" "n \<le> length f"
    and mx: "al_max a = int (length f)"
    using assms length_al_items [OF assms(1)] by (auto simp: k_def n_def f_def al_inv_def)
  have items: "al_items a = map the (take n f)" and some: "None \<notin> set (take n f)"
    using assms(1) by (simp_all add: al_items_def al_inv_def n_def f_def)
  have ld: "load f k 1 = Inr [f ! k]" "f ! k = Some (al_items a ! k)"
    using n al_items_nth [OF assms(1), of k] assms(3)
    by (simp_all add: load_def i take_Suc_conv_app_nth Cons_nth_drop_Suc [symmetric] f_def)
  define m where "m = (if Suc k < length f then take k f @ drop (Suc k) f @ [last f] else f[k := None])"
  have run: "arraylist_takeItem i a = Inr (f ! k, a\<lparr>al_count := int n - 1, al_first := m\<rparr>)"
  proof (cases "Suc k < length f")
    case True
    have "nat (int (length f) - int k - 1) = length f - Suc k"
      by simp
    moreover have "load f (Suc k) (length f - Suc k) = Inr (drop (Suc k) f)"
      using True by (simp add: load_def)
    moreover have "drop (length f - 1) f = [last f]"
      using True by (cases f rule: rev_cases) auto
    then have "store f k (drop (Suc k) f) = Inr m"
      using True by (simp add: store_def m_def)
    ultimately show ?thesis
      using True n ld(1) by (simp add: arraylist_takeItem_def LAST_INDEX_def i mx nat_add_distrib f_def [symmetric])
  next
    case False
    then have "store f k [None] = Inr m"
      using n store_one [of k f None] by (simp add: m_def)
    then show ?thesis
      using False n ld(1) by (simp add: arraylist_takeItem_def LAST_INDEX_def i mx f_def [symmetric])
  qed
  have m: "length m = length f"
    using n by (auto simp: m_def)
  have "take (n - 1) m = take k (take n f) @ drop (Suc k) (take n f)"
  proof (cases "Suc k < length f")
    case True
    then show ?thesis
      using take_delete [of k n f "[last f]"] n by (simp add: m_def)
  next
    case False
    then have "n = Suc k" "length f = Suc k"
      using n by auto
    then show ?thesis
      by (simp add: m_def)
  qed
  moreover have "nat (int n - 1) = n - 1"
    by simp
  ultimately have "al_inv (a\<lparr>al_count := int n - 1, al_first := m\<rparr>)"
    "al_items (a\<lparr>al_count := int n - 1, al_first := m\<rparr>) = take k (al_items a) @ drop (Suc k) (al_items a)"
    using some n mx m in_set_take_of [of None k f n]
    by (auto simp: al_inv_def al_items_def items take_map drop_map f_def [symmetric] dest: in_set_dropD)
  with run ld(2) show ?thesis by (simp add: k_def)
qed

section \<open>The circle queue is a queue\<close>

text \<open>The items from the head on, around the end of the block.\<close>

definition cq_items :: "'p circle_queue \<Rightarrow> 'p option list" where
  "cq_items q = take (unat (mCount q)) (rotate (unat (mHead q)) (mEntries q))"

definition cq_inv :: "'p circle_queue \<Rightarrow> bool" where
  "cq_inv q \<longleftrightarrow> length (mEntries q) = unat (mMaxCount q) \<and> 0 < unat (mMaxCount q) \<and>
     unat (mHead q) < unat (mMaxCount q) \<and> unat (mCount q) \<le> unat (mMaxCount q) \<and>
     unat (mTail q) = (unat (mHead q) + unat (mCount q)) mod unat (mMaxCount q)"

definition cq_room :: "'p circle_queue \<Rightarrow> bool" where
  "cq_room q \<longleftrightarrow> unat (mMaxCount q) * 3 < 2 ^ 32"

lemma length_cq_items: "cq_inv q \<Longrightarrow> length (cq_items q) = unat (mCount q)"
  by (simp add: cq_inv_def cq_items_def)

lemma cq_items_nth:
  "cq_inv q \<Longrightarrow> i < unat (mCount q) \<Longrightarrow>
    cq_items q ! i = mEntries q ! ((unat (mHead q) + i) mod unat (mMaxCount q))"
  by (simp add: cq_inv_def cq_items_def nth_rotate)

lemma circlequeue_new_ok: "cq_inv (circlequeue_new junk) \<and> cq_items (circlequeue_new junk) = []"
  by (simp add: circlequeue_new_def cq_inv_def cq_items_def)

lemma unat_inc:
  fixes a m :: "32 word"
  assumes "unat a < unat m"
  shows "unat (a + 1) = Suc (unat a)"
proof -
  have "unat m < 2 ^ 32"
    using unsigned_less [of m] by simp
  with assms show ?thesis
    by (simp add: unat_word_ariths)
qed

lemma unat_inc_mod:
  fixes a m :: "32 word"
  assumes "unat a < unat m"
  shows "unat ((a + 1) mod m) = Suc (unat a) mod unat m"
  using unat_inc [OF assms] by (simp add: unat_mod)

text \<open>The store of \<open>push\<close> once there is room.\<close>

lemma circle_store:
  fixes q :: "'p circle_queue" and item :: "'p option"
  assumes "cq_inv q" "unat (mCount q) < unat (mMaxCount q)"
  defines "q' \<equiv> q\<lparr>mEntries := (mEntries q)[unat (mTail q) := item], mTail := (mTail q + 1) mod mMaxCount q,
    mCount := mCount q + 1\<rparr>"
  shows "cq_inv q'" "cq_items q' = cq_items q @ [item]"
proof -
  define h n k where "h = unat (mHead q)" and "n = unat (mMaxCount q)" and "k = unat (mCount q)"
  have len: "length (mEntries q) = n" "h < n" "k < n" "0 < n" and t: "unat (mTail q) = (h + k) mod n"
    using assms by (auto simp: cq_inv_def h_def n_def k_def)
  have c: "unat (mCount q + 1) = Suc k"
    using unat_inc [OF assms(2)] by (simp add: k_def)
  have t': "unat ((mTail q + 1) mod mMaxCount q) = (h + Suc k) mod n"
    using len t by (subst unat_inc_mod) (simp_all add: mod_Suc_eq n_def)
  show inv: "cq_inv q'"
    using len c t' by (simp add: cq_inv_def q'_def h_def n_def)
  show "cq_items q' = cq_items q @ [item]"
  proof (rule nth_equalityI)
    show "length (cq_items q') = length (cq_items q @ [item])"
      using length_cq_items [OF inv] length_cq_items [OF assms(1)] c by (simp add: q'_def k_def)
  next
    fix i
    assume "i < length (cq_items q')"
    then have i: "i < Suc k"
      using length_cq_items [OF inv] c by (simp add: q'_def)
    have fields: "mHead q' = mHead q" "mMaxCount q' = mMaxCount q" "unat (mCount q') = Suc k"
      "mEntries q' = (mEntries q)[(h + k) mod n := item]"
      using c t by (simp_all add: q'_def)
    have at: "cq_items q' ! i = (mEntries q)[(h + k) mod n := item] ! ((h + i) mod n)"
      using cq_items_nth [OF inv, of i] i by (simp add: fields h_def n_def)
    have "(h + i) mod n \<noteq> (h + k) mod n" if "i \<noteq> k"
    proof
      assume "(h + i) mod n = (h + k) mod n"
      then have "n dvd k - i"
        using i by (metis add_diff_cancel_left less_Suc_eq_le mod_eq_dvd_iff_nat nat_add_left_cancel_le)
      then show False
        using that i len(3) by (auto dest: dvd_imp_le)
    qed
    moreover have "cq_items q ! i = mEntries q ! ((h + i) mod n)" if "i < k"
      using cq_items_nth [OF assms(1), of i] that by (simp add: h_def n_def k_def)
    ultimately show "cq_items q' ! i = (cq_items q @ [item]) ! i"
      using i at len length_cq_items [OF assms(1)]
      by (cases "i = k") (auto simp: nth_append k_def [symmetric])
  qed
qed

lemma rotate_split:
  assumes "h < length xs"
  shows "rotate h xs = drop h xs @ take h xs"
  using assms by (simp add: rotate_drop_take)

text \<open>Making room keeps the items.\<close>

lemma circle_grow_ok:
  assumes "cq_inv q" "cq_room q" "mCount q \<ge> mMaxCount q" "\<And>n. ok n"
  shows "\<exists>q'. circle_grow ok junk q = Inr q' \<and> cq_inv q' \<and> cq_items q' = cq_items q \<and>
    unat (mCount q') < unat (mMaxCount q') \<and> unat (mMaxCount q') = length (cq_items q) * 3 div 2 + 1"
proof -
  define h n where "h = unat (mHead q)" and "n = unat (mMaxCount q)"
  have len: "length (mEntries q) = n" "h < n" and c: "unat (mCount q) = n" and t: "unat (mTail q) = h"
    and eq: "mCount q = mMaxCount q" "mTail q = mHead q"
  proof -
    show "unat (mCount q) = n" "length (mEntries q) = n" "h < n"
      using assms by (auto simp: cq_inv_def h_def n_def word_le_nat_alt)
    then show "unat (mTail q) = h"
      using assms(1) by (simp add: cq_inv_def h_def n_def)
    then show "mTail q = mHead q"
      by (simp add: h_def word_unat_eq_iff)
    show "mCount q = mMaxCount q"
      using \<open>unat (mCount q) = n\<close> by (simp add: n_def word_unat_eq_iff)
  qed
  define N where "N = mMaxCount q * 3 div 2 + 1"
  have m3: "unat (mMaxCount q * 3) = n * 3"
    using assms(2) by (simp add: unat_word_ariths n_def cq_room_def)
  have "n * 3 < 2 ^ 32"
    using assms(2) by (simp add: cq_room_def n_def)
  then have N: "unat N = n * 3 div 2 + 1"
    unfolding N_def using m3 by (subst unat_inc [of _ "mMaxCount q * 3"]) (simp_all add: unat_div, use len(2) in linarith)
  have gt: "n < unat N"
    using len(2) by (simp add: N)
  have d: "unat (mCount q - mTail q) = n - h"
    using len c t by (simp add: unat_sub word_le_nat_alt)
  have s: "unat (mCount q - mTail q + mTail q) = n"
    using c by simp
  define m where "m = drop h (mEntries q) @ take h (mEntries q) @ map junk [n..<unat N]"
  have st1: "store (map junk [0..<unat N]) 0 (drop h (mEntries q)) =
      Inr (drop h (mEntries q) @ map junk [n - h..<unat N])"
    using len gt by (simp add: store_def drop_map)
  have st2: "store (drop h (mEntries q) @ map junk [n - h..<unat N]) (n - h) (take h (mEntries q)) = Inr m"
    using len gt by (simp add: store_def m_def drop_map)
  have "circle_grow ok junk q = Inr (q\<lparr>mEntries := m, mHead := 0,
      mTail := mCount q - mTail q + mTail q, mMaxCount := N\<rparr>)"
  proof (cases "mTail q = 0")
    case True
    with t have "h = 0" by simp
    with st1 len True show ?thesis
      using assms(4) c eq by (simp add: m_def circle_grow_def Let_def N_def [symmetric] load_def h_def [symmetric] d)
  next
    case False
    with st1 st2 len t show ?thesis
      using assms(4) c eq by (simp add: circle_grow_def Let_def N_def [symmetric] load_def d [simplified eq] h_def [symmetric])
  qed
  moreover have "cq_inv (q\<lparr>mEntries := m, mHead := 0, mTail := mCount q - mTail q + mTail q, mMaxCount := N\<rparr>)"
    using len gt c by (simp add: cq_inv_def m_def)
  moreover have "take n m = cq_items q"
    using len c by (simp add: m_def cq_items_def rotate_split h_def [symmetric])
  ultimately show ?thesis
    using gt c N length_cq_items [OF assms(1)] by (simp add: cq_items_def)
qed

lemma circlequeue_push_ok:
  assumes "cq_inv q" "cq_room q" "\<And>n. ok n"
  shows "\<exists>q'. circlequeue_push ok junk item q = Inr q' \<and> cq_inv q' \<and> cq_items q' = cq_items q @ [item] \<and>
    unat (mMaxCount q') \<le> max (unat (mMaxCount q)) (length (cq_items q) * 3 div 2 + 1)"
proof -
  obtain q1 where q1: "(if mCount q \<ge> mMaxCount q then circle_grow ok junk q else Inr q) = Inr q1"
    "cq_inv q1" "cq_items q1 = cq_items q" "unat (mCount q1) < unat (mMaxCount q1)"
    "unat (mMaxCount q1) \<le> max (unat (mMaxCount q)) (length (cq_items q) * 3 div 2 + 1)"
  proof (cases "mCount q \<ge> mMaxCount q")
    case True
    from circle_grow_ok [where ok = ok and junk = junk, OF assms(1,2) True assms(3)] True that show thesis by auto
  next
    case False
    with assms(1) that show thesis by (simp add: word_le_nat_alt)
  qed
  have "unat (mTail q1) < length (mEntries q1)"
    using q1(2) by (simp add: cq_inv_def)
  with circle_store [OF q1(2,4), of item] q1 show ?thesis
    by (simp add: circlequeue_push_def store_one)
qed

lemma circlequeue_pop_ok:
  assumes "cq_inv q"
  shows "\<exists>q'. circlequeue_pop q =
      Inr (case cq_items q of [] \<Rightarrow> (None, q) | x # xs \<Rightarrow> (x, q')) \<and>
    (cq_items q \<noteq> [] \<longrightarrow> cq_inv q' \<and> cq_items q' = tl (cq_items q) \<and> mMaxCount q' = mMaxCount q)"
proof (cases "mCount q = 0")
  case True
  then have "cq_items q = []"
    by (simp add: cq_items_def)
  with True show ?thesis
    by (simp add: circlequeue_pop_def)
next
  case False
  define h n k where "h = unat (mHead q)" and "n = unat (mMaxCount q)" and "k = unat (mCount q)"
  have k: "0 < k"
    using False by (simp add: k_def unat_gt_0)
  have len: "length (mEntries q) = n" "h < n" "k \<le> n" and t: "unat (mTail q) = (h + k) mod n"
    using assms by (auto simp: cq_inv_def h_def n_def k_def)
  let ?q = "q\<lparr>mHead := (mHead q + 1) mod mMaxCount q, mCount := mCount q - 1\<rparr>"
  have c: "unat (mCount q - 1) = k - 1"
    using False by (simp add: unat_minus_one k_def)
  have hd': "unat ((mHead q + 1) mod mMaxCount q) = Suc h mod n"
    using len(2) by (subst unat_inc_mod) (simp_all add: h_def n_def)
  have wrap: "(Suc h mod n + (k - 1)) mod n = (h + k) mod n"
    by (cases k) (use k in \<open>simp_all add: mod_add_left_eq\<close>)
  have inv: "cq_inv ?q"
    using len c hd' t k wrap by (simp add: cq_inv_def n_def)
  have "cq_items ?q = tl (cq_items q)"
  proof (rule nth_equalityI)
    show "length (cq_items ?q) = length (tl (cq_items q))"
      using length_cq_items [OF inv] length_cq_items [OF assms] c by (simp add: k_def)
  next
    fix i
    assume "i < length (cq_items ?q)"
    then have i: "Suc i < k"
      using length_cq_items [OF inv] c by simp
    have "cq_items ?q ! i = mEntries q ! ((Suc h mod n + i) mod n)"
      using cq_items_nth [OF inv, of i] i c hd' by (simp add: n_def)
    also have "(Suc h mod n + i) mod n = (h + Suc i) mod n"
      by (simp add: mod_add_left_eq)
    finally show "cq_items ?q ! i = tl (cq_items q) ! i"
      using cq_items_nth [OF assms, of "Suc i"] i length_cq_items [OF assms]
      by (simp add: nth_tl h_def n_def k_def)
  qed
  moreover have "load (mEntries q) h 1 = Inr [mEntries q ! h]"
    using len by (simp add: load_def take_Suc_conv_app_nth Cons_nth_drop_Suc [symmetric])
  moreover have "cq_items q = mEntries q ! h # tl (cq_items q)"
  proof -
    have "cq_items q \<noteq> []" "cq_items q ! 0 = mEntries q ! h"
      using cq_items_nth [OF assms, of 0] k len length_cq_items [OF assms]
      by (auto simp: k_def h_def n_def)
    then show ?thesis
      by (cases "cq_items q") auto
  qed
  ultimately show ?thesis
    using False inv by (cases "cq_items q") (auto simp: circlequeue_pop_def word_gt_0 h_def)
qed

lemma circlequeue_top_ok:
  assumes "cq_inv q"
  shows "circlequeue_top q = Inr (case cq_items q of [] \<Rightarrow> None | x # xs \<Rightarrow> x)"
proof -
  obtain q' where "circlequeue_pop q = Inr (case cq_items q of [] \<Rightarrow> (None, q) | x # xs \<Rightarrow> (x, q'))"
    using circlequeue_pop_ok [OF assms] by blast
  then show ?thesis
    by (cases "mCount q = 0"; cases "cq_items q")
      (auto simp: circlequeue_pop_def circlequeue_top_def word_gt_0 cq_items_def)
qed

lemma circlequeue_length_ok: "cq_inv q \<Longrightarrow> unat (circlequeue_getLength q) = length (cq_items q)"
  by (simp add: circlequeue_getLength_def length_cq_items)

lemma circlequeue_empty_ok: "cq_inv q \<Longrightarrow> circlequeue_getLength q = 0 \<longleftrightarrow> cq_items q = []"
  using circlequeue_length_ok [of q] by (metis length_0_conv unat_eq_zero)

end
