(* ===== verification/ThreadQueue.thy ===== *)
theory ThreadQueue
  imports DataUtils
begin

text \<open>
  The two queues shared between threads: \<open>SP_BlockingQueue\<close> of \<open>EventServer/DataUtils.cpp\<close> and
  \<open>GQueue\<close> of \<open>common/GQueue.h\<close>. Each method holds the mutex from its first to its last
  statement except while it waits for the condition, so a run is a sequence of steps, one per
  critical section: a method that does not wait is one step, and one that waits is two, up to
  the wait and after it. A thread that waits is in \<open>waiting\<close>; one that has been woken but does
  not have the mutex yet is in \<open>woken\<close>. POSIX lets a thread wake up without a signal.
\<close>

datatype 'a thread_event =
    Pushed 'a
  | Popped nat 'a
  | Slept nat
  | Woken_up nat

section \<open>SP_BlockingQueue\<close>

record 'p blocking_queue =
  mQueue :: "'p circle_queue"
  waiting :: "nat set"
  woken :: "nat set"

definition blocking_new :: "(nat \<Rightarrow> 'p option) \<Rightarrow> 'p blocking_queue" where
  "blocking_new junk = \<lparr>mQueue = circlequeue_new junk, waiting = {}, woken = {}\<rparr>"

text \<open>
  \<open>push\<close> signals when the length has become 1. \<open>pop\<close> waits once, if the length is 0, and then
  takes what is there. The event carries the value that is pushed or returned.
\<close>

inductive blocking_step :: "(nat \<Rightarrow> bool) \<Rightarrow> (nat \<Rightarrow> 'p option) \<Rightarrow> 'p blocking_queue \<Rightarrow> 'p option thread_event \<Rightarrow> 'p blocking_queue \<Rightarrow> bool"
  for ok junk where
  push_silent: "circlequeue_push ok junk x (mQueue s) = Inr q \<Longrightarrow>
    circlequeue_getLength q \<noteq> 1 \<or> waiting s = {} \<Longrightarrow>
    blocking_step ok junk s (Pushed x) (s\<lparr>mQueue := q\<rparr>)"
| push_signal: "circlequeue_push ok junk x (mQueue s) = Inr q \<Longrightarrow>
    circlequeue_getLength q = 1 \<Longrightarrow> t \<in> waiting s \<Longrightarrow>
    blocking_step ok junk s (Pushed x) (s\<lparr>mQueue := q, waiting := waiting s - {t}, woken := insert t (woken s)\<rparr>)"
| pop_now: "t \<notin> waiting s \<Longrightarrow> t \<notin> woken s \<Longrightarrow> circlequeue_getLength (mQueue s) \<noteq> 0 \<Longrightarrow>
    circlequeue_pop (mQueue s) = Inr (x, q) \<Longrightarrow>
    blocking_step ok junk s (Popped t x) (s\<lparr>mQueue := q\<rparr>)"
| pop_wait: "t \<notin> waiting s \<Longrightarrow> t \<notin> woken s \<Longrightarrow> circlequeue_getLength (mQueue s) = 0 \<Longrightarrow>
    blocking_step ok junk s (Slept t) (s\<lparr>waiting := insert t (waiting s)\<rparr>)"
| pop_spurious: "t \<in> waiting s \<Longrightarrow>
    blocking_step ok junk s (Woken_up t) (s\<lparr>waiting := waiting s - {t}, woken := insert t (woken s)\<rparr>)"
| pop_after: "t \<in> woken s \<Longrightarrow> circlequeue_pop (mQueue s) = Inr (x, q) \<Longrightarrow>
    blocking_step ok junk s (Popped t x) (s\<lparr>mQueue := q, woken := woken s - {t}\<rparr>)"

section \<open>GQueue\<close>

record 'a gqueue =
  data_queue :: "'a list"
  gwaiting :: "nat set"
  gwoken :: "nat set"

definition gqueue_new :: "'a gqueue" where
  "gqueue_new = \<lparr>data_queue = [], gwaiting = {}, gwoken = {}\<rparr>"

text \<open>The methods that do not wait, as functions of the queue.\<close>

definition gqueue_push :: "'a \<Rightarrow> 'a list \<Rightarrow> 'a list" where
  "gqueue_push x q = q @ [x]"

definition gqueue_try_pop :: "'a list \<Rightarrow> 'a option \<times> 'a list" where
  "gqueue_try_pop q = (case q of [] \<Rightarrow> (None, []) | x # xs \<Rightarrow> (Some x, xs))"

definition gqueue_empty :: "'a list \<Rightarrow> bool" where
  "gqueue_empty q \<longleftrightarrow> q = []"

definition gqueue_getSize :: "'a list \<Rightarrow> int" where
  "gqueue_getSize q = int (length q)"

definition gqueue_clear :: "'a list \<Rightarrow> int \<times> 'a list" where
  "gqueue_clear q = (int (length q), [])"

text \<open>
  \<open>push\<close> notifies one waiter each time; \<open>wait_and_pop\<close> tests again whether the queue is empty
  after every wake-up.
\<close>

inductive gqueue_step :: "'a gqueue \<Rightarrow> 'a thread_event \<Rightarrow> 'a gqueue \<Rightarrow> bool" where
  gpush_alone: "gwaiting s = {} \<Longrightarrow>
    gqueue_step s (Pushed x) (s\<lparr>data_queue := gqueue_push x (data_queue s)\<rparr>)"
| gpush_notify: "t \<in> gwaiting s \<Longrightarrow>
    gqueue_step s (Pushed x) (s\<lparr>data_queue := gqueue_push x (data_queue s),
      gwaiting := gwaiting s - {t}, gwoken := insert t (gwoken s)\<rparr>)"
| gpop_now: "t \<notin> gwaiting s \<Longrightarrow> gqueue_try_pop (data_queue s) = (Some x, q) \<Longrightarrow>
    gqueue_step s (Popped t x) (s\<lparr>data_queue := q, gwoken := gwoken s - {t}\<rparr>)"
| gpop_wait: "t \<notin> gwaiting s \<Longrightarrow> gqueue_empty (data_queue s) \<Longrightarrow>
    gqueue_step s (Slept t) (s\<lparr>gwaiting := insert t (gwaiting s), gwoken := gwoken s - {t}\<rparr>)"
| gpop_spurious: "t \<in> gwaiting s \<Longrightarrow>
    gqueue_step s (Woken_up t) (s\<lparr>gwaiting := gwaiting s - {t}, gwoken := insert t (gwoken s)\<rparr>)"

section \<open>Runs\<close>

inductive run :: "('s \<Rightarrow> 'e \<Rightarrow> 's \<Rightarrow> bool) \<Rightarrow> 's \<Rightarrow> 'e list \<Rightarrow> 's \<Rightarrow> bool" for step where
  run_Nil: "run step s [] s"
| run_snoc: "run step s es s' \<Longrightarrow> step s' e s'' \<Longrightarrow> run step s (es @ [e]) s''"

inductive_simps run_Nil_iff [simp]: "run step s [] s'"

inductive_cases blocking_stepE:
  "blocking_step ok junk s (Pushed x) s'"
  "blocking_step ok junk s (Popped t x) s'"
  "blocking_step ok junk s (Slept t) s'"
  "blocking_step ok junk s (Woken_up t) s'"

inductive_cases gqueue_stepE:
  "gqueue_step s (Pushed x) s'"
  "gqueue_step s (Popped t x) s'"
  "gqueue_step s (Slept t) s'"
  "gqueue_step s (Woken_up t) s'"

text \<open>An invariant of the steps holds after every run.\<close>

lemma run_invariant:
  assumes "run step s es s'" "I [] s"
    and "\<And>es s e s'. I es s \<Longrightarrow> step s e s' \<Longrightarrow> I (es @ [e]) s'"
  shows "I es s'"
  using assms by (induction rule: run.induct) auto

lemma run_Cons: "run step s' es s'' \<Longrightarrow> step s e s' \<Longrightarrow> run step s (e # es) s''"
proof (induction rule: run.induct)
  case (run_Nil s')
  from run.run_snoc [where s' = s and step = step, OF run.run_Nil this] show ?case by simp
next
  case (run_snoc s' es s1 e' s2)
  from run.run_snoc [OF run_snoc.IH [OF run_snoc.prems] run_snoc.hyps(2)] show ?case by simp
qed

lemma run_prefix:
  assumes "run step s es s'" "es = as @ bs"
  shows "\<exists>s''. run step s as s''"
  using assms
proof (induction arbitrary: bs rule: run.induct)
  case (run_Nil s)
  then show ?case by (auto intro: run.intros)
next
  case (run_snoc s es s' e s'')
  then show ?case
    by (cases bs rule: rev_cases) (auto intro: run.intros)
qed

text \<open>What a trace has pushed and popped, in order.\<close>

fun pushed :: "'a thread_event list \<Rightarrow> 'a list" where
  "pushed [] = []"
| "pushed (Pushed x # es) = x # pushed es"
| "pushed (e # es) = pushed es"

fun popped :: "'a thread_event list \<Rightarrow> 'a list" where
  "popped [] = []"
| "popped (Popped t x # es) = x # popped es"
| "popped (e # es) = popped es"

lemma pushed_append [simp]: "pushed (as @ bs) = pushed as @ pushed bs"
  by (induction as rule: pushed.induct) auto

lemma popped_append [simp]: "popped (as @ bs) = popped as @ popped bs"
  by (induction as rule: popped.induct) auto

section \<open>GQueue loses nothing\<close>

text \<open>
  The items in the queue are what has been pushed and not yet popped; waiting threads are
  never more hopeless than this: if one waits and there are items, at least as many threads
  as items have been woken and are on their way.
\<close>

definition gqueue_inv :: "'a thread_event list \<Rightarrow> 'a gqueue \<Rightarrow> bool" where
  "gqueue_inv es s \<longleftrightarrow> pushed es = popped es @ data_queue s \<and> finite (gwaiting s) \<and> finite (gwoken s) \<and>
     gwaiting s \<inter> gwoken s = {} \<and> (gwaiting s \<noteq> {} \<longrightarrow> length (data_queue s) \<le> card (gwoken s))"

lemma gqueue_step_inv:
  assumes "gqueue_inv es s" "gqueue_step s e s'"
  shows "gqueue_inv (es @ [e]) s'"
proof -
  have apart: "t \<notin> gwoken s" if "t \<in> gwaiting s" for t
    using assms(1) that by (auto simp: gqueue_inv_def)
  show ?thesis
  proof (cases e)
    case (Pushed x)
    with assms apart show ?thesis
      by (auto simp: gqueue_inv_def gqueue_push_def card_insert_if elim!: gqueue_stepE)
  next
    case (Popped t x)
    with assms obtain q where st: "t \<notin> gwaiting s" "data_queue s = x # q"
      "s' = s\<lparr>data_queue := q, gwoken := gwoken s - {t}\<rparr>"
      by (auto simp: gqueue_try_pop_def split: list.splits elim!: gqueue_stepE)
    have "length q \<le> card (gwoken s - {t})" if "length (x # q) \<le> card (gwoken s)"
      using that assms(1) by (auto simp: gqueue_inv_def card_Diff_singleton_if)
    with assms(1) st Popped show ?thesis
      by (auto simp: gqueue_inv_def)
  next
    case (Slept t)
    with assms show ?thesis
      by (auto simp: gqueue_inv_def gqueue_empty_def elim!: gqueue_stepE)
  next
    case (Woken_up t)
    with assms apart show ?thesis
      by (auto simp: gqueue_inv_def card_insert_if elim!: gqueue_stepE)
  qed
qed

lemma gqueue_run_inv: "run gqueue_step gqueue_new es s \<Longrightarrow> gqueue_inv es s"
  by (rule run_invariant [of gqueue_step gqueue_new es s gqueue_inv])
    (simp_all add: gqueue_step_inv, simp add: gqueue_inv_def gqueue_new_def)

section \<open>SP_BlockingQueue with one consumer\<close>

text \<open>The traces in which only thread \<open>c\<close> pops and no wait ends without a signal.\<close>

fun only_consumer :: "nat \<Rightarrow> 'a thread_event \<Rightarrow> bool" where
  "only_consumer c (Pushed x) = True"
| "only_consumer c (Popped t x) = (t = c)"
| "only_consumer c (Slept t) = (t = c)"
| "only_consumer c (Woken_up t) = False"

definition consumer_inv :: "nat \<Rightarrow> 'p option thread_event list \<Rightarrow> 'p blocking_queue \<Rightarrow> bool" where
  "consumer_inv c es s \<longleftrightarrow> cq_inv (mQueue s) \<and> pushed es = popped es @ cq_items (mQueue s) \<and>
     unat (mMaxCount (mQueue s)) \<le> max 8 (length (pushed es) * 3 div 2 + 1) \<and>
     waiting s \<subseteq> {c} \<and> woken s \<subseteq> {c} \<and>
     (waiting s \<noteq> {} \<longrightarrow> woken s = {} \<and> cq_items (mQueue s) = []) \<and>
     (woken s \<noteq> {} \<longrightarrow> cq_items (mQueue s) \<noteq> [])"

lemma consumer_room:
  assumes "consumer_inv c es s" "length (pushed es) \<le> 2 ^ 29"
  shows "cq_room (mQueue s)"
proof -
  have "length (pushed es) * 3 div 2 + 1 \<le> 2 ^ 29 * 3 div 2 + 1"
    using assms(2) by (intro add_right_mono div_le_mono) simp
  with assms(1) show ?thesis
    by (auto simp: consumer_inv_def cq_room_def)
qed

text \<open>The three kinds of step.\<close>

lemma consumer_push:
  assumes "consumer_inv c es s" "\<And>n. ok n" "length (pushed es) \<le> 2 ^ 29"
    and "blocking_step ok junk s (Pushed x) s'"
  shows "consumer_inv c (es @ [Pushed x]) s'"
proof -
  have inv: "cq_inv (mQueue s)"
    using assms(1) by (simp add: consumer_inv_def)
  obtain q where q: "circlequeue_push ok junk x (mQueue s) = Inr q" "cq_inv q"
    "cq_items q = cq_items (mQueue s) @ [x]"
    "unat (mMaxCount q) \<le> max (unat (mMaxCount (mQueue s))) (length (cq_items (mQueue s)) * 3 div 2 + 1)"
    using circlequeue_push_ok [where ok = ok and junk = junk and item = x,
        OF inv consumer_room [OF assms(1,3)] assms(2)] by blast
  have len: "circlequeue_getLength q = 1 \<longleftrightarrow> cq_items (mQueue s) = []"
    using circlequeue_length_ok [OF q(2)] q(3) by (auto simp: word_unat_eq_iff)
  have mono: "n * 3 div 2 \<le> k * 3 div 2" if "n \<le> k" for n k :: nat
    using that by (intro div_le_mono) simp
  have "length (cq_items (mQueue s)) \<le> length (pushed es)"
    using assms(1) by (simp add: consumer_inv_def)
  from mono [OF this] mono [of "length (pushed es)" "Suc (length (pushed es))"]
  have bound: "unat (mMaxCount q) \<le> max 8 (Suc (length (pushed es)) * 3 div 2 + 1)"
    using q(4) assms(1) unfolding consumer_inv_def by linarith
  have items: "pushed es = popped es @ cq_items (mQueue s)" and who: "waiting s \<subseteq> {c}" "woken s \<subseteq> {c}"
    and idle: "waiting s \<noteq> {} \<longrightarrow> woken s = {} \<and> cq_items (mQueue s) = []"
    using assms(1) by (simp_all add: consumer_inv_def)
  from assms(4) show ?thesis
  proof (cases rule: blocking_stepE(1) [consumes 1])
    case (1 q')
    then have "q' = q" "waiting s = {}"
      using q(1) idle len by auto
    with 1 q(2,3) bound items who show ?thesis
      by (simp add: consumer_inv_def)
  next
    case (2 q' t)
    then have "q' = q" "t = c" "waiting s = {c}" "woken s = {}"
      using q(1) idle who by auto
    with 2 q(2,3) bound items who show ?thesis
      by (simp add: consumer_inv_def)
  qed
qed

lemma consumer_pop:
  assumes "consumer_inv c es s" "blocking_step ok junk s (Popped c x) s'"
  shows "consumer_inv c (es @ [Popped c x]) s'"
proof -
  have inv: "cq_inv (mQueue s)"
    using assms(1) by (simp add: consumer_inv_def)
  have ne: "cq_items (mQueue s) \<noteq> []" and idle: "waiting s = {}"
    using assms circlequeue_empty_ok [OF inv] by (auto simp: consumer_inv_def elim!: blocking_stepE)
  then obtain q where q: "circlequeue_pop (mQueue s) = Inr (hd (cq_items (mQueue s)), q)" "cq_inv q"
    "cq_items q = tl (cq_items (mQueue s))" "mMaxCount q = mMaxCount (mQueue s)"
    using circlequeue_pop_ok [OF inv] by (cases "cq_items (mQueue s)") auto
  have "x = hd (cq_items (mQueue s))" "mQueue s' = q" "waiting s' = {}" "woken s' = {}"
    using assms q(1) idle by (auto simp: consumer_inv_def elim!: blocking_stepE)
  with assms(1) q ne show ?thesis
    by (cases "cq_items (mQueue s)") (auto simp: consumer_inv_def)
qed

lemma consumer_wait:
  assumes "consumer_inv c es s" "blocking_step ok junk s (Slept c) s'"
  shows "consumer_inv c (es @ [Slept c]) s'"
proof -
  have "cq_items (mQueue s) = []"
    using assms circlequeue_empty_ok [of "mQueue s"] by (auto simp: consumer_inv_def elim!: blocking_stepE)
  with assms show ?thesis
    by (auto simp: consumer_inv_def elim!: blocking_stepE)
qed

lemma consumer_run_inv:
  assumes "run (blocking_step ok junk) (blocking_new junk) es s" "\<And>n. ok n"
    and "\<forall>e \<in> set es. only_consumer c e" "length (pushed es) \<le> 2 ^ 29"
  shows "consumer_inv c es s"
proof -
  have "(\<forall>e \<in> set es. only_consumer c e) \<and> length (pushed es) \<le> 2 ^ 29 \<longrightarrow> consumer_inv c es s"
  proof (rule run_invariant [of "blocking_step ok junk" "blocking_new junk" es s
        "\<lambda>es s. (\<forall>e \<in> set es. only_consumer c e) \<and> length (pushed es) \<le> 2 ^ 29 \<longrightarrow> consumer_inv c es s"])
    show "(\<forall>e \<in> set []. only_consumer c e) \<and> length (pushed []) \<le> 2 ^ 29 \<longrightarrow>
        consumer_inv c [] (blocking_new junk)"
      using circlequeue_new_ok [of junk] by (simp add: consumer_inv_def blocking_new_def circlequeue_new_def)
  next
    fix es s e s'
    assume IH: "(\<forall>e \<in> set es. only_consumer c e) \<and> length (pushed es) \<le> 2 ^ 29 \<longrightarrow> consumer_inv c es s"
      and st: "blocking_step ok junk s e s'"
    show "(\<forall>e \<in> set (es @ [e]). only_consumer c e) \<and> length (pushed (es @ [e])) \<le> 2 ^ 29 \<longrightarrow>
        consumer_inv c (es @ [e]) s'"
    proof
      assume "(\<forall>e \<in> set (es @ [e]). only_consumer c e) \<and> length (pushed (es @ [e])) \<le> 2 ^ 29"
      with IH have "consumer_inv c es s" "length (pushed es) \<le> 2 ^ 29" "only_consumer c e"
        by auto
      with st consumer_push [of c es s ok, OF _ assms(2)] consumer_pop consumer_wait
      show "consumer_inv c (es @ [e]) s'"
        by (cases e) simp_all
    qed
  qed (rule assms(1))
  with assms(3,4) show ?thesis by blast
qed

end
