(* ===== verification/Fifo.thy ===== *)
theory Fifo
  imports ThreadQueue
begin

text \<open>
  The contract the queues share, and runs of calls on them by one thread. A queue that
  holds the contract behaves in every run like a list from whose front values are taken.
\<close>

section \<open>The contract\<close>

text \<open>A call: \<open>Some x\<close> pushes \<open>x\<close>, \<open>None\<close> pops.\<close>

fun fifo_run :: "('a \<Rightarrow> 'q \<Rightarrow> 'q outcome) \<Rightarrow> ('q \<Rightarrow> ('b \<times> 'q) outcome) \<Rightarrow> 'a option list \<Rightarrow> 'q \<Rightarrow> ('b list \<times> 'q) outcome" where
  "fifo_run push pop [] q = Inr ([], q)"
| "fifo_run push pop (Some x # ops) q = bnd (push x q) (fifo_run push pop ops)"
| "fifo_run push pop (None # ops) q =
     bnd (pop q) (\<lambda>(r, q). bnd (fifo_run push pop ops q) (\<lambda>(rs, q). Inr (r # rs, q)))"

text \<open>The same calls on a list; a pop returns whether there was something, and what.\<close>

fun list_run :: "'a option list \<Rightarrow> 'a list \<Rightarrow> 'a option list \<times> 'a list" where
  "list_run [] xs = ([], xs)"
| "list_run (Some x # ops) xs = list_run ops (xs @ [x])"
| "list_run (None # ops) [] = (let (rs, ys) = list_run ops [] in (None # rs, ys))"
| "list_run (None # ops) (x # xs) = (let (rs, ys) = list_run ops xs in (Some x # rs, ys))"

definition pushes :: "'a option list \<Rightarrow> nat" where
  "pushes ops = length (filter (\<lambda>c. c \<noteq> None) ops)"

lemma pushes_simps [simp]:
  "pushes [] = 0" "pushes (Some x # ops) = Suc (pushes ops)" "pushes (None # ops) = pushes ops"
  by (simp_all add: pushes_def)

text \<open>
  \<open>inv k q\<close>: the queue is well formed and has had at most \<open>k\<close> pushes; \<open>limit\<close> is how many it
  can take in its life, \<open>fits x\<close> whether it can take \<open>x\<close>. \<open>ret\<close> is how \<open>pop\<close> reports what it took, or
  that there was nothing.
\<close>

locale fifo =
  fixes push :: "'a \<Rightarrow> 'q \<Rightarrow> 'q outcome"
    and pop :: "'q \<Rightarrow> ('b \<times> 'q) outcome"
    and items :: "'q \<Rightarrow> 'a list"
    and inv :: "nat \<Rightarrow> 'q \<Rightarrow> bool"
    and limit :: nat
    and ret :: "'a option \<Rightarrow> 'b"
    and fits :: "'a \<Rightarrow> bool"
  assumes push_law: "inv k q \<Longrightarrow> k < limit \<Longrightarrow> fits x \<Longrightarrow>
      \<exists>q'. push x q = Inr q' \<and> inv (Suc k) q' \<and> items q' = items q @ [x]"
    and pop_law: "inv k q \<Longrightarrow> items q = x # xs \<Longrightarrow>
      \<exists>q'. pop q = Inr (ret (Some x), q') \<and> inv k q' \<and> items q' = xs"
    and pop_empty: "inv k q \<Longrightarrow> items q = [] \<Longrightarrow> pop q = Inr (ret None, q)"
begin

lemma run_like_list:
  assumes "inv k q" "k + pushes ops \<le> limit" "\<And>x. Some x \<in> set ops \<Longrightarrow> fits x"
  shows "\<exists>q'. fifo_run push pop ops q = Inr (map ret (fst (list_run ops (items q))), q') \<and>
    inv (k + pushes ops) q' \<and> items q' = snd (list_run ops (items q))"
  using assms
proof (induction ops arbitrary: k q)
  case Nil
  then show ?case by simp
next
  case (Cons c ops)
  show ?case
  proof (cases c)
    case (Some x)
    with push_law [of k q x] Cons.prems obtain q1 where q1: "push x q = Inr q1" "inv (Suc k) q1"
      "items q1 = items q @ [x]"
      by auto
    with Cons.IH [OF q1(2)] Cons.prems(2,3) Some show ?thesis
      by simp
  next
    case None
    show ?thesis
    proof (cases "items q")
      case Nil
      with pop_empty [OF Cons.prems(1)] Cons.IH [OF Cons.prems(1)] Cons.prems(2,3) None show ?thesis
        by (fastforce split: prod.splits)
    next
      case (Cons x xs)
      from pop_law [OF Cons.prems(1) this] obtain q1 where q1: "pop q = Inr (ret (Some x), q1)" "inv k q1"
        "items q1 = xs"
        by blast
      with Cons.IH [OF q1(2)] Cons.prems(2,3) None Cons show ?thesis
        by (fastforce split: prod.splits)
    qed
  qed
qed

end

section \<open>The queues of the server satisfy it\<close>

definition cq_valid :: "nat \<Rightarrow> 'p circle_queue \<Rightarrow> bool" where
  "cq_valid k q \<longleftrightarrow> cq_inv q \<and> length (cq_items q) \<le> k \<and> k \<le> 2 ^ 29 \<and>
     unat (mMaxCount q) \<le> max 8 (k * 3 div 2 + 1)"

lemma cq_valid_room: "cq_valid k q \<Longrightarrow> cq_room q"
proof -
  assume v: "cq_valid k q"
  then have "k * 3 div 2 + 1 \<le> 2 ^ 29 * 3 div 2 + 1"
    by (intro add_right_mono div_le_mono) (simp add: cq_valid_def)
  with v show "cq_room q"
    by (auto simp: cq_valid_def cq_room_def)
qed

interpretation circle: fifo "circlequeue_push (\<lambda>_. True) junk" circlequeue_pop cq_items cq_valid "2 ^ 29"
  "\<lambda>r. case r of None \<Rightarrow> None | Some p \<Rightarrow> p" "\<lambda>_. True" for junk :: "nat \<Rightarrow> 'p option"
proof (unfold_locales, goal_cases)
  case (1 k q x)
  then have inv: "cq_inv q"
    by (simp add: cq_valid_def)
  from circlequeue_push_ok [OF inv cq_valid_room [OF 1(1)], of "\<lambda>_. True" junk x] obtain q' where
    q': "circlequeue_push (\<lambda>_. True) junk x q = Inr q'" "cq_inv q'" "cq_items q' = cq_items q @ [x]"
    "unat (mMaxCount q') \<le> max (unat (mMaxCount q)) (length (cq_items q) * 3 div 2 + 1)"
    by auto
  have mono: "a * 3 div 2 \<le> b * 3 div 2" if "a \<le> b" for a b :: nat
    using that by (intro div_le_mono) simp
  have "unat (mMaxCount q') \<le> max 8 (Suc k * 3 div 2 + 1)"
    using q'(4) 1(1) mono [of "length (cq_items q)" "Suc k"] mono [of k "Suc k"]
    unfolding cq_valid_def by linarith
  with q'(1-3) 1 show ?case
    by (auto simp: cq_valid_def)
next
  case (2 k q x xs)
  with circlequeue_pop_ok [of q] show ?case
    by (auto simp: cq_valid_def)
next
  case (3 k q)
  with circlequeue_pop_ok [of q] show ?case
    by (auto simp: cq_valid_def)
qed

interpretation gq: fifo "\<lambda>x q. Inr (gqueue_push x q)" "\<lambda>q. Inr (gqueue_try_pop q)" "\<lambda>q. q"
  "\<lambda>k q. length q \<le> k" n "\<lambda>r. r" "\<lambda>_. True" for n :: nat
  by unfold_locales (auto simp: gqueue_push_def gqueue_try_pop_def)

end
