(* ===== verification/CString.thy ===== *)
theory CString
  imports Prelude
begin

text \<open>
  The C library's string functions that the application code calls. A pointer to characters is
  the list of bytes from it to the end of its object; a function that runs past that end is
  the fault \<open>Out_of_bounds\<close>.
\<close>

section \<open>Length, comparison, search\<close>

fun strlen :: "byte list \<Rightarrow> nat outcome" where
  "strlen [] = Inl Out_of_bounds"
| "strlen (c # cs) = (if c = 0 then Inr 0 else bnd (strlen cs) (\<lambda>n. Inr (Suc n)))"

text \<open>The characters of the string, without the NUL.\<close>

definition c_str :: "byte list \<Rightarrow> byte list" where
  "c_str m = takeWhile (\<lambda>c. c \<noteq> 0) m"

definition terminated :: "byte list \<Rightarrow> bool" where
  "terminated m \<longleftrightarrow> 0 \<in> set m"

lemma strlen_ok: "terminated m \<Longrightarrow> strlen m = Inr (length (c_str m))"
  by (induction m) (auto simp: terminated_def c_str_def)

lemma strlen_append: "0 \<notin> set xs \<Longrightarrow> strlen (xs @ 0 # ys) = Inr (length xs)"
  by (induction xs) auto

lemma c_str_append: "0 \<notin> set xs \<Longrightarrow> c_str (xs @ 0 # ys) = xs"
  by (induction xs) (auto simp: c_str_def)

text \<open>\<open>strstr\<close>: the offset of the first occurrence, compared character by character.\<close>

fun str_prefix :: "byte list \<Rightarrow> byte list \<Rightarrow> bool outcome" where
  "str_prefix [] m = Inr True"
| "str_prefix (x # xs) [] = Inl Out_of_bounds"
| "str_prefix (x # xs) (c # cs) = (if c = x then str_prefix xs cs else Inr False)"

fun strstr :: "byte list \<Rightarrow> byte list \<Rightarrow> nat option outcome" where
  "strstr [] what = (if what = [] then Inr (Some 0) else Inl Out_of_bounds)"
| "strstr (c # cs) what =
     bnd (str_prefix what (c # cs)) (\<lambda>here.
     if here then Inr (Some 0)
     else if c = 0 then Inr None
     else bnd (strstr cs what) (\<lambda>r. Inr (map_option Suc r)))"

section \<open>Numbers\<close>

definition ch :: "char \<Rightarrow> byte" where
  "ch c = of_char c"

definition str :: "string \<Rightarrow> byte list" where
  "str s = map ch s"

definition digit :: "nat \<Rightarrow> byte" where
  "digit d = (if d < 10 then of_nat (48 + d) else of_nat (87 + d))"

text \<open>The digits of a number in a base up to 16, most significant first, in lower case.\<close>

fun digits :: "nat \<Rightarrow> nat \<Rightarrow> byte list" where
  "digits b n = (if n < b \<or> b < 2 then [digit n] else digits b (n div b) @ [digit (n mod b)])"

declare digits.simps [simp del]

definition pad :: "nat \<Rightarrow> byte list \<Rightarrow> byte list" where
  "pad w xs = replicate (w - length xs) 48 @ xs"

text \<open>What \<open>sprintf\<close> prints for \<open>%d\<close>, \<open>%0wd\<close> and \<open>%0wx\<close>.\<close>

definition fmt_d :: "int \<Rightarrow> byte list" where
  "fmt_d i = (if i < 0 then 45 # digits 10 (nat (- i)) else digits 10 (nat i))"

definition fmt_0d :: "nat \<Rightarrow> int \<Rightarrow> byte list" where
  "fmt_0d w i = (if i < 0 then 45 # pad (w - 1) (digits 10 (nat (- i))) else pad w (digits 10 (nat i)))"

definition fmt_0x :: "nat \<Rightarrow> int \<Rightarrow> byte list" where
  "fmt_0x w i = pad w (digits 16 (nat (i mod 4294967296)))"

text \<open>\<open>atoi\<close>, without leading blanks, which the program never has.\<close>

definition is_digit :: "byte \<Rightarrow> bool" where
  "is_digit c \<longleftrightarrow> 48 \<le> c \<and> c \<le> 57"

definition atoi_digits :: "byte list \<Rightarrow> int" where
  "atoi_digits m = foldl (\<lambda>v c. v * 10 + (int (unat c) - 48)) 0 (takeWhile is_digit m)"

fun atoi :: "byte list \<Rightarrow> int" where
  "atoi [] = 0"
| "atoi (c # cs) = (if c = 45 then - atoi_digits cs else if c = 43 then atoi_digits cs else atoi_digits (c # cs))"

end
