(* ===== verification/BufferCache.thy ===== *)
theory BufferCache
  imports CString EvbufferProofs
begin

text \<open>
  \<open>EventServer/BufferCache.cpp\<close>: the class through which the tasks use a byte buffer. An object
  is its \<open>mBuffer\<close>. Arguments that are memory are the bytes from the pointer on. The class mixes
  \<open>int\<close> and \<open>size_t\<close>; the conversions are written out.
\<close>

section \<open>The methods\<close>

definition cache_getSize :: "evbuffer \<Rightarrow> size" where
  "cache_getSize b = off b"

text \<open>\<open>int len\<close> from a \<open>size_t\<close>, and back.\<close>

definition to_int :: "size \<Rightarrow> int" where
  "to_int n = c_int (uint n)"

definition cache_append :: "allocator \<Rightarrow> byte list \<Rightarrow> int \<Rightarrow> evbuffer \<Rightarrow> int bufres" where
  "cache_append A m len b =
     bnd (if len \<le> 0 then bnd (strlen m) (\<lambda>n. Inr (c_int (int n))) else Inr len) (\<lambda>len.
     let n = word_of_int len :: size in
     bnd (load m 0 (unat n)) (evbuffer_add A b))"

text \<open>\<open>getBuffer\<close> puts a NUL behind the last byte; the result is the memory from the data on.\<close>

definition cache_getBuffer :: "evbuffer \<Rightarrow> (byte list \<times> evbuffer) outcome" where
  "cache_getBuffer b =
     (if orig_buffer b = [] then Inr ([0], b)
      else bnd (store (orig_buffer b) (buffer b + unat (off b)) [0]) (\<lambda>m.
        Inr (drop (buffer b) m, b\<lparr>orig_buffer := m\<rparr>)))"

definition cache_append_cache :: "allocator \<Rightarrow> evbuffer \<Rightarrow> evbuffer \<Rightarrow> (int \<times> evbuffer \<times> evbuffer \<times> notification list) outcome" where
  "cache_append_cache A other b =
     (if cache_getSize other > 0 then
        bnd (cache_getBuffer other) (\<lambda>(m, other).
        bnd (cache_append A m (to_int (cache_getSize other)) b) (\<lambda>(r, b, ns). Inr (r, b, other, ns)))
      else Inr (0, b, other, []))"

definition cache_erase :: "int \<Rightarrow> evbuffer \<Rightarrow> evbuffer \<times> notification list" where
  "cache_erase len b = evbuffer_drain b (word_of_int len)"

definition cache_reset :: "evbuffer \<Rightarrow> evbuffer \<times> notification list" where
  "cache_reset b = cache_erase (to_int (cache_getSize b)) b"

definition cache_getLine :: "allocator \<Rightarrow> evbuffer \<Rightarrow> (byte list option \<times> evbuffer \<times> notification list) outcome" where
  "cache_getLine A b = evbuffer_readline A b"

text \<open>\<open>take(buffer, len)\<close>: the bytes and a NUL are stored in \<open>m\<close>, the caller's buffer.\<close>

definition cache_take :: "byte list \<Rightarrow> int \<Rightarrow> evbuffer \<Rightarrow> (int \<times> byte list \<times> evbuffer \<times> notification list) outcome" where
  "cache_take m len b =
     bnd (evbuffer_remove b (word_of_int (len - 1))) (\<lambda>(xs, b, ns).
     bnd (store m 0 xs) (\<lambda>m.
     let n = c_int (int (length xs)) in
     if n < 0 then Inl Out_of_bounds
     else bnd (store m (nat n) [0]) (\<lambda>m. Inr (n, m, b, ns))))"

text \<open>\<open>take()\<close>: a new object with the old buffer, and this one with a new buffer.\<close>

definition cache_take_all :: "bool \<Rightarrow> evbuffer \<Rightarrow> evbuffer \<times> evbuffer option" where
  "cache_take_all calloc_ok b = (b, evbuffer_new calloc_ok)"

text \<open>\<open>find\<close>: \<open>remain\<close> is \<open>off\<close> minus the offset \<open>search\<close>; a match is looked for only where it fits.\<close>

function cache_find_loop :: "byte list \<Rightarrow> nat \<Rightarrow> nat \<Rightarrow> nat \<Rightarrow> byte list \<Rightarrow> nat option outcome" where
  "cache_find_loop m p len search what =
     (if search > len \<or> what = [] then Inl Out_of_bounds
      else if len - search < length what then Inr None
      else bnd (load m (p + search) (len - search - length what + 1)) (\<lambda>xs.
        case memchr (hd what) xs of
          None \<Rightarrow> Inr None
        | Some i \<Rightarrow>
            bnd (load m (p + search + i) (length what)) (\<lambda>ys.
            if ys = what then Inr (Some (search + i))
            else cache_find_loop m p len (search + i + 1) what)))"
  by pat_completeness auto
termination
  by (relation "measure (\<lambda>(m, p, len, search, what). Suc len - search)") auto

declare cache_find_loop.simps [simp del]

definition cache_find :: "byte list \<Rightarrow> evbuffer \<Rightarrow> nat option outcome" where
  "cache_find what b = cache_find_loop (orig_buffer b) (buffer b) (unat (off b)) 0 what"

section \<open>What they do\<close>

lemma to_int_small:
  assumes "unat n < 2 ^ 31"
  shows "to_int n = uint n"
proof -
  have "int (unat n) < int (2 ^ 31)"
    using assms by (simp only: of_nat_less_iff)
  then have "uint n < 2147483648"
    by simp
  moreover have "- 2147483648 \<le> uint n"
    using uint_ge_0 [of n] by linarith
  ultimately show ?thesis
    by (simp add: to_int_def c_int_id)
qed

lemma cache_reset_ok:
  assumes "evbuf_inv b" "unat (off b) < 2 ^ 31"
  shows "evbuf_inv (fst (cache_reset b)) \<and> bytes (fst (cache_reset b)) = []"
proof -
  obtain b' ns where d: "evbuffer_drain b (word_of_int (to_int (off b))) = (b', ns)"
    by fastforce
  have "word_of_int (to_int (off b)) = off b"
    using assms(2) by (simp add: to_int_small)
  with drain_ok [OF assms(1) d] d length_bytes [OF assms(1)] show ?thesis
    by (simp add: cache_reset_def cache_erase_def cache_getSize_def)
qed

lemma cache_getBuffer_ok:
  assumes "evbuf_inv b" "unat (misalign b) + unat (off b) < unat (totallen b)"
  shows "\<exists>m b'. cache_getBuffer b = Inr (m, b') \<and> evbuf_inv b' \<and> bytes b' = bytes b \<and>
    take (length (bytes b)) m = bytes b \<and> off b' = off b"
proof -
  have "orig_buffer b \<noteq> []"
    using assms by (auto simp: evbuf_inv_def)
  then show ?thesis
    using assms by (auto simp: cache_getBuffer_def store_one evbuf_inv_def bytes_def drop_update_swap)
qed

text \<open>The reference: the first offset at which the bytes hold the pattern.\<close>

definition first_at :: "byte list \<Rightarrow> byte list \<Rightarrow> nat \<Rightarrow> nat option" where
  "first_at what xs from =
     find (occurs what xs) [from..<length xs]"

lemma occurs_short: "length xs - i < length what \<Longrightarrow> i \<le> length xs \<Longrightarrow> \<not> occurs what xs i"
  by (auto simp: occurs_def)

lemma first_at_None: "(\<And>i. from \<le> i \<Longrightarrow> i < length xs \<Longrightarrow> \<not> occurs what xs i) \<Longrightarrow> first_at what xs from = None"
  by (auto simp: first_at_def find_None_iff)

lemma first_at_skip:
  assumes "from \<le> i" "i \<le> length xs" "\<And>j. from \<le> j \<Longrightarrow> j < i \<Longrightarrow> \<not> occurs what xs j"
  shows "first_at what xs from = first_at what xs i"
proof -
  have "[from..<length xs] = [from..<i] @ [i..<length xs]"
    using assms(1,2) by (metis le_Suc_ex upt_add_eq_append)
  moreover have "find (occurs what xs) [from..<i] = None"
    using assms(3) by (auto simp: find_None_iff)
  moreover have "find P (as @ bs) = find P bs" if "find P as = None" for P and as bs :: "nat list"
    using that by (induction as) (auto split: if_splits)
  ultimately show ?thesis
    by (simp add: first_at_def)
qed

lemma cache_find_loop_ok:
  assumes "xs = take len (drop p m)" "p + len \<le> length m" "what \<noteq> []" "search \<le> len"
  shows "cache_find_loop m p len search what = Inr (first_at what xs search)"
  using assms
proof (induction m p len search what rule: cache_find_loop.induct)
  case (1 m p len search what)
  have len: "length xs = len"
    using "1.prems" by simp
  show ?case
  proof (cases "len - search < length what")
    case True
    then have "first_at what xs search = None"
      using len by (intro first_at_None) (auto simp: occurs_def)
    with True "1.prems" show ?thesis
      by (simp add: cache_find_loop.simps [of m p len search what])
  next
    case fits: False
    define w where "w = len - search - length what + 1"
    have w: "w \<le> len - search" "0 < length what" "w + length what = len - search + 1"
      using fits "1.prems"(3) by (cases what; auto simp: w_def)+
    have ld: "load m (p + search) w = Inr (take w (drop search xs))"
      using "1.prems" w(1) by (simp add: load_def min_def drop_take add.commute)
    have unfold: "cache_find_loop m p len search what =
      (case memchr (hd what) (take w (drop search xs)) of
         None \<Rightarrow> Inr None
       | Some i \<Rightarrow>
           bnd (load m (p + search + i) (length what)) (\<lambda>ys.
           if ys = what then Inr (Some (search + i))
           else cache_find_loop m p len (search + i + 1) what))"
      using "1.prems" fits ld by (simp add: cache_find_loop.simps [of m p len search what] w_def)
    have hit: "occurs what xs j \<Longrightarrow> xs ! j = hd what" for j
      using occurs_hd [of what xs j] "1.prems"(3) by simp
    have inside: "j < search + w" if "occurs what xs j" "search \<le> j" for j
      using that w len by (auto simp: occurs_def)
    have at: "take w (drop search xs) ! (j - search) = xs ! j" if "search \<le> j" "j < search + w" for j
      using that w(1) len by simp
    have size: "length (take w (drop search xs)) = w"
      using w(1) len by simp
    show ?thesis
    proof (cases "memchr (hd what) (take w (drop search xs))")
      case None
      have "\<not> occurs what xs j" if "search \<le> j" for j
      proof
        assume o: "occurs what xs j"
        have j: "j < search + w"
          by (rule inside [OF o that])
        then have "take w (drop search xs) ! (j - search) \<in> set (take w (drop search xs))"
          using that size by (intro nth_mem) simp
        with None at [OF that j] hit [OF o] show False
          by (simp add: memchr_None)
      qed
      with None unfold show ?thesis
        by (simp add: first_at_None)
    next
      case (Some i)
      note M = memchr_Some [OF Some]
      have i: "i < w" "search + i < length xs" "search + i + length what \<le> len"
      proof -
        show "i < w"
          using M size by auto
        with w(3) have "i + length what \<le> len - search"
          by linarith
        then show "search + i < length xs" "search + i + length what \<le> len"
          using w(2) len by linarith+
      qed
      have "\<not> occurs what xs j" if "search \<le> j" "j < search + i" for j
      proof
        assume o: "occurs what xs j"
        have "j < search + w"
          by (rule inside [OF o that(1)])
        with at [OF that(1) this] hit [OF o] M that show False
          by (metis add_less_cancel_left le_add_diff_inverse)
      qed
      then have skip: "first_at what xs search = first_at what xs (search + i)"
        using i(2) by (intro first_at_skip) simp_all
      have ld2: "load m (p + search + i) (length what) = Inr (take (length what) (drop (search + i) xs))"
        using i(3) "1.prems"(1,2) by (simp add: load_def drop_take min_def ac_simps)
      have occ: "occurs what xs (search + i) \<longleftrightarrow> take (length what) (drop (search + i) xs) = what"
        using i(3) len by (simp add: occurs_def)
      have rng: "[search + i..<length xs] = (search + i) # [search + i + 1..<length xs]"
        using i(2) by (simp add: upt_conv_Cons)
      show ?thesis
      proof (cases "take (length what) (drop (search + i) xs) = what")
        case True
        with Some unfold ld2 skip rng occ show ?thesis
          by (simp add: first_at_def)
      next
        case False
        have "cache_find_loop m p len (search + i + 1) what = Inr (first_at what xs (search + i + 1))"
          using "1.IH" [OF _ fits ld [unfolded w_def] Some [unfolded w_def] ld2 False] "1.prems" i by simp
        with False Some unfold ld2 skip rng occ show ?thesis
          by (simp add: first_at_def)
      qed
    qed
  qed
qed

lemma cache_find_ok:
  assumes "evbuf_inv b" "what \<noteq> []"
  shows "cache_find what b = Inr (first_at what (bytes b) 0)"
  unfolding cache_find_def using assms
  by (intro cache_find_loop_ok) (auto simp: evbuf_inv_def bytes_def)

lemma cache_append_ok:
  assumes "evbuf_inv b" "fits b (length xs)" "xs \<noteq> []" "length xs < 2 ^ 31"
  shows "cache_append A xs (int (length xs)) b = evbuffer_add A b xs"
proof -
  have "unat (word_of_nat (length xs) :: size) = length xs"
    using assms(4) unfolding unsigned_of_nat by (simp add: take_bit_nat_eq_self)
  then show ?thesis
    using assms(3) by (simp add: cache_append_def load_def)
qed

lemma cache_append_str_ok:
  assumes "evbuf_inv b" "0 \<notin> set xs" "length xs < 2 ^ 31"
  shows "cache_append A (xs @ 0 # ys) 0 b = evbuffer_add A b xs"
proof -
  have "unat (word_of_nat (length xs) :: size) = length xs"
    using assms(3) unfolding unsigned_of_nat by (simp add: take_bit_nat_eq_self)
  then show ?thesis
    using assms(2,3) by (simp add: cache_append_def load_def strlen_append c_int_id)
qed

lemma cache_take_ok:
  assumes "evbuf_inv b" "0 < len" "len \<le> int (length m)" "len < 2 ^ 31"
    and xs: "xs = take (nat len - 1) (bytes b)"
  shows "\<exists>b' ns. cache_take m len b =
      Inr (int (length xs), xs @ 0 # drop (Suc (length xs)) m, b', ns) \<and>
    evbuf_inv b' \<and> bytes b' = drop (nat len - 1) (bytes b)"
proof -
  obtain n where n: "len = int (Suc n)" "Suc n < 2 ^ 31" "n < length m"
  proof
    show "len = int (Suc (nat len - 1))" "Suc (nat len - 1) < 2 ^ 31" "nat len - 1 < length m"
      using assms(2-4) by simp_all
  qed
  have k: "nat len - 1 = n"
    by (simp add: n(1) nat_add_distrib)
  have u: "unat (word_of_int (len - 1) :: size) = n"
    using n(2) unfolding n(1) by (simp add: unsigned_of_nat take_bit_nat_eq_self)
  obtain b' ns where r: "evbuffer_remove b (word_of_int (len - 1)) = Inr (xs, b', ns)" "evbuf_inv b'"
    "bytes b' = drop n (bytes b)"
    using evbuffer_remove_ok [OF assms(1), of "word_of_int (len - 1)"] xs unfolding u k by auto
  have len: "length xs \<le> n"
    unfolding xs k by simp
  have st: "store m 0 xs = Inr (xs @ drop (length xs) m)"
    using len n(3) by (simp add: store_def)
  have st0: "store (xs @ drop (length xs) m) (length xs) [0] = Inr (xs @ 0 # drop (Suc (length xs)) m)"
    using len n(3) by (simp add: store_def)
  have c: "c_int (int (length xs)) = int (length xs)"
    using len n(2) by (intro c_int_id) simp_all
  from r st st0 c show ?thesis
    unfolding k by (simp add: cache_take_def)
qed

end
