(* ===== verification/QueueProps.thy ===== *)
theory QueueProps
  imports Fifo BufferCache
begin

text \<open>Properties of the containers and of the buffer class, each with a run on concrete data.\<close>





text \<open>
  C22: \<open>SP_CircleQueue\<close> behaves in every run of pushes and pops like a list from whose front
  items are taken, through wrap-around and growth, as long as there are fewer than \<open>2 ^ 29\<close>
  pushes.
\<close>

theorem circle_queue_like_list:
  assumes "pushes ops \<le> 2 ^ 29"
  shows "\<exists>q. fifo_run (circlequeue_push (\<lambda>_. True) fresh) circlequeue_pop ops (circlequeue_new fresh) =
      Inr (map (\<lambda>r. case r of None \<Rightarrow> None | Some p \<Rightarrow> p) (fst (list_run ops [])), q) \<and>
    cq_inv q \<and> cq_items q = snd (list_run ops [])"
proof -
  have new: "cq_valid 0 (circlequeue_new fresh)" "cq_items (circlequeue_new fresh) = []"
    using circlequeue_new_ok [of fresh] by (auto simp: cq_valid_def circlequeue_new_def)
  from circle.run_like_list [OF new(1), of ops fresh] assms show ?thesis
    unfolding new(2) by (auto simp: cq_valid_def)
qed

theorem circle_queue_like_list_witness:
  "\<exists>q. fifo_run (circlequeue_push (\<lambda>_. True) (\<lambda>_. None)) circlequeue_pop
      (map (\<lambda>i. Some (Some i)) [0..<9] @ [None, None]) (circlequeue_new (\<lambda>_. None)) =
    Inr ([Some 0, Some 1], q)"
proof -
  let ?ops = "map (\<lambda>i. Some (Some i)) [0..<9] @ [None, None] :: nat option option list"
  have "list_run ?ops [] = ([Some (Some 0), Some (Some 1)], map Some [2, 3, 4, 5, 6, 7, 8])"
    by (simp add: upt_conv_Cons)
  moreover have "pushes ?ops \<le> 2 ^ 29"
    by (simp add: pushes_def)
  ultimately show ?thesis
    using circle_queue_like_list [of ?ops "\<lambda>_. None"] by auto
qed

text \<open>
  C24: \<open>GQueue\<close> loses neither items nor wake-ups. In every interleaving, with any number of
  threads and with wake-ups out of the blue, what has been popped is a prefix of what has been
  pushed and the rest is in the queue; and when a thread waits although there are items, some
  other thread has been woken and will come for them.
\<close>

theorem gqueue_loses_nothing:
  assumes "run gqueue_step gqueue_new es s"
  shows "pushed es = popped es @ data_queue s \<and>
    (gwaiting s \<noteq> {} \<and> data_queue s \<noteq> [] \<longrightarrow> gwoken s \<noteq> {})"
  using gqueue_run_inv [OF assms] by (auto simp: gqueue_inv_def)

theorem gqueue_loses_nothing_witness:
  "\<exists>s. run gqueue_step gqueue_new [Slept 1, Slept 2, Pushed (7 :: nat)] s \<and> data_queue s = [7] \<and>
    gwaiting s = {2} \<and> gwoken s \<noteq> {}"
proof -
  let ?s1 = "gqueue_new\<lparr>gwaiting := {1}\<rparr>" and ?s2 = "gqueue_new\<lparr>gwaiting := {1, 2}\<rparr>"
    and ?s3 = "\<lparr>data_queue = [7], gwaiting = {2}, gwoken = {1}\<rparr> :: nat gqueue"
  have 1: "gqueue_step gqueue_new (Slept 1) ?s1"
    using gpop_wait [of 1 "gqueue_new"] by (simp add: gqueue_new_def gqueue_empty_def)
  have 2: "gqueue_step ?s1 (Slept 2) ?s2"
    using gpop_wait [of 2 ?s1] by (simp add: gqueue_new_def gqueue_empty_def insert_commute)
  have 3: "gqueue_step ?s2 (Pushed 7) ?s3"
    using gpush_notify [of 1 ?s2 7] by (simp add: gqueue_new_def gqueue_push_def)
  have r: "run gqueue_step gqueue_new [Slept 1, Slept 2, Pushed 7] ?s3"
    using run.run_Nil [of gqueue_step ?s3]
    by (intro run_Cons [where step = gqueue_step, OF _ 1] run_Cons [where step = gqueue_step, OF _ 2]
        run_Cons [where step = gqueue_step, OF _ 3])
  with gqueue_loses_nothing [OF r] show ?thesis by auto
qed

text \<open>
  C25: \<open>SP_BlockingQueue\<close> is right for one consumer. If a single thread pops and no wait ends
  without a signal, then what it gets is what was pushed, in order, so never NULL when no NULL
  was pushed; and it only waits while the queue is empty.
\<close>

theorem blocking_queue_one_consumer:
  assumes "run (blocking_step (\<lambda>_. True) fresh) (blocking_new fresh) es s"
    and "\<forall>e \<in> set es. only_consumer c e" "length (pushed es) \<le> 2 ^ 29"
  shows "pushed es = popped es @ cq_items (mQueue s) \<and>
    (waiting s \<noteq> {} \<longrightarrow> circlequeue_getLength (mQueue s) = 0)"
proof -
  have inv: "consumer_inv c es s"
    using consumer_run_inv [OF assms(1) _ assms(2,3)] by simp
  then have "cq_inv (mQueue s)"
    by (simp add: consumer_inv_def)
  with inv circlequeue_empty_ok [OF this] show ?thesis
    by (auto simp: consumer_inv_def)
qed

definition no_junk :: "nat \<Rightarrow> nat option" where
  "no_junk i = None"

definition slots :: "nat option list \<Rightarrow> 32 word \<Rightarrow> 32 word \<Rightarrow> nat circle_queue" where
  "slots xs h t = \<lparr>mEntries = xs @ replicate (8 - length xs) None, mHead = h, mTail = t,
     mCount = t - h, mMaxCount = 8\<rparr>"

lemma slots_run:
  "circlequeue_new no_junk = slots [] 0 0"
  "circlequeue_push ok no_junk (Some 7) (slots [] 0 0) = Inr (slots [Some 7] 0 1)"
  "circlequeue_push ok no_junk (Some 8) (slots [Some 7] 0 1) = Inr (slots [Some 7, Some 8] 0 2)"
  "circlequeue_pop (slots [Some 7, Some 8] 0 2) = Inr (Some 7, slots [Some 7, Some 8] 1 2)"
  "circlequeue_getLength (slots xs h t) = t - h"
proof -
  have none: "map no_junk [0..<8] = replicate 8 None"
    by (rule nth_equalityI) (simp_all add: no_junk_def)
  show "circlequeue_new no_junk = slots [] 0 0"
    by (simp add: circlequeue_new_def slots_def none)
  show "circlequeue_push ok no_junk (Some 7) (slots [] 0 0) = Inr (slots [Some 7] 0 1)"
    "circlequeue_push ok no_junk (Some 8) (slots [Some 7] 0 1) = Inr (slots [Some 7, Some 8] 0 2)"
    "circlequeue_pop (slots [Some 7, Some 8] 0 2) = Inr (Some 7, slots [Some 7, Some 8] 1 2)"
    "circlequeue_getLength (slots xs h t) = t - h"
    by (simp_all add: slots_def circlequeue_push_def circlequeue_pop_def circlequeue_getLength_def
        store_def load_def word_le_nat_alt)
qed

theorem blocking_queue_one_consumer_witness:
  "\<exists>s. run (blocking_step (\<lambda>_. True) no_junk) (blocking_new no_junk) [Slept 1, Pushed (Some 7)] s \<and>
    waiting s = {} \<and> cq_items (mQueue s) = [Some 7]"
proof -
  let ?s0 = "\<lparr>mQueue = slots [] 0 0, waiting = {}, woken = {}\<rparr>"
  let ?s1 = "\<lparr>mQueue = slots [] 0 0, waiting = {1}, woken = {}\<rparr>"
  let ?s2 = "\<lparr>mQueue = slots [Some 7] 0 1, waiting = {}, woken = {1}\<rparr>"
  let ?step = "blocking_step (\<lambda>_. True) no_junk"
  have 1: "?step ?s0 (Slept 1) ?s1"
    using pop_wait [of 1 ?s0 "\<lambda>_. True" no_junk] by (simp add: slots_run)
  have 2: "?step ?s1 (Pushed (Some 7)) ?s2"
    using push_signal [of "\<lambda>_. True" no_junk "Some 7" ?s1 _ 1] by (simp add: slots_run)
  have r: "run ?step (blocking_new no_junk) [Slept 1, Pushed (Some 7)] ?s2"
    using run.run_Nil [of ?step ?s2] unfolding blocking_new_def slots_run(1)
    by (intro run_Cons [where step = ?step, OF _ 1] run_Cons [where step = ?step, OF _ 2])
  from blocking_queue_one_consumer [OF r, of 1] r show ?thesis
    by auto
qed

text \<open>
  C26: \<open>SP_BlockingQueue\<close> loses wake-ups with two consumers, because it signals only when the
  length has become 1. After two threads have begun to wait and two items have been pushed, one
  thread has taken its item and the other waits for ever, with an item in the queue and no
  signal on its way.
\<close>

theorem blocking_queue_loses_wakeup:
  "\<exists>s. run (blocking_step (\<lambda>_. True) no_junk) (blocking_new no_junk)
      [Slept 1, Slept 2, Pushed (Some 7), Pushed (Some 8), Popped 1 (Some 7)] s \<and>
    waiting s = {2} \<and> woken s = {} \<and> circlequeue_getLength (mQueue s) = 1"
proof -
  let ?s0 = "\<lparr>mQueue = slots [] 0 0, waiting = {}, woken = {}\<rparr>"
  let ?s1 = "\<lparr>mQueue = slots [] 0 0, waiting = {1}, woken = {}\<rparr>"
  let ?s2 = "\<lparr>mQueue = slots [] 0 0, waiting = {1, 2}, woken = {}\<rparr>"
  let ?s3 = "\<lparr>mQueue = slots [Some 7] 0 1, waiting = {2}, woken = {1}\<rparr>"
  let ?s4 = "\<lparr>mQueue = slots [Some 7, Some 8] 0 2, waiting = {2}, woken = {1}\<rparr>"
  let ?s5 = "\<lparr>mQueue = slots [Some 7, Some 8] 1 2, waiting = {2}, woken = {}\<rparr>"
  let ?step = "blocking_step (\<lambda>_. True) no_junk"
  have 1: "?step ?s0 (Slept 1) ?s1"
    using pop_wait [of 1 ?s0 "\<lambda>_. True" no_junk] by (simp add: slots_run)
  have 2: "?step ?s1 (Slept 2) ?s2"
    using pop_wait [of 2 ?s1 "\<lambda>_. True" no_junk] by (simp add: slots_run insert_commute)
  have 3: "?step ?s2 (Pushed (Some 7)) ?s3"
    using push_signal [of "\<lambda>_. True" no_junk "Some 7" ?s2 _ 1] by (simp add: slots_run)
  have 4: "?step ?s3 (Pushed (Some 8)) ?s4"
    using push_silent [of "\<lambda>_. True" no_junk "Some 8" ?s3] by (simp add: slots_run)
  have 5: "?step ?s4 (Popped 1 (Some 7)) ?s5"
    using pop_after [of 1 ?s4 "Some 7"] by (simp add: slots_run)
  have "run ?step (blocking_new no_junk)
      [Slept 1, Slept 2, Pushed (Some 7), Pushed (Some 8), Popped 1 (Some 7)] ?s5"
    using run.run_Nil [of ?step ?s5] unfolding blocking_new_def slots_run(1)
    by (intro run_Cons [where step = ?step, OF _ 1] run_Cons [where step = ?step, OF _ 2]
        run_Cons [where step = ?step, OF _ 3] run_Cons [where step = ?step, OF _ 4]
        run_Cons [where step = ?step, OF _ 5])
  then show ?thesis
    by (intro exI [of _ ?s5] conjI) (simp_all add: slots_run)
qed

text \<open>
  \<open>BufferCache::find\<close> is exact: it returns the first offset at which the bytes of the buffer
  hold the pattern, NULL when there is none, and never looks past the end.
\<close>

theorem cache_find_exact:
  assumes "evbuf_inv b" "what \<noteq> []"
  shows "cache_find what b = Inr (find (\<lambda>i. take (length what) (drop i (bytes b)) = what \<and>
    i + length what \<le> length (bytes b)) [0..<length (bytes b)])"
  using cache_find_ok [OF assms] by (simp add: first_at_def occurs_def [abs_def])

definition stale :: evbuffer where
  "stale = evbuffer_zero\<lparr>orig_buffer := [9, 1, 3, 0], totallen := 4, off := 2\<rparr>"

lemma stale_inv: "evbuf_inv stale" "bytes stale = [9, 1]"
  by (simp_all add: stale_def evbuf_inv_def bytes_def evbuffer_zero_def)

theorem cache_find_exact_witness: "cache_find [1, 3] stale = Inr None \<and> cache_find [1] stale = Inr (Some 1)"
  using cache_find_exact [OF stale_inv(1), of "[1, 3]"] cache_find_exact [OF stale_inv(1), of "[1]"]
  by (simp add: stale_inv upt_rec)

text \<open>
  \<open>BufferCache::getBuffer\<close> writes its NUL one byte behind the block when the block is exactly
  full; otherwise it gives the bytes with a NUL after them and changes nothing else.
\<close>

theorem cache_getBuffer_terminates_string:
  assumes "evbuf_inv b" "0 < unat (totallen b)"
  shows "if unat (misalign b) + unat (off b) = unat (totallen b) then cache_getBuffer b = Inl Out_of_bounds
    else \<exists>rest b'. cache_getBuffer b = Inr (bytes b @ 0 # rest, b') \<and> evbuf_inv b' \<and> bytes b' = bytes b"
proof -
  have ne: "orig_buffer b \<noteq> []" and len: "length (orig_buffer b) = unat (totallen b)"
    "buffer b = unat (misalign b)" "unat (misalign b) + unat (off b) \<le> unat (totallen b)"
    using assms by (auto simp: evbuf_inv_def)
  show ?thesis
  proof (cases "unat (misalign b) + unat (off b) = unat (totallen b)")
    case True
    with ne len show ?thesis
      by (simp add: cache_getBuffer_def store_def)
  next
    case False
    let ?p = "buffer b + unat (off b)"
    let ?m = "(orig_buffer b)[?p := 0]"
    have p: "?p < length (orig_buffer b)"
      using False len by simp
    then have "drop (buffer b) ?m = bytes b @ 0 # drop (Suc ?p) (orig_buffer b)"
      by (simp add: bytes_def upd_conv_take_nth_drop drop_take)
    moreover have "evbuf_inv (b\<lparr>orig_buffer := ?m\<rparr>)" "bytes (b\<lparr>orig_buffer := ?m\<rparr>) = bytes b"
      using assms(1) p by (simp_all add: evbuf_inv_def bytes_def drop_update_swap)
    ultimately show ?thesis
      using False ne p by (auto simp: cache_getBuffer_def store_one)
  qed
qed

theorem cache_getBuffer_terminates_string_witness:
  "cache_getBuffer (stale\<lparr>off := 4\<rparr>) = Inl Out_of_bounds"
proof -
  have "evbuf_inv (stale\<lparr>off := 4\<rparr>)"
    by (simp add: stale_def evbuf_inv_def evbuffer_zero_def)
  from cache_getBuffer_terminates_string [OF this] show ?thesis
    by (simp add: stale_def evbuffer_zero_def)
qed

end
