(* ===== verification/Wire.thy ===== *)
theory Wire
  imports CString
begin

text \<open>
  The binary messages of \<open>common/protocol.h\<close>. The program overlays structs on byte buffers; on
  the hosts it is built for, a 32-bit field is four bytes, the low one first, and the structs
  have no padding in front of the fields used here.
\<close>

section \<open>32-bit fields\<close>

definition put32 :: "32 word \<Rightarrow> byte list" where
  "put32 w = [ucast w, ucast (drop_bit 8 w), ucast (drop_bit 16 w), ucast (drop_bit 24 w)]"

definition get32 :: "byte list \<Rightarrow> nat \<Rightarrow> 32 word" where
  "get32 m p = word_of_nat (unat (m ! p) + 256 * unat (m ! (p + 1)) + 65536 * unat (m ! (p + 2)) +
     16777216 * unat (m ! (p + 3)))"

definition load32 :: "byte list \<Rightarrow> nat \<Rightarrow> 32 word outcome" where
  "load32 m p = (if p + 4 \<le> length m then Inr (get32 m p) else Inl Out_of_bounds)"

text \<open>\<open>ntohl\<close> on such a host.\<close>

definition ntohl :: "32 word \<Rightarrow> 32 word" where
  "ntohl w = get32 (rev (put32 w)) 0"

lemma length_put32 [simp]: "length (put32 w) = 4"
  by (simp add: put32_def)

lemma get32_put32:
  "get32 (put32 w) 0 = w"
proof -
  define n where "n = unat w"
  have n: "n < 2 ^ 32"
    using unsigned_less [of w] by (simp add: n_def)
  have d: "unat (ucast (drop_bit k w) :: byte) = n div 2 ^ k mod 256" for k
    unfolding unsigned_ucast_eq unsigned_drop_bit_eq n_def [symmetric] using n by (simp add: take_bit_eq_mod drop_bit_eq_div)
  have "get32 (put32 w) 0 = word_of_nat (unat (ucast (drop_bit 0 w) :: byte) +
      256 * unat (ucast (drop_bit 8 w) :: byte) + 65536 * unat (ucast (drop_bit 16 w) :: byte) +
      16777216 * unat (ucast (drop_bit 24 w) :: byte))"
    by (simp add: get32_def put32_def)
  also have "\<dots> = word_of_nat (n mod 256 + 256 * (n div 256 mod 256) + 65536 * (n div 65536 mod 256) +
      16777216 * (n div 16777216 mod 256))"
    unfolding d by simp
  also have "n mod 256 + 256 * (n div 256 mod 256) + 65536 * (n div 65536 mod 256) +
      16777216 * (n div 16777216 mod 256) = n"
  proof -
    have split: "m mod 256 + 256 * (m div 256) = m" for m :: nat
      by simp
    have "n div 65536 = n div 256 div 256" "n div 16777216 = n div 65536 div 256"
      by (simp_all add: div_mult2_eq [symmetric])
    moreover have "n div 16777216 mod 256 = n div 16777216"
      using n by (simp add: less_mult_imp_div_less)
    ultimately show ?thesis
      using split [of n] split [of "n div 256"] split [of "n div 65536"] by linarith
  qed
  finally show ?thesis
    by (simp add: n_def)
qed

lemma get32_append:
  "length m = p \<Longrightarrow> get32 (m @ put32 w @ rest) p = w"
  using get32_put32 [of w] by (simp add: get32_def put32_def nth_append)

text \<open>A field of a larger layout.\<close>

lemma get32_drop: "p + 4 \<le> length m \<Longrightarrow> get32 m p = get32 (take 4 (drop p m)) 0"
  by (simp add: get32_def)

lemma get32_at:
  "m = xs @ put32 w @ ys \<Longrightarrow> p = length xs \<Longrightarrow> get32 m p = w"
  using get32_append by blast

section \<open>Structs\<close>

definition NET_FLAG :: "32 word" where "NET_FLAG = 0xfefdfcfb"

definition MODULE_MSG_PING :: int where "MODULE_MSG_PING = 0"
definition MODULE_MSG_LOGIN :: int where "MODULE_MSG_LOGIN = 1"
definition MODULE_MSG_LOGINRET :: int where "MODULE_MSG_LOGINRET = 2"
definition MODULE_MSG_VIDEO :: int where "MODULE_MSG_VIDEO = 25"
definition MODULE_MSG_EXERET :: int where "MODULE_MSG_EXERET = 28"
definition MODULE_MSG_CONTROL_PLAY :: int where "MODULE_MSG_CONTROL_PLAY = 68"
definition MODULE_MSG_DATAEND :: int where "MODULE_MSG_DATAEND = 69"
definition MODULE_MSG_SECTION_END :: int where "MODULE_MSG_SECTION_END = 70"
definition MODULE_MSG_SEEK_CMPD :: int where "MODULE_MSG_SEEK_CMPD = 90"

definition ERR_NOERROR :: "32 word" where "ERR_NOERROR = 0"

record net_cmd =
  dwFlag :: "32 word"
  dwCmd :: "32 word"
  dwIndex :: "32 word"
  dwLength :: "32 word"

definition sizeof_NET_CMD :: nat where "sizeof_NET_CMD = 16"
definition sizeof_FILE_GET :: nat where "sizeof_FILE_GET = 8"
definition sizeof_LOGIN_RET :: nat where "sizeof_LOGIN_RET = 1032"
definition sizeof_PLAYER_INIT_INFO :: nat where "sizeof_PLAYER_INIT_INFO = 320"
definition sizeof_FILE_INFO :: nat where "sizeof_FILE_INFO = 328"
definition CMD_LEN :: nat where "CMD_LEN = 1500"

definition put_cmd :: "net_cmd \<Rightarrow> byte list" where
  "put_cmd c = put32 (dwFlag c) @ put32 (dwCmd c) @ put32 (dwIndex c) @ put32 (dwLength c)"

definition get_cmd :: "byte list \<Rightarrow> net_cmd" where
  "get_cmd m = \<lparr>dwFlag = get32 m 0, dwCmd = get32 m 4, dwIndex = get32 m 8, dwLength = get32 m 12\<rparr>"

lemma length_put_cmd [simp]: "length (put_cmd c) = 16"
  by (simp add: put_cmd_def)

lemma get_put_cmd [simp]: "get_cmd (put_cmd c @ rest) = c"
proof -
  have "get32 (put_cmd c @ rest) 0 = dwFlag c"
    by (rule get32_at [of _ "[]"]) (simp_all add: put_cmd_def)
  moreover have "get32 (put_cmd c @ rest) 4 = dwCmd c"
    by (rule get32_at [of _ "put32 (dwFlag c)"]) (simp_all add: put_cmd_def)
  moreover have "get32 (put_cmd c @ rest) 8 = dwIndex c"
    by (rule get32_at [of _ "put32 (dwFlag c) @ put32 (dwCmd c)"]) (simp_all add: put_cmd_def)
  moreover have "get32 (put_cmd c @ rest) 12 = dwLength c"
    by (rule get32_at [of _ "put32 (dwFlag c) @ put32 (dwCmd c) @ put32 (dwIndex c)"]) (simp_all add: put_cmd_def)
  ultimately show ?thesis
    by (simp add: get_cmd_def)
qed

text \<open>\<open>FILE_GET\<close> in front of the data of a frame.\<close>

definition put_file_get :: "32 word \<Rightarrow> int \<Rightarrow> byte list" where
  "put_file_get pos n = put32 pos @ put32 (word_of_int n)"

text \<open>\<open>LOGIN_RET\<close> holding a \<open>FILE_INFO\<close> that is zero but for \<open>tmEnd\<close>.\<close>

definition put_file_info :: "32 word \<Rightarrow> byte list" where
  "put_file_info tmEnd = replicate sizeof_PLAYER_INIT_INFO 0 @ put32 0 @ put32 tmEnd"

definition put_login_ret :: "32 word \<Rightarrow> byte list \<Rightarrow> byte list" where
  "put_login_ret lRet info = put32 lRet @ put32 (word_of_nat (length info)) @ info @ replicate (1024 - length info) 0"

lemma length_put_structs [simp]:
  "length (put_file_get pos n) = 8" "length (put_file_info tmEnd) = 328"
  "length (put_login_ret r (put_file_info tmEnd)) = 1032"
  by (simp_all add: put_file_get_def put_file_info_def put_login_ret_def sizeof_PLAYER_INIT_INFO_def)

section \<open>Sockets\<close>

text \<open>
  What a non-blocking socket does is given in advance: \<open>send_plan\<close> answers the calls of \<open>send\<close>
  one by one, \<open>Accepted n\<close> taking at most \<open>n\<close> bytes; \<open>recv_plan\<close> says how many bytes each call
  of \<open>recv\<close> may hand out of \<open>incoming\<close>, the bytes the peer sends. A call with nothing to hand
  out returns -1, or 0 when the peer has closed. \<open>recv\<close> of zero bytes returns 0.
\<close>

datatype send_result = Accepted nat | Again | Broken

record sock =
  send_plan :: "send_result list"
  sent :: "byte list"
  recv_plan :: "nat list"
  incoming :: "byte list"
  peer_closed :: bool

definition sock_recv :: "nat \<Rightarrow> 'a sock_scheme \<Rightarrow> int \<times> byte list \<times> 'a sock_scheme" where
  "sock_recv n s =
     (if n = 0 then (0, [], s)
      else case recv_plan s of
        [] \<Rightarrow> (- 1, [], s)
      | k # ks \<Rightarrow>
          let xs = take (min k n) (incoming s);
              s' = s\<lparr>recv_plan := ks, incoming := drop (min k n) (incoming s)\<rparr>
          in if xs = [] then (if peer_closed s \<and> incoming s = [] then 0 else - 1, [], s')
             else (int (length xs), xs, s'))"

text \<open>
  The loop of \<open>sendEx\<close>: what it returns when it does not send everything, the bytes accepted,
  the answers left. \<open>continue\<close> in a \<open>do-while\<close> goes to the test.
\<close>

fun send_loop :: "send_result list \<Rightarrow> byte list \<Rightarrow> (int option \<times> byte list \<times> send_result list) outcome" where
  "send_loop [] xs = Inl Out_of_fuel"
| "send_loop (Accepted n # ps) xs =
     (let k = min n (length xs) in
      if drop k xs = [] then Inr (None, take k xs, ps)
      else bnd (send_loop ps (drop k xs)) (\<lambda>(r, ys, ps). Inr (r, take k xs @ ys, ps)))"
| "send_loop (Again # ps) xs = (if xs = [] then Inr (None, [], ps) else send_loop ps xs)"
| "send_loop (Broken # ps) xs = Inr (Some (- 1), [], ps)"

definition sendEx :: "byte list \<Rightarrow> 'a sock_scheme \<Rightarrow> (int \<times> 'a sock_scheme) outcome" where
  "sendEx xs s =
     bnd (send_loop (send_plan s) xs) (\<lambda>(r, ys, ps).
     Inr (case r of None \<Rightarrow> int (length xs) | Some r \<Rightarrow> r, s\<lparr>sent := sent s @ ys, send_plan := ps\<rparr>))"

lemma send_loop_ok:
  "send_loop ps xs = Inr (r, ys, ps') \<Longrightarrow> (r = None \<longrightarrow> ys = xs) \<and> (\<exists>zs. xs = ys @ zs) \<and> (r = None \<or> r = Some (- 1))"
proof (induction ps xs arbitrary: r ys ps' rule: send_loop.induct)
  case (2 n ps xs)
  let ?k = "min n (length xs)"
  show ?case
  proof (cases "drop ?k xs = []")
    case True
    with "2.prems" show ?thesis by (auto simp: Let_def)
  next
    case False
    with "2.prems" obtain zs where "send_loop ps (drop ?k xs) = Inr (r, zs, ps')" "ys = take ?k xs @ zs"
      by (auto simp: Let_def)
    with "2.IH" [OF refl False this(1)] show ?thesis
      by (metis append.assoc append_take_drop_id)
  qed
qed (auto split: if_splits)

lemma sendEx_ok:
  assumes "sendEx xs s = Inr (r, s')"
  shows "r = int (length xs) \<and> s' = s\<lparr>sent := sent s @ xs, send_plan := send_plan s'\<rparr> \<or> r = - 1"
  using assms send_loop_ok [of "send_plan s" xs] by (fastforce simp: sendEx_def split: option.splits)

text \<open>Answers with which everything is accepted in the end: no break, and room for \<open>n\<close> bytes.\<close>

fun accepts :: "send_result list \<Rightarrow> nat" where
  "accepts [] = 0"
| "accepts (Accepted n # ps) = n + accepts ps"
| "accepts (Again # ps) = accepts ps"
| "accepts (Broken # ps) = 0"

lemma send_loop_returns:
  assumes "length xs \<le> accepts ps" "Broken \<notin> set ps" "ps \<noteq> []"
  shows "\<exists>ps'. send_loop ps xs = Inr (None, xs, ps')"
  using assms
proof (induction ps xs rule: send_loop.induct)
  case (2 n ps xs)
  let ?k = "min n (length xs)"
  show ?case
  proof (cases "drop ?k xs = []")
    case True
    then show ?thesis by (auto simp: Let_def)
  next
    case False
    then have "length (drop ?k xs) \<le> accepts ps" "ps \<noteq> []"
      using "2.prems" by (auto simp: min_def split: if_splits)
    with "2.IH" [OF refl False] "2.prems" False show ?thesis
      by (fastforce simp: Let_def)
  qed
next
  case (3 ps xs)
  then show ?case by (cases ps; cases xs) auto
qed auto

text \<open>
  Answers with which \<open>n\<close> bytes go out whatever the calls they are sent in: none breaks the
  connection, each that accepts takes at least one byte, and there are \<open>n\<close> of these.
\<close>

definition accepting :: "nat \<Rightarrow> send_result list \<Rightarrow> bool" where
  "accepting n ps \<longleftrightarrow> Broken \<notin> set ps \<and> Accepted 0 \<notin> set ps \<and> n \<le> length (filter (\<lambda>p. p \<noteq> Again) ps)"

lemma send_loop_accepting:
  assumes "accepting (length xs + n) ps" "xs \<noteq> []"
  shows "\<exists>ps'. send_loop ps xs = Inr (None, xs, ps') \<and> accepting n ps'"
  using assms
proof (induction ps xs rule: send_loop.induct)
  case (2 k ps xs)
  let ?k = "min k (length xs)"
  have k: "0 < ?k" "accepting (length xs + n - 1) ps"
    using "2.prems" by (auto simp: accepting_def)
  show ?case
  proof (cases "drop ?k xs = []")
    case True
    then show ?thesis
      using k "2.prems"(2) by (cases xs) (auto simp: accepting_def)
  next
    case False
    have "length (drop ?k xs) + n \<le> length xs + n - 1"
      using k(1) by (simp add: min_def split: if_splits)
    then have "accepting (length (drop ?k xs) + n) ps"
      using k(2) unfolding accepting_def by linarith
    with "2.IH" [OF refl False] False show ?thesis
      by (fastforce simp: Let_def)
  qed
qed (auto simp: accepting_def)

lemma sendEx_accepting:
  assumes "accepting (length xs + n) (send_plan s)" "xs \<noteq> []"
  shows "\<exists>s'. sendEx xs s = Inr (int (length xs), s') \<and> sent s' = sent s @ xs \<and> accepting n (send_plan s')"
  using send_loop_accepting [OF assms] by (auto simp: sendEx_def)

end
