(* ===== verification/NetProtocol.thy ===== *)
theory NetProtocol
  imports Wire
begin

text \<open>
  \<open>EventServer/net/net_protocol.c\<close>: the text messages, made of a head and items, and the search
  for an attribute in a received command. Every local array is a block of its declared size, so
  a write past its end is the fault \<open>Out_of_bounds\<close>.
\<close>

section \<open>Constants and structs\<close>

definition COMMAND_D_S_REGISTER_REQ :: int where "COMMAND_D_S_REGISTER_REQ = 1"
definition COMMAND_D_S_DATETIME_REQ :: int where "COMMAND_D_S_DATETIME_REQ = 3"
definition COMMAND_S_D_DATETIME_ACK :: int where "COMMAND_S_D_DATETIME_ACK = 4"
definition COMMAND_D_S_NULL :: int where "COMMAND_D_S_NULL = 5"
definition COMMAND_D_S_DATAINFO_ACK :: int where "COMMAND_D_S_DATAINFO_ACK = 7"
definition COMMAND_D_S_DATA_ACK :: int where "COMMAND_D_S_DATA_ACK = 9"
definition COMMAND_D_S_TRANSMIT_ACK :: int where "COMMAND_D_S_TRANSMIT_ACK = 11"

definition PROTOCOL_VERSION :: "byte list" where "PROTOCOL_VERSION = str ''0100''"
definition PROTOCOL_HEAD_LENGTH :: nat where "PROTOCOL_HEAD_LENGTH = 14 + 2"
definition PROTOCOL_CMD_LENGTH :: nat where "PROTOCOL_CMD_LENGTH = 4"
definition PROTOCOL_VERSION_LENGTH :: nat where "PROTOCOL_VERSION_LENGTH = 4"
definition PROTOCOL_LOAD_OFFSET :: nat where "PROTOCOL_LOAD_OFFSET = 12"
definition PROTOCOL_LOAD_LENGTH :: nat where "PROTOCOL_LOAD_LENGTH = 4"

text \<open>\<open>PROTO_ST_MSG\<close>; \<open>None\<close> is a NULL \<open>msg\<close>.\<close>

record proto_msg =
  pmsg :: "byte list option"
  plen :: int
  ptotal :: int

text \<open>\<open>size_t\<close> from an \<open>int\<close>.\<close>

definition size_of :: "int \<Rightarrow> nat" where
  "size_of i = unat (word_of_int i :: size)"

lemma size_of_nonneg: "0 \<le> i \<Longrightarrow> i < 2 ^ 31 \<Longrightarrow> size_of i = nat i"
  by (simp add: size_of_def unsigned_of_int take_bit_int_eq_self)

section \<open>Numbers as text\<close>

definition int2hex2str :: "byte list \<Rightarrow> int \<Rightarrow> nat \<Rightarrow> (int \<times> byte list) outcome" where
  "int2hex2str m v w = bnd (store m 0 (fmt_0x w v @ [0])) (\<lambda>m. Inr (int (length (fmt_0x w v)), m))"

definition int2str :: "byte list \<Rightarrow> int \<Rightarrow> nat \<Rightarrow> (int \<times> byte list) outcome" where
  "int2str m v w = bnd (store m 0 (fmt_0d w v @ [0])) (\<lambda>m. Inr (int (length (fmt_0d w v)), m))"

section \<open>Messages\<close>

definition PROTO_MakeDataHead :: "int \<Rightarrow> proto_msg \<Rightarrow> (int \<times> proto_msg) outcome" where
  "PROTO_MakeDataHead cmd s =
     (let acLen = replicate 7 0; acCmd = replicate 5 0
      in bnd (int2str acCmd cmd PROTOCOL_CMD_LENGTH) (\<lambda>(r, acCmd).
         bnd (strlen acCmd) (\<lambda>n.
         if n \<noteq> 4 then Inr (0, s)
         else case pmsg s of
           None \<Rightarrow> Inr (0, s\<lparr>plen := 0\<rparr>)
         | Some p \<Rightarrow>
             bnd (store p 0 (replicate (size_of (ptotal s)) 0)) (\<lambda>p.
             bnd (store p 0 PROTOCOL_VERSION) (\<lambda>p.
             bnd (load acCmd 0 PROTOCOL_CMD_LENGTH) (\<lambda>xs.
             bnd (store p PROTOCOL_VERSION_LENGTH xs) (\<lambda>p.
             bnd (int2hex2str acLen 0 PROTOCOL_LOAD_LENGTH) (\<lambda>(r, acLen).
             bnd (load acLen 0 PROTOCOL_LOAD_LENGTH) (\<lambda>xs.
             bnd (store p (PROTOCOL_VERSION_LENGTH + PROTOCOL_CMD_LENGTH) xs) (\<lambda>p.
             Inr (int PROTOCOL_HEAD_LENGTH, s\<lparr>pmsg := Some p, plen := int PROTOCOL_HEAD_LENGTH\<rparr>)))))))))))"

text \<open>\<open>le\<close> is whether \<open>MY_LITTLE_ENDIAN\<close> is defined.\<close>

definition PROTO_GetPackDataLen :: "bool \<Rightarrow> byte list \<Rightarrow> int outcome" where
  "PROTO_GetPackDataLen le m = bnd (load32 m 12) (\<lambda>w. Inr (sint (if le then w else ntohl w)))"

definition PROTO_GetCommand :: "bool \<Rightarrow> byte list \<Rightarrow> int outcome" where
  "PROTO_GetCommand le m = bnd (load32 m 4) (\<lambda>w. Inr (sint (if le then w else ntohl w)))"

definition PROTO_SetDataPackLen :: "byte list \<Rightarrow> int \<Rightarrow> (int \<times> byte list) outcome" where
  "PROTO_SetDataPackLen m len =
     bnd (int2hex2str (replicate (PROTOCOL_LOAD_LENGTH + 1) 0) len PROTOCOL_LOAD_LENGTH) (\<lambda>(r, acLen).
     bnd (load acLen 0 PROTOCOL_LOAD_LENGTH) (\<lambda>xs.
     bnd (store m PROTOCOL_LOAD_OFFSET xs) (\<lambda>m. Inr (len, m))))"

text \<open>\<open>pName\<close> and \<open>pValue\<close> are memory, \<open>None\<close> for NULL.\<close>

definition PROTO_AddOneItem :: "byte list option \<Rightarrow> byte list option \<Rightarrow> int \<Rightarrow> proto_msg \<Rightarrow> (int \<times> proto_msg) outcome" where
  "PROTO_AddOneItem pName pValue lValueLen s =
     (let acLen = replicate (PROTOCOL_LOAD_LENGTH + 1) 0 in
      if plen s < int PROTOCOL_LOAD_LENGTH then Inr (- 1, s)
      else case pName of
        None \<Rightarrow> Inr (- 1, s)
      | Some name \<Rightarrow>
          bnd (strlen name) (\<lambda>lNameLen.
          let lNewLen = 2 + 6 + int lNameLen + lValueLen;
              p = nat (plen s)
          in case pmsg s of
            None \<Rightarrow> Inr (- 1, s)
          | Some m \<Rightarrow>
              if lNameLen > 0xFF then Inr (- 1, s)
              else if lValueLen > 0xFFFFFF then Inr (- 1, s)
              else
                bnd (int2hex2str acLen (int lNameLen) 2) (\<lambda>(r, ac).
                bnd (load ac 0 2) (\<lambda>xs.
                bnd (store m p xs) (\<lambda>m.
                bnd (int2hex2str acLen lValueLen 6) (\<lambda>(r, ac).
                bnd (load ac 0 6) (\<lambda>xs.
                bnd (store m (p + 2) xs) (\<lambda>m.
                bnd (load name 0 lNameLen) (\<lambda>xs.
                bnd (store m (p + 8) xs) (\<lambda>m.
                bnd (case pValue of
                       None \<Rightarrow> Inr m
                     | Some v \<Rightarrow> bnd (load v 0 (size_of lValueLen)) (\<lambda>xs. store m (p + 8 + lNameLen) xs)) (\<lambda>m.
                bnd (PROTO_SetDataPackLen m (plen s + lNewLen - int PROTOCOL_HEAD_LENGTH)) (\<lambda>(r, m).
                Inr (plen s + lNewLen, s\<lparr>pmsg := Some m, plen := plen s + lNewLen\<rparr>)))))))))))))"

definition PROTO_AddOneItemInt :: "byte list option \<Rightarrow> int \<Rightarrow> proto_msg \<Rightarrow> (int \<times> proto_msg) outcome" where
  "PROTO_AddOneItemInt pName nValue s =
     (let xs = fmt_d nValue
      in bnd (store (replicate 16 0) 0 (take 15 xs @ [0])) (\<lambda>acValue.
         PROTO_AddOneItem pName (Some acValue) (int (length xs)) s))"

section \<open>Attributes of a command\<close>

text \<open>The loop \<open>while (*(p + i) != '"')\<close>, which does not stop at a NUL.\<close>

fun scan_quote :: "byte list \<Rightarrow> nat outcome" where
  "scan_quote [] = Inl Out_of_bounds"
| "scan_quote (c # cs) = (if c = 34 then Inr 0 else bnd (scan_quote cs) (\<lambda>n. Inr (Suc n)))"

text \<open>The result, what \<open>pValueOut\<close> holds afterwards, and \<open>*pValueLen\<close>.\<close>

definition PROTO_GetValueByName :: "byte list \<Rightarrow> byte list \<Rightarrow> byte list \<Rightarrow> (int \<times> byte list \<times> int) outcome" where
  "PROTO_GetValueByName pData name out =
     (let ptr = drop 16 pData
      in bnd (strstr ptr name) (\<lambda>r.
         case r of
           None \<Rightarrow> Inr (0, out, 0)
         | Some k \<Rightarrow>
             bnd (load ptr (k + length name) 1) (\<lambda>cs.
             if hd cs = 61 then
               let p = drop (k + length name + 2) ptr
               in bnd (scan_quote p) (\<lambda>i.
                  bnd (store out 0 (take i p)) (\<lambda>out. Inr (1, out, int i - 1)))
             else Inr (0, out, 0))))"

section \<open>The messages of the protocol\<close>

text \<open>A string literal in memory, and the length of a C string as an \<open>int\<close> argument.\<close>

definition lit :: "string \<Rightarrow> byte list option" where
  "lit s = Some (str s @ [0])"

definition PROTO_MakeRegistMsg :: "byte list \<Rightarrow> byte list \<Rightarrow> proto_msg \<Rightarrow> (int \<times> proto_msg) outcome" where
  "PROTO_MakeRegistMsg serial name s =
     bnd (PROTO_MakeDataHead COMMAND_D_S_REGISTER_REQ s) (\<lambda>(r, s).
     bnd (strlen serial) (\<lambda>n.
     bnd (PROTO_AddOneItem (lit ''DeviceSerial'') (Some serial) (int n) s) (\<lambda>(r, s).
     bnd (strlen name) (\<lambda>n.
     PROTO_AddOneItem (lit ''DeviceName'') (Some name) (int n) s))))"

definition PROTO_MakeSdpMsg :: "byte list \<Rightarrow> int \<Rightarrow> proto_msg \<Rightarrow> (int \<times> proto_msg) outcome" where
  "PROTO_MakeSdpMsg sdp len s =
     bnd (PROTO_MakeDataHead COMMAND_D_S_DATAINFO_ACK s) (\<lambda>(r, s).
     bnd (PROTO_AddOneItem (lit ''Ret'') (lit ''1'') 1 s) (\<lambda>(r, s).
     PROTO_AddOneItem (lit ''Data'') (Some sdp) len s))"

definition PROTO_MakeAVDataMsg :: "byte list \<Rightarrow> byte list \<Rightarrow> int \<Rightarrow> proto_msg \<Rightarrow> (int \<times> proto_msg) outcome" where
  "PROTO_MakeAVDataMsg data typ len s =
     bnd (PROTO_MakeDataHead COMMAND_D_S_DATA_ACK s) (\<lambda>(r, s).
     bnd (PROTO_AddOneItem (lit ''Ret'') (lit ''1'') 1 s) (\<lambda>(r, s).
     if r < 0 then Inr (- 1, s) else
     bnd (strlen typ) (\<lambda>n.
     bnd (PROTO_AddOneItem (lit ''Type'') (Some typ) (int n) s) (\<lambda>(r, s).
     if r < 0 then Inr (- 2, s) else
     bnd (PROTO_AddOneItem (lit ''Data'') (Some data) len s) (\<lambda>(r, s).
     if r < 0 then Inr (- 3, s) else Inr (0, s))))))"

definition PROTO_MakeHeartBeatMsg :: "proto_msg \<Rightarrow> (int \<times> proto_msg) outcome" where
  "PROTO_MakeHeartBeatMsg s = PROTO_MakeDataHead COMMAND_D_S_NULL s"

definition PROTO_MakeReplyUpTime :: "proto_msg \<Rightarrow> (int \<times> proto_msg) outcome" where
  "PROTO_MakeReplyUpTime s =
     bnd (PROTO_MakeDataHead COMMAND_S_D_DATETIME_ACK s) (\<lambda>(r, s).
     PROTO_AddOneItem (lit ''Ret'') (lit ''1'') 1 s)"

definition PROTO_MakeUpTime :: "proto_msg \<Rightarrow> (int \<times> proto_msg) outcome" where
  "PROTO_MakeUpTime s = PROTO_MakeDataHead COMMAND_D_S_DATETIME_REQ s"

end
