(* ===== verification/Packet.thy ===== *)
theory Packet
  imports NetProtocol
begin

text \<open>
  The reception of messages that all tasks of the server share: a 16-byte \<open>NET_CMD\<close> head, then
  as many bytes as its \<open>dwLength\<close> says, read piecemeal from a non-blocking socket into one
  buffer (\<open>tagRecvBuffer\<close> of \<open>common/h264.h\<close>, \<open>readBuffer\<close> and \<open>recvPackData\<close> of the tasks
  and of \<open>Session\<close>). What a task does with a complete message is the argument \<open>act\<close>. The
  locale \<open>packet_handler\<close> states what \<open>act\<close> has to satisfy for the reception to work, and proves
  that then every message is handled once and in order, however the bytes arrive.
\<close>

section \<open>Buffers\<close>

text \<open>\<open>totalLen\<close> is an \<open>int\<close>, so a \<open>dwLength\<close> of \<open>2 ^ 31\<close> or more is negative.\<close>

record tagRecvBuffer =
  buff :: "byte list"
  bProcHead :: bool
  hasRecvLen :: nat
  recvTotal :: int

definition tagRecvBuffer_reset :: "tagRecvBuffer \<Rightarrow> tagRecvBuffer" where
  "tagRecvBuffer_reset b = b\<lparr>bProcHead := True, hasRecvLen := 0, recvTotal := int sizeof_NET_CMD,
     buff := replicate CMD_LEN 0\<rparr>"

text \<open>
  What every task has: its socket, its receive buffer, and the calls of \<open>EventCall::addEvent\<close> it
  has made, which the event layer carries out.
\<close>

record task =
  mSock :: sock
  mRecv :: tagRecvBuffer
  addEvents :: "16 word list"

definition upd_recv :: "(tagRecvBuffer \<Rightarrow> tagRecvBuffer) \<Rightarrow> 'a task_scheme \<Rightarrow> 'a task_scheme" where
  "upd_recv f t = t\<lparr>mRecv := f (mRecv t)\<rparr>"

section \<open>Reading a message\<close>

text \<open>\<open>recv\<close> of up to \<open>n\<close> bytes into the buffer at \<open>off\<close>.\<close>

definition recv_at :: "nat \<Rightarrow> nat \<Rightarrow> 'a task_scheme \<Rightarrow> (int \<times> 'a task_scheme) outcome" where
  "recv_at off n t =
     (let (ret, xs, s) = sock_recv n (mSock t); t = t\<lparr>mSock := s\<rparr>
      in if xs = [] then Inr (ret, t)
         else bnd (store (buff (mRecv t)) off xs) (\<lambda>m. Inr (ret, upd_recv (buff_update (\<lambda>_. m)) t)))"

definition recv_body :: "(int \<Rightarrow> 'a task_scheme \<Rightarrow> (int \<times> 'a task_scheme) outcome) \<Rightarrow> 'a task_scheme \<Rightarrow> (int \<times> 'a task_scheme) outcome" where
  "recv_body act t =
     bnd (recv_at (sizeof_NET_CMD + hasRecvLen (mRecv t))
            (size_of (c_int (recvTotal (mRecv t) - int (hasRecvLen (mRecv t))))) t) (\<lambda>(ret, t).
     if ret > 0 then
       let t = upd_recv (hasRecvLen_update (\<lambda>n. n + nat ret)) t
       in if int (hasRecvLen (mRecv t)) = recvTotal (mRecv t) then act ret t else Inr (ret, t)
     else Inr (ret, t))"

definition read_packet :: "(int \<Rightarrow> 'a task_scheme \<Rightarrow> (int \<times> 'a task_scheme) outcome) \<Rightarrow> 'a task_scheme \<Rightarrow> (int \<times> 'a task_scheme) outcome" where
  "read_packet act t =
     (if bProcHead (mRecv t) then
        bnd (recv_at (hasRecvLen (mRecv t)) (sizeof_NET_CMD - hasRecvLen (mRecv t)) t) (\<lambda>(ret, t).
        if ret > 0 then
          let t = upd_recv (hasRecvLen_update (\<lambda>n. n + nat ret)) t
          in if hasRecvLen (mRecv t) = sizeof_NET_CMD then
               bnd (load32 (buff (mRecv t)) 12) (\<lambda>w.
               recv_body act (upd_recv (\<lambda>b. b\<lparr>recvTotal := sint w, bProcHead := False, hasRecvLen := 0\<rparr>) t))
             else Inr (ret, t)
        else Inr (ret, t))
      else recv_body act t)"

text \<open>The event loop calls \<open>readBuffer\<close> until it returns 0, when \<open>onRead\<close> closes the session.\<close>

fun read_packets :: "(int \<Rightarrow> 'a task_scheme \<Rightarrow> (int \<times> 'a task_scheme) outcome) \<Rightarrow> nat \<Rightarrow> 'a task_scheme \<Rightarrow> 'a task_scheme outcome" where
  "read_packets act 0 t = Inr t"
| "read_packets act (Suc n) t = bnd (read_packet act t) (\<lambda>(ret, t). if ret = 0 then Inr t else read_packets act n t)"

text \<open>\<open>sendEx\<close> on the task's socket.\<close>

definition task_sendEx :: "byte list \<Rightarrow> 'a task_scheme \<Rightarrow> (int \<times> 'a task_scheme) outcome" where
  "task_sendEx xs t = bnd (sendEx xs (mSock t)) (\<lambda>(r, s). Inr (r, t\<lparr>mSock := s\<rparr>))"

section \<open>Messages\<close>

text \<open>A complete message that fits a buffer of \<open>cap\<close> bytes.\<close>

definition framed :: "nat \<Rightarrow> byte list \<Rightarrow> bool" where
  "framed cap p \<longleftrightarrow> 16 < length p \<and> length p \<le> cap \<and> unat (get32 p 12) = length p - 16"

text \<open>The bytes not handled yet, those in the buffer first.\<close>

definition buffered :: "'a task_scheme \<Rightarrow> nat" where
  "buffered t = (if bProcHead (mRecv t) then hasRecvLen (mRecv t) else 16 + hasRecvLen (mRecv t))"

definition unread :: "'a task_scheme \<Rightarrow> byte list" where
  "unread t = take (buffered t) (buff (mRecv t)) @ incoming (mSock t)"

definition receiving :: "nat \<Rightarrow> 'a task_scheme \<Rightarrow> bool" where
  "receiving cap t \<longleftrightarrow> length (buff (mRecv t)) = cap \<and>
     (if bProcHead (mRecv t) then hasRecvLen (mRecv t) < 16
      else int (hasRecvLen (mRecv t)) < recvTotal (mRecv t) \<and> recvTotal (mRecv t) + 16 \<le> int cap \<and>
        nat (recvTotal (mRecv t)) = unat (get32 (buff (mRecv t)) 12))"

definition ready :: "'a task_scheme \<Rightarrow> bool" where
  "ready t \<longleftrightarrow> bProcHead (mRecv t) \<and> hasRecvLen (mRecv t) = 0"

text \<open>The same task but for its receive buffer and what it has received.\<close>

definition forget :: "'a task_scheme \<Rightarrow> 'a task_scheme" where
  "forget t = t\<lparr>mSock := (mSock t)\<lparr>recv_plan := [], incoming := []\<rparr>,
     mRecv := \<lparr>buff = [], bProcHead = True, hasRecvLen = 0, recvTotal = 0\<rparr>\<rparr>"

lemma forget_upd_recv [simp]: "forget (upd_recv f t) = forget t"
  by (simp add: forget_def upd_recv_def)

lemma upd_recv_simps [simp]:
  "mRecv (upd_recv f t) = f (mRecv t)" "mSock (upd_recv f t) = mSock t"
  by (simp_all add: upd_recv_def)

lemma buffered_less: "receiving cap t \<Longrightarrow> 16 \<le> cap \<Longrightarrow> buffered t < cap"
  by (auto simp: receiving_def buffered_def split: if_splits)

lemma get32_take:
  assumes "take n m = take n m'" "p + 4 \<le> n" "n \<le> length m" "n \<le> length m'"
  shows "get32 m p = get32 m' p"
proof -
  have "m ! i = m' ! i" if "i < n" for i
    using that assms by (metis nth_take)
  then show ?thesis
    using assms(2) by (simp add: get32_def)
qed

lemma upd_recv_id [simp]: "upd_recv (\<lambda>b. b) t = t"
  by (simp add: upd_recv_def)

lemma hasRecvLen_update_id [simp]: "hasRecvLen_update (\<lambda>n. n) b = b"
  by (cases b) simp

lemma sint_unat: "unat w < 2 ^ 31 \<Longrightarrow> sint w = int (unat w)" for w :: "32 word"
proof -
  assume "unat w < 2 ^ 31"
  then have "int (unat w) < 2 ^ 31"
    by (rule of_nat_less_numeral_power_cancel_iff [THEN iffD2])
  moreover have "- (2 ^ 31) \<le> int (unat w)"
    by (rule order_trans [of _ 0]) simp_all
  ultimately have "signed_take_bit 31 (int (unat w)) = int (unat w)"
    by (blast intro: signed_take_bit_int_eq_self)
  then show ?thesis
    by (simp add: sint_uint)
qed

text \<open>A \<open>recv\<close> that has room in the buffer.\<close>

lemma recv_at_ok:
  assumes "recv_plan (mSock t) = k # ks" "0 < k" "0 < n" "off + n \<le> length (buff (mRecv t))"
  obtains r t' where "recv_at off n t = Inr (r, t')"
    and "length (buff (mRecv t')) = length (buff (mRecv t))"
    and "bProcHead (mRecv t') = bProcHead (mRecv t)" "hasRecvLen (mRecv t') = hasRecvLen (mRecv t)"
    and "recvTotal (mRecv t') = recvTotal (mRecv t)" "recv_plan (mSock t') = ks" "forget t' = forget t"
    and "take off (buff (mRecv t')) = take off (buff (mRecv t))"
    and "take (off + nat r) (buff (mRecv t')) @ incoming (mSock t') = take off (buff (mRecv t)) @ incoming (mSock t)"
    and "0 < r \<and> nat r \<le> n \<and> length (incoming (mSock t')) + nat r = length (incoming (mSock t)) \<or>
      r \<le> 0 \<and> incoming (mSock t) = [] \<and> incoming (mSock t') = []"
proof (cases "incoming (mSock t) = []")
  case True
  let ?r = "if peer_closed (mSock t) then 0 else - 1 :: int"
  show thesis
    by (rule that [of ?r "t\<lparr>mSock := (mSock t)\<lparr>recv_plan := ks\<rparr>\<rparr>"])
      (use True assms in \<open>auto simp: recv_at_def sock_recv_def Let_def forget_def\<close>)
next
  case False
  define xs where "xs = take (min k n) (incoming (mSock t))"
  define m where "m = take off (buff (mRecv t)) @ xs @ drop (off + length xs) (buff (mRecv t))"
  let ?s = "(mSock t)\<lparr>recv_plan := ks, incoming := drop (min k n) (incoming (mSock t))\<rparr>"
  let ?t = "upd_recv (buff_update (\<lambda>_. m)) (t\<lparr>mSock := ?s\<rparr>)"
  have xs: "xs \<noteq> []" "length xs \<le> n"
    using False assms by (auto simp: xs_def)
  have st: "store (buff (mRecv t)) off xs = Inr m"
    using xs assms by (simp add: store_def m_def)
  show thesis
  proof (rule that [of "int (length xs)" ?t])
    show "recv_at off n t = Inr (int (length xs), ?t)"
      using assms xs st by (simp add: recv_at_def sock_recv_def xs_def Let_def)
    show "take (off + nat (int (length xs))) (buff (mRecv ?t)) @ incoming (mSock ?t) =
        take off (buff (mRecv t)) @ incoming (mSock t)"
      using assms by (simp add: m_def xs_def min_def)
    show "0 < int (length xs) \<and> nat (int (length xs)) \<le> n \<and>
        length (incoming (mSock ?t)) + nat (int (length xs)) = length (incoming (mSock t)) \<or>
      int (length xs) \<le> 0 \<and> incoming (mSock t) = [] \<and> incoming (mSock ?t) = []"
      using xs by (auto simp: xs_def)
  qed (use assms xs in \<open>auto simp: m_def forget_def upd_recv_def\<close>)
qed

lemma recv_body_eq:
  assumes "recv_at (sizeof_NET_CMD + hasRecvLen (mRecv t))
      (size_of (c_int (recvTotal (mRecv t) - int (hasRecvLen (mRecv t))))) t = Inr (r, t')"
    and "t1 = upd_recv (hasRecvLen_update (\<lambda>n. n + nat r)) t'"
  shows "recv_body act t =
    (if 0 < r \<and> int (hasRecvLen (mRecv t1)) = recvTotal (mRecv t1) then act r t1 else Inr (r, t1))"
  using assms by (simp add: recv_body_def Let_def upd_recv_def)

section \<open>What a handler has to satisfy\<close>

text \<open>
  \<open>view\<close> is what the handler works on, \<open>upd p\<close> what it does with the message \<open>p\<close>, and \<open>fits\<close>
  when it can. It leaves the buffer ready for the next message and does not read from the socket.
\<close>

locale packet_handler =
  fixes act :: "int \<Rightarrow> 'a task_scheme \<Rightarrow> (int \<times> 'a task_scheme) outcome"
    and view :: "'a task_scheme \<Rightarrow> 'v"
    and upd :: "byte list \<Rightarrow> 'v \<Rightarrow> 'v"
    and fits :: "byte list \<Rightarrow> 'v \<Rightarrow> bool"
    and cap :: nat
  assumes cap: "16 \<le> cap" "cap < 2 ^ 31"
    and view_forget: "forget t = forget t' \<Longrightarrow> view t = view t'"
    and act_ok: "framed cap p \<Longrightarrow> fits p (view t) \<Longrightarrow> length (buff (mRecv t)) = cap \<Longrightarrow>
      take (length p) (buff (mRecv t)) = p \<Longrightarrow> 0 < ret \<Longrightarrow>
      \<exists>t'. act ret t = Inr (ret, t') \<and> view t' = upd p (view t) \<and> ready t' \<and>
        length (buff (mRecv t')) = cap \<and> recv_plan (mSock t') = recv_plan (mSock t) \<and>
        incoming (mSock t') = incoming (mSock t)"
begin

fun fits_all :: "byte list list \<Rightarrow> 'v \<Rightarrow> bool" where
  "fits_all [] v = True"
| "fits_all (p # ps) v = (fits p v \<and> fits_all ps (upd p v))"

text \<open>\<open>ps\<close> are the messages still to be handled.\<close>

definition pending :: "byte list list \<Rightarrow> 'a task_scheme \<Rightarrow> bool" where
  "pending ps t \<longleftrightarrow> receiving cap t \<and> unread t = concat ps \<and> (\<forall>p \<in> set ps. framed cap p) \<and> fits_all ps (view t)"

lemma pending_head:
  assumes "pending ps t" "\<not> bProcHead (mRecv t)"
  obtains p qs where "ps = p # qs" "framed cap p" "recvTotal (mRecv t) = int (length p) - 16"
proof -
  let ?b = "buff (mRecv t)"
  have t: "length ?b = cap" "16 + hasRecvLen (mRecv t) < cap"
    "unread t = take (16 + hasRecvLen (mRecv t)) ?b @ incoming (mSock t)"
    using assms buffered_less [of cap t] cap by (auto simp: pending_def receiving_def unread_def buffered_def)
  then obtain p qs where ps: "ps = p # qs"
    using assms(1) cap by (cases ps) (auto simp: pending_def)
  have p: "framed cap p" "unread t = p @ concat qs"
    using assms(1) ps by (auto simp: pending_def)
  have "get32 ?b 12 = get32 p 12"
  proof (rule get32_take [of 16])
    have "take 16 (unread t) = take 16 ?b"
      using t by (simp add: min_def)
    then show "take 16 ?b = take 16 p"
      using p by (simp add: framed_def)
  qed (use t p cap in \<open>auto simp: framed_def\<close>)
  then have "nat (recvTotal (mRecv t)) = length p - 16" "0 < recvTotal (mRecv t)" "16 < length p"
    using assms p(1) by (auto simp: pending_def receiving_def framed_def)
  then show ?thesis
    using that [OF ps p(1)] by linarith
qed

text \<open>The state after a \<open>recv\<close> that did not complete anything.\<close>

lemma pending_more:
  assumes "pending ps t" "receiving cap t'" "forget t' = forget t" "unread t' = unread t"
  shows "pending ps t'"
  using assms view_forget [of t' t] by (simp add: pending_def)

lemma recv_body_step:
  assumes "pending ps t" "\<not> bProcHead (mRecv t)" "recv_plan (mSock t) = k # ks" "0 < k"
  shows "\<exists>r t' ps'. recv_body act t = Inr (r, t') \<and> pending ps' t' \<and> set ps' \<subseteq> set ps \<and>
    fold upd ps' (view t') = fold upd ps (view t) \<and> recv_plan (mSock t') = ks \<and>
    (r = 0 \<longrightarrow> incoming (mSock t') = []) \<and>
    (length (incoming (mSock t')) < length (incoming (mSock t)) \<or>
     incoming (mSock t) = [] \<and> incoming (mSock t') = [])"
proof -
  obtain p qs where p: "ps = p # qs" "framed cap p" "recvTotal (mRecv t) = int (length p) - 16"
    using pending_head [OF assms(1,2)] .
  let ?h = "hasRecvLen (mRecv t)"
  define n where "n = length p - 16 - ?h"
  have t: "length (buff (mRecv t)) = cap" "?h < length p - 16" "length p \<le> cap" "16 < length p"
    "unread t = take (16 + ?h) (buff (mRecv t)) @ incoming (mSock t)" "unread t = p @ concat qs"
    using assms(1,2) p by (auto simp: pending_def receiving_def framed_def unread_def buffered_def)
  then have n: "size_of (c_int (recvTotal (mRecv t) - int ?h)) = n"
    using p cap by (subst c_int_id) (auto simp: n_def size_of_nonneg)
  have room: "0 < n" "sizeof_NET_CMD + ?h + n \<le> length (buff (mRecv t))"
    using t by (auto simp: n_def sizeof_NET_CMD_def)
  show ?thesis
    using recv_at_ok [OF assms(3,4) room]
  proof cases
    case (1 r t')
    define t1 where "t1 = upd_recv (hasRecvLen_update (\<lambda>n. n + nat r)) t'"
    have t1: "length (buff (mRecv t1)) = cap" "\<not> bProcHead (mRecv t1)" "hasRecvLen (mRecv t1) = ?h + nat r"
      "recvTotal (mRecv t1) = recvTotal (mRecv t)" "forget t1 = forget t"
      "recv_plan (mSock t1) = ks" "incoming (mSock t1) = incoming (mSock t')"
      using 1 t(1) assms(2) by (simp_all add: t1_def)
    have u: "take (16 + ?h + nat r) (buff (mRecv t1)) @ incoming (mSock t1) = unread t"
      using 1 t by (simp add: t1_def sizeof_NET_CMD_def)
    have le: "nat r \<le> n"
      using 1 by auto
    have less: "length (incoming (mSock t1)) < length (incoming (mSock t)) \<or>
        incoming (mSock t) = [] \<and> incoming (mSock t1) = []"
      using 1 t1 by auto
    have zero: "r \<le> 0 \<longrightarrow> incoming (mSock t1) = []"
      using 1 t1 by auto
    have "int (hasRecvLen (mRecv t1)) = recvTotal (mRecv t1) \<longleftrightarrow> nat r = n"
      using t1(3,4) p(3) t(2,4) by (auto simp: n_def)
    then have run: "recv_body act t = (if 0 < r \<and> nat r = n then act r t1 else Inr (r, t1))"
      using recv_body_eq [of t r t', unfolded n, OF 1(1) t1_def] by simp
    show ?thesis
    proof (cases "0 < r \<and> nat r = n")
      case False
      then have "nat r < n"
        using le room by auto
      have "take 16 (buff (mRecv t1)) = take 16 (take (sizeof_NET_CMD + ?h) (buff (mRecv t1)))"
        "take 16 (buff (mRecv t)) = take 16 (take (sizeof_NET_CMD + ?h) (buff (mRecv t)))"
        by (simp_all add: sizeof_NET_CMD_def min_def)
      then have "get32 (buff (mRecv t1)) 12 = get32 (buff (mRecv t)) 12"
        using 1 t t1(1) by (intro get32_take [of 16]) (auto simp: t1_def)
      then have "receiving cap t1"
        using assms(1,2) t1 t(2-4) p(3) \<open>nat r < n\<close> by (auto simp: pending_def receiving_def n_def)
      moreover have "unread t1 = unread t"
        using u t1 by (simp add: unread_def [of t1] buffered_def [of t1] add.assoc)
      ultimately have "pending ps t1"
        using pending_more assms(1) t1 by blast
      then show ?thesis
        using run False less zero t1 view_forget [of t1 t] by auto
    next
      case True
      then have "16 + ?h + nat r = length p"
        using t by (simp add: n_def)
      then have "take (length p) (buff (mRecv t1)) @ incoming (mSock t1) = p @ concat qs"
        using u t(6) by simp
      moreover have "length (take (length p) (buff (mRecv t1))) = length p"
        using t t1 by simp
      ultimately have "take (length p) (buff (mRecv t1)) = p" "incoming (mSock t1) = concat qs"
        using append_eq_append_conv by blast+
      moreover have "fits p (view t1)"
        using assms(1) p(1) view_forget [OF t1(5)] by (simp add: pending_def)
      ultimately obtain t2 where t2: "act r t1 = Inr (r, t2)" "view t2 = upd p (view t1)" "ready t2"
          "length (buff (mRecv t2)) = cap" "recv_plan (mSock t2) = ks" "incoming (mSock t2) = concat qs"
        using act_ok [OF p(2), of t1 r] t1 True by auto
      then have "pending qs t2"
        using assms(1) p(1) view_forget [OF t1(5)]
        by (auto simp: pending_def ready_def receiving_def unread_def buffered_def)
      then show ?thesis
        using run True less t2 p(1) view_forget [OF t1(5)] \<open>incoming (mSock t1) = concat qs\<close> by auto
    qed
  qed
qed

text \<open>One call of \<open>readBuffer\<close>: at most two calls of \<open>recv\<close>, and progress unless nothing is there.\<close>

definition progress :: "byte list list \<Rightarrow> 'a task_scheme \<Rightarrow> int \<Rightarrow> 'a task_scheme \<Rightarrow> byte list list \<Rightarrow> bool" where
  "progress ps t r t' ps' \<longleftrightarrow> pending ps' t' \<and> set ps' \<subseteq> set ps \<and>
    fold upd ps' (view t') = fold upd ps (view t) \<and> (r = 0 \<longrightarrow> incoming (mSock t') = []) \<and>
    (length (incoming (mSock t')) < length (incoming (mSock t)) \<or>
     incoming (mSock t) = [] \<and> incoming (mSock t') = [])"

lemma read_packet_step:
  assumes "pending ps t" "recv_plan (mSock t) = k # k' # ks" "0 < k" "0 < k'"
  shows "\<exists>r t' ps'. read_packet act t = Inr (r, t') \<and> progress ps t r t' ps' \<and>
    recv_plan (mSock t') \<in> {k' # ks, ks}"
proof (cases "bProcHead (mRecv t)")
  case False
  then show ?thesis
    using recv_body_step [OF assms(1) _ assms(2,3)] by (fastforce simp: read_packet_def progress_def)
next
  case True
  let ?h = "hasRecvLen (mRecv t)"
  have t: "length (buff (mRecv t)) = cap" "?h < 16" "unread t = take ?h (buff (mRecv t)) @ incoming (mSock t)"
    using assms(1) True by (auto simp: pending_def receiving_def unread_def buffered_def)
  have room: "0 < sizeof_NET_CMD - ?h" "?h + (sizeof_NET_CMD - ?h) \<le> length (buff (mRecv t))"
    using t cap by (auto simp: sizeof_NET_CMD_def)
  show ?thesis
    using recv_at_ok [OF assms(2,3) room]
  proof cases
    case (1 r t')
    define t1 where "t1 = upd_recv (hasRecvLen_update (\<lambda>n. n + nat r)) t'"
    have t1: "length (buff (mRecv t1)) = cap" "bProcHead (mRecv t1)" "hasRecvLen (mRecv t1) = ?h + nat r"
      "forget t1 = forget t" "recv_plan (mSock t1) = k' # ks" "incoming (mSock t1) = incoming (mSock t')"
      "buff (mRecv t1) = buff (mRecv t')"
      using 1 t(1) True by (simp_all add: t1_def)
    have u: "take (?h + nat r) (buff (mRecv t1)) @ incoming (mSock t1) = unread t"
      using 1 t t1 by simp
    have run: "read_packet act t =
      (if 0 < r \<and> hasRecvLen (mRecv t1) = sizeof_NET_CMD then
         recv_body act (upd_recv (\<lambda>b. b\<lparr>recvTotal := sint (get32 (buff (mRecv t1)) 12), bProcHead := False, hasRecvLen := 0\<rparr>) t1)
       else Inr (r, t1))"
      using 1(1) True t1(1) cap by (simp add: read_packet_def Let_def load32_def t1_def upd_recv_def)
    show ?thesis
    proof (cases "0 < r \<and> ?h + nat r = 16")
      case False
      then have "?h + nat r < 16"
        using 1 t by (auto simp: sizeof_NET_CMD_def)
      then have "receiving cap t1" "unread t1 = unread t"
        using t1 u by (auto simp: receiving_def unread_def [of t1] buffered_def [of t1])
      then have "pending ps t1"
        using pending_more assms(1) t1 by blast
      moreover have "view t1 = view t"
        by (rule view_forget [OF t1(4)])
      ultimately have "progress ps t r t1 ps"
        using 1(10) t1(6) unfolding progress_def by auto
      moreover have "read_packet act t = Inr (r, t1)"
        using run False t1(3) by (simp add: sizeof_NET_CMD_def)
      ultimately show ?thesis
        using t1(5) by blast
    next
      case True
      define t2 where "t2 = upd_recv (\<lambda>b. b\<lparr>recvTotal := sint (get32 (buff (mRecv t1)) 12), bProcHead := False, hasRecvLen := 0\<rparr>) t1"
      have t2: "length (buff (mRecv t2)) = cap" "\<not> bProcHead (mRecv t2)" "hasRecvLen (mRecv t2) = 0"
        "recvTotal (mRecv t2) = sint (get32 (buff (mRecv t1)) 12)" "buff (mRecv t2) = buff (mRecv t1)"
        "forget t2 = forget t" "recv_plan (mSock t2) = k' # ks" "incoming (mSock t2) = incoming (mSock t1)"
        using t1 by (simp_all add: t2_def)
      have u2: "take 16 (buff (mRecv t2)) @ incoming (mSock t2) = unread t"
        using u True t2 by simp
      moreover have "16 \<le> length (buff (mRecv t2))"
        using t2 cap by simp
      ultimately have l: "16 \<le> length (unread t)"
        by (metis le_add1 length_append length_take min.absorb2)
      then obtain p qs where ps: "ps = p # qs"
        using assms(1) by (cases ps) (auto simp: pending_def)
      then have p: "framed cap p" "unread t = p @ concat qs"
        using assms(1) by (auto simp: pending_def)
      have g: "get32 (buff (mRecv t2)) 12 = get32 p 12"
      proof (rule get32_take [of 16])
        have "take 16 (unread t) = take 16 (buff (mRecv t2))"
          unfolding u2 [symmetric] using \<open>16 \<le> length (buff (mRecv t2))\<close> by simp
        then show "take 16 (buff (mRecv t2)) = take 16 p"
          using p by (simp add: framed_def)
      qed (use \<open>16 \<le> length (buff (mRecv t2))\<close> p in \<open>auto simp: framed_def\<close>)
      have "unat (get32 p 12) < 2 ^ 31"
        using p(1) cap by (auto simp: framed_def)
      then have "recvTotal (mRecv t2) = int (unat (get32 p 12))"
        using sint_unat g t2(4,5) by metis
      moreover have "int (unat (get32 p 12)) = int (length p) - 16"
        using p(1) unfolding framed_def by linarith
      ultimately have "recvTotal (mRecv t2) = int (length p) - 16"
        by (rule trans)
      then have "receiving cap t2" "unread t2 = unread t"
        using t2 u2 p(1) g by (auto simp: receiving_def framed_def unread_def [of t2] buffered_def [of t2])
      then have "pending ps t2"
        using pending_more assms(1) t2 by blast
      then obtain r' t3 ps' where t3: "recv_body act t2 = Inr (r', t3)" "progress ps t2 r' t3 ps'"
          "recv_plan (mSock t3) = ks"
        using recv_body_step [OF _ t2(2,7) assms(4)] by (fastforce simp: progress_def)
      have "length (incoming (mSock t2)) < length (incoming (mSock t))"
        using 1 True t2 t1 by auto
      then have "progress ps t r' t3 ps'"
        using t3(2) view_forget [OF t2(6)] unfolding progress_def by auto
      moreover have "read_packet act t = recv_body act t2"
        using run True t1(3) by (simp add: sizeof_NET_CMD_def t2_def)
      ultimately show ?thesis
        using t3 by auto
    qed
  qed
qed

lemma pending_drained:
  assumes "pending ps t" "incoming (mSock t) = []"
  shows "ps = [] \<and> ready t"
proof -
  have rx: "receiving cap t" and "take (buffered t) (buff (mRecv t)) = concat ps"
    using assms by (simp_all add: pending_def unread_def)
  moreover have "buffered t < length (buff (mRecv t))"
    using buffered_less [OF rx] cap rx by (simp add: receiving_def)
  ultimately have l: "length (concat ps) = buffered t"
    by (metis length_take less_imp_le_nat min.absorb2)
  have "ps = []"
  proof (cases "bProcHead (mRecv t)")
    case True
    then have "length (concat ps) < 16"
      using l rx by (simp add: receiving_def buffered_def)
    then show ?thesis
      using assms(1) by (cases ps) (auto simp: pending_def framed_def)
  next
    case False
    obtain p qs where p: "ps = p # qs" "framed cap p" "recvTotal (mRecv t) = int (length p) - 16"
      using pending_head [OF assms(1) False] .
    then have "16 + hasRecvLen (mRecv t) < length p"
      using rx False by (auto simp: receiving_def)
    then show ?thesis
      using l p(1) False by (simp add: buffered_def)
  qed
  then show ?thesis
    using l by (auto simp: ready_def buffered_def split: if_splits)
qed

theorem read_packets_ok:
  assumes "pending ps t" "\<forall>k \<in> set (recv_plan (mSock t)). 0 < k"
    and "2 * n \<le> length (recv_plan (mSock t))" "length (incoming (mSock t)) \<le> n"
  shows "\<exists>t'. read_packets act n t = Inr t' \<and> view t' = fold upd ps (view t) \<and> ready t' \<and>
    incoming (mSock t') = []"
  using assms
proof (induction n arbitrary: ps t)
  case 0
  then show ?case
    using pending_drained [of ps t] by simp
next
  case (Suc n)
  obtain k k' ks where plan: "recv_plan (mSock t) = k # k' # ks"
    using Suc.prems(3) by (cases "recv_plan (mSock t)"; cases "tl (recv_plan (mSock t))") auto
  then obtain r t' ps' where run: "read_packet act t = Inr (r, t')" and p: "progress ps t r t' ps'"
      and ks: "recv_plan (mSock t') \<in> {k' # ks, ks}"
    using read_packet_step [OF Suc.prems(1) plan] Suc.prems(2) by auto
  show ?case
  proof (cases "r = 0")
    case True
    then have "ps' = [] \<and> ready t'"
      using p True pending_drained [of ps' t'] by (simp add: progress_def)
    then show ?thesis
      using run True p by (simp add: progress_def)
  next
    case False
    have "length (incoming (mSock t')) \<le> n"
      using p Suc.prems(4) by (auto simp: progress_def)
    then show ?thesis
      using Suc.IH [of ps' t'] run False p ks plan Suc.prems(2,3) by (auto simp: progress_def)
  qed
qed

end

end
