(* ===== verification/NetProps.thy ===== *)
theory NetProps
  imports Packet
begin

text \<open>The properties of the text protocol (\<open>net_protocol.c\<close>).\<close>

lemma pos_mod_bound_nat: "1 < b \<Longrightarrow> n mod b < b" for n b :: nat
  by simp

section \<open>Searching and printing\<close>

lemma str_prefix_eq: "length what \<le> length m \<Longrightarrow> str_prefix what m = Inr (take (length what) m = what)"
  by (induction what m rule: str_prefix.induct) auto

lemma strstr_first:
  assumes "0 \<notin> set pre" "\<forall>i < length pre. take (length what) (drop i (pre @ what)) \<noteq> what"
  shows "strstr (pre @ what @ rest) what = Inr (Some (length pre))"
  using assms
proof (induction pre)
  case Nil
  have "str_prefix what (what @ rest) = Inr True"
    by (simp add: str_prefix_eq)
  then show ?case
    by (cases "what @ rest") simp_all
next
  case (Cons c pre)
  have "take (length what) (c # pre @ what) \<noteq> what"
    using Cons.prems(2) by (metis append_Cons drop0 length_greater_0_conv list.distinct(1))
  moreover have "take (length what) (c # pre @ what @ rest) = take (length what) (c # pre @ what)"
    using take_append [of "length what" "c # pre @ what" rest] by simp
  ultimately have "str_prefix what (c # pre @ what @ rest) = Inr False"
    using str_prefix_eq [of what "c # pre @ what @ rest"] by simp
  moreover have "\<forall>i < length pre. take (length what) (drop i (pre @ what)) \<noteq> what"
    using Cons.prems(2) by (metis Suc_mono append_Cons drop_Suc_Cons length_Cons)
  ultimately show ?case
    using Cons by simp
qed

lemma scan_quote_first: "34 \<notin> set xs \<Longrightarrow> scan_quote (xs @ 34 # ys) = Inr (length xs)"
  by (induction xs) auto

lemma digit_range: "d < 16 \<Longrightarrow> 48 \<le> unat (digit d) \<and> unat (digit d) \<le> 102"
proof -
  assume "d < 16"
  then have "digit d = of_nat (if d < 10 then 48 + d else 87 + d)" "(if d < 10 then 48 + d else 87 + d) < 2 ^ 8"
    by (auto simp: digit_def)
  then have "unat (digit d) = (if d < 10 then 48 + d else 87 + d)"
    by (simp add: unat_of_nat)
  then show ?thesis
    using \<open>d < 16\<close> by auto
qed

lemma digits_range:
  assumes "1 < b" "b \<le> 16" "c \<in> set (digits b n)"
  shows "48 \<le> unat c \<and> unat c \<le> 102"
  using assms
proof (induction b n rule: digits.induct)
  case (1 b n)
  have "c = digit n \<and> n < b \<or> c \<in> set (digits b (n div b)) \<and> \<not> n < b \<or> c = digit (n mod b)"
    using 1(2,4) by (subst (asm) digits.simps) (auto split: if_splits)
  moreover have "n mod b < 16"
    using pos_mod_bound_nat [of b n] 1(2,3) by linarith
  ultimately show ?case
    using 1 digit_range by (elim disjE conjE) (simp_all add: digit_range)
qed

lemma length_digits:
  assumes "1 < b" "n < b ^ k" "0 < k"
  shows "0 < length (digits b n) \<and> length (digits b n) \<le> k"
  using assms
proof (induction k arbitrary: n)
  case (Suc k)
  show ?case
  proof (cases "n < b")
    case True
    then have "digits b n = [digit n]"
      by (subst digits.simps) simp
    then show ?thesis
      by simp
  next
    case False
    then have "0 < k"
      using Suc.prems by (cases k) auto
    moreover have "n div b < b ^ k"
      using Suc.prems by (simp add: less_mult_imp_div_less mult.commute)
    moreover have "digits b n = digits b (n div b) @ [digit (n mod b)]"
      using False Suc.prems(1) by (subst digits.simps) simp
    ultimately show ?thesis
      using Suc.IH [of "n div b"] Suc.prems(1) by simp
  qed
qed simp

lemma length_pad: "length xs \<le> w \<Longrightarrow> length (pad w xs) = w"
  by (simp add: pad_def)

definition printable :: "byte list \<Rightarrow> bool" where
  "printable xs \<longleftrightarrow> (\<forall>c \<in> set xs. 48 \<le> unat c \<and> unat c \<le> 102)"

lemma printable_digits: "1 < b \<Longrightarrow> b \<le> 16 \<Longrightarrow> printable (digits b n)"
  unfolding printable_def using digits_range by blast

lemma printable_pad: "printable xs \<Longrightarrow> printable (pad w xs)"
  unfolding printable_def pad_def by auto

lemma printable_not_0: "printable xs \<Longrightarrow> 0 \<notin> set xs"
  unfolding printable_def by force

text \<open>What \<open>%04d\<close> and \<open>%04x\<close> print for numbers that fit.\<close>

lemma fmt_0d_4:
  assumes "0 \<le> i" "i < 10000"
  shows "length (fmt_0d 4 i) = 4 \<and> 0 \<notin> set (fmt_0d 4 i)"
proof -
  have "nat i < 10 ^ 4"
    using assms by simp
  then have "length (digits 10 (nat i)) \<le> 4"
    using length_digits [of 10 "nat i" 4] by simp
  then have "length (pad 4 (digits 10 (nat i))) = 4"
    by (rule length_pad)
  moreover have "0 \<notin> set (pad 4 (digits 10 (nat i)))"
    by (intro printable_not_0 printable_pad printable_digits) simp_all
  ultimately show ?thesis
    using assms(1) by (simp add: fmt_0d_def)
qed

lemma fmt_0x_4:
  assumes "0 \<le> i" "i < 65536"
  shows "length (fmt_0x 4 i) = 4 \<and> printable (fmt_0x 4 i)"
proof -
  have "nat (i mod 4294967296) < 16 ^ 4"
    using assms by simp
  then have "length (digits 16 (nat (i mod 4294967296))) \<le> 4"
    using length_digits [of 16 "nat (i mod 4294967296)" 4] by simp
  then show ?thesis
    unfolding fmt_0x_def by (intro conjI length_pad printable_pad printable_digits) simp_all
qed

text \<open>
  C20: \<open>PROTO_GetValueByName\<close> finds the attribute whose name occurs first after the head, copies
  its value whatever its length, also over the end of the caller's array, and reports one less
  than the number of bytes it copied.
\<close>

theorem get_value_by_name:
  assumes "length head = 16" "0 \<notin> set pre" "34 \<notin> set val"
    and "\<forall>i < length pre. take (length name) (drop i (pre @ name)) \<noteq> name"
  shows "PROTO_GetValueByName (head @ pre @ name @ [61, 34] @ val @ 34 # rest) name out =
    (if length val \<le> length out then Inr (1, val @ drop (length val) out, int (length val) - 1)
     else Inl Out_of_bounds)"
proof -
  let ?ptr = "pre @ name @ [61, 34] @ val @ 34 # rest"
  have "strstr ?ptr name = Inr (Some (length pre))"
    using strstr_first [OF assms(2,4)] .
  moreover have "load ?ptr (length pre + length name) 1 = Inr [61]"
    by (simp add: load_def)
  moreover have "drop (length pre + length name + 2) ?ptr = val @ 34 # rest"
    by simp
  ultimately show ?thesis
    using assms(1,3) by (simp add: PROTO_GetValueByName_def Let_def scan_quote_first store_def)
qed

theorem get_value_by_name_witness:
  "PROTO_GetValueByName (replicate 16 0 @ str ''<c '' @ str ''name'' @ [61, 34] @ str ''1'' @ 34 # [0]) (str ''name'') [9, 9] =
    Inr (1, str ''1'' @ [9], 0)"
  using get_value_by_name [of "replicate 16 0" "str ''<c ''" "str ''1''" "str ''name''" "[0]" "[9, 9]"]
  by (simp add: str_def ch_def less_Suc_eq numeral_3_eq_3)

lemma bnd_oob:
  "(\<And>e. X = Inl e \<Longrightarrow> e = Out_of_bounds) \<Longrightarrow> (\<And>x. X = Inr x \<Longrightarrow> f x = Inl Out_of_bounds) \<Longrightarrow>
    bnd X f = Inl Out_of_bounds"
  by (cases X) auto

lemma store_fault: "store m p xs = Inl e \<Longrightarrow> e = Out_of_bounds"
  by (auto simp: store_def split: if_splits)

lemma load_fault: "load m p n = Inl e \<Longrightarrow> e = Out_of_bounds"
  by (auto simp: load_def split: if_splits)

lemma int2hex2str_fault: "int2hex2str m v w = Inl e \<Longrightarrow> e = Out_of_bounds"
  by (auto simp: int2hex2str_def store_def split: if_splits)

text \<open>
  \<open>PROTO_AddOneItem\<close> never succeeds on arguments it accepts: printing the six digits of the
  value's length and a NUL writes past the end of \<open>acLen\<close>, which has five bytes.
\<close>

theorem add_one_item_overflows:
  assumes "4 \<le> plen s" "pmsg s = Some m" "terminated name" "length (c_str name) \<le> 0xFF"
    and "0 \<le> n" "n \<le> 0xFFFFFF"
  shows "PROTO_AddOneItem (Some name) v n s = Inl Out_of_bounds"
proof -
  have "6 \<le> length (fmt_0x 6 n)"
    by (simp add: fmt_0x_def pad_def)
  then have over: "int2hex2str (replicate 5 0) n 6 = Inl Out_of_bounds"
    by (simp add: int2hex2str_def store_def)
  show ?thesis
    using assms strlen_ok [OF assms(3)]
    by (auto simp: PROTO_AddOneItem_def PROTOCOL_LOAD_LENGTH_def over intro!: bnd_oob
        dest: int2hex2str_fault load_fault store_fault)
qed

theorem add_one_item_overflows_witness:
  "PROTO_AddOneItem (Some (str ''Ret'' @ [0])) (Some (str ''1'' @ [0])) 1
     \<lparr>pmsg = Some (replicate 64 0), plen = 16, ptotal = 64\<rparr> = Inl Out_of_bounds"
  by (rule add_one_item_overflows [of _ "replicate 64 0"])
    (simp_all add: terminated_def c_str_def str_def ch_def)

text \<open>
  \<open>PROTO_MakeDataHead\<close> writes the version, the command as four decimal digits and a length of
  four zeros at offset 8, clears the rest of the message, and sets its length to that of a head.
\<close>

theorem make_data_head:
  assumes "0 \<le> cmd" "cmd < 10000" "pmsg s = Some p" "ptotal s = int (length p)" "12 \<le> length p"
    and "length p < 2 ^ 31"
  shows "PROTO_MakeDataHead cmd s =
    Inr (16, s\<lparr>pmsg := Some (str ''0100'' @ fmt_0d 4 cmd @ str ''0000'' @ replicate (length p - 12) 0), plen := 16\<rparr>)"
proof -
  have cmd: "length (fmt_0d 4 cmd) = 4" "0 \<notin> set (fmt_0d 4 cmd)"
    using fmt_0d_4 [OF assms(1,2)] by auto
  have ac: "int2str (replicate 5 0) cmd 4 = Inr (4, fmt_0d 4 cmd @ [0])"
    using cmd by (simp add: int2str_def store_def)
  have len: "strlen (fmt_0d 4 cmd @ [0]) = Inr 4"
    using strlen_append [OF cmd(2), of "[]"] cmd(1) by simp
  have zero: "fmt_0x 4 0 = str ''0000''"
  proof -
    have "digits 16 0 = [48]"
      by (subst digits.simps) (simp add: digit_def)
    then show ?thesis
      by (simp add: fmt_0x_def pad_def str_def ch_def numeral_3_eq_3)
  qed
  have al: "int2hex2str (replicate 7 0) 0 4 = Inr (4, str ''0000'' @ replicate 3 0)"
    by (simp add: int2hex2str_def zero store_def str_def ch_def numeral_3_eq_3)
  have p0: "store p 0 (replicate (size_of (ptotal s)) 0) = Inr (replicate (length p) 0)"
    using assms(4,6) by (simp add: size_of_nonneg store_def)
  let ?m1 = "str ''0100'' @ replicate (length p - 4) 0"
  let ?m2 = "str ''0100'' @ fmt_0d 4 cmd @ replicate (length p - 8) 0"
  have l: "length (str ''0100'') = 4" "length (str ''0000'') = 4"
    by (simp_all add: str_def)
  have p1: "store (replicate (length p) 0) 0 (str ''0100'') = Inr ?m1"
    using assms(5) by (simp add: store_def l)
  have p2: "store ?m1 4 (fmt_0d 4 cmd) = Inr ?m2"
    using assms(5) cmd by (simp add: store_def l)
  have p3: "store ?m2 8 (str ''0000'') = Inr (str ''0100'' @ fmt_0d 4 cmd @ str ''0000'' @ replicate (length p - 12) 0)"
    using assms(5) cmd by (simp add: store_def l)
  have "load (fmt_0d 4 cmd @ [0]) 0 4 = Inr (fmt_0d 4 cmd)" "load (str ''0000'' @ replicate 3 0) 0 4 = Inr (str ''0000'')"
    using cmd l by (simp_all add: load_def)
  then show ?thesis
    unfolding PROTO_MakeDataHead_def Let_def PROTOCOL_CMD_LENGTH_def PROTOCOL_VERSION_def PROTOCOL_VERSION_LENGTH_def
      PROTOCOL_LOAD_LENGTH_def PROTOCOL_HEAD_LENGTH_def
    using assms(3) by (simp add: ac len al p0 p1 p2 p3 del: replicate.simps append_replicate_commute)
qed

theorem make_data_head_witness:
  "PROTO_MakeDataHead 4 \<lparr>pmsg = Some (replicate 64 7), plen = 0, ptotal = 64\<rparr> =
    Inr (16, \<lparr>pmsg = Some (str ''0100'' @ fmt_0d 4 4 @ str ''0000'' @ replicate 52 0), plen = 16, ptotal = 64\<rparr>)"
  using make_data_head [of 4 "\<lparr>pmsg = Some (replicate 64 7), plen = 0, ptotal = 64\<rparr>" "replicate 64 7"] by simp

lemma get32_printable:
  assumes "printable (take 4 (drop p m))" "p + 4 \<le> length m"
  shows "808464432 \<le> unat (get32 m p) \<and> unat (get32 m p) \<le> 1717986918"
proof -
  have b: "48 \<le> unat (m ! (p + i)) \<and> unat (m ! (p + i)) \<le> 102" if "i < 4" for i
  proof -
    have "m ! (p + i) \<in> set (take 4 (drop p m))"
      using that assms(2) by (auto simp: in_set_conv_nth intro!: exI [of _ i])
    then show ?thesis
      using assms(1) unfolding printable_def by blast
  qed
  define n where "n = unat (m ! p) + 256 * unat (m ! (p + 1)) + 65536 * unat (m ! (p + 2)) + 16777216 * unat (m ! (p + 3))"
  have n: "808464432 \<le> n" "n \<le> 1717986918"
    using b [of 0] b [of 1] b [of 2] b [of 3] by (simp_all add: n_def)
  have "unat (word_of_nat n :: 32 word) = n"
    using n by (intro of_nat_inverse [OF refl]) simp
  then show ?thesis
    using n unfolding get32_def n_def [symmetric] by simp
qed

lemma put32_get32:
  assumes "p + 4 \<le> length m"
  shows "put32 (get32 m p) = take 4 (drop p m)"
proof -
  define a where "a i = unat (m ! (p + i))" for i
  have a: "a i < 256" for i
    using unsigned_less [of "m ! (p + i)"] by (simp add: a_def)
  define n where "n = a 0 + 256 * a 1 + 65536 * a 2 + 16777216 * a 3"
  have n: "n < 2 ^ 32"
    using a [of 0] a [of 1] a [of 2] a [of 3] by (simp add: n_def)
  then have un: "unat (word_of_nat n :: 32 word) = n"
    by (intro of_nat_inverse [OF refl]) simp
  have "n div 256 = a 1 + 256 * a 2 + 65536 * a 3" "n div 65536 = a 2 + 256 * a 3" "n div 16777216 = a 3"
    using a [of 0] a [of 1] a [of 2] a [of 3] unfolding n_def by linarith+
  then have "n = a 0 + 256 * (a 1 + 256 * a 2 + 65536 * a 3)" "n div 256 = a 1 + 256 * (a 2 + 256 * a 3)"
    "n div 65536 = a 2 + 256 * a 3" "n div 16777216 = a 3 + 256 * 0"
    by (simp_all add: n_def)
  then have d: "n mod 256 = a 0" "n div 256 mod 256 = a 1" "n div 65536 mod 256 = a 2" "n div 16777216 mod 256 = a 3"
    using a by (metis mod_less mod_mult_self2)+
  have byte: "(ucast (drop_bit k (word_of_nat n :: 32 word)) :: byte) = word_of_nat (n div 2 ^ k mod 256)" for k
  proof (rule word_unat_eq_iff [THEN iffD2])
    show "unat (ucast (drop_bit k (word_of_nat n :: 32 word)) :: byte) = unat (word_of_nat (n div 2 ^ k mod 256) :: byte)"
      unfolding unsigned_ucast_eq unsigned_drop_bit_eq un
      using n by (simp add: take_bit_eq_mod drop_bit_eq_div unat_of_nat)
  qed
  have "get32 m p = word_of_nat n"
    by (simp add: get32_def n_def a_def)
  then have "put32 (get32 m p) = [word_of_nat (a 0), word_of_nat (a 1), word_of_nat (a 2), word_of_nat (a 3)]"
    using byte [of 0] byte [of 8] byte [of 16] byte [of 24] d
    by (simp add: put32_def)
  also have "\<dots> = [m ! p, m ! (p + 1), m ! (p + 2), m ! (p + 3)]"
    by (simp add: a_def)
  also have "\<dots> = take 4 (drop p m)"
    using assms by (intro nth_equalityI) (auto simp: less_Suc_eq numeral_eq_Suc)
  finally show ?thesis .
qed

text \<open>
  the length that \<open>PROTO_SetDataPackLen\<close> stores as four hexadecimal digits is not what
  \<open>PROTO_GetPackDataLen\<close> reads from the same place as a binary number, whatever the byte order.
\<close>

theorem pack_len_not_read_back:
  assumes "16 \<le> length m" "0 \<le> len" "len < 65536"
  shows "\<exists>m' v. PROTO_SetDataPackLen m len = Inr (len, m') \<and> PROTO_GetPackDataLen le m' = Inr v \<and> v \<noteq> len"
proof -
  let ?xs = "fmt_0x 4 len"
  have xs: "length ?xs = 4" "printable ?xs"
    using fmt_0x_4 [OF assms(2,3)] by auto
  define m' where "m' = take 12 m @ ?xs @ drop 16 m"
  have st: "PROTO_SetDataPackLen m len = Inr (len, m')"
    using xs assms(1)
    by (simp add: PROTO_SetDataPackLen_def PROTOCOL_LOAD_LENGTH_def PROTOCOL_LOAD_OFFSET_def int2hex2str_def
        store_def load_def m'_def)
  have m': "take 4 (drop 12 m') = ?xs" "12 + 4 \<le> length m'"
    using xs assms(1) by (simp_all add: m'_def)
  let ?w = "get32 m' 12"
  have w: "808464432 \<le> unat ?w \<and> unat ?w \<le> 1717986918"
    using get32_printable [of 12 m'] m' xs(2) by simp
  have "ntohl ?w = get32 (rev ?xs) 0"
    using put32_get32 [OF m'(2)] m'(1) by (simp add: ntohl_def)
  moreover have "printable (take 4 (drop 0 (rev ?xs)))"
    using xs by (simp add: printable_def)
  ultimately have w': "808464432 \<le> unat (ntohl ?w) \<and> unat (ntohl ?w) \<le> 1717986918"
    using get32_printable [of 0 "rev ?xs"] xs(1) by simp
  define u where "u = (if le then ?w else ntohl ?w)"
  have u: "808464432 \<le> unat u" "unat u \<le> 1717986918"
    using w w' by (simp_all add: u_def)
  then have "sint u = int (unat u)"
    by (intro sint_unat) simp
  then have "sint u \<noteq> len"
    using u(1) assms(3) by linarith
  moreover have "PROTO_GetPackDataLen le m' = Inr (sint u)"
    using m'(2) by (simp add: PROTO_GetPackDataLen_def load32_def u_def)
  ultimately show ?thesis
    using st by blast
qed

theorem pack_len_not_read_back_witness:
  "\<exists>m' v. PROTO_SetDataPackLen (replicate 16 0) 17 = Inr (17, m') \<and> PROTO_GetPackDataLen True m' = Inr v \<and> v \<noteq> 17"
  by (rule pack_len_not_read_back) simp_all

end
