(* ===== verification/FileSend.thy ===== *)
theory FileSend
  imports Packet ThreadQueue Event
begin

text \<open>
  \<open>TaskFileSend\<close>: the server's side of a file download. The file is a list of bytes and a
  position, \<open>None\<close> when \<open>fopen\<close> failed. The members that are never read (\<open>mInBuffer\<close>,
  \<open>mRecvDataLen\<close>, \<open>mRecvHeadLen\<close>) are left out.
\<close>

definition BUFFER_LEN :: nat where "BUFFER_LEN = 1024 * 1024"
definition OWN_SOCK_EXIT :: int where "OWN_SOCK_EXIT = - 1528"

section \<open>The send buffer\<close>

text \<open>\<open>tagFileSendBuffer\<close>; \<open>sendMem\<close> is the block \<open>data\<close> points to.\<close>

record tagFileSendBuffer =
  bSendCmd :: bool
  hasSendLen :: int
  sendTotal :: int
  sendCmd :: "byte list"
  dataLen :: int
  sendMem :: "byte list option"

definition tagFileSendBuffer_new :: tagFileSendBuffer where
  "tagFileSendBuffer_new = \<lparr>bSendCmd = True, hasSendLen = 0, sendTotal = 0, sendCmd = replicate CMD_LEN 0,
     dataLen = 0, sendMem = None\<rparr>"

definition tagFileSendBuffer_reset :: "tagFileSendBuffer \<Rightarrow> tagFileSendBuffer" where
  "tagFileSendBuffer_reset b = b\<lparr>sendCmd := replicate CMD_LEN 0, hasSendLen := 0, sendTotal := 0,
     dataLen := 0, bSendCmd := True\<rparr>"

text \<open>The only caller clears the block at once, so what \<open>malloc\<close> leaves in it does not matter.\<close>

definition tagFileSendBuffer_createMem :: "nat \<Rightarrow> tagFileSendBuffer \<Rightarrow> tagFileSendBuffer" where
  "tagFileSendBuffer_createMem len b =
     (case sendMem b of None \<Rightarrow> b\<lparr>sendMem := Some (replicate len 0)\<rparr> | Some m \<Rightarrow> b)"

definition tagFileSendBuffer_releaseMem :: "tagFileSendBuffer \<Rightarrow> tagFileSendBuffer" where
  "tagFileSendBuffer_releaseMem b = b\<lparr>sendMem := None\<rparr>"

definition tagFileSendBuffer_setToVideo :: "tagFileSendBuffer \<Rightarrow> tagFileSendBuffer" where
  "tagFileSendBuffer_setToVideo b = b\<lparr>bSendCmd := False, hasSendLen := 0, sendTotal := dataLen b\<rparr>"

section \<open>The task\<close>

record file_send = task +
  mSend :: tagFileSendBuffer
  mpFile :: "byte list option"
  mFilePos :: nat
  mFileLen :: "32 word"
  mHasReadLen :: "32 word"
  mFrameCount :: int
  mbSendingData :: bool
  mMsgQueue :: "int list"

definition upd_send :: "(tagFileSendBuffer \<Rightarrow> tagFileSendBuffer) \<Rightarrow> file_send \<Rightarrow> file_send" where
  "upd_send f t = t\<lparr>mSend := f (mSend t)\<rparr>"

text \<open>Bytes written over the command at the start of the send buffer.\<close>

definition set_command :: "byte list \<Rightarrow> file_send \<Rightarrow> file_send outcome" where
  "set_command xs t =
     bnd (store (sendCmd (mSend t)) 0 xs) (\<lambda>m. Inr (upd_send (\<lambda>b. b\<lparr>sendCmd := m\<rparr>) t))"

definition TaskFileSend_tcpSendData :: "file_send \<Rightarrow> (int \<times> file_send) outcome" where
  "TaskFileSend_tcpSendData t =
     (let b = mSend t; p = nat (hasSendLen b); n = size_of (sendTotal b - hasSendLen b);
          count = (\<lambda>ret. upd_send (\<lambda>b. if ret > 0 then b\<lparr>hasSendLen := hasSendLen b + ret\<rparr> else b))
      in if bSendCmd b then
           bnd (load (sendCmd b) p n) (\<lambda>xs.
           bnd (task_sendEx xs t) (\<lambda>(ret, t).
           let t = count ret t
           in Inr (ret, if hasSendLen (mSend t) = sendTotal (mSend t)
                then upd_send tagFileSendBuffer_setToVideo t else t)))
         else case sendMem b of
           None \<Rightarrow> Inl Null_deref
         | Some m \<Rightarrow>
           bnd (load m p n) (\<lambda>xs.
           bnd (task_sendEx xs t) (\<lambda>(ret, t).
           let t = count ret t
           in Inr (ret, if hasSendLen (mSend t) = sendTotal (mSend t)
                then upd_send tagFileSendBuffer_reset t else t))))"

definition simple_cmd :: "int \<Rightarrow> int \<Rightarrow> byte list" where
  "simple_cmd iVal index = put_cmd \<lparr>dwFlag = NET_FLAG, dwCmd = word_of_int iVal, dwIndex = word_of_int index, dwLength = 0\<rparr>"

definition TaskFileSend_sendVariedCmd :: "int \<Rightarrow> file_send \<Rightarrow> (int \<times> file_send) outcome" where
  "TaskFileSend_sendVariedCmd iVal t =
     bnd (set_command (simple_cmd iVal 0) t) (\<lambda>t.
     TaskFileSend_tcpSendData (upd_send (\<lambda>b. b\<lparr>sendTotal := int sizeof_NET_CMD, bSendCmd := True\<rparr>) t))"

definition TaskFileSend_pushSendCmd :: "int \<Rightarrow> int \<Rightarrow> file_send \<Rightarrow> (int \<times> file_send) outcome" where
  "TaskFileSend_pushSendCmd iVal index t =
     (if iVal \<in> {MODULE_MSG_DATAEND, MODULE_MSG_SEEK_CMPD, MODULE_MSG_SECTION_END, MODULE_MSG_EXERET} then
        bnd (set_command (simple_cmd iVal index) t) (\<lambda>t.
        TaskFileSend_tcpSendData (upd_send (\<lambda>b. b\<lparr>sendTotal := int sizeof_NET_CMD, bSendCmd := True\<rparr>) t))
      else if iVal = MODULE_MSG_PING then
        Inr (0, if gqueue_getSize (mMsgQueue t) < 10
                then t\<lparr>mMsgQueue := gqueue_push MODULE_MSG_PING (mMsgQueue t)\<rparr> else t)
      else Inr (0, t))"

text \<open>The constructor; \<open>st_size\<close> is what \<open>stat\<close> says.\<close>

definition TaskFileSend_new :: "sock \<Rightarrow> byte list option \<Rightarrow> nat \<Rightarrow> file_send outcome" where
  "TaskFileSend_new s content st_size =
     (let t = \<lparr>mSock = s, mRecv = tagRecvBuffer_reset \<lparr>buff = [], bProcHead = True, hasRecvLen = 0, recvTotal = 0\<rparr>,
               addEvents = [], mSend = tagFileSendBuffer_reset tagFileSendBuffer_new,
               mpFile = content, mFilePos = 0, mFileLen = word_of_nat st_size, mHasReadLen = 0,
               mFrameCount = 0, mbSendingData = True, mMsgQueue = []\<rparr>;
          head = put_cmd \<lparr>dwFlag = NET_FLAG, dwCmd = word_of_int MODULE_MSG_LOGINRET, dwIndex = 0,
                          dwLength = word_of_nat sizeof_LOGIN_RET\<rparr>;
          loginRet = put_login_ret ERR_NOERROR (put_file_info (mFileLen t))
      in bnd (set_command (head @ loginRet) t) (\<lambda>t.
         bnd (TaskFileSend_tcpSendData (upd_send (\<lambda>b. b\<lparr>sendTotal := int (sizeof_NET_CMD + sizeof_LOGIN_RET),
                bSendCmd := True\<rparr>) t)) (\<lambda>(ret, t). Inr t)))"

text \<open>The part of \<open>writeBuffer\<close> that prepares the next piece of the file.\<close>

definition TaskFileSend_next_frame :: "file_send \<Rightarrow> file_send outcome" where
  "TaskFileSend_next_frame t =
     (let iLeftLen = mFileLen t - mHasReadLen t;
          iBuffLen = (if unat iLeftLen > BUFFER_LEN then BUFFER_LEN else unat iLeftLen);
          t = upd_send (\<lambda>b. tagFileSendBuffer_createMem iBuffLen
                (b\<lparr>sendTotal := int (sizeof_NET_CMD + sizeof_FILE_GET), bSendCmd := True\<rparr>)) t
      in case (sendMem (mSend t), mpFile t) of
           (Some m, Some file) \<Rightarrow>
             bnd (store m 0 (replicate iBuffLen 0)) (\<lambda>m.
             let xs = take iBuffLen (drop (mFilePos t) file);
                 dwPos = word_of_nat (mFilePos t)
             in bnd (store m 0 xs) (\<lambda>m.
                bnd (set_command (put_cmd \<lparr>dwFlag = NET_FLAG, dwCmd = word_of_int MODULE_MSG_VIDEO, dwIndex = 0,
                        dwLength = word_of_nat (length xs + sizeof_FILE_GET)\<rparr> @ put_file_get dwPos (int (length xs)))
                      (upd_send (\<lambda>b. b\<lparr>sendMem := Some m, dataLen := int (length xs)\<rparr>) t)) (\<lambda>t.
                Inr (t\<lparr>mFilePos := mFilePos t + length xs,
                       mHasReadLen := mHasReadLen t + word_of_nat (length xs),
                       mFrameCount := mFrameCount t + 1\<rparr>))))
         | _ \<Rightarrow> Inl Null_deref)"

definition TaskFileSend_writeBuffer :: "file_send \<Rightarrow> (int \<times> file_send) outcome" where
  "TaskFileSend_writeBuffer t =
     (if sendTotal (mSend t) = 0 then
        if mHasReadLen t < mFileLen t then
          if gqueue_getSize (mMsgQueue t) > 0 then
            let (val, q) = gqueue_try_pop (mMsgQueue t)
            in TaskFileSend_sendVariedCmd (case val of None \<Rightarrow> 0 | Some v \<Rightarrow> v) (t\<lparr>mMsgQueue := q\<rparr>)
          else if \<not> mbSendingData t then Inr (0, t)
          else bnd (TaskFileSend_next_frame t) TaskFileSend_tcpSendData
        else bnd (TaskFileSend_pushSendCmd MODULE_MSG_DATAEND 0 t) (\<lambda>(ret, t). Inr (OWN_SOCK_EXIT, t))
      else TaskFileSend_tcpSendData t)"

text \<open>
  The commands of the client. \<open>attribute\<close> is \<open>PROTO_GetValueByName\<close> on the receive buffer into a
  cleared \<open>acValue[256]\<close>.
\<close>

definition attribute :: "string \<Rightarrow> 'a task_scheme \<Rightarrow> (byte list \<times> int) outcome" where
  "attribute name t =
     bnd (PROTO_GetValueByName (buff (mRecv t)) (str name) (replicate 256 0)) (\<lambda>(ret, acValue, lValueLen).
     Inr (acValue, lValueLen))"

definition value_is :: "byte list \<Rightarrow> string \<Rightarrow> bool" where
  "value_is acValue s \<longleftrightarrow> c_str acValue = str s"

definition request_write :: "'a task_scheme \<Rightarrow> 'a task_scheme" where
  "request_write t = t\<lparr>addEvents := addEvents t @ [EV_WRITE]\<rparr>"

definition TaskFileSend_handle :: "int \<Rightarrow> file_send \<Rightarrow> (int \<times> file_send) outcome" where
  "TaskFileSend_handle ret t =
     bnd (load32 (buff (mRecv t)) 4) (\<lambda>cmd.
     bnd (if uint cmd = MODULE_MSG_CONTROL_PLAY then
            bnd (attribute ''name'' t) (\<lambda>(v, l).
            if value_is v ''start'' then
              bnd (attribute ''tmstart'' t) (\<lambda>_.
              bnd (attribute ''tmend'' t) (\<lambda>_. Inr (request_write t)))
            else if value_is v ''setpause'' then
              bnd (attribute ''value'' t) (\<lambda>_. Inr t)
            else if value_is v ''send'' then Inr (request_write (t\<lparr>mbSendingData := True\<rparr>))
            else Inr t)
          else Inr t) (\<lambda>t.
     Inr (ret, upd_recv tagRecvBuffer_reset t)))"

definition TaskFileSend_recvPackData :: "file_send \<Rightarrow> (int \<times> file_send) outcome" where
  "TaskFileSend_recvPackData = recv_body TaskFileSend_handle"

definition TaskFileSend_readBuffer :: "file_send \<Rightarrow> (int \<times> file_send) outcome" where
  "TaskFileSend_readBuffer = read_packet TaskFileSend_handle"

text \<open>The event loop calls \<open>writeBuffer\<close> until it returns 0 or asks for the session to be closed.\<close>

fun TaskFileSend_writes :: "nat \<Rightarrow> file_send \<Rightarrow> (int \<times> file_send) outcome" where
  "TaskFileSend_writes 0 t = Inl Out_of_fuel"
| "TaskFileSend_writes (Suc n) t =
     bnd (TaskFileSend_writeBuffer t) (\<lambda>(ret, t).
     if ret = 0 \<or> ret = OWN_SOCK_EXIT then Inr (ret, t) else TaskFileSend_writes n t)"

section \<open>Pieces of a file\<close>

text \<open>The pieces that are sent from position \<open>pos\<close> on.\<close>

function chunks :: "nat \<Rightarrow> byte list \<Rightarrow> (nat \<times> byte list) list" where
  "chunks pos xs = (if xs = [] then [] else
     (pos, take BUFFER_LEN xs) # chunks (pos + length (take BUFFER_LEN xs)) (drop BUFFER_LEN xs))"
  by pat_completeness auto

termination chunks
  by (relation "measure (\<lambda>(pos, xs). length xs)") (auto simp: BUFFER_LEN_def)

declare chunks.simps [simp del]

lemma chunks_Nil [simp]: "chunks pos [] = []"
  by (simp add: chunks.simps)

lemma concat_chunks: "concat (map snd (chunks pos xs)) = xs"
proof (induction pos xs rule: chunks.induct)
  case (1 pos xs)
  then show ?case
    by (subst chunks.simps) simp
qed

lemma chunks_small: "(q, ys) \<in> set (chunks pos xs) \<Longrightarrow> 0 < length ys \<and> length ys \<le> BUFFER_LEN"
proof (induction pos xs rule: chunks.induct)
  case (1 pos xs)
  then show ?case
    by (subst (asm) (2) chunks.simps) (auto simp: BUFFER_LEN_def split: if_splits)
qed

section \<open>Sending the file\<close>

text \<open>Between two messages.\<close>

definition send_idle :: "file_send \<Rightarrow> bool" where
  "send_idle t \<longleftrightarrow> sendTotal (mSend t) = 0 \<and> hasSendLen (mSend t) = 0 \<and> length (sendCmd (mSend t)) = CMD_LEN"

lemma upd_send_simps [simp]:
  "mSend (upd_send f t) = f (mSend t)" "mSock (upd_send f t) = mSock t" "mpFile (upd_send f t) = mpFile t"
  "mFilePos (upd_send f t) = mFilePos t" "mFileLen (upd_send f t) = mFileLen t"
  "mHasReadLen (upd_send f t) = mHasReadLen t" "mbSendingData (upd_send f t) = mbSendingData t"
  "mMsgQueue (upd_send f t) = mMsgQueue t" "mRecv (upd_send f t) = mRecv t"
  by (simp_all add: upd_send_def)

text \<open>The same task but for its send buffer and its socket.\<close>

definition same_task :: "file_send \<Rightarrow> file_send \<Rightarrow> bool" where
  "same_task t t' \<longleftrightarrow> mpFile t' = mpFile t \<and> mFilePos t' = mFilePos t \<and> mFileLen t' = mFileLen t \<and>
     mHasReadLen t' = mHasReadLen t \<and> mbSendingData t' = mbSendingData t \<and> mMsgQueue t' = mMsgQueue t \<and>
     mRecv t' = mRecv t"

lemma size_of_int [simp]: "n < 2 ^ 31 \<Longrightarrow> size_of (int n) = n"
  by (simp add: size_of_nonneg)

lemma task_sendEx_accepting:
  assumes "accepting (length xs + n) (send_plan (mSock t))" "xs \<noteq> []"
  shows "\<exists>s'. task_sendEx xs t = Inr (int (length xs), t\<lparr>mSock := s'\<rparr>) \<and> sent s' = sent (mSock t) @ xs \<and>
    accepting n (send_plan s')"
  using sendEx_accepting [OF assms] by (auto simp: task_sendEx_def)

lemma send_command:
  assumes "bSendCmd (mSend t)" "hasSendLen (mSend t) = 0" "sendTotal (mSend t) = int (length xs)"
    and "length (sendCmd (mSend t)) = CMD_LEN" "take (length xs) (sendCmd (mSend t)) = xs" "xs \<noteq> []"
    and "length xs \<le> CMD_LEN" "accepting (length xs + n) (send_plan (mSock t))"
  shows "\<exists>t'. TaskFileSend_tcpSendData t = Inr (int (length xs), t') \<and> same_task t t' \<and>
    mSend t' = tagFileSendBuffer_setToVideo (mSend t) \<and>
    sent (mSock t') = sent (mSock t) @ xs \<and> accepting n (send_plan (mSock t'))"
proof -
  have "length xs < 2 ^ 31"
    using assms(7) by (simp add: CMD_LEN_def)
  then have "load (sendCmd (mSend t)) 0 (size_of (int (length xs))) = Inr xs"
    using assms(4,5,7) by (simp add: load_def)
  moreover obtain s' where "task_sendEx xs t = Inr (int (length xs), t\<lparr>mSock := s'\<rparr>)"
      "sent s' = sent (mSock t) @ xs" "accepting n (send_plan s')"
    using task_sendEx_accepting [OF assms(8,6)] by blast
  ultimately show ?thesis
    using assms(1-3,6)
    by (simp add: TaskFileSend_tcpSendData_def Let_def upd_send_def same_task_def tagFileSendBuffer_setToVideo_def)
qed

lemma send_data:
  assumes "\<not> bSendCmd (mSend t)" "hasSendLen (mSend t) = 0" "sendTotal (mSend t) = int (length xs)"
    and "sendMem (mSend t) = Some m" "take (length xs) m = xs" "xs \<noteq> []" "length xs < 2 ^ 31"
    and "accepting (length xs + n) (send_plan (mSock t))"
  shows "\<exists>t'. TaskFileSend_tcpSendData t = Inr (int (length xs), t') \<and> same_task t t' \<and>
    mSend t' = tagFileSendBuffer_reset (mSend t) \<and>
    sent (mSock t') = sent (mSock t) @ xs \<and> accepting n (send_plan (mSock t'))"
proof -
  have "length xs \<le> length m"
    using assms(5) by (metis length_take min.cobounded1)
  then have "load m 0 (size_of (int (length xs))) = Inr xs"
    using assms(5,7) by (simp add: load_def)
  moreover obtain s' where "task_sendEx xs t = Inr (int (length xs), t\<lparr>mSock := s'\<rparr>)"
      "sent s' = sent (mSock t) @ xs" "accepting n (send_plan s')"
    using task_sendEx_accepting [OF assms(8,6)] by blast
  ultimately show ?thesis
    using assms(1-4,6)
    by (simp add: TaskFileSend_tcpSendData_def Let_def upd_send_def same_task_def tagFileSendBuffer_reset_def)
qed

text \<open>What is left to send: \<open>mFileLen\<close> has the size of the file modulo \<open>2 ^ 32\<close>.\<close>

definition left_of :: "byte list \<Rightarrow> file_send \<Rightarrow> byte list" where
  "left_of file t = drop (mFilePos t) (take (length file mod 2 ^ 32) file)"

definition sending :: "byte list \<Rightarrow> file_send \<Rightarrow> bool" where
  "sending file t \<longleftrightarrow> send_idle t \<and> mpFile t = Some file \<and> mFileLen t = word_of_nat (length file) \<and>
     mFilePos t = unat (mHasReadLen t) \<and> mFilePos t \<le> length file mod 2 ^ 32 \<and> mMsgQueue t = [] \<and> mbSendingData t \<and>
     (case sendMem (mSend t) of None \<Rightarrow> True | Some m \<Rightarrow> min BUFFER_LEN (length (left_of file t)) \<le> length m)"

lemma sending_left:
  assumes "sending file t"
  shows "length (left_of file t) = length file mod 2 ^ 32 - mFilePos t"
    and "unat (mFileLen t) = length file mod 2 ^ 32"
    and "mHasReadLen t < mFileLen t \<longleftrightarrow> left_of file t \<noteq> []"
proof -
  show 1: "unat (mFileLen t) = length file mod 2 ^ 32"
    using assms by (simp add: sending_def unsigned_of_nat take_bit_eq_mod)
  have "length file mod 2 ^ 32 \<le> length file"
    by simp
  then show 2: "length (left_of file t) = length file mod 2 ^ 32 - mFilePos t"
    by (simp add: left_of_def min_def)
  show "mHasReadLen t < mFileLen t \<longleftrightarrow> left_of file t \<noteq> []"
    unfolding word_less_nat_alt 1 length_greater_0_conv [symmetric] 2
    using assms by (auto simp: sending_def)
qed

definition piece :: "byte list \<Rightarrow> file_send \<Rightarrow> byte list" where
  "piece file t = take BUFFER_LEN (left_of file t)"

definition frame_head :: "nat \<Rightarrow> byte list \<Rightarrow> byte list" where
  "frame_head pos xs =
     put_cmd \<lparr>dwFlag = NET_FLAG, dwCmd = word_of_int MODULE_MSG_VIDEO, dwIndex = 0,
       dwLength = word_of_nat (length xs + sizeof_FILE_GET)\<rparr> @ put_file_get (word_of_nat pos) (int (length xs))"

lemma length_frame_head [simp]: "length (frame_head pos xs) = 24"
  by (simp add: frame_head_def)

lemma next_frame:
  assumes "sending file t" "left_of file t \<noteq> []"
  shows "\<exists>t'. TaskFileSend_next_frame t = Inr t' \<and> mSock t' = mSock t \<and>
    bSendCmd (mSend t') \<and> hasSendLen (mSend t') = 0 \<and> sendTotal (mSend t') = 24 \<and>
    dataLen (mSend t') = int (length (piece file t)) \<and> length (sendCmd (mSend t')) = CMD_LEN \<and>
    take 24 (sendCmd (mSend t')) = frame_head (mFilePos t) (piece file t) \<and>
    (\<exists>m. sendMem (mSend t') = Some m \<and> take (length (piece file t)) m = piece file t \<and>
      min BUFFER_LEN (length (left_of file t)) \<le> length m) \<and>
    mpFile t' = mpFile t \<and> mFileLen t' = mFileLen t \<and> mMsgQueue t' = mMsgQueue t \<and> mbSendingData t' \<and>
    mFilePos t' = mFilePos t + length (piece file t) \<and>
    mHasReadLen t' = mHasReadLen t + word_of_nat (length (piece file t)) \<and> mRecv t' = mRecv t"
proof -
  let ?n = "length (piece file t)"
  have len: "?n = min BUFFER_LEN (length (left_of file t))"
    by (simp add: piece_def)
  have idle: "length (sendCmd (mSend t)) = CMD_LEN" "hasSendLen (mSend t) = 0"
    "mpFile t = Some file" "mbSendingData t"
    using assms(1) by (auto simp: sending_def send_idle_def)
  have "unat (mHasReadLen t) \<le> unat (mFileLen t)"
    using assms(1) sending_left [OF assms(1)] by (simp add: sending_def)
  then have "unat (mFileLen t - mHasReadLen t) = unat (mFileLen t) - unat (mHasReadLen t)"
    by (simp add: unat_sub word_le_nat_alt)
  then have n: "(if unat (mFileLen t - mHasReadLen t) > BUFFER_LEN then BUFFER_LEN
      else unat (mFileLen t - mHasReadLen t)) = ?n"
    unfolding len using assms(1) sending_left [OF assms(1)] by (auto simp: sending_def)
  have xs: "take ?n (drop (mFilePos t) file) = piece file t"
    unfolding len sending_left(1) [OF assms(1)]
    unfolding piece_def left_of_def drop_take take_take ..
  define m0 where "m0 = (case sendMem (mSend t) of None \<Rightarrow> replicate ?n 0 | Some m \<Rightarrow> m)"
  have m0: "?n \<le> length m0"
    using assms(1) by (auto simp: len m0_def sending_def split: option.splits)
  define m1 where "m1 = replicate ?n 0 @ drop ?n m0"
  have st0: "store m0 0 (replicate ?n 0) = Inr m1"
    using m0 by (simp add: store_def m1_def)
  have st1: "store m1 0 (piece file t) = Inr (piece file t @ drop ?n m0)"
    using m0 by (simp add: store_def m1_def)
  have st2: "store (sendCmd (mSend t)) 0 (frame_head (mFilePos t) (piece file t)) =
      Inr (frame_head (mFilePos t) (piece file t) @ drop 24 (sendCmd (mSend t)))"
    using idle by (simp add: store_def CMD_LEN_def)
  have mem: "tagFileSendBuffer_createMem ?n b = b\<lparr>sendMem := Some m0\<rparr>" if "sendMem b = sendMem (mSend t)" for b
    using that by (cases b) (auto simp: tagFileSendBuffer_createMem_def m0_def split: option.splits)
  show ?thesis
    unfolding TaskFileSend_next_frame_def Let_def n len [symmetric]
    using idle st0 st1 st2 [unfolded frame_head_def] xs m0
    by (simp add: mem set_command_def frame_head_def upd_send_def sizeof_NET_CMD_def sizeof_FILE_GET_def CMD_LEN_def)
qed

text \<open>Two calls of \<open>writeBuffer\<close> send one piece: its head, then its data.\<close>

lemma send_frame:
  assumes "sending file t" "left_of file t \<noteq> []"
    and "accepting (length (piece file t) + (24 + k)) (send_plan (mSock t))"
  shows "\<exists>t1 t2. TaskFileSend_writeBuffer t = Inr (24, t1) \<and>
    TaskFileSend_writeBuffer t1 = Inr (int (length (piece file t)), t2) \<and> sending file t2 \<and>
    left_of file t2 = drop BUFFER_LEN (left_of file t) \<and> mFilePos t2 = mFilePos t + length (piece file t) \<and>
    sent (mSock t2) = sent (mSock t) @ frame_head (mFilePos t) (piece file t) @ piece file t \<and>
    accepting k (send_plan (mSock t2)) \<and> mRecv t2 = mRecv t"
proof -
  let ?xs = "piece file t"
  have len: "length ?xs = min BUFFER_LEN (length (left_of file t))" "?xs \<noteq> []"
    using assms(2) by (simp_all add: piece_def BUFFER_LEN_def)
  obtain t0 m where t0: "TaskFileSend_next_frame t = Inr t0" "mSock t0 = mSock t"
    "bSendCmd (mSend t0)" "hasSendLen (mSend t0) = 0" "sendTotal (mSend t0) = int (length (frame_head (mFilePos t) ?xs))"
    "dataLen (mSend t0) = int (length ?xs)" "length (sendCmd (mSend t0)) = CMD_LEN"
    "take (length (frame_head (mFilePos t) ?xs)) (sendCmd (mSend t0)) = frame_head (mFilePos t) ?xs"
    and m: "sendMem (mSend t0) = Some m" "take (length ?xs) m = ?xs" "length ?xs \<le> length m"
    and rest: "mpFile t0 = mpFile t" "mFileLen t0 = mFileLen t" "mMsgQueue t0 = mMsgQueue t" "mbSendingData t0"
      "mFilePos t0 = mFilePos t + length ?xs" "mHasReadLen t0 = mHasReadLen t + word_of_nat (length ?xs)"
      "mRecv t0 = mRecv t"
    using next_frame [OF assms(1,2)] len by auto
  have head: "frame_head (mFilePos t) ?xs \<noteq> []" "length (frame_head (mFilePos t) ?xs) \<le> CMD_LEN"
    using length_frame_head [of "mFilePos t" ?xs] by (auto simp: CMD_LEN_def simp del: length_frame_head)
  have acc: "accepting (length (frame_head (mFilePos t) ?xs) + (length ?xs + k)) (send_plan (mSock t0))"
    using assms(3) t0(2) by (simp add: ac_simps)
  obtain t1 where t1: "TaskFileSend_tcpSendData t0 = Inr (24, t1)" "same_task t0 t1"
    "mSend t1 = tagFileSendBuffer_setToVideo (mSend t0)"
    "sent (mSock t1) = sent (mSock t0) @ frame_head (mFilePos t) ?xs" "accepting (length ?xs + k) (send_plan (mSock t1))"
    using send_command [OF t0(3-5,7,8) head acc] by auto
  have "\<not> bSendCmd (mSend t1)" "hasSendLen (mSend t1) = 0" "sendTotal (mSend t1) = int (length ?xs)"
    "sendMem (mSend t1) = Some m"
    using t1(3) t0(6) m by (simp_all add: tagFileSendBuffer_setToVideo_def)
  moreover have "length ?xs < 2 ^ 31"
    using len by (simp add: BUFFER_LEN_def)
  ultimately obtain t2 where t2: "TaskFileSend_tcpSendData t1 = Inr (int (length ?xs), t2)" "same_task t1 t2"
    "mSend t2 = tagFileSendBuffer_reset (mSend t1)" "sent (mSock t2) = sent (mSock t1) @ ?xs"
    "accepting k (send_plan (mSock t2))"
    using send_data [of t1 ?xs m k] m len t1(5) by auto
  have w1: "TaskFileSend_writeBuffer t = Inr (24, t1)"
    using assms sending_left(3) [OF assms(1)] t0(1) t1(1)
    by (simp add: TaskFileSend_writeBuffer_def sending_def send_idle_def gqueue_getSize_def)
  have w2: "TaskFileSend_writeBuffer t1 = Inr (int (length ?xs), t2)"
    using t2(1) \<open>sendTotal (mSend t1) = int (length ?xs)\<close> len(2) by (simp add: TaskFileSend_writeBuffer_def)
  have pos: "mFilePos t2 = mFilePos t + length ?xs"
    using t1(2) t2(2) rest by (simp add: same_task_def)
  have "drop (length ?xs) (left_of file t) = drop BUFFER_LEN (left_of file t)"
    by (cases "BUFFER_LEN \<le> length (left_of file t)") (simp_all add: len(1))
  then have left: "left_of file t2 = drop BUFFER_LEN (left_of file t)"
    unfolding left_of_def pos drop_drop add.commute [of "mFilePos t"] .
  have le: "mFilePos t + length ?xs \<le> length file mod 2 ^ 32"
  proof -
    have "length ?xs \<le> length file mod 2 ^ 32 - mFilePos t" "mFilePos t \<le> length file mod 2 ^ 32"
      using assms(1) len(1) sending_left(1) [OF assms(1)] by (simp_all add: sending_def)
    then show ?thesis
      by linarith
  qed
  then have "mFilePos t + length ?xs < 2 ^ 32"
    by (rule le_less_trans) simp
  then have "unat (mHasReadLen t + word_of_nat (length ?xs)) = mFilePos t + length ?xs"
    using assms(1) by (simp add: sending_def unat_word_ariths unsigned_of_nat take_bit_eq_mod mod_add_right_eq)
  moreover have "min BUFFER_LEN (length (left_of file t) - BUFFER_LEN) \<le> length m"
    using m(3) unfolding len(1) by linarith
  ultimately have "sending file t2"
    using assms(1) t1 t2 rest pos left le m len(1)
    by (auto simp: sending_def same_task_def send_idle_def tagFileSendBuffer_reset_def tagFileSendBuffer_setToVideo_def)
  then show ?thesis
    using w1 w2 pos left t0(2) t1 t2 rest by (auto simp: same_task_def)
qed

lemma send_end:
  assumes "sending file t" "left_of file t = []" "accepting 16 (send_plan (mSock t))"
  shows "\<exists>t'. TaskFileSend_writeBuffer t = Inr (OWN_SOCK_EXIT, t') \<and>
    sent (mSock t') = sent (mSock t) @ simple_cmd MODULE_MSG_DATAEND 0"
proof -
  let ?xs = "simple_cmd MODULE_MSG_DATAEND 0"
  have l: "length ?xs = 16"
    by (simp add: simple_cmd_def)
  then have ne: "?xs \<noteq> []"
    by auto
  define t0 where "t0 = upd_send (\<lambda>b. b\<lparr>sendCmd := ?xs @ drop 16 (sendCmd (mSend t)), sendTotal := 16, bSendCmd := True\<rparr>) t"
  have "length (sendCmd (mSend t)) = CMD_LEN" "hasSendLen (mSend t) = 0" "sendTotal (mSend t) = 0"
    using assms(1) by (auto simp: sending_def send_idle_def)
  then have "TaskFileSend_writeBuffer t =
      bnd (TaskFileSend_tcpSendData t0) (\<lambda>(ret, t). Inr (OWN_SOCK_EXIT, t))"
    using l sending_left(3) [OF assms(1)] assms(2)
    by (simp add: TaskFileSend_writeBuffer_def TaskFileSend_pushSendCmd_def set_command_def store_def CMD_LEN_def
        sizeof_NET_CMD_def t0_def upd_send_def)
  moreover have "\<exists>t'. TaskFileSend_tcpSendData t0 = Inr (int (length ?xs), t') \<and> same_task t0 t' \<and>
      mSend t' = tagFileSendBuffer_setToVideo (mSend t0) \<and>
      sent (mSock t') = sent (mSock t0) @ ?xs \<and> accepting 0 (send_plan (mSock t'))"
    by (rule send_command)
      (use assms l ne in \<open>auto simp: t0_def sending_def send_idle_def CMD_LEN_def\<close>)
  ultimately show ?thesis
    by (auto simp: t0_def)
qed

text \<open>What goes over the wire for the pieces of a file.\<close>

definition wire_frames :: "(nat \<times> byte list) list \<Rightarrow> byte list" where
  "wire_frames cs = concat (map (\<lambda>(pos, xs). frame_head pos xs @ xs) cs)"

lemma send_file:
  assumes "sending file t"
    and "accepting (length (wire_frames (chunks (mFilePos t) (left_of file t))) + 16) (send_plan (mSock t))"
  shows "\<exists>t'. TaskFileSend_writes (2 * length (chunks (mFilePos t) (left_of file t)) + 1) t = Inr (OWN_SOCK_EXIT, t') \<and>
    sent (mSock t') = sent (mSock t) @ wire_frames (chunks (mFilePos t) (left_of file t)) @ simple_cmd MODULE_MSG_DATAEND 0"
  using assms
proof (induction "length (left_of file t)" arbitrary: t rule: less_induct)
  case less
  show ?case
  proof (cases "left_of file t = []")
    case True
    then show ?thesis
      using send_end [OF less.prems(1) True] less.prems(2) by (fastforce simp: wire_frames_def OWN_SOCK_EXIT_def)
  next
    case False
    let ?xs = "piece file t" and ?pos = "mFilePos t"
    let ?cs = "chunks (?pos + length ?xs) (drop BUFFER_LEN (left_of file t))"
    have cs: "chunks ?pos (left_of file t) = (?pos, ?xs) # ?cs"
      using False by (subst chunks.simps) (simp add: piece_def)
    then have "accepting (length ?xs + (24 + (length (wire_frames ?cs) + 16))) (send_plan (mSock t))"
      using less.prems(2) by (simp add: wire_frames_def ac_simps)
    then obtain t1 t2 where w: "TaskFileSend_writeBuffer t = Inr (24, t1)"
      "TaskFileSend_writeBuffer t1 = Inr (int (length ?xs), t2)" and t2: "sending file t2"
      "left_of file t2 = drop BUFFER_LEN (left_of file t)" "mFilePos t2 = ?pos + length ?xs"
      "sent (mSock t2) = sent (mSock t) @ frame_head ?pos ?xs @ ?xs"
      "accepting (length (wire_frames ?cs) + 16) (send_plan (mSock t2))"
      using send_frame [OF less.prems(1) False] by blast
    have "length (left_of file t2) < length (left_of file t)"
      using t2(2) False by (simp add: BUFFER_LEN_def)
    then obtain t' where t': "TaskFileSend_writes (2 * length ?cs + 1) t2 = Inr (OWN_SOCK_EXIT, t')"
      "sent (mSock t') = sent (mSock t2) @ wire_frames ?cs @ simple_cmd MODULE_MSG_DATAEND 0"
      using less.hyps [of t2] t2 by auto
    have "int (length ?xs) \<noteq> 0" "int (length ?xs) \<noteq> OWN_SOCK_EXIT"
      using False by (auto simp: piece_def BUFFER_LEN_def OWN_SOCK_EXIT_def)
    then have "TaskFileSend_writes (Suc (Suc (2 * length ?cs + 1))) t = Inr (OWN_SOCK_EXIT, t')"
      using w t' by (simp add: OWN_SOCK_EXIT_def)
    moreover have "2 * length (chunks ?pos (left_of file t)) + 1 = Suc (Suc (2 * length ?cs + 1))"
      by (simp add: cs)
    ultimately have "TaskFileSend_writes (2 * length (chunks ?pos (left_of file t)) + 1) t = Inr (OWN_SOCK_EXIT, t')"
      by (simp only:)
    moreover have "sent (mSock t') = sent (mSock t) @ wire_frames (chunks ?pos (left_of file t)) @ simple_cmd MODULE_MSG_DATAEND 0"
      using t'(2) t2(4) cs by (simp add: wire_frames_def)
    ultimately show ?thesis
      by blast
  qed
qed

end
