(* ===== verification/FileRecv.thy ===== *)
theory FileRecv
  imports Packet
begin

text \<open>
  \<open>TaskFileRecv\<close>: the client's side of a file download. It asks for a file, answers the server's
  \<open>MODULE_MSG_LOGINRET\<close> with a start command, and appends the data of every \<open>MODULE_MSG_VIDEO\<close>
  message to its file. \<open>mCmdBuffer\<close> and the members \<open>cmd\<close> and \<open>dataLen\<close> of its receive buffer
  (\<open>tagFileProcBuffer\<close>), which are never read, are left out; its receive buffer is a
  \<open>tagRecvBuffer\<close> over a block from \<open>malloc\<close>.
\<close>

definition RECV_BUFFER_LEN :: nat where "RECV_BUFFER_LEN = 1024 * 1024 + 1500"

text \<open>\<open>None\<close> is a file that could not be opened.\<close>

record file_recv = task +
  wFile :: "byte list option"
  mTotalLen :: int

definition tagFileProcBuffer_reset :: "tagRecvBuffer \<Rightarrow> tagRecvBuffer" where
  "tagFileProcBuffer_reset b = b\<lparr>hasRecvLen := 0, recvTotal := 0, bProcHead := True\<rparr>"

definition SendCmd :: "int \<Rightarrow> int \<Rightarrow> byte list \<Rightarrow> int \<Rightarrow> 'a task_scheme \<Rightarrow> (int \<times> 'a task_scheme) outcome" where
  "SendCmd cmd index lpData nLength t =
     (let nc = \<lparr>dwFlag = NET_FLAG, dwCmd = word_of_int cmd, dwIndex = word_of_int index,
                dwLength = word_of_int nLength\<rparr>
      in bnd (task_sendEx (put_cmd nc) t) (\<lambda>(iRet, t).
         if iRet < 0 then Inr (iRet, t)
         else if nLength = 0 then Inr (0, t)
         else bnd (load lpData 0 (size_of nLength)) (\<lambda>xs. task_sendEx xs t)))"

text \<open>
  The constructor: \<open>fresh\<close> is what \<open>malloc\<close> returns, \<open>opened\<close> whether \<open>fopen\<close> succeeds. The
  request is printed into \<open>lpData[2048]\<close>.
\<close>

definition TaskFileRecv_new :: "sock \<Rightarrow> byte list \<Rightarrow> bool \<Rightarrow> byte list \<Rightarrow> file_recv outcome" where
  "TaskFileRecv_new s fresh opened filepath =
     (let t = \<lparr>mSock = s, mRecv = tagFileProcBuffer_reset \<lparr>buff = fresh, bProcHead = True, hasRecvLen = 0, recvTotal = 0\<rparr>,
               addEvents = [], wFile = if opened then Some [] else None, mTotalLen = 0\<rparr>;
          xs = str ''<get path='' @ [34] @ c_str filepath @ [34] @ str ''/>''
      in bnd (store (replicate 2048 0) 0 (xs @ [0])) (\<lambda>lpData.
         bnd (SendCmd MODULE_MSG_LOGIN 0 lpData (int (length xs)) t) (\<lambda>(ret, t). Inr t)))"

text \<open>The start command with the length the server has announced.\<close>

definition start_command :: "int \<Rightarrow> byte list" where
  "start_command n = str ''<control name='' @ [34] @ str ''start'' @ [34] @ str '' tmstart='' @ [34] @ fmt_d 0 @ [34] @
     str '' tmend='' @ [34] @ fmt_d n @ [34] @ str '' />''"

text \<open>The \<open>switch\<close> of \<open>recvPackData\<close>, run when the message is complete, and the reset after it.\<close>

definition TaskFileRecv_handle :: "int \<Rightarrow> file_recv \<Rightarrow> (int \<times> file_recv) outcome" where
  "TaskFileRecv_handle ret t =
     (let m = buff (mRecv t) in
      bnd (load32 m 4) (\<lambda>cmd.
      bnd (if uint cmd = MODULE_MSG_VIDEO then
             bnd (load32 m (16 + 4)) (\<lambda>nLength.
             bnd (load m (16 + 8) (size_of (sint nLength))) (\<lambda>xs.
             case wFile t of None \<Rightarrow> Inl Null_deref | Some f \<Rightarrow> Inr (t\<lparr>wFile := Some (f @ xs)\<rparr>)))
           else if uint cmd = MODULE_MSG_LOGINRET then
             bnd (load32 m (16 + 8 + sizeof_PLAYER_INIT_INFO + 4)) (\<lambda>tmEnd.
             let t = t\<lparr>mTotalLen := sint tmEnd\<rparr>;
                 xs = start_command (mTotalLen t)
             in bnd (store (replicate 100 0) 0 (xs @ [0])) (\<lambda>szCmd.
                bnd (SendCmd MODULE_MSG_CONTROL_PLAY 0 szCmd (int (length xs) + 1) t) (\<lambda>(r, t). Inr t)))
           else Inr t) (\<lambda>t.
      Inr (ret, upd_recv tagFileProcBuffer_reset t))))"

definition TaskFileRecv_recvPackData :: "file_recv \<Rightarrow> (int \<times> file_recv) outcome" where
  "TaskFileRecv_recvPackData = recv_body TaskFileRecv_handle"

definition TaskFileRecv_readBuffer :: "file_recv \<Rightarrow> (int \<times> file_recv) outcome" where
  "TaskFileRecv_readBuffer = read_packet TaskFileRecv_handle"

definition TaskFileRecv_writeBuffer :: "file_recv \<Rightarrow> (int \<times> file_recv) outcome" where
  "TaskFileRecv_writeBuffer t = Inr (0, t)"

section \<open>Data messages\<close>

text \<open>The message that carries the bytes \<open>xs\<close> found at position \<open>pos\<close> of a file.\<close>

definition frame_message :: "nat \<Rightarrow> byte list \<Rightarrow> byte list" where
  "frame_message pos xs =
     put_cmd \<lparr>dwFlag = NET_FLAG, dwCmd = word_of_int MODULE_MSG_VIDEO, dwIndex = 0,
       dwLength = word_of_nat (length xs + sizeof_FILE_GET)\<rparr> @ put_file_get (word_of_nat pos) (int (length xs)) @ xs"

definition frame_payload :: "byte list \<Rightarrow> byte list" where
  "frame_payload p = drop 24 p"

definition is_frame :: "byte list \<Rightarrow> bool" where
  "is_frame p \<longleftrightarrow> (\<exists>pos xs. p = frame_message pos xs)"

lemma length_frame_message [simp]: "length (frame_message pos xs) = 24 + length xs"
  by (simp add: frame_message_def)

lemma frame_payload_message [simp]: "frame_payload (frame_message pos xs) = xs"
  by (simp add: frame_payload_def frame_message_def)

lemma frame_message_fields:
  assumes "length xs < 2 ^ 31"
  shows "uint (get32 (frame_message pos xs) 4) = MODULE_MSG_VIDEO"
    and "unat (get32 (frame_message pos xs) 12) = 8 + length xs"
    and "sint (get32 (frame_message pos xs) 20) = int (length xs)"
proof -
  let ?p = "frame_message pos xs"
  have "get32 ?p 4 = word_of_int MODULE_MSG_VIDEO"
    by (rule get32_at [of _ "put32 NET_FLAG"]) (simp_all add: frame_message_def put_cmd_def)
  then show "uint (get32 ?p 4) = MODULE_MSG_VIDEO"
    by (simp add: MODULE_MSG_VIDEO_def)
  have "get32 ?p 12 = word_of_nat (length xs + 8)"
    by (rule get32_at [of _ "put32 NET_FLAG @ put32 (word_of_int MODULE_MSG_VIDEO) @ put32 0"])
      (simp_all add: frame_message_def put_cmd_def sizeof_FILE_GET_def)
  moreover have "length xs + 8 < 2 ^ 32"
    using assms by simp
  then have "unat (word_of_nat (length xs + 8) :: 32 word) = length xs + 8"
    using of_nat_inverse [OF refl, of "length xs + 8", where 'a = 32] by simp
  ultimately show "unat (get32 ?p 12) = 8 + length xs"
    by (simp only: add.commute)
  have "get32 ?p 20 = word_of_int (int (length xs))"
    by (rule get32_at [of _ "put_cmd \<lparr>dwFlag = NET_FLAG, dwCmd = word_of_int MODULE_MSG_VIDEO, dwIndex = 0,
       dwLength = word_of_nat (length xs + sizeof_FILE_GET)\<rparr> @ put32 (word_of_nat pos)"])
      (simp_all add: frame_message_def put_file_get_def)
  moreover have "unat (word_of_int (int (length xs)) :: 32 word) = length xs"
    using assms by (simp add: unsigned_of_nat take_bit_nat_eq_self)
  ultimately show "sint (get32 ?p 20) = int (length xs)"
    using sint_unat [of "get32 ?p 20"] assms by metis
qed

section \<open>What a message does to the file\<close>

definition message_cmd :: "byte list \<Rightarrow> int" where
  "message_cmd p = uint (get32 p 4)"

definition write_message :: "byte list \<Rightarrow> byte list option \<Rightarrow> byte list option" where
  "write_message p f =
     (if message_cmd p = MODULE_MSG_VIDEO
      then map_option (\<lambda>f. f @ take (nat (sint (get32 p 20))) (drop 24 p)) f else f)"

definition writable :: "byte list \<Rightarrow> byte list option \<Rightarrow> bool" where
  "writable p f \<longleftrightarrow> message_cmd p \<noteq> MODULE_MSG_LOGINRET \<and>
     (message_cmd p = MODULE_MSG_VIDEO \<longrightarrow>
       f \<noteq> None \<and> 0 \<le> sint (get32 p 20) \<and> 24 + nat (sint (get32 p 20)) \<le> length p)"

lemma write_frame: "length xs < 2 ^ 31 \<Longrightarrow> write_message (frame_message pos xs) (Some f) = Some (f @ xs)"
  using frame_payload_message [of pos xs]
  by (simp add: write_message_def message_cmd_def frame_message_fields frame_payload_def)

lemma writable_frame: "length xs < 2 ^ 31 \<Longrightarrow> writable (frame_message pos xs) (Some f)"
  by (simp add: writable_def message_cmd_def frame_message_fields MODULE_MSG_VIDEO_def MODULE_MSG_LOGINRET_def)

lemma handle_message:
  assumes "framed cap p" "writable p (wFile t)" "length (buff (mRecv t)) = cap" "cap < 2 ^ 31"
    and "take (length p) (buff (mRecv t)) = p"
  shows "\<exists>t'. TaskFileRecv_handle ret t = Inr (ret, t') \<and> wFile t' = write_message p (wFile t) \<and> ready t' \<and>
    buff (mRecv t') = buff (mRecv t) \<and> mSock t' = mSock t"
proof -
  let ?m = "buff (mRecv t)"
  have p: "16 < length p" "length p \<le> length ?m"
    using assms(1,3) by (simp_all add: framed_def)
  have g: "get32 ?m q = get32 p q" if "q + 4 \<le> length p" for q
    using that assms(5) p by (intro get32_take [of "length p"]) auto
  have cmd: "load32 ?m 4 = Inr (get32 p 4)"
    using p g [of 4] by (simp add: load32_def)
  show ?thesis
  proof (cases "message_cmd p = MODULE_MSG_VIDEO")
    case False
    then show ?thesis
      using cmd assms(2)
      by (simp add: TaskFileRecv_handle_def message_cmd_def writable_def write_message_def ready_def
          tagFileProcBuffer_reset_def upd_recv_def)
  next
    case True
    define n where "n = nat (sint (get32 p 20))"
    obtain f where f: "wFile t = Some f" and n: "24 + n \<le> length p" "0 \<le> sint (get32 p 20)"
      using assms(2) True by (auto simp: writable_def n_def)
    have len: "load32 ?m (16 + 4) = Inr (get32 p 20)"
      using p n g [of 20] by (simp add: load32_def)
    have "size_of (sint (get32 p 20)) = n"
      using n p assms(3,4) by (simp add: size_of_nonneg n_def)
    moreover have "take (n + 24) ?m = take (n + 24) p"
      using arg_cong [OF assms(5), of "take (n + 24)"] n by (simp add: min_def add.commute)
    then have "take n (drop 24 ?m) = take n (drop 24 p)"
      by (simp only: take_drop)
    ultimately have data: "load ?m (16 + 8) (size_of (sint (get32 p 20))) = Inr (take n (drop 24 p))"
      using n p by (simp add: load_def)
    show ?thesis
      using True f cmd len data
      by (simp add: TaskFileRecv_handle_def message_cmd_def write_message_def ready_def
          tagFileProcBuffer_reset_def upd_recv_def n_def Let_def)
  qed
qed

interpretation frecv: packet_handler TaskFileRecv_handle wFile write_message writable RECV_BUFFER_LEN
proof (unfold_locales, goal_cases)
  case (3 t t')
  then have "wFile (forget t) = wFile (forget t')"
    by simp
  then show ?case
    by (simp add: forget_def)
next
  case (4 p t ret)
  then show ?case
    using handle_message [of RECV_BUFFER_LEN p t ret] by (auto simp: RECV_BUFFER_LEN_def)
qed (simp_all add: RECV_BUFFER_LEN_def)

text \<open>Frames that fit the buffer are handled one by one, their bytes appended to the file.\<close>

definition frames_of :: "(nat \<times> byte list) list \<Rightarrow> byte list list" where
  "frames_of xs = map (\<lambda>(pos, ys). frame_message pos ys) xs"

lemma frames_fit:
  assumes "\<forall>(pos, ys) \<in> set xs. length ys + 24 \<le> RECV_BUFFER_LEN"
  shows "frecv.fits_all (frames_of xs) (Some f) \<and> (\<forall>p \<in> set (frames_of xs). framed RECV_BUFFER_LEN p)"
  using assms
proof (induction xs arbitrary: f)
  case (Cons x xs)
  obtain pos ys where x: "x = (pos, ys)"
    by (cases x)
  then have "length ys < 2 ^ 31" "length ys + 24 \<le> RECV_BUFFER_LEN"
    using Cons.prems by (auto simp: RECV_BUFFER_LEN_def)
  then show ?case
    using Cons x by (simp add: frames_of_def write_frame writable_frame framed_def frame_message_fields)
qed (simp add: frames_of_def)

lemma frames_written:
  assumes "\<forall>(pos, ys) \<in> set xs. length ys + 24 \<le> RECV_BUFFER_LEN"
  shows "fold write_message (frames_of xs) (Some f) = Some (f @ concat (map snd xs))"
  using assms
proof (induction xs arbitrary: f)
  case (Cons x xs)
  obtain pos ys where x: "x = (pos, ys)"
    by (cases x)
  then have "length ys < 2 ^ 31"
    using Cons.prems by (auto simp: RECV_BUFFER_LEN_def)
  then show ?case
    using Cons x by (simp add: frames_of_def write_frame)
qed (simp add: frames_of_def)

lemma receive_frames:
  assumes "ready t" "length (buff (mRecv t)) = RECV_BUFFER_LEN" "wFile t = Some f"
    and "incoming (mSock t) = concat (frames_of xs)"
    and "\<forall>(pos, ys) \<in> set xs. length ys + 24 \<le> RECV_BUFFER_LEN"
    and "\<forall>k \<in> set (recv_plan (mSock t)). 0 < k" "2 * n \<le> length (recv_plan (mSock t))"
    and "length (incoming (mSock t)) \<le> n"
  shows "\<exists>t'. read_packets TaskFileRecv_handle n t = Inr t' \<and> wFile t' = Some (f @ concat (map snd xs)) \<and>
    ready t' \<and> incoming (mSock t') = []"
proof -
  have "frecv.pending (frames_of xs) t"
    using assms(1-4) frames_fit [OF assms(5)]
    by (auto simp: frecv.pending_def receiving_def ready_def unread_def buffered_def)
  then show ?thesis
    using frecv.read_packets_ok [OF _ assms(6-8), of "frames_of xs"] frames_written [OF assms(5)] assms(3) by metis
qed

end
