(* ===== verification/FileTransfer.thy ===== *)
theory FileTransfer
  imports FileSend FileRecv
begin

text \<open>
  A download from end to end: what \<open>TaskFileSend\<close> puts on the wire is what \<open>TaskFileRecv\<close>
  takes off it, whatever pieces the two sockets cut the stream into.
\<close>

definition login_message :: "nat \<Rightarrow> byte list" where
  "login_message n =
     put_cmd \<lparr>dwFlag = NET_FLAG, dwCmd = word_of_int MODULE_MSG_LOGINRET, dwIndex = 0,
       dwLength = word_of_nat sizeof_LOGIN_RET\<rparr> @ put_login_ret ERR_NOERROR (put_file_info (word_of_nat n))"

text \<open>All that the server sends for a file, after the answer to the login, and the number of calls it takes.\<close>

definition file_chunks :: "byte list \<Rightarrow> (nat \<times> byte list) list" where
  "file_chunks file = chunks 0 (take (length file mod 2 ^ 32) file)"

definition file_calls :: "byte list \<Rightarrow> nat" where
  "file_calls file = 2 * length (file_chunks file) + 1"

lemma length_login_message [simp]: "length (login_message n) = 1048"
  by (simp add: login_message_def)

lemma login_message_not_empty [simp]: "login_message n \<noteq> []"
  using length_login_message [of n] by (metis list.size(3) zero_neq_numeral)

lemma wire_frames_of: "wire_frames cs = concat (frames_of cs)"
  by (simp add: wire_frames_def frames_of_def frame_head_def frame_message_def)

lemma file_send_new:
  assumes "accepting (length (login_message (length file)) + n) (send_plan s)"
  shows "\<exists>t. TaskFileSend_new s (Some file) (length file) = Inr t \<and> sending file t \<and> mFilePos t = 0 \<and>
    sent (mSock t) = sent s @ login_message (length file) \<and> accepting n (send_plan (mSock t)) \<and>
    mRecv t = tagRecvBuffer_reset \<lparr>buff = [], bProcHead = True, hasRecvLen = 0, recvTotal = 0\<rparr>"
proof -
  let ?xs = "login_message (length file)"
  define t0 where "t0 = \<lparr>mSock = s, mRecv = tagRecvBuffer_reset \<lparr>buff = [], bProcHead = True, hasRecvLen = 0, recvTotal = 0\<rparr>,
     addEvents = [], mSend = (tagFileSendBuffer_reset tagFileSendBuffer_new)
       \<lparr>sendCmd := ?xs @ replicate (CMD_LEN - 1048) 0, sendTotal := 1048, bSendCmd := True\<rparr>,
     mpFile = Some file, mFilePos = 0, mFileLen = word_of_nat (length file), mHasReadLen = 0,
     mFrameCount = 0, mbSendingData = True, mMsgQueue = []\<rparr>"
  have new: "TaskFileSend_new s (Some file) (length file) = bnd (TaskFileSend_tcpSendData t0) (\<lambda>(ret, t). Inr t)"
    by (simp add: TaskFileSend_new_def set_command_def store_def login_message_def t0_def upd_send_def
        tagFileSendBuffer_reset_def tagFileSendBuffer_new_def CMD_LEN_def sizeof_NET_CMD_def sizeof_LOGIN_RET_def Let_def)
  have "\<exists>t'. TaskFileSend_tcpSendData t0 = Inr (int (length ?xs), t') \<and> same_task t0 t' \<and>
      mSend t' = tagFileSendBuffer_setToVideo (mSend t0) \<and>
      sent (mSock t') = sent (mSock t0) @ ?xs \<and> accepting n (send_plan (mSock t'))"
    by (rule send_command)
      (use assms length_login_message [of "length file"] in
        \<open>auto simp: t0_def tagFileSendBuffer_reset_def tagFileSendBuffer_new_def CMD_LEN_def\<close>)
  then obtain t where "TaskFileSend_tcpSendData t0 = Inr (int (length ?xs), t)" "same_task t0 t"
      "mSend t = tagFileSendBuffer_setToVideo (mSend t0)"
      "sent (mSock t) = sent s @ ?xs" "accepting n (send_plan (mSock t))"
    by (auto simp: t0_def)
  then show ?thesis
    using new
    by (simp add: same_task_def sending_def send_idle_def t0_def tagFileSendBuffer_setToVideo_def
        tagFileSendBuffer_reset_def tagFileSendBuffer_new_def CMD_LEN_def)
qed

lemma file_sent:
  assumes "accepting (1048 + (length (wire_frames (file_chunks file)) + 16)) (send_plan s)"
  shows "\<exists>t t'. TaskFileSend_new s (Some file) (length file) = Inr t \<and>
    TaskFileSend_writes (file_calls file) t = Inr (OWN_SOCK_EXIT, t') \<and>
    sent (mSock t') = sent s @ login_message (length file) @ wire_frames (file_chunks file) @
      simple_cmd MODULE_MSG_DATAEND 0"
proof -
  obtain t where t: "TaskFileSend_new s (Some file) (length file) = Inr t" "sending file t" "mFilePos t = 0"
    "sent (mSock t) = sent s @ login_message (length file)"
    "accepting (length (wire_frames (file_chunks file)) + 16) (send_plan (mSock t))"
    using file_send_new [OF assms [folded length_login_message [of "length file"]]] by blast
  have "chunks (mFilePos t) (left_of file t) = file_chunks file"
    using t(3) by (simp add: left_of_def file_chunks_def)
  then show ?thesis
    using send_file [OF t(2)] t by (auto simp: file_calls_def)
qed

lemma file_chunks_small: "(pos, ys) \<in> set (file_chunks file) \<Longrightarrow> length ys + 24 \<le> RECV_BUFFER_LEN"
  using chunks_small [of pos ys 0] by (fastforce simp: file_chunks_def BUFFER_LEN_def RECV_BUFFER_LEN_def)

lemma concat_file_chunks: "concat (map snd (file_chunks file)) = take (length file mod 2 ^ 32) file"
  by (simp add: file_chunks_def concat_chunks)

end
