(* ===== verification/TransferProps.thy ===== *)
theory TransferProps
  imports FileTransfer NetProps
begin

text \<open>The properties of the transfer of files and of the reception of messages.\<close>

section \<open>The start command\<close>

text \<open>What the client sends when it has the server's answer, as one message.\<close>

definition start_message :: "int \<Rightarrow> byte list" where
  "start_message n =
     put_cmd \<lparr>dwFlag = NET_FLAG, dwCmd = word_of_int MODULE_MSG_CONTROL_PLAY, dwIndex = word_of_int 0,
       dwLength = word_of_int (int (length (start_command n)) + 1)\<rparr> @ start_command n @ [0]"

lemma digits_10_small: "n < 10 ^ 10 \<Longrightarrow> length (digits 10 n) \<le> 10"
  using length_digits [of 10 n 10] by simp

lemma quote_not_printable: "printable xs \<Longrightarrow> 34 \<notin> set xs"
  unfolding printable_def by force

lemma fmt_d_ok:
  assumes "\<bar>n\<bar> < 2 ^ 32"
  shows "length (fmt_d n) \<le> 11 \<and> 34 \<notin> set (fmt_d n)"
proof -
  have "nat \<bar>n\<bar> < 10 ^ 10"
    using assms by simp
  then have "length (digits 10 (nat \<bar>n\<bar>)) \<le> 10"
    by (rule digits_10_small)
  moreover have "34 \<notin> set (digits 10 (nat \<bar>n\<bar>))"
    by (intro quote_not_printable printable_digits) simp_all
  moreover have "fmt_d n = (if n < 0 then 45 # digits 10 (nat \<bar>n\<bar>) else digits 10 (nat \<bar>n\<bar>))"
    by (simp add: fmt_d_def abs_if)
  ultimately show ?thesis
    by (auto split: if_splits)
qed

lemma fmt_d_0: "fmt_d 0 = [48]"
  by (simp add: fmt_d_def digits.simps digit_def)

lemma start_command_bytes:
  "start_command n = str ''<control '' @ str ''name'' @ [61, 34] @ str ''start'' @ 34 # (str '' '' @ str ''tmstart'' @ [61, 34] @
    [48] @ 34 # (str '' '' @ str ''tmend'' @ [61, 34] @ fmt_d n @ 34 # str '' />''))"
  by (simp add: start_command_def fmt_d_0 str_def ch_def)

lemma length_start_command: "length (start_command n) = 45 + length (fmt_d n)"
  by (simp add: start_command_def fmt_d_0 str_def)

text \<open>The three attributes, whatever follows the command in the buffer.\<close>

lemma start_attributes:
  assumes "length head = 16" "\<bar>n\<bar> < 2 ^ 32"
  shows "PROTO_GetValueByName (head @ start_command n @ rest) (str ''name'') (replicate 256 0) =
      Inr (1, str ''start'' @ replicate 251 0, 4)"
    and "\<exists>r. PROTO_GetValueByName (head @ start_command n @ rest) (str ''tmstart'') (replicate 256 0) = Inr r"
    and "\<exists>r. PROTO_GetValueByName (head @ start_command n @ rest) (str ''tmend'') (replicate 256 0) = Inr r"
proof -
  let ?a = "str ''<control ''"
  let ?b = "?a @ str ''name'' @ [61, 34] @ str ''start'' @ 34 # str '' ''"
  let ?c = "?b @ str ''tmstart'' @ [61, 34] @ [48] @ 34 # str '' ''"
  have n: "length (fmt_d n) \<le> 11" "34 \<notin> set (fmt_d n)"
    using fmt_d_ok [OF assms(2)] by auto
  have a: "0 \<notin> set ?a" "\<forall>i < length ?a. take (length (str ''name'')) (drop i (?a @ str ''name'')) \<noteq> str ''name''"
    "34 \<notin> set (str ''start'')"
    by code_simp+
  have b: "0 \<notin> set ?b" "\<forall>i < length ?b. take (length (str ''tmstart'')) (drop i (?b @ str ''tmstart'')) \<noteq> str ''tmstart''"
    "34 \<notin> set [48 :: byte]"
    by code_simp+
  have c: "0 \<notin> set ?c" "\<forall>i < length ?c. take (length (str ''tmend'')) (drop i (?c @ str ''tmend'')) \<noteq> str ''tmend''"
    by code_simp+
  have len: "length (str s) = length s" for s
    by (simp add: str_def)
  let ?r1 = "str '' '' @ str ''tmstart'' @ [61, 34] @ [48] @ 34 # (str '' '' @ str ''tmend'' @ [61, 34] @ fmt_d n @ 34 # str '' />'') @ rest"
  have "start_command n @ rest = ?a @ str ''name'' @ [61, 34] @ str ''start'' @ 34 # ?r1"
    unfolding start_command_bytes by (simp del: append_assoc add: append_assoc)
  then show "PROTO_GetValueByName (head @ start_command n @ rest) (str ''name'') (replicate 256 0) =
      Inr (1, str ''start'' @ replicate 251 0, 4)"
    using get_value_by_name [OF assms(1) a(1,3,2), of ?r1 "replicate 256 0"] by (simp add: len)
  let ?r2 = "str '' '' @ str ''tmend'' @ [61, 34] @ fmt_d n @ 34 # str '' />'' @ rest"
  have "start_command n @ rest = ?b @ str ''tmstart'' @ [61, 34] @ [48] @ 34 # ?r2"
    unfolding start_command_bytes by simp
  then show "\<exists>r. PROTO_GetValueByName (head @ start_command n @ rest) (str ''tmstart'') (replicate 256 0) = Inr r"
    using get_value_by_name [OF assms(1) b(1,3,2), of ?r2 "replicate 256 0"] by simp
  have "start_command n @ rest = ?c @ str ''tmend'' @ [61, 34] @ fmt_d n @ 34 # (str '' />'' @ rest)"
    unfolding start_command_bytes by simp
  then show "\<exists>r. PROTO_GetValueByName (head @ start_command n @ rest) (str ''tmend'') (replicate 256 0) = Inr r"
    using get_value_by_name [OF assms(1) c(1) n(2) c(2), of "str '' />'' @ rest" "replicate 256 0"] n(1) by simp
qed

section \<open>The server takes the start command\<close>

lemma length_start_message: "length (start_message n) = 62 + length (fmt_d n)"
  by (simp add: start_message_def length_start_command)

lemma start_message_fields:
  assumes "\<bar>n\<bar> < 2 ^ 32"
  shows "framed CMD_LEN (start_message n)" and "uint (get32 (start_message n) 4) = MODULE_MSG_CONTROL_PLAY"
proof -
  have n: "length (fmt_d n) \<le> 11"
    using fmt_d_ok [OF assms] by simp
  have "get32 (start_message n) 4 = word_of_int MODULE_MSG_CONTROL_PLAY"
    by (rule get32_at [of _ "put32 NET_FLAG"]) (simp_all add: start_message_def put_cmd_def)
  then show "uint (get32 (start_message n) 4) = MODULE_MSG_CONTROL_PLAY"
    by (simp add: MODULE_MSG_CONTROL_PLAY_def)
  have "get32 (start_message n) 12 = word_of_int (int (length (start_command n)) + 1)"
    by (rule get32_at [of _ "put32 NET_FLAG @ put32 (word_of_int MODULE_MSG_CONTROL_PLAY) @ put32 (word_of_int 0)"])
      (simp_all add: start_message_def put_cmd_def)
  also have "int (length (start_command n)) + 1 = int (46 + length (fmt_d n))"
    by (simp add: length_start_command)
  finally have "get32 (start_message n) 12 = word_of_nat (46 + length (fmt_d n))"
    by (simp only: of_int_of_nat_eq)
  then have "unat (get32 (start_message n) 12) = 46 + length (fmt_d n)"
    using of_nat_inverse [of "46 + length (fmt_d n)" "get32 (start_message n) 12"] n by simp
  then show "framed CMD_LEN (start_message n)"
    using n by (simp add: framed_def length_start_message CMD_LEN_def)
qed

lemma handle_start:
  assumes "\<bar>n\<bar> < 2 ^ 32" "take (length (start_message n)) (buff (mRecv t)) = start_message n"
    and "length (buff (mRecv t)) = CMD_LEN"
  shows "TaskFileSend_handle ret t = Inr (ret, upd_recv tagRecvBuffer_reset (request_write t))"
proof -
  let ?m = "buff (mRecv t)" and ?p = "start_message n"
  let ?head = "put_cmd \<lparr>dwFlag = NET_FLAG, dwCmd = word_of_int MODULE_MSG_CONTROL_PLAY, dwIndex = word_of_int 0,
       dwLength = word_of_int (int (length (start_command n)) + 1)\<rparr>"
  have m: "?m = ?head @ start_command n @ ([0] @ drop (length ?p) ?m)"
    using assms(2) append_take_drop_id [of "length ?p" ?m] by (simp add: start_message_def)
  have l: "length ?head = 16"
    by simp
  have p: "framed CMD_LEN ?p"
    using start_message_fields [OF assms(1)] by simp
  then have "get32 ?m 4 = get32 ?p 4"
    using assms(2,3) by (intro get32_take [of "length ?p"]) (auto simp: framed_def)
  then have cmd: "load32 ?m 4 = Inr (get32 ?p 4)"
    using assms(3) by (simp add: load32_def CMD_LEN_def)
  note attr = start_attributes [OF l assms(1), of "[0] @ drop (length ?p) ?m", folded m]
  have name: "attribute ''name'' t = Inr (str ''start'' @ replicate 251 0, 4)"
    using attr(1) by (simp add: attribute_def)
  obtain x y where other: "attribute ''tmstart'' t = Inr x" "attribute ''tmend'' t = Inr y"
    using attr(2,3) by (auto simp: attribute_def)
  have "0 \<notin> set (str ''start'')"
    by code_simp
  then have "value_is (str ''start'' @ replicate 251 0) ''start''"
    using c_str_append [of "str ''start''" "replicate 250 0"] by (simp add: value_is_def flip: replicate_Suc)
  then show ?thesis
    using cmd start_message_fields(2) [OF assms(1)] name other by (simp add: TaskFileSend_handle_def)
qed

definition is_start :: "byte list \<Rightarrow> 16 word list \<Rightarrow> bool" where
  "is_start p v \<longleftrightarrow> (\<exists>n. \<bar>n\<bar> < 2 ^ 32 \<and> p = start_message n)"

interpretation fsend: packet_handler TaskFileSend_handle addEvents "\<lambda>p v. v @ [EV_WRITE]" is_start CMD_LEN
proof (unfold_locales, goal_cases)
  case (3 t t')
  then have "addEvents (forget t) = addEvents (forget t')"
    by simp
  then show ?case
    by (simp add: forget_def)
next
  case (4 p t ret)
  then obtain n where "\<bar>n\<bar> < 2 ^ 32" "p = start_message n"
    by (auto simp: is_start_def)
  then have "TaskFileSend_handle ret t = Inr (ret, upd_recv tagRecvBuffer_reset (request_write t))"
    using 4 handle_start [of n t ret] by simp
  then show ?case
    by (simp add: ready_def tagRecvBuffer_reset_def request_write_def upd_recv_def)
qed (simp_all add: CMD_LEN_def)

section \<open>The client answers the login\<close>

lemma client_answers:
  assumes "take (length (login_message k)) (buff (mRecv u)) = login_message k"
    and "length (buff (mRecv u)) = RECV_BUFFER_LEN"
    and "accepting (length (start_message (sint (word_of_nat k :: 32 word))) + j) (send_plan (mSock u))"
  shows "\<exists>u'. TaskFileRecv_handle ret u = Inr (ret, u') \<and> ready u' \<and> wFile u' = wFile u \<and>
    sent (mSock u') = sent (mSock u) @ start_message (sint (word_of_nat k :: 32 word))"
proof -
  let ?m = "buff (mRecv u)" and ?p = "login_message k"
  define n where "n = sint (word_of_nat k :: 32 word)"
  have "- 2147483648 \<le> n \<and> n < 2147483648"
    using sint_range_size [of "word_of_nat k :: 32 word"] by (simp add: n_def word_size)
  then have n: "\<bar>n\<bar> < 2 ^ 32"
    by (simp add: abs_less_iff)
  have g: "get32 ?m q = get32 ?p q" if "q + 4 \<le> 1048" for q
    using that assms(1,2) by (intro get32_take [of 1048]) (auto simp: RECV_BUFFER_LEN_def)
  have "get32 ?p 4 = word_of_int MODULE_MSG_LOGINRET"
    by (rule get32_at [of _ "put32 NET_FLAG"]) (simp_all add: login_message_def put_cmd_def)
  then have cmd: "load32 ?m 4 = Inr (word_of_int MODULE_MSG_LOGINRET)"
    using g [of 4] assms(2) by (simp add: load32_def RECV_BUFFER_LEN_def)
  have "get32 ?p 348 = word_of_nat k"
    by (rule get32_at [of _ "put_cmd \<lparr>dwFlag = NET_FLAG, dwCmd = word_of_int MODULE_MSG_LOGINRET, dwIndex = 0,
       dwLength = word_of_nat sizeof_LOGIN_RET\<rparr> @ put32 ERR_NOERROR @ put32 (word_of_nat 328) @
       replicate sizeof_PLAYER_INIT_INFO 0 @ put32 0"])
      (simp_all add: login_message_def put_login_ret_def put_file_info_def sizeof_PLAYER_INIT_INFO_def)
  then have tm: "load32 ?m (16 + 8 + sizeof_PLAYER_INIT_INFO + 4) = Inr (word_of_nat k)"
    using g [of 348] assms(2) by (simp add: load32_def RECV_BUFFER_LEN_def sizeof_PLAYER_INIT_INFO_def)
  let ?xs = "start_command n"
  have l: "length ?xs \<le> 56"
    using fmt_d_ok [OF n] by (simp add: length_start_command)
  define sz where "sz = ?xs @ [0] @ drop (length ?xs + 1) (replicate 100 0)"
  have st: "store (replicate 100 0) 0 (?xs @ [0]) = Inr sz"
    using l by (simp add: store_def sz_def)
  have ld: "load sz 0 (size_of (int (length ?xs) + 1)) = Inr (?xs @ [0])"
    using l by (simp add: load_def sz_def size_of_nonneg nat_add_distrib)
  define head where "head = put_cmd \<lparr>dwFlag = NET_FLAG, dwCmd = word_of_int MODULE_MSG_CONTROL_PLAY, dwIndex = word_of_int 0,
       dwLength = word_of_int (int (length ?xs) + 1)\<rparr>"
  have msg: "start_message n = head @ ?xs @ [0]" and h: "length head = 16" "head \<noteq> []"
    using length_put_cmd by (simp_all add: start_message_def head_def put_cmd_def put32_def)
  let ?u = "u\<lparr>mTotalLen := n\<rparr>"
  have "accepting (length head + (length (?xs @ [0]) + j)) (send_plan (mSock ?u))"
    using assms(3) msg by (simp add: n_def [symmetric] ac_simps)
  from task_sendEx_accepting [OF this h(2)] obtain s1 where s1: "task_sendEx head ?u = Inr (16, ?u\<lparr>mSock := s1\<rparr>)" "sent s1 = sent (mSock u) @ head"
      "accepting (length (?xs @ [0]) + j) (send_plan s1)"
    using h by auto
  then obtain s2 where s2: "task_sendEx (?xs @ [0]) (?u\<lparr>mSock := s1\<rparr>) = Inr (int (length (?xs @ [0])), ?u\<lparr>mSock := s2\<rparr>)"
      "sent s2 = sent s1 @ ?xs @ [0]"
    using task_sendEx_accepting [of "?xs @ [0]" j "?u\<lparr>mSock := s1\<rparr>"] by auto
  have "SendCmd MODULE_MSG_CONTROL_PLAY 0 sz (int (length ?xs) + 1) ?u = Inr (int (length (?xs @ [0])), ?u\<lparr>mSock := s2\<rparr>)"
    using s1(1) s2(1) ld unfolding SendCmd_def Let_def head_def [symmetric] by simp
  then have "TaskFileRecv_handle ret u = Inr (ret, upd_recv tagFileProcBuffer_reset (?u\<lparr>mSock := s2\<rparr>))"
    using cmd tm st
    by (simp add: TaskFileRecv_handle_def MODULE_MSG_LOGINRET_def MODULE_MSG_VIDEO_def Let_def n_def [symmetric])
  then show ?thesis
    using s1(2) s2(2) msg n_def by (simp add: ready_def tagFileProcBuffer_reset_def upd_recv_def)
qed


section \<open>Properties\<close>

text \<open>
  C16: a file arrives. Whatever pieces the server's socket accepts, \<open>TaskFileSend\<close> answers the
  login, sends the file and ends with \<open>MODULE_MSG_DATAEND\<close> after a bounded number of calls; and
  whatever pieces the client's socket hands out of what lies between, \<open>TaskFileRecv\<close> appends
  exactly the file to what it has written, up to the size modulo \<open>2 ^ 32\<close> that \<open>mFileLen\<close> holds.
\<close>

theorem file_transfer:
  assumes "accepting (1048 + (length (wire_frames (file_chunks file)) + 16)) (send_plan s)" "sent s = []"
    and "ready u" "length (buff (mRecv u)) = RECV_BUFFER_LEN" "wFile u = Some written"
    and "incoming (mSock u) = wire_frames (file_chunks file)" "\<forall>k \<in> set (recv_plan (mSock u)). 0 < k"
    and "2 * n \<le> length (recv_plan (mSock u))" "length (incoming (mSock u)) \<le> n"
  shows "\<exists>t t' u'. TaskFileSend_new s (Some file) (length file) = Inr t \<and>
    TaskFileSend_writes (file_calls file) t = Inr (OWN_SOCK_EXIT, t') \<and>
    sent (mSock t') = login_message (length file) @ incoming (mSock u) @ simple_cmd MODULE_MSG_DATAEND 0 \<and>
    read_packets TaskFileRecv_handle n u = Inr u' \<and>
    wFile u' = Some (written @ take (length file mod 2 ^ 32) file) \<and> ready u'"
proof -
  obtain t t' where t: "TaskFileSend_new s (Some file) (length file) = Inr t"
      "TaskFileSend_writes (file_calls file) t = Inr (OWN_SOCK_EXIT, t')"
      "sent (mSock t') = login_message (length file) @ incoming (mSock u) @ simple_cmd MODULE_MSG_DATAEND 0"
    using file_sent [OF assms(1)] assms(2,6) by auto
  have "\<forall>(pos, ys) \<in> set (file_chunks file). length ys + 24 \<le> RECV_BUFFER_LEN"
    using file_chunks_small by blast
  then show ?thesis
    using receive_frames [OF assms(3-5) assms(6)[unfolded wire_frames_of] _ assms(7-9)] t
    unfolding concat_file_chunks by blast
qed

definition some_sock :: sock where
  "some_sock = \<lparr>send_plan = Again # replicate 2000 (Accepted 700), sent = [], recv_plan = replicate 200 5, incoming = [],
     peer_closed = False\<rparr>"

definition some_client :: "byte list \<Rightarrow> byte list \<Rightarrow> file_recv" where
  "some_client xs m = \<lparr>mSock = some_sock\<lparr>incoming := xs\<rparr>,
     mRecv = \<lparr>buff = m, bProcHead = True, hasRecvLen = 0, recvTotal = 0\<rparr>,
     addEvents = [], wFile = Some [9], mTotalLen = 0\<rparr>"

theorem file_transfer_witness:
  "\<exists>t t' u'. TaskFileSend_new some_sock (Some [1, 2, 3]) (length [1, 2, 3 :: byte]) = Inr t \<and>
    TaskFileSend_writes (file_calls [1, 2, 3]) t = Inr (OWN_SOCK_EXIT, t') \<and>
    read_packets TaskFileRecv_handle 100 (some_client (wire_frames (file_chunks [1, 2, 3])) (replicate RECV_BUFFER_LEN 0)) = Inr u' \<and>
    wFile u' = Some [9, 1, 2, 3]"
proof -
  have "file_chunks [1, 2, 3] = [(0, [1, 2, 3])]"
    by (simp add: file_chunks_def chunks.simps [of 0] chunks.simps [of "Suc _"] BUFFER_LEN_def)
  then have "length (wire_frames (file_chunks [1, 2, 3])) = 27"
    by (simp add: wire_frames_def)
  then show ?thesis
    using file_transfer [of "[1, 2, 3]" some_sock "some_client (wire_frames (file_chunks [1, 2, 3])) (replicate RECV_BUFFER_LEN 0)"
        "[9]" 100]
    by (auto simp: accepting_def some_sock_def some_client_def ready_def)
qed

text \<open>
  C18: the start of a transfer. The client answers the server's login message with one
  \<open>MODULE_MSG_CONTROL_PLAY\<close> message, and however that arrives the server then asks the event
  layer, once, to be called when its socket can be written.
\<close>

theorem start_handshake:
  assumes "take (length (login_message k)) (buff (mRecv u)) = login_message k"
    and "length (buff (mRecv u)) = RECV_BUFFER_LEN" "sent (mSock u) = []"
    and "accepting (length (start_message (sint (word_of_nat k :: 32 word)))) (send_plan (mSock u))"
    and "ready t" "length (buff (mRecv t)) = CMD_LEN" "addEvents t = []"
    and "incoming (mSock t) = start_message (sint (word_of_nat k :: 32 word))"
    and "\<forall>k \<in> set (recv_plan (mSock t)). 0 < k" "2 * n \<le> length (recv_plan (mSock t))" "length (incoming (mSock t)) \<le> n"
  shows "\<exists>u' t'. TaskFileRecv_handle ret u = Inr (ret, u') \<and> sent (mSock u') = incoming (mSock t) \<and>
    read_packets TaskFileSend_handle n t = Inr t' \<and> addEvents t' = [EV_WRITE] \<and> ready t'"
proof -
  let ?n = "sint (word_of_nat k :: 32 word)"
  have "- 2147483648 \<le> ?n \<and> ?n < 2147483648"
    using sint_range_size [of "word_of_nat k :: 32 word"] by (simp add: word_size)
  then have n: "\<bar>?n\<bar> < 2 ^ 32"
    by (simp add: abs_less_iff)
  then have "is_start (start_message ?n) v" for v
    by (auto simp: is_start_def)
  then have "fsend.pending [start_message ?n] t"
    using assms(5,6,8) start_message_fields(1) [OF n] unfolding fsend.pending_def
    by (auto simp: receiving_def ready_def unread_def buffered_def)
  then show ?thesis
    using fsend.read_packets_ok [OF _ assms(9-11)] client_answers [OF assms(1,2), of 0 ret] assms(3,4,7,8) by fastforce
qed


definition some_server :: "byte list \<Rightarrow> file_send" where
  "some_server xs = \<lparr>mSock = some_sock\<lparr>incoming := xs\<rparr>,
     mRecv = \<lparr>buff = replicate CMD_LEN 0, bProcHead = True, hasRecvLen = 0, recvTotal = 16\<rparr>,
     addEvents = [], mSend = tagFileSendBuffer_new, mpFile = Some [1, 2, 3], mFilePos = 0, mFileLen = 3,
     mHasReadLen = 0, mFrameCount = 0, mbSendingData = True, mMsgQueue = []\<rparr>"

theorem start_handshake_witness:
  "\<exists>u' t'. TaskFileRecv_handle 5 (some_client [] (login_message 3 @ replicate (RECV_BUFFER_LEN - 1048) 0)) = Inr (5, u') \<and>
    sent (mSock u') = start_message 3 \<and>
    read_packets TaskFileSend_handle 100 (some_server (start_message 3)) = Inr t' \<and> addEvents t' = [EV_WRITE]"
proof -
  have "fmt_d 3 = [51]"
    by (simp add: fmt_d_def digits.simps digit_def)
  then have "length (start_message 3) = 63"
    by (simp add: length_start_message)
  then show ?thesis
    using start_handshake [of 3 "some_client [] (login_message 3 @ replicate (RECV_BUFFER_LEN - 1048) 0)"
        "some_server (start_message 3)" 100 5]
    by (auto simp: some_client_def some_server_def some_sock_def ready_def accepting_def RECV_BUFFER_LEN_def)
qed

lemma get32_put_cmd: "get32 (put_cmd c @ rest) 12 = dwLength c"
  using arg_cong [OF get_put_cmd [of c rest], of dwLength] by (simp add: get_cmd_def)

text \<open>The state once the head of a message has been read in one piece.\<close>

definition after_head :: "net_cmd \<Rightarrow> byte list \<Rightarrow> nat list \<Rightarrow> 'a task_scheme \<Rightarrow> 'a task_scheme" where
  "after_head c ys ks t =
     upd_recv (\<lambda>b. b\<lparr>buff := put_cmd c @ drop 16 (buff b), recvTotal := sint (dwLength c), bProcHead := False, hasRecvLen := 0\<rparr>)
       (t\<lparr>mSock := (mSock t)\<lparr>recv_plan := ks, incoming := ys\<rparr>\<rparr>)"

lemma read_head:
  assumes "ready t" "16 \<le> length (buff (mRecv t))" "incoming (mSock t) = put_cmd c @ ys"
    and "recv_plan (mSock t) = 16 # ks"
  shows "read_packet act t = recv_body act (after_head c ys ks t)"
proof -
  define m where "m = put_cmd c @ drop 16 (buff (mRecv t))"
  define t1 where "t1 = upd_recv (\<lambda>b. b\<lparr>buff := m\<rparr>) (t\<lparr>mSock := (mSock t)\<lparr>recv_plan := ks, incoming := ys\<rparr>\<rparr>)"
  have "put_cmd c \<noteq> []"
    using length_put_cmd [of c] by (metis list.size(3) zero_neq_numeral)
  then have r1: "recv_at 0 16 t = Inr (16, t1)"
    using assms(2-4) by (simp add: recv_at_def sock_recv_def store_def t1_def m_def upd_recv_def)
  have "load32 m 12 = Inr (dwLength c)"
    using assms(2) by (simp add: load32_def m_def get32_put_cmd)
  then show ?thesis
    using assms(1) r1
    by (simp add: read_packet_def ready_def sizeof_NET_CMD_def t1_def m_def after_head_def upd_recv_def)
qed



text \<open>
  a message without a body ends the session. Once its head is complete the code asks
  \<open>recv\<close> for zero bytes, and the zero that this returns is what \<open>onRead\<close> takes for the end of
  the connection, though the message has not been handled and more may follow.
\<close>

theorem empty_message_reads_as_close:
  assumes "ready t" "16 \<le> length (buff (mRecv t))" "dwLength c = 0" "incoming (mSock t) = put_cmd c @ ys"
    and "recv_plan (mSock t) = 16 # ks"
  shows "\<exists>t'. read_packet act t = Inr (0, t') \<and> incoming (mSock t') = ys \<and> \<not> bProcHead (mRecv t') \<and>
    addEvents t' = addEvents t"
proof -
  let ?t = "after_head c ys ks t"
  have "size_of (c_int 0) = 0"
    by (simp add: c_int_def size_of_def)
  then have "recv_at 16 (size_of (c_int 0)) ?t = Inr (0, ?t)"
    by (simp add: recv_at_def sock_recv_def after_head_def)
  then have "read_packet act t = Inr (0, ?t)"
    using read_head [OF assms(1,2,4,5)] assms(3) by (simp add: recv_body_def sizeof_NET_CMD_def after_head_def)
  then show ?thesis
    by (simp add: after_head_def upd_recv_def)
qed

theorem empty_message_reads_as_close_witness:
  "\<exists>t'. read_packet TaskFileRecv_handle
     ((some_client [] (replicate 1500 0))\<lparr>mSock := some_sock\<lparr>recv_plan := [16, 5],
        incoming := simple_cmd MODULE_MSG_PING 0 @ [1]\<rparr>\<rparr>) = Inr (0, t') \<and> incoming (mSock t') = [1]"
  using empty_message_reads_as_close [where act = TaskFileRecv_handle and ys = "[1]" and ks = "[5]" and
      c = "\<lparr>dwFlag = NET_FLAG, dwCmd = word_of_int MODULE_MSG_PING, dwIndex = word_of_int 0, dwLength = 0\<rparr>" and
      t = "(some_client [] (replicate 1500 0))\<lparr>mSock := some_sock\<lparr>recv_plan := [16, 5],
        incoming := simple_cmd MODULE_MSG_PING 0 @ [1]\<rparr>\<rparr>"]
  by (fastforce simp: some_client_def ready_def simple_cmd_def)

end
