(* ===== verification/VideoTask.thy ===== *)
theory VideoTask
  imports Wire NetProtocol BufferCache
begin

text \<open>
  \<open>TaskVideoRecv\<close> and \<open>TaskVideoSend\<close>: frames of video, each behind a 12-byte \<open>PACK_HEAD\<close> whose
  numbers are in network byte order. The receiver collects a frame in a \<open>BufferCache\<close> and writes
  it to its file behind a start code.
\<close>

definition sizeof_PACK_HEAD :: nat where "sizeof_PACK_HEAD = 12"
definition MAX_LEN :: int where "MAX_LEN = 1300"
definition MAX_MTU :: int where "MAX_MTU = MAX_LEN + int sizeof_PACK_HEAD"
definition VIDEO_RECV_MSG :: byte where "VIDEO_RECV_MSG = 1"
definition VIDEO_RECV_STREAM :: byte where "VIDEO_RECV_STREAM = 2"

text \<open>\<open>htonl\<close> and \<open>htons\<close> of a number, as they lie in memory.\<close>

definition be32 :: "32 word \<Rightarrow> byte list" where
  "be32 w = rev (put32 w)"

definition be16 :: "16 word \<Rightarrow> byte list" where
  "be16 w = [ucast (drop_bit 8 w), ucast w]"

definition start_code :: "byte list" where
  "start_code = [0, 0, 0, 1]"

section \<open>Receiving\<close>

text \<open>Both classes have these members and this \<open>readBuffer\<close>; the file is \<open>None\<close> if \<open>fopen\<close> failed.\<close>

record video_task =
  vSock :: sock
  vReadBuff :: "byte list"
  vTotalLen :: int
  vRecvDataLen :: int
  vRecvHeadLen :: int
  vInBuffer :: evbuffer
  vFile :: "byte list option"
  vSeqid :: int

text \<open>The constructor: \<open>mReadBuff\<close> keeps what was in its memory, for \<open>memset\<close> is called with a count of 0.\<close>

definition TaskVideoRecv_new :: "sock \<Rightarrow> byte list \<Rightarrow> evbuffer \<Rightarrow> bool \<Rightarrow> video_task" where
  "TaskVideoRecv_new s memory cache opened =
     \<lparr>vSock = s, vReadBuff = memory, vTotalLen = 0, vRecvDataLen = 0, vRecvHeadLen = 0, vInBuffer = cache,
      vFile = if opened then Some [] else None, vSeqid = 0\<rparr>"

definition fwrite :: "byte list \<Rightarrow> video_task \<Rightarrow> video_task outcome" where
  "fwrite xs t = (case vFile t of None \<Rightarrow> Inl Null_deref | Some f \<Rightarrow> Inr (t\<lparr>vFile := Some (f @ xs)\<rparr>))"

text \<open>The block under \<open>mRecvDataLen == mTotalLen\<close>: \<open>fwrite\<close> takes \<open>getSize\<close> bytes from \<open>getBuffer\<close>.\<close>

definition write_frame :: "video_task \<Rightarrow> video_task outcome" where
  "write_frame t =
     bnd (fwrite start_code t) (\<lambda>t.
     bnd (cache_getBuffer (vInBuffer t)) (\<lambda>(m, b).
     bnd (load m 0 (unat (cache_getSize b))) (\<lambda>xs.
     bnd (fwrite xs (t\<lparr>vInBuffer := b\<rparr>)) (\<lambda>t.
     let (b, ns) = cache_reset (vInBuffer t)
     in Inr (t\<lparr>vRecvDataLen := 0, vTotalLen := 0, vInBuffer := b\<rparr>)))))"

definition TaskVideoRecv_readBuffer :: "allocator \<Rightarrow> video_task \<Rightarrow> (int \<times> video_task) outcome" where
  "TaskVideoRecv_readBuffer A t =
     (let leftLent = vTotalLen t - vRecvDataLen t in
      if leftLent > 0 then
        let n = (if leftLent < MAX_MTU then leftLent else MAX_MTU);
            (ret, xs, s) = sock_recv (size_of n) (vSock t)
        in bnd (store (vReadBuff t) 0 xs) (\<lambda>m.
           let t = t\<lparr>vSock := s, vReadBuff := m\<rparr> in
           if ret > 0 then
             let t = t\<lparr>vRecvDataLen := vRecvDataLen t + ret\<rparr>
             in bnd (cache_append A (vReadBuff t) ret (vInBuffer t)) (\<lambda>(r, b, ns).
                let t = t\<lparr>vInBuffer := b\<rparr>
                in if vRecvDataLen t = vTotalLen t then bnd (write_frame t) (\<lambda>t. Inr (ret, t)) else Inr (ret, t))
           else Inr (ret, t))
      else
        let (ret, xs, s) = sock_recv (size_of (int sizeof_PACK_HEAD - vRecvHeadLen t)) (vSock t)
        in bnd (store (vReadBuff t) (nat (vRecvHeadLen t)) xs) (\<lambda>m.
           let t = t\<lparr>vSock := s, vReadBuff := m\<rparr> in
           if ret > 0 then
             let t = t\<lparr>vRecvHeadLen := vRecvHeadLen t + ret\<rparr>
             in if vRecvHeadLen t = int sizeof_PACK_HEAD then
                  bnd (load32 (vReadBuff t) 8) (\<lambda>w. Inr (ret, t\<lparr>vTotalLen := sint (ntohl w), vRecvHeadLen := 0\<rparr>))
                else Inr (ret, t)
           else Inr (ret, t)))"

section \<open>Sending\<close>

text \<open>
  \<open>sendEx\<close> of \<open>TaskVideoSend\<close>: an error counts as minus one byte sent, so the next call starts one
  byte earlier, and at the start of the data in front of it. \<open>xs\<close> is the object from \<open>data\<close> on,
  \<open>len\<close> the count; the result is the return value, what has been sent, and the answers left.
\<close>

fun video_send_loop :: "send_result list \<Rightarrow> byte list \<Rightarrow> int \<Rightarrow> int \<Rightarrow> (int \<times> byte list \<times> send_result list) outcome" where
  "video_send_loop [] xs len leftLen = Inl Out_of_fuel"
| "video_send_loop (p # ps) xs len leftLen =
     (let n = (if leftLen \<le> MAX_MTU then leftLen else MAX_MTU)
      in if len - leftLen < 0 then Inl Out_of_bounds
         else bnd (load xs (nat (len - leftLen)) (size_of n)) (\<lambda>ys.
           let (iRet, zs) = (case p of Accepted k \<Rightarrow> (int (min k (length ys)), take k ys) | _ \<Rightarrow> (- 1, []))
           in if leftLen - iRet > 0
              then bnd (video_send_loop ps xs len (leftLen - iRet)) (\<lambda>(r, ws, ps). Inr (r, zs @ ws, ps))
              else Inr (len - (leftLen - iRet), zs, ps)))"

definition TaskVideoSend_sendEx :: "byte list \<Rightarrow> int \<Rightarrow> video_task \<Rightarrow> (int \<times> video_task) outcome" where
  "TaskVideoSend_sendEx xs len t =
     bnd (video_send_loop (send_plan (vSock t)) xs len len) (\<lambda>(r, ys, ps).
     Inr (r, t\<lparr>vSock := (vSock t)\<lparr>sent := sent (vSock t) @ ys, send_plan := ps\<rparr>\<rparr>))"

definition packetHead :: "int \<Rightarrow> int \<Rightarrow> int \<Rightarrow> byte \<Rightarrow> byte list" where
  "packetHead fid pid len typ = [0, typ] @ be16 (word_of_int pid) @ be32 (word_of_int fid) @ be32 (word_of_int len)"

text \<open>The array \<open>sendData[1500]\<close> with a head in it.\<close>

definition head_array :: "byte list \<Rightarrow> byte list" where
  "head_array h = h @ replicate (1500 - length h) 0"

definition tpcSendMsg :: "byte \<Rightarrow> video_task \<Rightarrow> (int \<times> video_task) outcome" where
  "tpcSendMsg msg t =
     TaskVideoSend_sendEx (head_array (packetHead 0 0 (int sizeof_PACK_HEAD) msg)) (int sizeof_PACK_HEAD) t"

definition TaskVideoSend_tcpSendData :: "byte list \<Rightarrow> int \<Rightarrow> video_task \<Rightarrow> (int \<times> video_task) outcome" where
  "TaskVideoSend_tcpSendData data len t =
     (let t = t\<lparr>vSeqid := vSeqid t + 1\<rparr>
      in bnd (TaskVideoSend_sendEx (head_array (packetHead (vSeqid t) 0 len VIDEO_RECV_STREAM)) (int sizeof_PACK_HEAD) t) (\<lambda>(iRet, t).
         TaskVideoSend_sendEx data len t))"

end
