(* ===== verification/Playback.thy ===== *)
theory Playback
  imports FileSend VideoTask
begin

text \<open>
  \<open>TaskPlayback\<close>: the server's side of a stream of audio and video frames. The demuxer
  (\<open>FfmpegContext\<close> over the ffmpeg library) is the record \<open>media\<close>: the description of the file,
  the frames it will deliver, and those it delivers after a seek. Its time stamps are in
  milliseconds already.
\<close>

definition SEG_FRAME_COUNT :: int where "SEG_FRAME_COUNT = 500"
definition FRAME_VIDEO_I :: "32 word" where "FRAME_VIDEO_I = 1"
definition FRAME_VIDEO_P :: "32 word" where "FRAME_VIDEO_P = 2"
definition FRAME_AUDIO :: "32 word" where "FRAME_AUDIO = 3"
definition AVMEDIA_TYPE_VIDEO :: int where "AVMEDIA_TYPE_VIDEO = 0"
definition AVMEDIA_TYPE_AUDIO :: int where "AVMEDIA_TYPE_AUDIO = 1"
definition sizeof_AV_FRAME :: nat where "sizeof_AV_FRAME = 16"

text \<open>A packet: the block its data is in, which is longer than its size, the time, the key flag.\<close>

record av_packet =
  pk_data :: "byte list"
  pk_size :: int
  pk_pts :: int
  pk_key :: bool

definition no_packet :: av_packet where
  "no_packet = \<lparr>pk_data = [], pk_size = 0, pk_pts = 0, pk_key = False\<rparr>"

record media =
  med_info :: "byte list"
  med_packets :: "(av_packet \<times> int) list"
  med_seek :: "32 word \<Rightarrow> (av_packet \<times> int) list"

section \<open>The send buffer\<close>

record tagSendBuffer =
  bCmd :: bool
  hasSent :: int
  toSend :: int
  avpack :: av_packet
  cmdMem :: "byte list"

definition tagSendBuffer_reset :: "tagSendBuffer \<Rightarrow> tagSendBuffer" where
  "tagSendBuffer_reset b =
     \<lparr>bCmd = True, hasSent = 0, toSend = 0, avpack = no_packet,
      cmdMem = (if bCmd b then replicate 1500 0 else cmdMem b)\<rparr>"

definition tagSendBuffer_setToVideo :: "tagSendBuffer \<Rightarrow> tagSendBuffer" where
  "tagSendBuffer_setToVideo b = b\<lparr>bCmd := False, hasSent := 0, toSend := pk_size (avpack b), cmdMem := replicate 1500 0\<rparr>"

section \<open>The task\<close>

text \<open>\<open>pMedia\<close> is \<open>None\<close> when the file could not be opened.\<close>

record playback = task +
  pSend :: tagSendBuffer
  pMedia :: "media option"
  pFrameRate :: int
  pFrameCount :: int
  pbSendingData :: bool
  pMsgQueue :: "int list"

definition upd_psend :: "(tagSendBuffer \<Rightarrow> tagSendBuffer) \<Rightarrow> playback \<Rightarrow> playback" where
  "upd_psend f t = t\<lparr>pSend := f (pSend t)\<rparr>"

definition put_at :: "nat \<Rightarrow> byte list \<Rightarrow> playback \<Rightarrow> playback outcome" where
  "put_at p xs t = bnd (store (cmdMem (pSend t)) p xs) (\<lambda>m. Inr (upd_psend (\<lambda>b. b\<lparr>cmdMem := m\<rparr>) t))"

definition TaskPlayback_tcpSendData :: "playback \<Rightarrow> (int \<times> playback) outcome" where
  "TaskPlayback_tcpSendData t =
     (let b = pSend t; p = nat (hasSent b); n = size_of (toSend b - hasSent b);
          count = (\<lambda>ret. upd_psend (\<lambda>b. if ret > 0 then b\<lparr>hasSent := hasSent b + ret\<rparr> else b))
      in if bCmd b then
           bnd (load (cmdMem b) p n) (\<lambda>xs.
           bnd (task_sendEx xs t) (\<lambda>(ret, t).
           let t = count ret t
           in Inr (ret, if hasSent (pSend t) = toSend (pSend t)
                then upd_psend (if pk_size (avpack (pSend t)) > 0 then tagSendBuffer_setToVideo else tagSendBuffer_reset) t
                else t)))
         else
           bnd (load (pk_data (avpack b)) p n) (\<lambda>xs.
           bnd (task_sendEx xs t) (\<lambda>(ret, t).
           let t = count ret t
           in Inr (ret, if hasSent (pSend t) = toSend (pSend t)
                then upd_psend tagSendBuffer_reset t else t))))"

text \<open>A command without a body.\<close>

definition send_simple :: "int \<Rightarrow> int \<Rightarrow> playback \<Rightarrow> (int \<times> playback) outcome" where
  "send_simple iVal index t =
     bnd (put_at 0 (simple_cmd iVal index) t) (\<lambda>t.
     TaskPlayback_tcpSendData (upd_psend (\<lambda>b. b\<lparr>toSend := int sizeof_NET_CMD, bCmd := True\<rparr>) t))"

definition TaskPlayback_sendVariedCmd :: "int \<Rightarrow> playback \<Rightarrow> (int \<times> playback) outcome" where
  "TaskPlayback_sendVariedCmd iVal = send_simple iVal 0"

definition TaskPlayback_pushSendCmd :: "int \<Rightarrow> int \<Rightarrow> playback \<Rightarrow> (int \<times> playback) outcome" where
  "TaskPlayback_pushSendCmd iVal index t =
     (if iVal \<in> {MODULE_MSG_DATAEND, MODULE_MSG_SEEK_CMPD, MODULE_MSG_SECTION_END, MODULE_MSG_EXERET} then
        send_simple iVal index t
      else if iVal = MODULE_MSG_PING then
        Inr (0, if gqueue_getSize (pMsgQueue t) < 10
                then t\<lparr>pMsgQueue := gqueue_push MODULE_MSG_PING (pMsgQueue t)\<rparr> else t)
      else Inr (0, t))"

text \<open>\<open>getLoginRet\<close>: the description of the file, of which the frame rate is kept.\<close>

definition getLoginRet :: "playback \<Rightarrow> (byte list \<times> playback) outcome" where
  "getLoginRet t =
     (case pMedia t of
        None \<Rightarrow> Inl Null_deref
      | Some med \<Rightarrow>
          bnd (load32 (med_info med) 4) (\<lambda>nFps.
          Inr (put_login_ret ERR_NOERROR (med_info med), t\<lparr>pFrameRate := sint nFps\<rparr>)))"

text \<open>The constructor; \<open>memory\<close> is what the members nobody initialises contain.\<close>

definition TaskPlayback_new :: "sock \<Rightarrow> tagSendBuffer \<Rightarrow> media option \<Rightarrow> playback outcome" where
  "TaskPlayback_new s memory med =
     (let t = \<lparr>mSock = s, mRecv = tagRecvBuffer_reset \<lparr>buff = [], bProcHead = True, hasRecvLen = 0, recvTotal = 0\<rparr>,
               addEvents = [], pSend = tagSendBuffer_reset (memory\<lparr>avpack := no_packet\<rparr>), pMedia = med,
               pFrameRate = 30, pFrameCount = 0, pbSendingData = True, pMsgQueue = []\<rparr>;
          head = put_cmd \<lparr>dwFlag = NET_FLAG, dwCmd = word_of_int MODULE_MSG_LOGINRET, dwIndex = 0,
                          dwLength = word_of_nat sizeof_LOGIN_RET\<rparr>
      in bnd (put_at 0 head t) (\<lambda>t.
         bnd (getLoginRet t) (\<lambda>(loginRet, t).
         bnd (put_at sizeof_NET_CMD loginRet t) (\<lambda>t.
         bnd (TaskPlayback_tcpSendData (upd_psend (\<lambda>b. b\<lparr>toSend := int (sizeof_NET_CMD + sizeof_LOGIN_RET), bCmd := True\<rparr>) t))
             (\<lambda>(ret, t). Inr t)))))"

text \<open>The timer; \<open>writing\<close> is \<open>getWriting\<close> of the session.\<close>

definition TaskPlayback_setHeartCount :: "int \<Rightarrow> playback \<Rightarrow> int \<times> playback" where
  "TaskPlayback_setHeartCount writing t =
     (let t = t\<lparr>pMsgQueue := gqueue_push MODULE_MSG_PING (pMsgQueue t)\<rparr>;
          t = (if writing = 0 \<or> \<not> pbSendingData t then request_write t else t)
      in (gqueue_getSize (pMsgQueue t), t))"

section \<open>Frames\<close>

text \<open>A read and a \<open>memcpy\<close> at an offset from \<open>pkt.data\<close> that can be negative.\<close>

definition peek :: "byte list \<Rightarrow> int \<Rightarrow> byte outcome" where
  "peek d i = (if 0 \<le> i \<and> i < int (length d) then Inr (d ! nat i) else Inl Out_of_bounds)"

definition poke :: "byte list \<Rightarrow> int \<Rightarrow> byte list \<Rightarrow> byte list outcome" where
  "poke d i xs = (if 0 \<le> i then store d (nat i) xs else Inl Out_of_bounds)"

text \<open>The loop over the first bytes of a key frame, from \<open>i\<close> on, \<open>n\<close> turns.\<close>

fun patch_loop :: "nat \<Rightarrow> int \<Rightarrow> byte list \<Rightarrow> int \<Rightarrow> int \<Rightarrow> (byte list \<times> int \<times> int) outcome" where
  "patch_loop 0 i d index len = Inr (d, index, len)"
| "patch_loop (Suc n) i d index len =
     bnd (peek d i) (\<lambda>curDat.
     if curDat = 0x67 \<or> curDat = 0x68 then
       bnd (peek d (i - 1)) (\<lambda>l.
       bnd (poke d (i - 4) start_code) (\<lambda>d.
       patch_loop n (i + 1) d i (int (unat l))))
     else patch_loop n (i + 1) d index len)"

definition patch_key_frame :: "byte list \<Rightarrow> byte list outcome" where
  "patch_key_frame d =
     bnd (patch_loop 36 0 d 0 0) (\<lambda>(d, index, len).
     poke d (index + len) start_code)"

text \<open>What \<open>writeBuffer\<close> does with the data of a video frame.\<close>

definition patch_video :: "bool \<Rightarrow> int \<Rightarrow> byte list \<Rightarrow> byte list outcome" where
  "patch_video key len d =
     bnd (if key then bnd (peek d 4) (\<lambda>c. if c = 0x67 then patch_key_frame d else Inr d) else Inr d) (\<lambda>d.
     if len \<ge> 4 then
       bnd (load d 0 4) (\<lambda>xs. if xs \<noteq> [0, 0, 0, 2] then poke d 0 start_code else Inr d)
     else Inr d)"

definition av_frame_head :: "av_packet \<Rightarrow> byte list" where
  "av_frame_head pkt = put_cmd \<lparr>dwFlag = NET_FLAG, dwCmd = word_of_int MODULE_MSG_VIDEO, dwIndex = 0,
     dwLength = word_of_int (pk_size pkt + int sizeof_AV_FRAME)\<rparr>"

text \<open>The part of \<open>writeBuffer\<close> under \<open>res >= 0\<close>; the frame type is written for audio and video only.\<close>

definition TaskPlayback_next_frame :: "av_packet \<Rightarrow> int \<Rightarrow> playback \<Rightarrow> playback outcome" where
  "TaskPlayback_next_frame pkt frameType t =
     (let t = upd_psend (\<lambda>b. b\<lparr>avpack := pkt, toSend := int (sizeof_NET_CMD + sizeof_AV_FRAME), bCmd := True\<rparr>) t
      in bnd (put_at 0 (av_frame_head pkt) t) (\<lambda>t.
         bnd (put_at 20 (put32 (word_of_int (pk_size pkt)) @ put32 (word_of_int (pk_pts pkt)) @ put32 (word_of_int (pk_pts pkt))) t) (\<lambda>t.
         if frameType = AVMEDIA_TYPE_VIDEO then
           bnd (put_at 16 (put32 (if pk_key pkt then FRAME_VIDEO_I else FRAME_VIDEO_P)) t) (\<lambda>t.
           bnd (patch_video (pk_key pkt) (pk_size pkt) (pk_data pkt)) (\<lambda>d.
           Inr (upd_psend (\<lambda>b. b\<lparr>avpack := pkt\<lparr>pk_data := d\<rparr>\<rparr>) t)))
         else if frameType = AVMEDIA_TYPE_AUDIO then put_at 16 (put32 FRAME_AUDIO) t
         else Inr t)))"

definition TaskPlayback_writeBuffer :: "playback \<Rightarrow> (int \<times> playback) outcome" where
  "TaskPlayback_writeBuffer t =
     (if toSend (pSend t) = 0 then
        if gqueue_getSize (pMsgQueue t) > 0 then
          let (val, q) = gqueue_try_pop (pMsgQueue t)
          in TaskPlayback_sendVariedCmd (case val of None \<Rightarrow> 0 | Some v \<Rightarrow> v) (t\<lparr>pMsgQueue := q\<rparr>)
        else if \<not> pbSendingData t then Inr (0, t)
        else if pFrameCount t < SEG_FRAME_COUNT then
          let t = t\<lparr>pFrameCount := pFrameCount t + 1\<rparr>
          in case pMedia t of
               None \<Rightarrow> Inl Null_deref
             | Some med \<Rightarrow>
                 (case med_packets med of
                    (pkt, frameType) # rest \<Rightarrow>
                      bnd (TaskPlayback_next_frame pkt frameType (t\<lparr>pMedia := Some (med\<lparr>med_packets := rest\<rparr>)\<rparr>))
                        TaskPlayback_tcpSendData
                  | [] \<Rightarrow>
                      bnd (TaskPlayback_pushSendCmd MODULE_MSG_DATAEND 0 (t\<lparr>pbSendingData := False\<rparr>)) (\<lambda>(ret, t).
                      Inr (0, t)))
        else
          TaskPlayback_pushSendCmd MODULE_MSG_SECTION_END 0 (t\<lparr>pFrameCount := 0, pbSendingData := False\<rparr>)
      else TaskPlayback_tcpSendData t)"

section \<open>Commands of the client\<close>

definition seekFrame :: "32 word \<Rightarrow> media option \<Rightarrow> media option" where
  "seekFrame ms med = map_option (\<lambda>m. m\<lparr>med_packets := med_seek m ms\<rparr>) med"

definition TaskPlayback_seek :: "int \<Rightarrow> int \<Rightarrow> playback \<Rightarrow> playback outcome" where
  "TaskPlayback_seek iPos index t =
     (let t = upd_psend tagSendBuffer_reset (t\<lparr>pMedia := seekFrame (word_of_int iPos) (pMedia t)\<rparr>)
      in bnd (TaskPlayback_pushSendCmd MODULE_MSG_SEEK_CMPD index t) (\<lambda>(rest, t).
         bnd (TaskPlayback_pushSendCmd MODULE_MSG_EXERET index t) (\<lambda>(ret, t).
         let t = (if rest \<noteq> int sizeof_NET_CMD
                  then t\<lparr>pMsgQueue := gqueue_push MODULE_MSG_SEEK_CMPD (pMsgQueue t)\<rparr> else t)
         in Inr (t\<lparr>pbSendingData := True\<rparr>))))"

definition TaskPlayback_handle :: "int \<Rightarrow> playback \<Rightarrow> (int \<times> playback) outcome" where
  "TaskPlayback_handle ret t =
     bnd (load32 (buff (mRecv t)) 4) (\<lambda>cmd.
     bnd (if uint cmd = MODULE_MSG_CONTROL_PLAY then
            bnd (attribute ''name'' t) (\<lambda>(v, l).
            if value_is v ''start'' then
              bnd (attribute ''tmstart'' t) (\<lambda>_.
              bnd (attribute ''tmend'' t) (\<lambda>_. Inr (request_write t)))
            else if value_is v ''setpause'' then
              bnd (attribute ''value'' t) (\<lambda>(v, l).
              Inr (if atoi (c_str v) = 0 then t\<lparr>pbSendingData := True\<rparr> else t))
            else if value_is v ''seek'' then
              bnd (attribute ''value'' t) (\<lambda>(v, l).
              bnd (load32 (buff (mRecv t)) 8) (\<lambda>dwIndex.
              TaskPlayback_seek (atoi (c_str v)) (uint dwIndex) t))
            else Inr t)
          else Inr t) (\<lambda>t.
     Inr (ret, upd_recv tagRecvBuffer_reset t)))"

definition TaskPlayback_recvPackData :: "playback \<Rightarrow> (int \<times> playback) outcome" where
  "TaskPlayback_recvPackData = recv_body TaskPlayback_handle"

definition TaskPlayback_readBuffer :: "playback \<Rightarrow> (int \<times> playback) outcome" where
  "TaskPlayback_readBuffer = read_packet TaskPlayback_handle"

end
