(* ===== verification/PlaybackProps.thy ===== *)
theory PlaybackProps
  imports Playback
begin

text \<open>
  Properties of \<open>TaskPlayback\<close>: the key frames it rewrites, the frames it sends, and what a seek
  does to a frame that is on its way.
\<close>

section \<open>Rewriting frames\<close>

lemma length_poke: "poke d i xs = Inr d' \<Longrightarrow> length d' = length d"
  by (auto simp: poke_def length_store split: if_splits)

lemma length_patch_loop: "patch_loop n i d index len = Inr (d', index', len') \<Longrightarrow> length d' = length d"
proof (induction n i d index len rule: patch_loop.induct)
  case (2 n i d index len)
  show ?case
  proof (cases "peek d i")
    case (Inr c)
    then show ?thesis
      using 2 by (auto dest: length_poke split: if_splits)
  qed (use 2 in simp)
qed simp

lemma length_patch_video:
  assumes "patch_video key n d = Inr d'"
  shows "length d' = length d"
proof -
  obtain d1 where d1: "(if key then bnd (peek d 4) (\<lambda>c. if c = 0x67 then patch_key_frame d else Inr d) else Inr d) = Inr d1"
    "(if n \<ge> 4 then bnd (load d1 0 4) (\<lambda>xs. if xs \<noteq> [0, 0, 0, 2] then poke d1 0 start_code else Inr d1) else Inr d1) = Inr d'"
    using assms by (auto simp: patch_video_def)
  have "length d1 = length d"
    using d1(1) by (auto simp: patch_key_frame_def dest!: length_poke length_patch_loop split: if_splits)
  then show ?thesis
    using d1(2) by (auto dest!: length_poke split: if_splits)
qed

section \<open>Sending frames\<close>

text \<open>The event loop calls \<open>writeBuffer\<close> until it returns 0.\<close>

fun TaskPlayback_writes :: "nat \<Rightarrow> playback \<Rightarrow> playback outcome" where
  "TaskPlayback_writes 0 t = Inl Out_of_fuel"
| "TaskPlayback_writes (Suc n) t =
     bnd (TaskPlayback_writeBuffer t) (\<lambda>(ret, t). if ret = 0 then Inr t else TaskPlayback_writes n t)"

text \<open>The data of a frame as it is sent, and its message.\<close>

definition prepare :: "av_packet \<Rightarrow> int \<Rightarrow> byte list outcome" where
  "prepare pkt frameType =
     (if frameType = AVMEDIA_TYPE_VIDEO then patch_video (pk_key pkt) (pk_size pkt) (pk_data pkt) else Inr (pk_data pkt))"

definition frame_code :: "av_packet \<Rightarrow> int \<Rightarrow> 32 word" where
  "frame_code pkt frameType =
     (if frameType = AVMEDIA_TYPE_VIDEO then (if pk_key pkt then FRAME_VIDEO_I else FRAME_VIDEO_P)
      else if frameType = AVMEDIA_TYPE_AUDIO then FRAME_AUDIO else 0)"

definition av_head :: "av_packet \<Rightarrow> int \<Rightarrow> byte list" where
  "av_head pkt frameType = av_frame_head pkt @ put32 (frame_code pkt frameType) @ put32 (word_of_int (pk_size pkt)) @
     put32 (word_of_int (pk_pts pkt)) @ put32 (word_of_int (pk_pts pkt))"

definition av_message :: "av_packet \<times> int \<Rightarrow> byte list" where
  "av_message = (\<lambda>(pkt, frameType). av_head pkt frameType @
     (case prepare pkt frameType of Inr d \<Rightarrow> take (nat (pk_size pkt)) d | Inl e \<Rightarrow> []))"

definition sendable :: "av_packet \<times> int \<Rightarrow> bool" where
  "sendable = (\<lambda>(pkt, frameType). 0 < pk_size pkt \<and> nat (pk_size pkt) \<le> length (pk_data pkt) \<and> pk_size pkt < 2 ^ 31 \<and>
     (case prepare pkt frameType of Inr d \<Rightarrow> True | Inl e \<Rightarrow> False))"

lemma length_av_head [simp]: "length (av_head pkt frameType) = 32"
  by (simp add: av_head_def av_frame_head_def)

lemma upd_psend_simps [simp]:
  "pSend (upd_psend f t) = f (pSend t)" "mSock (upd_psend f t) = mSock t" "pMedia (upd_psend f t) = pMedia t"
  "pFrameCount (upd_psend f t) = pFrameCount t" "pbSendingData (upd_psend f t) = pbSendingData t"
  "pMsgQueue (upd_psend f t) = pMsgQueue t" "mRecv (upd_psend f t) = mRecv t" "addEvents (upd_psend f t) = addEvents t"
  by (simp_all add: upd_psend_def)

text \<open>Between two messages, with nothing queued.\<close>

definition playing :: "playback \<Rightarrow> bool" where
  "playing t \<longleftrightarrow> toSend (pSend t) = 0 \<and> hasSent (pSend t) = 0 \<and> cmdMem (pSend t) = replicate 1500 0 \<and>
     avpack (pSend t) = no_packet \<and> pMsgQueue t = [] \<and> pbSendingData t"

text \<open>What one successful \<open>tcpSendData\<close> does: the block that is being sent goes out as a whole.\<close>

lemma tcpSendData_all:
  assumes "hasSent (pSend t) = 0" "toSend (pSend t) = int (length xs)" "xs \<noteq> []" "length xs < 2 ^ 31"
    and "m = (if bCmd (pSend t) then cmdMem (pSend t) else pk_data (avpack (pSend t)))"
    and "take (length xs) m = xs" "accepting (length xs + n) (send_plan (mSock t))"
  shows "\<exists>s'. TaskPlayback_tcpSendData t =
      Inr (int (length xs), upd_psend (\<lambda>b. if bCmd b \<and> 0 < pk_size (avpack b)
        then tagSendBuffer_setToVideo (b\<lparr>hasSent := int (length xs)\<rparr>)
        else tagSendBuffer_reset (b\<lparr>hasSent := int (length xs)\<rparr>)) (t\<lparr>mSock := s'\<rparr>)) \<and>
    sent s' = sent (mSock t) @ xs \<and> accepting n (send_plan s')"
proof -
  have "length xs \<le> length m"
    using assms(6) by (metis length_take min.cobounded1)
  then have ld: "load m 0 (size_of (int (length xs))) = Inr xs"
    using assms(4,6) by (simp add: load_def)
  obtain s' where s': "task_sendEx xs t = Inr (int (length xs), t\<lparr>mSock := s'\<rparr>)"
      "sent s' = sent (mSock t) @ xs" "accepting n (send_plan s')"
    using sendEx_accepting [OF assms(7,3)] by (auto simp: task_sendEx_def)
  show ?thesis
    using assms(1-3,5) ld s'
    by (cases "bCmd (pSend t)") (auto simp add: TaskPlayback_tcpSendData_def Let_def upd_psend_def)
qed

text \<open>The command block after a frame's head has been written over zeros.\<close>

lemma put_at_ok:
  "p + length xs \<le> length (cmdMem (pSend t)) \<Longrightarrow>
    put_at p xs t = Inr (upd_psend (\<lambda>b. b\<lparr>cmdMem := take p (cmdMem b) @ xs @ drop (p + length xs) (cmdMem b)\<rparr>) t)"
  by (simp add: put_at_def store_def upd_psend_def)

lemma upd_psend_twice [simp]: "upd_psend f (upd_psend g t) = upd_psend (\<lambda>b. f (g b)) t"
  by (simp add: upd_psend_def)

lemma next_frame_ok:
  assumes "playing t" "prepare pkt frameType = Inr d"
  shows "TaskPlayback_next_frame pkt frameType t =
    Inr (upd_psend (\<lambda>b. b\<lparr>avpack := pkt\<lparr>pk_data := d\<rparr>, toSend := 32, bCmd := True,
      cmdMem := av_head pkt frameType @ replicate 1468 0\<rparr>) t)"
proof -
  have h: "length (av_frame_head pkt) = 16"
    by (simp add: av_frame_head_def)
  have m: "cmdMem (pSend t) = replicate 1500 0"
    using assms(1) by (simp add: playing_def)
  have z: "put32 0 = replicate 4 0"
    by (simp add: put32_def numeral_eq_Suc)
  have p: "pkt\<lparr>pk_data := d\<rparr> = pkt" if "frameType \<noteq> AVMEDIA_TYPE_VIDEO"
    using that assms(2) by (simp add: prepare_def)
  have eq: "upd_psend f t = upd_psend g t" if "f (pSend t) = g (pSend t)" for f g
    using that by (simp add: upd_psend_def)
  obtain h0 n0 b0 a0 where b: "pSend t = \<lparr>bCmd = b0, hasSent = h0, toSend = n0, avpack = a0, cmdMem = replicate 1500 0\<rparr>"
    using m by (cases "pSend t") simp
  note defs = TaskPlayback_next_frame_def Let_def put_at_ok h m frame_code_def av_head_def
        sizeof_NET_CMD_def sizeof_AV_FRAME_def AVMEDIA_TYPE_VIDEO_def AVMEDIA_TYPE_AUDIO_def
  show ?thesis
  proof (cases "frameType = AVMEDIA_TYPE_VIDEO")
    case True
    then have "patch_video (pk_key pkt) (pk_size pkt) (pk_data pkt) = Inr d"
      using assms(2) by (simp add: prepare_def)
    then show ?thesis
      using True by (simp add: defs) (auto intro!: eq simp: b)
  next
    case False
    then show ?thesis
      using p [OF False] by (auto simp add: defs intro!: eq) (simp_all add: b z)
  qed
qed

text \<open>The state in which the head of a frame has been sent and its data \<open>xs\<close> have not.\<close>

definition head_sent :: "byte list \<Rightarrow> playback \<Rightarrow> bool" where
  "head_sent xs t \<longleftrightarrow> \<not> bCmd (pSend t) \<and> hasSent (pSend t) = 0 \<and> toSend (pSend t) = int (length xs) \<and>
     cmdMem (pSend t) = replicate 1500 0 \<and> take (length xs) (pk_data (avpack (pSend t))) = xs \<and>
     xs \<noteq> [] \<and> length xs < 2 ^ 31 \<and> pMsgQueue t = [] \<and> pbSendingData t"

lemma play_head:
  assumes "playing t" "pFrameCount t < SEG_FRAME_COUNT" "pMedia t = Some med"
    and "med_packets med = (pkt, ft) # rest" "sendable (pkt, ft)" "accepting (32 + k) (send_plan (mSock t))"
  shows "\<exists>t1 xs. TaskPlayback_writeBuffer t = Inr (32, t1) \<and> head_sent xs t1 \<and> av_message (pkt, ft) = av_head pkt ft @ xs \<and>
    pFrameCount t1 = pFrameCount t + 1 \<and> pMedia t1 = Some (med\<lparr>med_packets := rest\<rparr>) \<and>
    sent (mSock t1) = sent (mSock t) @ av_head pkt ft \<and> accepting k (send_plan (mSock t1))"
proof -
  obtain d where d: "prepare pkt ft = Inr d"
    using assms(5) by (auto simp: sendable_def split: sum.splits)
  define xs where "xs = take (nat (pk_size pkt)) d"
  have "length d = length (pk_data pkt)"
    using d length_patch_video by (fastforce simp: prepare_def split: if_splits)
  then have xs: "length xs = nat (pk_size pkt)" "0 < pk_size pkt" "pk_size pkt < 2 ^ 31" "xs \<noteq> []"
    using assms(5) by (auto simp: sendable_def xs_def)
  have msg: "av_message (pkt, ft) = av_head pkt ft @ xs"
    by (simp add: av_message_def d xs_def)
  define b where "b = (pSend t)\<lparr>avpack := pkt\<lparr>pk_data := d\<rparr>, toSend := 32, bCmd := True, cmdMem := av_head pkt ft @ replicate 1468 0\<rparr>"
  define t0 where "t0 = t\<lparr>pFrameCount := pFrameCount t + 1, pMedia := Some (med\<lparr>med_packets := rest\<rparr>), pSend := b\<rparr>"
  let ?t' = "t\<lparr>pFrameCount := pFrameCount t + 1, pMedia := Some (med\<lparr>med_packets := rest\<rparr>)\<rparr>"
  have "playing ?t'"
    using assms(1) by (simp add: playing_def)
  from next_frame_ok [OF this d] have nf: "TaskPlayback_next_frame pkt ft ?t' = Inr t0"
    by (simp add: upd_psend_def t0_def b_def)
  have w1: "TaskPlayback_writeBuffer t = TaskPlayback_tcpSendData t0"
    using assms(1-4) nf by (simp add: TaskPlayback_writeBuffer_def playing_def gqueue_getSize_def)
  have ne: "av_head pkt ft \<noteq> []"
    using length_av_head [of pkt ft] by (metis list.size(3) zero_neq_numeral)
  have "\<exists>s'. TaskPlayback_tcpSendData t0 =
      Inr (int (length (av_head pkt ft)), upd_psend (\<lambda>b. if bCmd b \<and> 0 < pk_size (avpack b)
        then tagSendBuffer_setToVideo (b\<lparr>hasSent := int (length (av_head pkt ft))\<rparr>)
        else tagSendBuffer_reset (b\<lparr>hasSent := int (length (av_head pkt ft))\<rparr>)) (t0\<lparr>mSock := s'\<rparr>)) \<and>
    sent s' = sent (mSock t0) @ av_head pkt ft \<and> accepting k (send_plan s')"
    by (rule tcpSendData_all) (use assms(1,6) ne in \<open>auto simp: t0_def b_def playing_def\<close>)
  then obtain s1 where s1: "TaskPlayback_tcpSendData t0 = Inr (32, t0\<lparr>mSock := s1,
        pSend := tagSendBuffer_setToVideo (b\<lparr>hasSent := 32\<rparr>)\<rparr>)"
      "sent s1 = sent (mSock t) @ av_head pkt ft" "accepting k (send_plan s1)"
    using xs(2) by (auto simp: t0_def b_def upd_psend_def)
  have "head_sent xs (t0\<lparr>mSock := s1, pSend := tagSendBuffer_setToVideo (b\<lparr>hasSent := 32\<rparr>)\<rparr>)"
    using assms(1) xs by (simp add: head_sent_def t0_def tagSendBuffer_setToVideo_def b_def playing_def xs_def)
  then show ?thesis
    using w1 s1 msg by (fastforce simp: t0_def)
qed

lemma play_data:
  assumes "head_sent xs t" "accepting (length xs + k) (send_plan (mSock t))"
  shows "\<exists>t'. TaskPlayback_writeBuffer t = Inr (int (length xs), t') \<and> playing t' \<and> pFrameCount t' = pFrameCount t \<and>
    pMedia t' = pMedia t \<and> sent (mSock t') = sent (mSock t) @ xs \<and> accepting k (send_plan (mSock t'))"
proof -
  have st: "\<not> bCmd (pSend t)" "toSend (pSend t) = int (length xs)" "xs \<noteq> []"
    using assms(1) by (simp_all add: head_sent_def)
  have "\<exists>s'. TaskPlayback_tcpSendData t =
      Inr (int (length xs), upd_psend (\<lambda>b. if bCmd b \<and> 0 < pk_size (avpack b)
        then tagSendBuffer_setToVideo (b\<lparr>hasSent := int (length xs)\<rparr>)
        else tagSendBuffer_reset (b\<lparr>hasSent := int (length xs)\<rparr>)) (t\<lparr>mSock := s'\<rparr>)) \<and>
    sent s' = sent (mSock t) @ xs \<and> accepting k (send_plan s')"
    by (rule tcpSendData_all) (use assms in \<open>auto simp: head_sent_def\<close>)
  moreover have "TaskPlayback_writeBuffer t = TaskPlayback_tcpSendData t"
    using st by (simp add: TaskPlayback_writeBuffer_def)
  ultimately show ?thesis
    using assms(1) st(1) by (auto simp: upd_psend_def playing_def head_sent_def tagSendBuffer_reset_def)
qed

text \<open>Two calls of \<open>writeBuffer\<close> send one frame.\<close>

lemma play_frame:
  assumes "playing t" "pFrameCount t < SEG_FRAME_COUNT" "pMedia t = Some med"
    and "med_packets med = p # rest" "sendable p" "accepting (length (av_message p) + k) (send_plan (mSock t))"
  shows "\<exists>t1 t2 n. TaskPlayback_writeBuffer t = Inr (32, t1) \<and> TaskPlayback_writeBuffer t1 = Inr (n, t2) \<and> n \<noteq> 0 \<and>
    playing t2 \<and> pFrameCount t2 = pFrameCount t + 1 \<and> pMedia t2 = Some (med\<lparr>med_packets := rest\<rparr>) \<and>
    sent (mSock t2) = sent (mSock t) @ av_message p \<and> accepting k (send_plan (mSock t2))"
proof -
  obtain pkt ft where p: "p = (pkt, ft)"
    by (cases p)
  obtain d where d: "prepare pkt ft = Inr d"
    using assms(5) by (auto simp: sendable_def p split: sum.splits)
  define xs where "xs = take (nat (pk_size pkt)) d"
  have msg: "av_message p = av_head pkt ft @ xs"
    by (simp add: av_message_def p d xs_def)
  then have "accepting (32 + (length xs + k)) (send_plan (mSock t))"
    using assms(6) by (simp add: add.assoc)
  from play_head [OF assms(1-3) assms(4,5) [unfolded p] this]
  obtain t1 where t1: "TaskPlayback_writeBuffer t = Inr (32, t1)" "head_sent xs t1"
    "pFrameCount t1 = pFrameCount t + 1" "pMedia t1 = Some (med\<lparr>med_packets := rest\<rparr>)"
    "sent (mSock t1) = sent (mSock t) @ av_head pkt ft" "accepting (length xs + k) (send_plan (mSock t1))"
    using msg by (auto simp: p)
  moreover have "int (length xs) \<noteq> 0"
    using t1(2) by (simp add: head_sent_def)
  ultimately show ?thesis
    using play_data [OF t1(2,6)] msg by fastforce
qed

definition playback_calls :: "nat \<Rightarrow> nat" where
  "playback_calls n = 2 * n + 2"

text \<open>Frames until something else has to be sent.\<close>

lemma play_frames:
  assumes "playing t" "pMedia t = Some med" "med_packets med = ps @ rest" "\<forall>p \<in> set ps. sendable p"
    and "pFrameCount t + int (length ps) \<le> SEG_FRAME_COUNT"
    and "accepting (length (concat (map av_message ps)) + k) (send_plan (mSock t))"
  shows "\<exists>t'. (\<forall>n. TaskPlayback_writes (2 * length ps + n) t = TaskPlayback_writes n t') \<and>
    playing t' \<and> pFrameCount t' = pFrameCount t + int (length ps) \<and> pMedia t' = Some (med\<lparr>med_packets := rest\<rparr>) \<and>
    sent (mSock t') = sent (mSock t) @ concat (map av_message ps) \<and> accepting k (send_plan (mSock t'))"
  using assms
proof (induction ps arbitrary: t med)
  case Nil
  then have "med\<lparr>med_packets := rest\<rparr> = med"
    by simp
  with Nil show ?case
    by (intro exI [of _ t]) simp
next
  case (Cons p ps)
  have "accepting (length (av_message p) + (length (concat (map av_message ps)) + k)) (send_plan (mSock t))"
    using Cons.prems(6) by (simp add: add.assoc)
  then obtain t1 t2 n where w: "TaskPlayback_writeBuffer t = Inr (32, t1)" "TaskPlayback_writeBuffer t1 = Inr (n, t2)" "n \<noteq> 0"
    and t2: "playing t2" "pFrameCount t2 = pFrameCount t + 1" "pMedia t2 = Some (med\<lparr>med_packets := ps @ rest\<rparr>)"
      "sent (mSock t2) = sent (mSock t) @ av_message p"
      "accepting (length (concat (map av_message ps)) + k) (send_plan (mSock t2))"
    using play_frame [OF Cons.prems(1) _ Cons.prems(2), of p "ps @ rest"] Cons.prems(3-5) by auto blast
  then obtain t' where t': "\<forall>n. TaskPlayback_writes (2 * length ps + n) t2 = TaskPlayback_writes n t'"
      "playing t'" "pFrameCount t' = pFrameCount t2 + int (length ps)" "pMedia t' = Some (med\<lparr>med_packets := rest\<rparr>)"
      "sent (mSock t') = sent (mSock t2) @ concat (map av_message ps)" "accepting k (send_plan (mSock t'))"
    using Cons.IH [OF t2(1,3)] Cons.prems(4,5) by auto
  have "TaskPlayback_writes (2 * length (p # ps) + n) t = TaskPlayback_writes n t'" for n
    using t'(1) w by simp
  then show ?case
    using t' t2 by (intro exI [of _ t']) auto
qed

text \<open>A command that ends a segment or the file.\<close>

lemma play_command:
  assumes "playing t" "accepting (16 + k) (send_plan (mSock t))"
    and "iVal \<in> {MODULE_MSG_DATAEND, MODULE_MSG_SECTION_END, MODULE_MSG_SEEK_CMPD, MODULE_MSG_EXERET}"
  shows "\<exists>s'. TaskPlayback_pushSendCmd iVal index (t\<lparr>pFrameCount := n, pbSendingData := b\<rparr>) =
      Inr (16, t\<lparr>pFrameCount := n, pbSendingData := b, mSock := s',
        pSend := tagSendBuffer_reset ((pSend t)\<lparr>bCmd := True\<rparr>)\<rparr>) \<and>
    sent s' = sent (mSock t) @ simple_cmd iVal index \<and> accepting k (send_plan s')"
proof -
  let ?xs = "simple_cmd iVal index"
  have l: "length ?xs = 16" "?xs \<noteq> []"
    using length_put_cmd by (auto simp: simple_cmd_def put_cmd_def put32_def)
  have tk: "take 16 (?xs @ zs) = ?xs" for zs
    using l(1) by (metis append_eq_conv_conj)
  have t: "cmdMem (pSend t) = replicate 1500 0" "hasSent (pSend t) = 0" "avpack (pSend t) = no_packet"
    using assms(1) by (simp_all add: playing_def)
  define t0 where "t0 = t\<lparr>pFrameCount := n, pbSendingData := b,
    pSend := (pSend t)\<lparr>cmdMem := ?xs @ replicate 1484 0, toSend := 16, bCmd := True\<rparr>\<rparr>"
  have run: "TaskPlayback_pushSendCmd iVal index (t\<lparr>pFrameCount := n, pbSendingData := b\<rparr>) = TaskPlayback_tcpSendData t0"
  proof -
    have "TaskPlayback_pushSendCmd iVal index u = send_simple iVal index u" for u
      using assms(3) by (auto simp: TaskPlayback_pushSendCmd_def)
    then show ?thesis
      using t(1) l(1) by (simp add: send_simple_def put_at_def store_def t0_def sizeof_NET_CMD_def upd_psend_def)
  qed
  have "\<exists>s'. TaskPlayback_tcpSendData t0 = Inr (int (length ?xs), upd_psend (\<lambda>b. if bCmd b \<and> 0 < pk_size (avpack b)
        then tagSendBuffer_setToVideo (b\<lparr>hasSent := int (length ?xs)\<rparr>)
        else tagSendBuffer_reset (b\<lparr>hasSent := int (length ?xs)\<rparr>)) (t0\<lparr>mSock := s'\<rparr>)) \<and>
      sent s' = sent (mSock t0) @ ?xs \<and> accepting k (send_plan s')"
    by (rule tcpSendData_all [where m = "?xs @ replicate 1484 0"]) (use t l assms(2) tk in \<open>simp_all add: t0_def\<close>)
  then show ?thesis
    using run t l by (auto simp: upd_psend_def t0_def tagSendBuffer_reset_def no_packet_def)
qed

lemma send_command_playing:
  assumes "playing t" "accepting (16 + k) (send_plan (mSock t))"
    and "iVal \<in> {MODULE_MSG_DATAEND, MODULE_MSG_SECTION_END, MODULE_MSG_SEEK_CMPD, MODULE_MSG_EXERET}"
  shows "\<exists>t'. TaskPlayback_pushSendCmd iVal index t = Inr (16, t') \<and> playing t' \<and> pMedia t' = pMedia t \<and>
    sent (mSock t') = sent (mSock t) @ simple_cmd iVal index \<and> accepting k (send_plan (mSock t'))"
proof -
  obtain s' where s': "TaskPlayback_pushSendCmd iVal index (t\<lparr>pFrameCount := pFrameCount t, pbSendingData := pbSendingData t\<rparr>) =
      Inr (16, t\<lparr>pFrameCount := pFrameCount t, pbSendingData := pbSendingData t, mSock := s',
        pSend := tagSendBuffer_reset ((pSend t)\<lparr>bCmd := True\<rparr>)\<rparr>)"
    "sent s' = sent (mSock t) @ simple_cmd iVal index" "accepting k (send_plan s')"
    using play_command [OF assms, where index = index and n = "pFrameCount t" and b = "pbSendingData t"] by blast
  have "playing (t\<lparr>mSock := s', pSend := tagSendBuffer_reset ((pSend t)\<lparr>bCmd := True\<rparr>)\<rparr>)"
    using assms(1) by (simp add: playing_def tagSendBuffer_reset_def)
  then show ?thesis
    using s' by (intro exI [of _ "t\<lparr>mSock := s', pSend := tagSendBuffer_reset ((pSend t)\<lparr>bCmd := True\<rparr>)\<rparr>"]) simp
qed

text \<open>The frames of the current segment, and the command that follows them.\<close>

definition segment :: "playback \<Rightarrow> media \<Rightarrow> (av_packet \<times> int) list" where
  "segment t med = take (nat (SEG_FRAME_COUNT - pFrameCount t)) (med_packets med)"

definition segment_end :: "playback \<Rightarrow> media \<Rightarrow> int" where
  "segment_end t med = (if nat (SEG_FRAME_COUNT - pFrameCount t) \<le> length (med_packets med)
     then MODULE_MSG_SECTION_END else MODULE_MSG_DATAEND)"

section \<open>Properties\<close>

text \<open>
  C36: a segment is played. With nothing else to send, the calls of \<open>writeBuffer\<close> put the frames of
  the segment on the wire one after the other, each behind its head, and then one command,
  \<open>MODULE_MSG_SECTION_END\<close> when the segment is full and \<open>MODULE_MSG_DATAEND\<close> when the file ends;
  after that the task asks for no more write events until the client resumes it.
\<close>

theorem playback_segment:
  assumes "playing t" "0 \<le> pFrameCount t" "pFrameCount t \<le> SEG_FRAME_COUNT" "pMedia t = Some med"
    and "\<forall>p \<in> set (segment t med). sendable p"
    and "accepting (length (concat (map av_message (segment t med))) + 16) (send_plan (mSock t))"
  shows "\<exists>t'. TaskPlayback_writes (playback_calls (length (segment t med))) t = Inr t' \<and>
    sent (mSock t') = sent (mSock t) @ concat (map av_message (segment t med)) @ simple_cmd (segment_end t med) 0 \<and>
    \<not> pbSendingData t' \<and> TaskPlayback_writeBuffer t' = Inr (0, t') \<and>
    map_option med_packets (pMedia t') = Some (drop (length (segment t med)) (med_packets med))"
proof -
  let ?ps = "segment t med" and ?k = "nat (SEG_FRAME_COUNT - pFrameCount t)"
  let ?rest = "drop ?k (med_packets med)"
  have split: "med_packets med = ?ps @ ?rest" "drop (length ?ps) (med_packets med) = ?rest"
    by (simp_all add: segment_def min_def)
  have "pFrameCount t + int (length ?ps) \<le> SEG_FRAME_COUNT"
    using assms(3) by (simp add: segment_def)
  then obtain t1 where t1: "\<forall>n. TaskPlayback_writes (2 * length ?ps + n) t = TaskPlayback_writes n t1"
      "playing t1" "pFrameCount t1 = pFrameCount t + int (length ?ps)" "pMedia t1 = Some (med\<lparr>med_packets := ?rest\<rparr>)"
      "sent (mSock t1) = sent (mSock t) @ concat (map av_message ?ps)" "accepting 16 (send_plan (mSock t1))"
    using play_frames [OF assms(1,4) split(1) assms(5) _ assms(6)] by blast
  have idle: "toSend (pSend t1) = 0" "pMsgQueue t1 = []" "pbSendingData t1" "hasSent (pSend t1) = 0"
    using t1(2) by (simp_all add: playing_def)
  have stop: "TaskPlayback_writeBuffer u = Inr (0, u)" if "toSend (pSend u) = 0" "pMsgQueue u = []" "\<not> pbSendingData u" for u
    using that by (simp add: TaskPlayback_writeBuffer_def gqueue_getSize_def)
  have calls: "TaskPlayback_writes (playback_calls (length ?ps)) t = TaskPlayback_writes (Suc (Suc 0)) t1"
    using t1(1) [rule_format, of "Suc (Suc 0)"] by (simp only: playback_calls_def add_2_eq_Suc' add_Suc_right add_0_right)
  show ?thesis
  proof (cases "?k \<le> length (med_packets med)")
    case True
    then have "pFrameCount t1 = SEG_FRAME_COUNT"
      using t1(3) assms(3) by (simp add: segment_def)
    moreover obtain s' where s': "TaskPlayback_pushSendCmd MODULE_MSG_SECTION_END 0 (t1\<lparr>pFrameCount := 0, pbSendingData := False\<rparr>) =
      Inr (16, t1\<lparr>pFrameCount := 0, pbSendingData := False, mSock := s', pSend := tagSendBuffer_reset ((pSend t1)\<lparr>bCmd := True\<rparr>)\<rparr>)"
      "sent s' = sent (mSock t1) @ simple_cmd MODULE_MSG_SECTION_END 0"
      using play_command [OF t1(2), where iVal = MODULE_MSG_SECTION_END and n = 0 and b = False and k = 0 and index = 0] t1(6) by auto
    ultimately have "TaskPlayback_writeBuffer t1 =
      Inr (16, t1\<lparr>pFrameCount := 0, pbSendingData := False, mSock := s', pSend := tagSendBuffer_reset ((pSend t1)\<lparr>bCmd := True\<rparr>)\<rparr>)"
      using idle by (simp add: TaskPlayback_writeBuffer_def gqueue_getSize_def)
    moreover have "simple_cmd (segment_end t med) 0 = simple_cmd MODULE_MSG_SECTION_END 0"
      using True by (simp add: segment_end_def)
    ultimately show ?thesis
      unfolding calls split(2) using stop idle s'(2) t1(4,5) by (simp add: tagSendBuffer_reset_def)
  next
    case False
    then have "pFrameCount t1 < SEG_FRAME_COUNT" "?rest = []"
      using t1(3) assms(3) by (auto simp: segment_def)
    moreover obtain s' where s': "TaskPlayback_pushSendCmd MODULE_MSG_DATAEND 0 (t1\<lparr>pFrameCount := pFrameCount t1 + 1, pbSendingData := False\<rparr>) =
      Inr (16, t1\<lparr>pFrameCount := pFrameCount t1 + 1, pbSendingData := False, mSock := s', pSend := tagSendBuffer_reset ((pSend t1)\<lparr>bCmd := True\<rparr>)\<rparr>)"
      "sent s' = sent (mSock t1) @ simple_cmd MODULE_MSG_DATAEND 0"
      using play_command [OF t1(2), where iVal = MODULE_MSG_DATAEND and n = "pFrameCount t1 + 1" and b = False and k = 0 and index = 0] t1(6) by auto
    ultimately have "TaskPlayback_writeBuffer t1 =
      Inr (0, t1\<lparr>pFrameCount := pFrameCount t1 + 1, pbSendingData := False, mSock := s', pSend := tagSendBuffer_reset ((pSend t1)\<lparr>bCmd := True\<rparr>)\<rparr>)"
      using idle t1(4) by (simp add: TaskPlayback_writeBuffer_def gqueue_getSize_def)
    moreover have "simple_cmd (segment_end t med) 0 = simple_cmd MODULE_MSG_DATAEND 0"
      using False by (simp add: segment_end_def)
    ultimately show ?thesis
      unfolding calls split(2) using stop idle s'(2) t1(4,5) by (simp add: tagSendBuffer_reset_def)
  qed
qed

definition some_media :: media where
  "some_media = \<lparr>med_info = replicate 328 0,
     med_packets = [(\<lparr>pk_data = [1, 2, 3, 0, 0], pk_size = 3, pk_pts = 40, pk_key = False\<rparr>, AVMEDIA_TYPE_AUDIO)],
     med_seek = \<lambda>_. []\<rparr>"

definition some_player :: playback where
  "some_player = \<lparr>mSock = \<lparr>send_plan = Again # replicate 200 (Accepted 7), sent = [], recv_plan = [], incoming = [], peer_closed = False\<rparr>,
     mRecv = \<lparr>buff = replicate 1500 0, bProcHead = True, hasRecvLen = 0, recvTotal = 16\<rparr>, addEvents = [],
     pSend = \<lparr>bCmd = True, hasSent = 0, toSend = 0, avpack = no_packet, cmdMem = replicate 1500 0\<rparr>,
     pMedia = Some some_media, pFrameRate = 25, pFrameCount = 3, pbSendingData = True, pMsgQueue = []\<rparr>"

theorem playback_segment_witness:
  "\<exists>t'. TaskPlayback_writes 4 some_player = Inr t' \<and>
    sent (mSock t') = concat (map av_message (med_packets some_media)) @ simple_cmd MODULE_MSG_DATAEND 0 \<and>
    \<not> pbSendingData t'"
proof -
  have seg: "segment some_player some_media = med_packets some_media"
    "segment_end some_player some_media = MODULE_MSG_DATAEND"
    by (simp_all add: segment_def segment_end_def some_player_def some_media_def SEG_FRAME_COUNT_def)
  have l: "length (concat (map av_message (med_packets some_media))) = 35"
    "length (med_packets some_media) = 1"
    by (simp_all add: some_media_def av_message_def prepare_def AVMEDIA_TYPE_AUDIO_def AVMEDIA_TYPE_VIDEO_def)
  have "\<exists>t'. TaskPlayback_writes (playback_calls (length (segment some_player some_media))) some_player = Inr t' \<and>
    sent (mSock t') = sent (mSock some_player) @ concat (map av_message (segment some_player some_media)) @
      simple_cmd (segment_end some_player some_media) 0 \<and>
    \<not> pbSendingData t' \<and> TaskPlayback_writeBuffer t' = Inr (0, t') \<and>
    map_option med_packets (pMedia t') = Some (drop (length (segment some_player some_media)) (med_packets some_media))"
  proof (rule playback_segment)
    show "\<forall>p \<in> set (segment some_player some_media). sendable p"
      unfolding seg
      by (simp add: some_media_def sendable_def prepare_def AVMEDIA_TYPE_AUDIO_def AVMEDIA_TYPE_VIDEO_def)
    show "accepting (length (concat (map av_message (segment some_player some_media))) + 16) (send_plan (mSock some_player))"
      unfolding seg l by (simp add: some_player_def accepting_def)
  qed (simp_all add: some_player_def playing_def SEG_FRAME_COUNT_def)
  moreover have "sent (mSock some_player) = []"
    by (simp add: some_player_def)
  ultimately show ?thesis
    unfolding seg l by (auto simp: playback_calls_def)
qed

text \<open>
  a seek loses a frame. Between the two calls that send a frame the client has been promised
  its data; a seek that arrives there throws them away and puts its two answers in their place, so
  the client takes these for the data and the stream is out of step.
\<close>

theorem seek_drops_frame:
  assumes "playing t" "pFrameCount t < SEG_FRAME_COUNT" "pMedia t = Some med"
    and "med_packets med = (pkt, ft) # rest" "sendable (pkt, ft)" "accepting 64 (send_plan (mSock t))"
  shows "\<exists>t1 t2. TaskPlayback_writeBuffer t = Inr (32, t1) \<and> TaskPlayback_seek iPos index t1 = Inr t2 \<and>
    sent (mSock t2) = sent (mSock t) @ av_head pkt ft @ simple_cmd MODULE_MSG_SEEK_CMPD index @
      simple_cmd MODULE_MSG_EXERET index \<and>
    playing t2 \<and> map_option med_packets (pMedia t2) = Some (med_seek med (word_of_int iPos))"
proof -
  have "accepting (32 + (16 + 16)) (send_plan (mSock t))"
    using assms(6) by simp
  from play_head [OF assms(1-5) this] obtain t1 xs where t1: "TaskPlayback_writeBuffer t = Inr (32, t1)" "head_sent xs t1"
      "pMedia t1 = Some (med\<lparr>med_packets := rest\<rparr>)"
      "sent (mSock t1) = sent (mSock t) @ av_head pkt ft" "accepting (16 + 16) (send_plan (mSock t1))"
    by blast
  define u where "u = t1\<lparr>pMedia := Some (med\<lparr>med_packets := med_seek med (word_of_int iPos)\<rparr>),
    pSend := tagSendBuffer_reset (pSend t1)\<rparr>"
  have u: "playing u" "accepting (16 + 16) (send_plan (mSock u))"
    using t1(2,5) by (simp_all add: u_def playing_def head_sent_def tagSendBuffer_reset_def)
  obtain u1 where u1: "TaskPlayback_pushSendCmd MODULE_MSG_SEEK_CMPD index u = Inr (16, u1)" "playing u1"
      "pMedia u1 = pMedia u" "sent (mSock u1) = sent (mSock u) @ simple_cmd MODULE_MSG_SEEK_CMPD index" "accepting 16 (send_plan (mSock u1))"
    using send_command_playing [OF u, of MODULE_MSG_SEEK_CMPD index] by auto
  moreover have "accepting (16 + 0) (send_plan (mSock u1))"
    using u1(5) by simp
  ultimately obtain u2 where u2: "TaskPlayback_pushSendCmd MODULE_MSG_EXERET index u1 = Inr (16, u2)" "playing u2"
      "pMedia u2 = pMedia u1" "sent (mSock u2) = sent (mSock u1) @ simple_cmd MODULE_MSG_EXERET index"
    using send_command_playing [OF u1(2), of 0 MODULE_MSG_EXERET index] by auto
  have "TaskPlayback_seek iPos index t1 = Inr (u2\<lparr>pbSendingData := True\<rparr>)"
    using u1(1) u2(1) t1(3)
    by (simp add: TaskPlayback_seek_def seekFrame_def u_def upd_psend_def sizeof_NET_CMD_def)
  then show ?thesis
    using t1 u1 u2 by (auto simp: u_def playing_def)
qed

theorem seek_drops_frame_witness:
  "\<exists>t1 t2. TaskPlayback_writeBuffer some_player = Inr (32, t1) \<and> TaskPlayback_seek 5 7 t1 = Inr t2 \<and>
    sent (mSock t2) = av_head (fst (hd (med_packets some_media))) AVMEDIA_TYPE_AUDIO @
      simple_cmd MODULE_MSG_SEEK_CMPD 7 @ simple_cmd MODULE_MSG_EXERET 7 \<and> playing t2"
proof -
  have m: "med_packets some_media = (fst (hd (med_packets some_media)), AVMEDIA_TYPE_AUDIO) # []"
    by (simp add: some_media_def)
  have "\<exists>t1 t2. TaskPlayback_writeBuffer some_player = Inr (32, t1) \<and> TaskPlayback_seek 5 7 t1 = Inr t2 \<and>
    sent (mSock t2) = sent (mSock some_player) @ av_head (fst (hd (med_packets some_media))) AVMEDIA_TYPE_AUDIO @
      simple_cmd MODULE_MSG_SEEK_CMPD 7 @ simple_cmd MODULE_MSG_EXERET 7 \<and>
    playing t2 \<and> map_option med_packets (pMedia t2) = Some (med_seek some_media (word_of_int 5))"
    by (rule seek_drops_frame [OF _ _ _ m])
      (simp_all add: some_player_def playing_def SEG_FRAME_COUNT_def sendable_def prepare_def some_media_def
        AVMEDIA_TYPE_AUDIO_def AVMEDIA_TYPE_VIDEO_def accepting_def)
  then show ?thesis
    by (auto simp: some_player_def)
qed

section \<open>Key frames\<close>

definition parameter_byte :: "byte \<Rightarrow> bool" where
  "parameter_byte c \<longleftrightarrow> c = 0x67 \<or> c = 0x68"

lemma length_codes [simp]: "length (be32 w) = 4" "length start_code = 4"
  by (simp_all add: be32_def start_code_def)

lemma patch_skip:
  assumes "\<And>j. i \<le> j \<Longrightarrow> j < i + n \<Longrightarrow> \<not> parameter_byte (d ! j)" "i + n \<le> length d"
  shows "patch_loop (n + m) (int i) d index len = patch_loop m (int (i + n)) d index len"
  using assms
proof (induction n arbitrary: i)
  case (Suc n)
  have "\<not> parameter_byte (d ! i)" "i < length d"
    using Suc.prems(1) [of i] Suc.prems(2) by auto
  then have "patch_loop (Suc n + m) (int i) d index len = patch_loop (n + m) (int (Suc i)) d index len"
    by (simp add: peek_def parameter_byte_def add.commute)
  also have "\<dots> = patch_loop m (int (Suc i + n)) d index len"
    using Suc.prems by (intro Suc.IH) auto
  finally show ?case
    by simp
qed simp

lemma patch_hit:
  assumes "parameter_byte (d ! i)" "i < length d" "4 \<le> i"
  shows "patch_loop (Suc m) (int i) d index len =
    patch_loop m (int (Suc i)) (take (i - 4) d @ start_code @ drop i d) (int i) (int (unat (d ! (i - 1))))"
proof -
  have "peek d (int i) = Inr (d ! i)"
    using assms(2) by (simp add: peek_def)
  moreover have "peek d (int i - 1) = Inr (d ! (i - 1))"
    using assms(2,3) by (auto simp: peek_def nat_diff_distrib)
  moreover have "poke d (int i - 4) start_code = Inr (take (i - 4) d @ start_code @ drop i d)"
    using assms(2,3) by (auto simp: poke_def store_def nat_diff_distrib)
  ultimately show ?thesis
    using assms(1) by (auto simp: parameter_byte_def add.commute)
qed

text \<open>A NAL unit behind its length, as in an MP4 file, and behind a start code.\<close>

definition avcc :: "byte list \<Rightarrow> byte list" where
  "avcc nal = be32 (word_of_nat (length nal)) @ nal"

definition annexb :: "byte list \<Rightarrow> byte list" where
  "annexb nal = start_code @ nal"

lemma be32_last: "n < 256 \<Longrightarrow> \<exists>a b c. be32 (word_of_nat n) = [a, b, c, word_of_nat n]"
  by (simp add: be32_def put32_def unsigned_of_nat take_bit_nat_eq_self)

text \<open>
  C37: a key frame is turned from the format of the file into that of the stream: each of the
  lengths in front of the sequence and picture parameter sets and of the picture becomes a start
  code and nothing else changes, if the parameter sets have fewer than 256 bytes, the second one
  begins among the first 36 bytes, and none of these bytes but the two first ones of the parameter
  sets has the value 67 or 68.
\<close>

theorem key_frame_to_annexb:
  assumes "sps = 0x67 # sps'" "pps = 0x68 # pps'" "length sps < 256" "length pps < 256" "8 + length sps < 36"
    and "d = avcc sps @ avcc pps @ avcc idr @ padding" "36 \<le> length d" "4 \<le> n"
    and "\<And>j. j < 36 \<Longrightarrow> j \<noteq> 4 \<Longrightarrow> j \<noteq> 8 + length sps \<Longrightarrow> \<not> (d ! j = 0x67 \<or> d ! j = 0x68)"
  shows "patch_video True n d = Inr (annexb sps @ annexb pps @ annexb idr @ padding)"
proof -
  let ?p = "8 + length sps"
  define L1 L2 L3 where "L1 = be32 (word_of_nat (length sps))" and "L2 = be32 (word_of_nat (length pps))"
    and "L3 = be32 (word_of_nat (length idr))"
  have len: "length L1 = 4" "length L2 = 4" "length L3 = 4"
    by (simp_all add: L1_def L2_def L3_def)
  have d: "d = L1 @ sps @ L2 @ pps @ L3 @ idr @ padding"
    using assms(6) by (simp add: avcc_def L1_def L2_def L3_def)
  have no: "\<not> parameter_byte (d ! j)" if "j < 36" "j \<noteq> 4" "j \<noteq> ?p" for j
    using assms(9) [OF that] by (simp add: parameter_byte_def)
  define d1 where "d1 = start_code @ sps @ L2 @ pps @ L3 @ idr @ padding"
  define d2 where "d2 = start_code @ sps @ start_code @ pps @ L3 @ idr @ padding"
  have d4: "d ! 4 = 0x67" and dp: "d1 ! ?p = 0x68"
    by (simp_all add: d d1_def nth_append len assms(1,2))
  have same1: "d1 ! j = d ! j" if "4 \<le> j" for j
    using that by (simp add: d d1_def nth_append len)
  have same2: "d2 ! j = d ! j" if "?p \<le> j" for j
    using that by (auto simp add: d d2_def nth_append len)
  have l1: "length d1 = length d" "length d2 = length d"
    by (simp_all add: d d1_def d2_def len)
  have big: "?p < length d"
    using assms(5,7) by linarith
  have "patch_loop (4 + Suc (35 - 4)) (int 0) d 0 0 = patch_loop (Suc (35 - 4)) (int (0 + 4)) d 0 0"
    by (rule patch_skip) (use no assms(7) in auto)
  then have s1: "patch_loop 36 0 d 0 0 = patch_loop (Suc 31) (int 4) d 0 0"
    by simp
  have "patch_loop (Suc 31) (int 4) d 0 0 = patch_loop 31 (int 5) (take (4 - 4) d @ start_code @ drop 4 d) (int 4) (int (unat (d ! (4 - 1))))"
    using patch_hit [of d 4 31 0 0] d4 big by (simp add: parameter_byte_def del: patch_loop.simps)
  moreover have "take (4 - 4) d @ start_code @ drop 4 d = d1"
    by (simp add: d d1_def len)
  ultimately obtain l where s2: "patch_loop 36 0 d 0 0 = patch_loop 31 (int 5) d1 (int 4) l"
    using s1 by simp
  have turns: "31 = (3 + length sps) + Suc (27 - length sps)"
    using assms(5) by simp
  have "patch_loop ((3 + length sps) + Suc (27 - length sps)) (int 5) d1 (int 4) l =
      patch_loop (Suc (27 - length sps)) (int (5 + (3 + length sps))) d1 (int 4) l"
  proof (rule patch_skip)
    fix j
    assume "5 \<le> j" "j < 5 + (3 + length sps)"
    then show "\<not> parameter_byte (d1 ! j)"
      using no [of j] same1 [of j] assms(5) by simp
  qed (use big l1 in simp)
  moreover have "5 + (3 + length sps) = ?p"
    by simp
  ultimately have s3: "patch_loop 36 0 d 0 0 = patch_loop (Suc (27 - length sps)) (int ?p) d1 (int 4) l"
    unfolding s2 turns [symmetric] by (simp only:)
  have "unat (d1 ! (?p - 1)) = length pps"
  proof -
    have "d1 ! (?p - 1) = L2 ! 3"
      by (simp add: d1_def nth_append len)
    also have "\<dots> = word_of_nat (length pps)"
      using be32_last [OF assms(4)] by (auto simp: L2_def)
    finally show ?thesis
      using assms(4) by (simp add: unsigned_of_nat take_bit_eq_mod)
  qed
  moreover have "take (?p - 4) d1 @ start_code @ drop ?p d1 = d2"
    by (simp add: d1_def d2_def len)
  ultimately have s4: "patch_loop 36 0 d 0 0 = patch_loop (27 - length sps) (int (Suc ?p)) d2 (int ?p) (int (length pps))"
    using s3 patch_hit [of d1 ?p "27 - length sps" "int 4" l] dp big l1
    by (simp add: parameter_byte_def del: patch_loop.simps)
  have "patch_loop ((27 - length sps) + 0) (int (Suc ?p)) d2 (int ?p) (int (length pps)) =
      patch_loop 0 (int (Suc ?p + (27 - length sps))) d2 (int ?p) (int (length pps))"
  proof (rule patch_skip)
    fix j
    assume "Suc ?p \<le> j" "j < Suc ?p + (27 - length sps)"
    then show "\<not> parameter_byte (d2 ! j)"
      using no [of j] same2 [of j] assms(5) by simp
  qed (use assms(5,7) l1 in simp)
  then have "patch_loop 36 0 d 0 0 = Inr (d2, int ?p, int (length pps))"
    using s4 by simp
  moreover have "poke d2 (int ?p + int (length pps)) start_code = Inr (start_code @ sps @ start_code @ pps @ start_code @ idr @ padding)"
    by (simp add: poke_def store_def d2_def len nat_add_distrib)
  ultimately have "patch_key_frame d = Inr (start_code @ sps @ start_code @ pps @ start_code @ idr @ padding)"
    by (simp add: patch_key_frame_def)
  moreover have "peek d 4 = Inr 0x67"
    using d4 big by (simp add: peek_def)
  ultimately show ?thesis
    using assms(8)
    by (simp add: patch_video_def annexb_def load_def poke_def store_def)
qed

theorem key_frame_to_annexb_witness:
  "patch_video True 45 (avcc [0x67, 1, 2] @ avcc [0x68, 3] @ avcc (replicate 20 5) @ replicate 8 0) =
     Inr (annexb [0x67, 1, 2] @ annexb [0x68, 3] @ annexb (replicate 20 5) @ replicate 8 0)"
proof (rule key_frame_to_annexb)
  let ?d = "avcc [0x67, 1, 2] @ avcc [0x68, 3] @ avcc (replicate 20 5) @ replicate 8 0"
  have "\<forall>j \<in> set [0..<36]. j \<noteq> 4 \<longrightarrow> j \<noteq> 11 \<longrightarrow> \<not> (?d ! j = 0x67 \<or> ?d ! j = 0x68)"
    by code_simp
  then show "\<not> (?d ! j = 0x67 \<or> ?d ! j = 0x68)"
    if "j < 36" "j \<noteq> 4" "j \<noteq> 8 + length [0x67 :: byte, 1, 2]" for j
    using that by auto
qed (simp_all add: avcc_def)

end
