(* ===== verification/SessionManager.thy ===== *)
theory SessionManager
  imports Prelude
begin

text \<open>
  \<open>SessionManager\<close> of \<open>Session.cpp\<close>: a table of 64 rows of 1024 entries, allocated row by row,
  from a 16-bit key (a descriptor) to a session and a sequence number that tells the sessions
  that have had the key apart. The locale \<open>handle_table\<close> is the contract of such a table.
\<close>

record 's session_entry =
  mSeq :: "16 word"
  mSession :: "'s option"

record 's session_manager =
  mCount :: int
  mArray :: "nat \<Rightarrow> (nat \<Rightarrow> 's session_entry) option"

definition sm_new :: "'s session_manager" where
  "sm_new = \<lparr>mCount = 0, mArray = \<lambda>_. None\<rparr>"

definition sm_getCount :: "'s session_manager \<Rightarrow> int" where
  "sm_getCount m = mCount m"

text \<open>A row as \<open>calloc\<close> leaves it.\<close>

definition zero_row :: "nat \<Rightarrow> 's session_entry" where
  "zero_row = (\<lambda>_. \<lparr>mSeq = 0, mSession = None\<rparr>)"

definition sm_put :: "16 word \<Rightarrow> 's \<Rightarrow> 's session_manager \<Rightarrow> 16 word \<times> 's session_manager" where
  "sm_put key session m =
     (let row = unat key div 1024; col = unat key mod 1024;
          list = (case mArray m row of None \<Rightarrow> zero_row | Some l \<Rightarrow> l)
      in (mSeq (list col), m\<lparr>mArray := (mArray m)(row \<mapsto> list(col := (list col)\<lparr>mSession := Some session\<rparr>)),
                             mCount := mCount m + 1\<rparr>))"

definition sm_get :: "16 word \<Rightarrow> 's session_manager \<Rightarrow> 's option \<times> 16 word" where
  "sm_get key m =
     (let row = unat key div 1024; col = unat key mod 1024
      in case mArray m row of
           Some list \<Rightarrow> (mSession (list col), mSeq (list col))
         | None \<Rightarrow> (None, 0))"

text \<open>\<open>*seq\<close> is written only when there is a row.\<close>

definition sm_remove :: "16 word \<Rightarrow> 's session_manager \<Rightarrow> ('s option \<times> 16 word option) \<times> 's session_manager" where
  "sm_remove key m =
     (let row = unat key div 1024; col = unat key mod 1024
      in case mArray m row of
           None \<Rightarrow> ((None, None), m)
         | Some list \<Rightarrow>
             ((mSession (list col), Some (mSeq (list col))),
              m\<lparr>mArray := (mArray m)(row \<mapsto> list(col := \<lparr>mSeq = mSeq (list col) + 1, mSession = None\<rparr>)),
                mCount := mCount m - 1\<rparr>))"

text \<open>The destructor: the sessions it deletes, row by row, and the emptied table.\<close>

definition row_sessions :: "(nat \<Rightarrow> 's session_entry) option \<Rightarrow> 's list" where
  "row_sessions r = (case r of None \<Rightarrow> []
     | Some list \<Rightarrow> concat (map (\<lambda>i. case mSession (list i) of None \<Rightarrow> [] | Some s \<Rightarrow> [s]) [0..<1024]))"

definition sm_destroy :: "'s session_manager \<Rightarrow> 's list \<times> 's session_manager" where
  "sm_destroy m = (concat (map (\<lambda>i. row_sessions (mArray m i)) [0..<64]), m\<lparr>mArray := \<lambda>_. None\<rparr>)"

section \<open>The contract\<close>

text \<open>
  What the users of such a table rely on: a look-up sees the last \<open>put\<close> or \<open>remove\<close> of its own
  key and nothing else, and a \<open>remove\<close> of a session that is there makes the key's sequence
  number a new one. \<open>size\<close> is the number the table reports, \<open>there\<close> the keys in use.
\<close>

locale handle_table =
  fixes get :: "16 word \<Rightarrow> 't \<Rightarrow> 's option \<times> 16 word"
    and put :: "16 word \<Rightarrow> 's \<Rightarrow> 't \<Rightarrow> 16 word \<times> 't"
    and remove :: "16 word \<Rightarrow> 't \<Rightarrow> ('s option \<times> 16 word option) \<times> 't"
    and size :: "'t \<Rightarrow> int"
  assumes get_put: "get k' (snd (put k s t)) = (if k' = k then (Some s, snd (get k t)) else get k' t)"
    and put_seq: "fst (put k s t) = snd (get k t)"
    and get_remove: "fst (get k t) \<noteq> None \<Longrightarrow>
      get k' (snd (remove k t)) = (if k' = k then (None, snd (get k t) + 1) else get k' t)"
    and remove_result: "fst (get k t) \<noteq> None \<Longrightarrow> fst (remove k t) = (fst (get k t), Some (snd (get k t)))"
    and size_put: "size (snd (put k s t)) = size t + 1"
    and size_remove: "fst (get k t) \<noteq> None \<Longrightarrow> size (snd (remove k t)) = size t - 1"
begin

definition there :: "'t \<Rightarrow> 16 word set" where
  "there t = {k. fst (get k t) \<noteq> None}"

lemma finite_there [simp]: "finite (there t)"
  by (rule finite_subset [OF subset_UNIV]) simp

lemma there_put: "there (snd (put k s t)) = insert k (there t)"
  by (auto simp: there_def get_put)

lemma there_remove: "k \<in> there t \<Longrightarrow> there (snd (remove k t)) = there t - {k}"
  by (auto simp: there_def get_remove split: if_splits)

text \<open>The table reports the right number as long as it is used as intended.\<close>

definition counted :: "'t \<Rightarrow> bool" where
  "counted t \<longleftrightarrow> size t = int (card (there t))"

lemma counted_put: "counted t \<Longrightarrow> k \<notin> there t \<Longrightarrow> counted (snd (put k s t))"
  by (simp add: counted_def size_put there_put)

lemma counted_remove: "counted t \<Longrightarrow> k \<in> there t \<Longrightarrow> counted (snd (remove k t))"
proof -
  assume t: "counted t" "k \<in> there t"
  then have "0 < card (there t)"
    by (auto simp: card_gt_0_iff)
  then show ?thesis
    using t size_remove [of k t] by (simp add: counted_def there_remove) (simp add: there_def)
qed

text \<open>A sequence of removals and new sessions under one key, other keys being used in between.\<close>

fun reuse :: "16 word \<Rightarrow> 's list \<Rightarrow> 't \<Rightarrow> 't" where
  "reuse k [] t = t"
| "reuse k (s # ss) t = reuse k ss (snd (put k s (snd (remove k t))))"

lemma get_reuse:
  assumes "k \<in> there t"
  shows "k \<in> there (reuse k ss t) \<and> snd (get k (reuse k ss t)) = snd (get k t) + word_of_nat (length ss) \<and>
    fst (get k (reuse k ss t)) = (if ss = [] then fst (get k t) else Some (last ss))"
  using assms
proof (induction ss arbitrary: t)
  case (Cons s ss)
  let ?t = "snd (put k s (snd (remove k t)))"
  have "fst (get k t) \<noteq> None"
    using Cons.prems by (simp add: there_def)
  then have "get k ?t = (Some s, snd (get k t) + 1)" "k \<in> there ?t"
    by (simp_all add: get_put get_remove there_put)
  then show ?case
    using Cons.IH [of ?t] by (auto simp: ac_simps)
qed simp

lemma seq_distinguishes:
  assumes "k \<in> there t" "0 < length ss" "length ss < 2 ^ 16"
  shows "snd (get k (reuse k ss t)) \<noteq> snd (get k t)"
proof -
  have "(word_of_nat (length ss) :: 16 word) \<noteq> 0"
    using assms(2,3) of_nat_inverse [of "length ss" "0 :: 16 word"] by auto
  then show ?thesis
    using get_reuse [OF assms(1), of ss] by simp
qed

end

section \<open>The table keeps the contract\<close>

lemma row_col_eq: "unat (k :: 16 word) div 1024 = unat k' div 1024 \<Longrightarrow> unat k mod 1024 = unat k' mod 1024 \<Longrightarrow> k = k'"
  by (metis div_mult_mod_eq word_unat_eq_iff)

interpretation sm: handle_table sm_get sm_put sm_remove sm_getCount
proof (unfold_locales, goal_cases)
  case (1 k' k s t)
  then show ?case
    using row_col_eq [of k' k] by (auto simp: sm_get_def sm_put_def Let_def zero_row_def split: option.splits)
next
  case (3 k t k')
  then show ?case
    using row_col_eq [of k' k] by (auto simp: sm_get_def sm_remove_def Let_def split: option.splits)
qed (auto simp: sm_get_def sm_put_def sm_remove_def sm_getCount_def Let_def zero_row_def split: option.splits)

end
