(* ===== verification/Session.thy ===== *)
theory Session
  imports Playback FileRecv SessionManager
begin

text \<open>
  \<open>Session\<close> of \<open>Session.cpp\<close>: one connection. Until the client has said what it wants the session
  itself reads from the socket (it is a \<open>task\<close> for that); then it creates a task object, to which it
  passes its socket and every later event. \<open>task_object\<close> is the dynamic type of \<open>mTaskBase\<close>, and
  the virtual functions of \<open>TaskBase\<close> are the functions that dispatch on it.
\<close>

section \<open>Task objects\<close>

datatype task_object =
    Video_recv video_task
  | File_recv file_recv
  | Play playback
  | File_send file_send

definition FILE_RECV_MSG :: int where "FILE_RECV_MSG = 5"

text \<open>\<open>lift_task\<close> puts the new state of an object back into its constructor.\<close>

definition lift_task :: "('a \<Rightarrow> task_object) \<Rightarrow> (int \<times> 'a) outcome \<Rightarrow> (int \<times> task_object) outcome" where
  "lift_task c r = bnd r (\<lambda>(ret, t). Inr (ret, c t))"

definition TaskBase_readBuffer :: "allocator \<Rightarrow> task_object \<Rightarrow> (int \<times> task_object) outcome" where
  "TaskBase_readBuffer A k =
     (case k of
        Video_recv t \<Rightarrow> lift_task Video_recv (TaskVideoRecv_readBuffer A t)
      | File_recv t \<Rightarrow> lift_task File_recv (TaskFileRecv_readBuffer t)
      | Play t \<Rightarrow> lift_task Play (TaskPlayback_readBuffer t)
      | File_send t \<Rightarrow> lift_task File_send (TaskFileSend_readBuffer t))"

definition TaskBase_writeBuffer :: "task_object \<Rightarrow> (int \<times> task_object) outcome" where
  "TaskBase_writeBuffer k =
     (case k of
        Video_recv t \<Rightarrow> Inr (0, k)
      | File_recv t \<Rightarrow> lift_task File_recv (TaskFileRecv_writeBuffer t)
      | Play t \<Rightarrow> lift_task Play (TaskPlayback_writeBuffer t)
      | File_send t \<Rightarrow> lift_task File_send (TaskFileSend_writeBuffer t))"

text \<open>Only \<open>TaskPlayback\<close> does something on a heart beat.\<close>

definition TaskBase_setHeartCount :: "int \<Rightarrow> task_object \<Rightarrow> int \<times> task_object" where
  "TaskBase_setHeartCount writing k =
     (case k of
        Play t \<Rightarrow> (let (n, t) = TaskPlayback_setHeartCount writing t in (n, Play t))
      | _ \<Rightarrow> (0, k))"

text \<open>The calls of \<open>EventCall::addEvent\<close> an object has made, and the object with them carried out.\<close>

definition task_events :: "task_object \<Rightarrow> 16 word list" where
  "task_events k = (case k of Video_recv t \<Rightarrow> [] | File_recv t \<Rightarrow> addEvents t | Play t \<Rightarrow> addEvents t | File_send t \<Rightarrow> addEvents t)"

definition events_done :: "task_object \<Rightarrow> task_object" where
  "events_done k = (case k of Video_recv t \<Rightarrow> k | File_recv t \<Rightarrow> File_recv (t\<lparr>addEvents := []\<rparr>)
     | Play t \<Rightarrow> Play (t\<lparr>addEvents := []\<rparr>) | File_send t \<Rightarrow> File_send (t\<lparr>addEvents := []\<rparr>))"

section \<open>Sessions\<close>

text \<open>
  The events are allocated with the session. \<open>mReadBuff\<close>, \<open>mTotalDataLen\<close>, \<open>mHasRecvLen\<close> and
  \<open>mbRecvHead\<close> are the receive buffer of the \<open>task\<close> part.
\<close>

record session = task +
  sid_mKey :: "16 word"
  sid_mSeq :: "16 word"
  mTaskBase :: "task_object option"
  mReadEvent :: nat
  mWriteEvent :: nat
  mTimeEvent :: nat
  mStatus :: int
  mRunning :: int
  mWriting :: int
  mReading :: int

definition eNormal :: int where "eNormal = 0"
definition eExit :: int where "eExit = 2"

text \<open>\<open>memory\<close> is what \<open>mReadBuff\<close> happens to contain, \<open>p\<close> the first of the three events.\<close>

definition Session_new :: "16 word \<Rightarrow> 16 word \<Rightarrow> sock \<Rightarrow> byte list \<Rightarrow> nat \<Rightarrow> session" where
  "Session_new key seq s memory p =
     \<lparr>mSock = s, mRecv = \<lparr>buff = memory, bProcHead = True, hasRecvLen = 0, recvTotal = 0\<rparr>, addEvents = [],
      sid_mKey = key, sid_mSeq = seq, mTaskBase = None, mReadEvent = p, mWriteEvent = p + 1, mTimeEvent = p + 2,
      mStatus = eNormal, mRunning = 0, mWriting = 0, mReading = 0\<rparr>"

text \<open>The constructor of a client's session, with the task that receives.\<close>

definition Session_new_client :: "16 word \<Rightarrow> 16 word \<Rightarrow> int \<Rightarrow> byte list \<Rightarrow> sock \<Rightarrow> byte list \<Rightarrow> byte list \<Rightarrow> evbuffer \<Rightarrow> bool \<Rightarrow> nat \<Rightarrow> session outcome" where
  "Session_new_client key seq type filepath s memory fresh cache opened p =
     (let t = Session_new key seq s memory p
      in if type = uint VIDEO_RECV_MSG then
           Inr (t\<lparr>mTaskBase := Some (Video_recv (TaskVideoRecv_new s memory cache opened))\<rparr>)
         else if type = FILE_RECV_MSG then
           bnd (TaskFileRecv_new s fresh opened filepath) (\<lambda>k. Inr (t\<lparr>mTaskBase := Some (File_recv k)\<rparr>))
         else Inr t)"

text \<open>
  What the server finds on its disk: the contents of a file, its size as \<open>stat\<close> gives it, and
  what ffmpeg makes of it; \<open>fs_memory\<close> is memory that \<open>TaskPlayback\<close> does not initialise.
\<close>

record filesys =
  fs_content :: "byte list \<Rightarrow> byte list option"
  fs_size :: "byte list \<Rightarrow> nat"
  fs_media :: "byte list \<Rightarrow> media option"
  fs_memory :: tagSendBuffer

text \<open>
  The complete first message: the path, by one of two attributes, says which task to create. A
  file that does not exist makes the result 0.
\<close>

definition Session_handle :: "filesys \<Rightarrow> int \<Rightarrow> session \<Rightarrow> (int \<times> session) outcome" where
  "Session_handle F ret t =
     (let m = buff (mRecv t) in
      bnd (PROTO_GetValueByName m (str ''play path'') (replicate 256 0)) (\<lambda>(r, acValue, lValueLen).
      bnd (if lValueLen > 0 then Inr (0, acValue)
           else bnd (PROTO_GetValueByName m (str ''get path'') acValue) (\<lambda>(r, acValue, lValueLen).
                Inr (if lValueLen > 0 then 1 else - 1, acValue))) (\<lambda>(dataType :: int, acValue).
      bnd (strlen acValue) (\<lambda>n.
      let path = take n acValue in
      if fs_content F path = None then Inr (0, t)
      else
        bnd (if dataType = 0 then
               bnd (TaskPlayback_new (mSock t) (fs_memory F) (fs_media F path)) (\<lambda>k. Inr (Some (Play k)))
             else if dataType = 1 then
               bnd (TaskFileSend_new (mSock t) (fs_content F path) (fs_size F path)) (\<lambda>k. Inr (Some (File_send k)))
             else Inr (mTaskBase t)) (\<lambda>k.
        Inr (ret, upd_recv (\<lambda>b. b\<lparr>recvTotal := 0, hasRecvLen := 0, bProcHead := True\<rparr>) (t\<lparr>mTaskBase := k\<rparr>)))))))"

definition Session_recvPackData :: "filesys \<Rightarrow> session \<Rightarrow> (int \<times> session) outcome" where
  "Session_recvPackData F = recv_body (Session_handle F)"

definition Session_readBuffer :: "allocator \<Rightarrow> filesys \<Rightarrow> session \<Rightarrow> (int \<times> session) outcome" where
  "Session_readBuffer A F t =
     (case mTaskBase t of
        Some k \<Rightarrow> bnd (TaskBase_readBuffer A k) (\<lambda>(ret, k). Inr (ret, t\<lparr>mTaskBase := Some k\<rparr>))
      | None \<Rightarrow> read_packet (Session_handle F) t)"

definition Session_writeBuffer :: "session \<Rightarrow> (int \<times> session) outcome" where
  "Session_writeBuffer t =
     (case mTaskBase t of
        Some k \<Rightarrow> bnd (TaskBase_writeBuffer k) (\<lambda>(ret, k). Inr (ret, t\<lparr>mTaskBase := Some k\<rparr>))
      | None \<Rightarrow> Inr (0, t))"

definition Session_setHeartBeat :: "session \<Rightarrow> int \<times> session" where
  "Session_setHeartBeat t =
     (case mTaskBase t of
        Some k \<Rightarrow> (let (n, k) = TaskBase_setHeartCount (mWriting t) k in (n, t\<lparr>mTaskBase := Some k\<rparr>))
      | None \<Rightarrow> (0, t))"

text \<open>\<open>recvEx\<close>, which reads until it has everything or \<open>recv\<close> fails; \<open>n\<close> bounds the calls.\<close>

fun Session_recvEx :: "nat \<Rightarrow> nat \<Rightarrow> nat \<Rightarrow> session \<Rightarrow> (int \<times> session) outcome" where
  "Session_recvEx 0 recvCount len t = Inl Out_of_fuel"
| "Session_recvEx (Suc n) recvCount len t =
     bnd (recv_at recvCount (len - recvCount) t) (\<lambda>(recvRet, t).
     if recvRet \<le> 0 then Inr (recvRet, t)
     else
       let recvCount = recvCount + nat recvRet
       in if recvCount < len then Session_recvEx n recvCount len t else Inr (int recvCount, t))"

section \<open>The parts of a session the event layer relies on\<close>

text \<open>No operation of a session moves its events or changes its flags.\<close>

definition same_handles :: "session \<Rightarrow> session \<Rightarrow> bool" where
  "same_handles t t' \<longleftrightarrow> mReadEvent t' = mReadEvent t \<and> mWriteEvent t' = mWriteEvent t \<and> mTimeEvent t' = mTimeEvent t \<and>
     mWriting t' = mWriting t \<and> mReading t' = mReading t \<and> sid_mKey t' = sid_mKey t \<and> sid_mSeq t' = sid_mSeq t"

lemma same_handles_refl [simp]: "same_handles t t"
  by (simp add: same_handles_def)

lemma same_handles_trans: "same_handles t t' \<Longrightarrow> same_handles t' t'' \<Longrightarrow> same_handles t t''"
  by (simp add: same_handles_def)

lemma same_handles_upd [simp]:
  "same_handles t (t'\<lparr>mSock := s\<rparr>) = same_handles t t'" "same_handles t (upd_recv f t') = same_handles t t'"
  "same_handles t (t'\<lparr>mTaskBase := k\<rparr>) = same_handles t t'" "same_handles (upd_recv f t) t' = same_handles t t'"
  by (simp_all add: same_handles_def upd_recv_def)

lemma recv_at_handles: "recv_at k n t = Inr (r, t') \<Longrightarrow> same_handles t t'"
  by (auto simp: recv_at_def Let_def split: prod.splits if_splits)

lemma Session_handle_handles: "Session_handle F ret t = Inr (r, t') \<Longrightarrow> same_handles t t'"
  by (auto simp: Session_handle_def Let_def split: if_splits)

lemma recv_body_handles:
  assumes "\<And>r t r' t'. act r t = Inr (r', t') \<Longrightarrow> same_handles t t'" "recv_body act t = Inr (r, t')"
  shows "same_handles t t'"
  using assms(2) by (auto simp: recv_body_def Let_def split: if_splits dest!: recv_at_handles assms(1)
      intro: same_handles_trans)

lemma read_packet_handles:
  assumes "\<And>r t r' t'. act r t = Inr (r', t') \<Longrightarrow> same_handles t t'" "read_packet act t = Inr (r, t')"
  shows "same_handles t t'"
  using assms(2) by (auto simp: read_packet_def Let_def split: if_splits
      dest!: recv_at_handles recv_body_handles [where act = act, rotated] assms(1) intro: same_handles_trans)

lemma Session_readBuffer_handles: "Session_readBuffer A F t = Inr (r, t') \<Longrightarrow> same_handles t t'"
  using read_packet_handles [where act = "Session_handle F", OF Session_handle_handles]
  by (auto simp: Session_readBuffer_def split: option.splits)

lemma Session_writeBuffer_handles: "Session_writeBuffer t = Inr (r, t') \<Longrightarrow> same_handles t t'"
  by (auto simp: Session_writeBuffer_def split: option.splits)

lemma Session_setHeartBeat_handles: "Session_setHeartBeat t = (r, t') \<Longrightarrow> same_handles t t'"
  by (auto simp: Session_setHeartBeat_def split: option.splits prod.splits)

end
