(* ===== verification/EventCall.thy ===== *)
theory EventCall
  imports Session EpollProofs
begin

text \<open>
  \<open>EventCall.cpp\<close>, \<open>TcpServer.cpp\<close>, \<open>TcpClient.cpp\<close> and \<open>ActorStation.cpp\<close>: the callbacks of the server
  over the event core with its \<open>epoll\<close> back end. A \<open>Session*\<close> is an address; \<open>sessions\<close> is the
  heap of the session objects, in which a deleted one is \<open>None\<close>, so a callback that uses one after its
  deletion is a fault. Addresses are handed out by a counter and never reused.
\<close>

definition CB_onAccept :: callback where "CB_onAccept = CB_user 0"
definition CB_onRead :: callback where "CB_onRead = CB_user 1"
definition CB_onWrite :: callback where "CB_onWrite = CB_user 2"
definition CB_onTimer :: callback where "CB_onTimer = CB_user 3"
definition CB_sigHandler :: callback where "CB_sigHandler = CB_user 4"

definition TIMEOUT_US :: int where "TIMEOUT_US = 1000000"

section \<open>The state\<close>

text \<open>What a call of \<open>accept\<close> brings: a descriptor, or -1, its connection, and what lies in the
  memory of the new session.\<close>

record arrival =
  arr_fd :: int
  arr_sock :: sock
  arr_memory :: "byte list"

text \<open>\<open>EventArg\<close> (\<open>manager\<close>, \<open>mTimeout\<close>), the objects, and what the station keeps.\<close>

record server = epollstate +
  sessions :: "nat \<Rightarrow> session option"
  manager :: "nat session_manager"
  mTimeout :: int
  heap_next :: nat
  arrivals :: "arrival list"
  closed_fds :: "int list"
  mIsShutdown :: int
  base_freed :: bool

record env =
  env_alloc :: allocator
  env_fs :: filesys
  mMaxConnections :: int

definition upd_session :: "nat \<Rightarrow> (session \<Rightarrow> session) \<Rightarrow> server \<Rightarrow> server" where
  "upd_session p f s = s\<lparr>sessions := (sessions s)(p := map_option f (sessions s p))\<rparr>"

section \<open>addEvent\<close>

text \<open>The common part of the two branches.\<close>

definition arm :: "kernel \<Rightarrow> nat \<Rightarrow> int \<Rightarrow> 16 word \<Rightarrow> callback \<Rightarrow> nat \<Rightarrow> server \<Rightarrow> server outcome" where
  "arm K ev fd events callback p s =
     (let s = event_set ev fd events callback p s;
          (r, s) = event_base_set ev s
      in bnd (event_add (epoll_add K) ev (Some \<lparr>tv_sec = mTimeout s, tv_usec = 0\<rparr>) s) (\<lambda>(r, s). Inr s))"

definition EVENT_FD :: "nat \<Rightarrow> server \<Rightarrow> int" where
  "EVENT_FD ev s = ev_fd (evs s ev)"

definition addEvent :: "kernel \<Rightarrow> nat \<Rightarrow> 16 word \<Rightarrow> int \<Rightarrow> server \<Rightarrow> server outcome" where
  "addEvent K p events fd s =
     (case sessions s p of
        None \<Rightarrow> Inl Use_after_free
      | Some t \<Rightarrow>
          bnd (if has events EV_WRITE \<and> mWriting t = 0 then
                 let s = upd_session p (\<lambda>t. t\<lparr>mWriting := 1\<rparr>) s;
                     fd = (if fd < 0 then EVENT_FD (mWriteEvent t) s else fd)
                 in bnd (arm K (mWriteEvent t) fd events CB_onWrite p s) (\<lambda>s. Inr (fd, s))
               else Inr (fd, s)) (\<lambda>(fd, s).
          if has events EV_READ \<and> mReading t = 0 then
            let s = upd_session p (\<lambda>t. t\<lparr>mReading := 1\<rparr>) s;
                fd = (if fd < 0 then EVENT_FD (mWriteEvent t) s else fd)
            in arm K (mReadEvent t) fd events CB_onRead p s
          else Inr s))"

text \<open>The calls a task has made of it, with descriptor -1.\<close>

fun addEvents_of :: "kernel \<Rightarrow> nat \<Rightarrow> 16 word list \<Rightarrow> server \<Rightarrow> server outcome" where
  "addEvents_of K p [] s = Inr s"
| "addEvents_of K p (e # es) s = bnd (addEvent K p e (- 1) s) (addEvents_of K p es)"

definition run_task_events :: "kernel \<Rightarrow> nat \<Rightarrow> server \<Rightarrow> server outcome" where
  "run_task_events K p s =
     (case sessions s p of
        None \<Rightarrow> Inl Use_after_free
      | Some t \<Rightarrow>
          (case mTaskBase t of
             None \<Rightarrow> Inr s
           | Some k \<Rightarrow> addEvents_of K p (task_events k) (upd_session p (\<lambda>t. t\<lparr>mTaskBase := Some (events_done k)\<rparr>) s)))"

section \<open>Closing a session\<close>

text \<open>The block that \<open>onRead\<close> and \<open>onWrite\<close> share.\<close>

definition close_session :: "kernel \<Rightarrow> nat \<Rightarrow> int \<Rightarrow> server \<Rightarrow> server outcome" where
  "close_session K p fd s =
     (case sessions s p of
        None \<Rightarrow> Inl Use_after_free
      | Some t \<Rightarrow>
          let s = s\<lparr>manager := snd (sm_remove (word_of_int fd) (manager s))\<rparr>
          in bnd (event_del (epoll_del K) (mReadEvent t) s) (\<lambda>(r, s).
             bnd (event_del (epoll_del K) (mWriteEvent t) s) (\<lambda>(r, s).
             bnd (event_del (epoll_del K) (mTimeEvent t) s) (\<lambda>(r, s).
             Inr (s\<lparr>sessions := (sessions s)(p := None), closed_fds := closed_fds s @ [fd]\<rparr>)))))"

section \<open>The callbacks\<close>

definition onRead :: "kernel \<Rightarrow> env \<Rightarrow> int \<Rightarrow> 16 word \<Rightarrow> nat \<Rightarrow> server \<Rightarrow> server outcome" where
  "onRead K C fd events p s =
     (case sessions s p of
        None \<Rightarrow> Inl Use_after_free
      | Some t \<Rightarrow>
          let t = t\<lparr>mReading := 0\<rparr>; s = s\<lparr>sessions := (sessions s)(p := Some t)\<rparr>
          in if has events EV_READ then
               bnd (Session_readBuffer (env_alloc C) (env_fs C) t) (\<lambda>(ret, t).
               bnd (run_task_events K p (s\<lparr>sessions := (sessions s)(p := Some t)\<rparr>)) (\<lambda>s.
               if ret = 0 then close_session K p fd s
               else addEvent K p EV_READ fd s))
             else addEvent K p EV_READ fd s)"

definition onWrite :: "kernel \<Rightarrow> int \<Rightarrow> 16 word \<Rightarrow> nat \<Rightarrow> server \<Rightarrow> server outcome" where
  "onWrite K fd events p s =
     (case sessions s p of
        None \<Rightarrow> Inl Use_after_free
      | Some t \<Rightarrow>
          let t = t\<lparr>mWriting := 0\<rparr>; s = s\<lparr>sessions := (sessions s)(p := Some t)\<rparr>
          in bnd (if has events EV_WRITE then
                    bnd (Session_writeBuffer t) (\<lambda>(ret, t).
                    bnd (run_task_events K p (s\<lparr>sessions := (sessions s)(p := Some t)\<rparr>)) (\<lambda>s. Inr (ret, s)))
                  else Inr (0, s)) (\<lambda>(ret, s).
             if ret = OWN_SOCK_EXIT then close_session K p fd s
             else if ret \<noteq> 0 then addEvent K p EV_WRITE fd s
             else Inr s))"

definition onTimer :: "kernel \<Rightarrow> int \<Rightarrow> 16 word \<Rightarrow> nat \<Rightarrow> server \<Rightarrow> server outcome" where
  "onTimer K fd events p s =
     (case sessions s p of
        None \<Rightarrow> Inl Use_after_free
      | Some t \<Rightarrow>
          let (count, t) = Session_setHeartBeat t
          in bnd (run_task_events K p (s\<lparr>sessions := (sessions s)(p := Some t)\<rparr>)) (\<lambda>s.
             bnd (event_add (epoll_add K) (mTimeEvent t) (Some \<lparr>tv_sec = 0, tv_usec = TIMEOUT_US\<rparr>) s) (\<lambda>(r, s). Inr s)))"

text \<open>\<open>accept\<close>; that the socket cannot be made non-blocking is only logged.\<close>

definition onAccept :: "kernel \<Rightarrow> env \<Rightarrow> server \<Rightarrow> server outcome" where
  "onAccept K C s =
     (case arrivals s of
        [] \<Rightarrow> Inr s
      | a # as \<Rightarrow>
          let s = s\<lparr>arrivals := as\<rparr>; clientFD = arr_fd a in
          if clientFD = - 1 then Inr s
          else
            let key = word_of_int clientFD;
                (old, seq) = sm_get key (manager s);
                p = heap_next s;
                t = Session_new key seq (arr_sock a) (arr_memory a) (p + 1);
                (seq, m) = sm_put key p (manager s);
                s = s\<lparr>heap_next := p + 4, sessions := (sessions s)(p := Some t), manager := m\<rparr>;
                s = event_set (mReadEvent t) clientFD EV_READ CB_onRead p s;
                s = event_set (mWriteEvent t) clientFD EV_WRITE CB_onWrite p s
            in bnd (addEvent K p EV_READ clientFD s) (\<lambda>s.
               let s = event_set (mTimeEvent t) (- 1) 0 CB_onTimer p s
               in bnd (addEvent K p EV_TIMEOUT clientFD s) (\<lambda>s.
                  bnd (event_add (epoll_add K) (mTimeEvent t) (Some \<lparr>tv_sec = 0, tv_usec = TIMEOUT_US\<rparr>) s) (\<lambda>(r, s).
                  if sm_getCount (manager s) > mMaxConnections C
                  then addEvent K p EV_WRITE clientFD (upd_session p (\<lambda>t. t\<lparr>mStatus := eExit\<rparr>) s)
                  else Inr s))))"

text \<open>\<open>ActorStation::sigHandler\<close>: \<open>shutdown\<close> of a running station.\<close>

definition station_shutdown :: "kernel \<Rightarrow> server \<Rightarrow> server outcome" where
  "station_shutdown K s =
     (let p = heap_next s; s = s\<lparr>mIsShutdown := 1, heap_next := p + 4\<rparr>
      in bnd (event_loopexit (epollops K) (Some p) (Some \<lparr>tv_sec = 0, tv_usec = 10\<rparr>) s) (\<lambda>(r, s). Inr s))"

text \<open>All callbacks of the server.\<close>

definition server_callbacks :: "kernel \<Rightarrow> env \<Rightarrow> server callbacks" where
  "server_callbacks K C c fd events arg s =
     (if c = CB_onAccept then onAccept K C s
      else if c = CB_onRead then onRead K C fd events arg s
      else if c = CB_onWrite then onWrite K fd events arg s
      else if c = CB_onTimer then onTimer K fd events arg s
      else if c = CB_sigHandler then station_shutdown K s
      else if c = CB_signal then evsignal_cb K (epoll_add K) fd arg s
      else Inr s)"

section \<open>The server, the client, the station\<close>

definition TcpServer_registerEvent :: "kernel \<Rightarrow> nat \<Rightarrow> int \<Rightarrow> server \<Rightarrow> server outcome" where
  "TcpServer_registerEvent K evAccept listenFD s =
     (let s = event_set evAccept listenFD (or EV_READ EV_PERSIST) CB_onAccept 0 s;
          (r, s) = event_base_set evAccept s
      in bnd (event_add (epoll_add K) evAccept None s) (\<lambda>(r, s). Inr s))"

definition TcpServer_shutdown :: "kernel \<Rightarrow> nat \<Rightarrow> int \<Rightarrow> server \<Rightarrow> (int \<times> server) outcome" where
  "TcpServer_shutdown K evAccept listenFD s =
     bnd (event_del (epoll_del K) evAccept s) (\<lambda>(r, s).
     Inr (if listenFD > 0 then (0, s\<lparr>closed_fds := closed_fds s @ [listenFD]\<rparr>) else (listenFD, s)))"

text \<open>\<open>TcpClient\<close>: a session that has been created on a connected socket is registered.\<close>

definition TcpClient_registerEvent :: "kernel \<Rightarrow> int \<Rightarrow> nat \<Rightarrow> server \<Rightarrow> server outcome" where
  "TcpClient_registerEvent K sockId p s =
     (case sessions s p of
        None \<Rightarrow> Inl Use_after_free
      | Some t \<Rightarrow>
          let s = s\<lparr>manager := snd (sm_put (sid_mKey t) p (manager s))\<rparr>;
              s = event_set (mReadEvent t) sockId (or EV_READ EV_PERSIST) CB_onRead p s
          in addEvent K p EV_READ sockId s)"

text \<open>\<open>disConnect\<close> deletes the read event twice, and the destructor then deletes the session.\<close>

definition TcpClient_disConnect :: "kernel \<Rightarrow> int \<Rightarrow> nat \<Rightarrow> server \<Rightarrow> (int \<times> server) outcome" where
  "TcpClient_disConnect K sockId p s =
     (if sockId > 0 then
        case sessions s p of
          None \<Rightarrow> Inl Use_after_free
        | Some t \<Rightarrow>
            let s = s\<lparr>manager := snd (sm_remove (word_of_int sockId) (manager s))\<rparr>
            in bnd (event_del (epoll_del K) (mReadEvent t) s) (\<lambda>(r, s).
               bnd (event_del (epoll_del K) (mReadEvent t) s) (\<lambda>(r, s).
               Inr (0, s\<lparr>closed_fds := closed_fds s @ [sockId]\<rparr>)))
      else Inr (sockId, s))"

definition TcpClient_destroy :: "int \<Rightarrow> nat \<Rightarrow> server \<Rightarrow> server" where
  "TcpClient_destroy sockId p s =
     (let s = (if sockId > 0 then s\<lparr>closed_fds := closed_fds s @ [sockId]\<rparr> else s)
      in s\<lparr>sessions := (sessions s)(p := None)\<rparr>)"

text \<open>
  \<open>ActorStation::start\<close>: \<open>event_base_loop\<close> with \<open>EVLOOP_ONCE\<close> until the station is shut down, at
  most \<open>m\<close> times; then \<open>Destroy\<close> frees the base, and \<open>signal_del\<close> follows the pointer to it that the
  signal events keep.
\<close>

fun station_loop :: "kernel \<Rightarrow> env \<Rightarrow> nat \<Rightarrow> nat \<Rightarrow> server \<Rightarrow> server outcome" where
  "station_loop K C n 0 s = Inl Out_of_fuel"
| "station_loop K C n (Suc m) s =
     (if mIsShutdown s = 0 then
        bnd (event_base_loop (epollops K) (server_callbacks K C) None n EVLOOP_ONCE s) (\<lambda>(r, s). station_loop K C n m s)
      else Inr s)"

text \<open>\<open>EventArg::Destroy\<close>: the manager is deleted, and with it every session in its table.\<close>

definition EventArg_Destroy :: "server \<Rightarrow> server" where
  "EventArg_Destroy s =
     (let (ps, m) = sm_destroy (manager s)
      in s\<lparr>base_freed := True, manager := m, sessions := (\<lambda>p. if p \<in> set ps then None else sessions s p)\<rparr>)"

definition signal_event_del :: "kernel \<Rightarrow> nat \<Rightarrow> server \<Rightarrow> server outcome" where
  "signal_event_del K ev s =
     (if ev_base (evs s ev) \<and> base_freed s then Inl Use_after_free
      else bnd (event_del (epoll_del K) ev s) (\<lambda>(r, s). Inr s))"

text \<open>The events of the two signals.\<close>

definition signal_event_add :: "kernel \<Rightarrow> nat \<Rightarrow> int \<Rightarrow> server \<Rightarrow> server outcome" where
  "signal_event_add K ev sig s =
     (let s = event_set ev sig (or EV_SIGNAL EV_PERSIST) CB_sigHandler 0 s;
          (r, s) = event_base_set ev s
      in bnd (event_add (epoll_add K) ev None s) (\<lambda>(r, s). Inr s))"

definition station_start :: "kernel \<Rightarrow> env \<Rightarrow> nat \<Rightarrow> nat \<Rightarrow> nat \<Rightarrow> nat \<Rightarrow> server \<Rightarrow> server outcome" where
  "station_start K C n m evSigInt evSigTerm s =
     bnd (signal_event_add K evSigInt 2 s) (\<lambda>s.
     bnd (signal_event_add K evSigTerm 15 s) (\<lambda>s.
     bnd (station_loop K C n m s) (\<lambda>s.
     let s = EventArg_Destroy s
     in bnd (signal_event_del K evSigTerm s) (signal_event_del K evSigInt))))"

end
