(* ===== verification/EpollFrame.thy ===== *)
theory EpollFrame
  imports EpollProofs
begin

text \<open>
  What the operations of the event core over the \<open>epoll\<close> back end leave alone, whatever the state:
  the application's part of the state, the callbacks of the events, and the queues of every event
  they are not given. An event is queued as far as its flags say; no invariant is needed here.
\<close>

section \<open>Touching events\<close>

abbreviation flag_bit :: "'a evstate_scheme \<Rightarrow> nat \<Rightarrow> nat \<Rightarrow> bool" where
  "flag_bit s e n \<equiv> bit (ev_flags (evs s e)) n"

definition same_face :: "event \<Rightarrow> event \<Rightarrow> bool" where
  "same_face e e' \<longleftrightarrow> ev_callback e' = ev_callback e \<and> ev_arg e' = ev_arg e \<and> ev_events e' = ev_events e \<and>
     ev_base e' = ev_base e \<and> ev_fd e' = ev_fd e"

text \<open>\<open>shrunk\<close>: a queue can have been left, none joined.\<close>

definition shrunk :: "event \<Rightarrow> event \<Rightarrow> bool" where
  "shrunk e e' \<longleftrightarrow> (\<forall>n. bit (ev_flags e') n \<longrightarrow> bit (ev_flags e) n) \<and> ev_ncalls e' = ev_ncalls e"

text \<open>A counter of a callback loop that has reached zero stays there.\<close>

definition zeros_kept :: "'a evstate_scheme \<Rightarrow> 'a evstate_scheme \<Rightarrow> bool" where
  "zeros_kept s s' \<longleftrightarrow> (\<forall>v. ncalls_vars s v = Some 0 \<longrightarrow> ncalls_vars s' v = Some 0)"

text \<open>At most the events of \<open>A\<close> join a queue, and the signal queue only those that want signals.\<close>

definition touches :: "nat set \<Rightarrow> 'a epollstate_scheme \<Rightarrow> 'a epollstate_scheme \<Rightarrow> bool" where
  "touches A s s' \<longleftrightarrow> epollstate.more s' = epollstate.more s \<and> onces s' = onces s \<and> zeros_kept s s' \<and>
     (\<forall>e. same_face (evs s e) (evs s' e)) \<and> (\<forall>e. e \<notin> A \<longrightarrow> shrunk (evs s e) (evs s' e)) \<and>
     (\<forall>e \<in> set (signalqueue s'). e \<in> set (signalqueue s) \<or> e \<in> A \<and> has (ev_events (evs s e)) EV_SIGNAL)"

lemma upd_ev_epoll [simp]:
  "epollstate.more (upd_ev e f s) = epollstate.more s" "fds (upd_ev e f s) = fds s"
  by (simp_all add: upd_ev_def)

lemma touches_refl [simp]: "touches A s s"
  by (simp add: touches_def same_face_def shrunk_def zeros_kept_def)

lemma touches_trans: "touches A s s' \<Longrightarrow> touches B s' s'' \<Longrightarrow> touches (A \<union> B) s s''"
  unfolding touches_def same_face_def shrunk_def zeros_kept_def by (auto; metis)

lemma touches_trans_same: "touches A s s' \<Longrightarrow> touches A s' s'' \<Longrightarrow> touches A s s''"
  using touches_trans [of A s s' A s''] by simp

lemma touches_mono: "touches A s s' \<Longrightarrow> A \<subseteq> B \<Longrightarrow> touches B s s'"
  unfolding touches_def by blast

lemma touches_upd:
  assumes "\<And>e. same_face e (f e)" "e \<in> A \<or> (\<forall>e. shrunk e (f e))"
  shows "touches A s (upd_ev e f s)"
  using assms by (auto simp: touches_def zeros_kept_def upd_ev_def shrunk_def same_face_def)

lemma touches_fields [simp]:
  "touches A s (s'\<lparr>ticks := k\<rparr>) = touches A s s'" "touches A s (s'\<lparr>event_tv := t\<rparr>) = touches A s s'"
  "touches A s (s'\<lparr>calls := c\<rparr>) = touches A s s'" "touches A s (s'\<lparr>fds := f\<rparr>) = touches A s s'"
  "touches A s (s'\<lparr>event_gotsig := b\<rparr>) = touches A s s'" "touches A s (s'\<lparr>event_gotterm := g\<rparr>) = touches A s s'"
  "touches A s (s'\<lparr>fds_block := blk\<rparr>) = touches A s s'" "touches A s (s'\<lparr>evsigmask := x\<rparr>) = touches A s s'"
  "touches A s (s'\<lparr>needrecalc := n\<rparr>) = touches A s s'" "touches A s (s'\<lparr>ev_signal_added := d\<rparr>) = touches A s s'"
  "touches A s (s'\<lparr>evsigcaught := cg\<rparr>) = touches A s s'" "touches A s (s'\<lparr>evsignal_caught := d\<rparr>) = touches A s s'"
  by (simp_all add: touches_def zeros_kept_def)

section \<open>The core\<close>

lemma queue_remove_touches:
  assumes "event_queue_remove ev q s = Inr s'"
  shows "touches {} s s'" "evs s' = (evs s)(ev := (evs s ev)\<lparr>ev_flags := and (ev_flags (evs s ev)) (not q)\<rparr>)"
    "fds s' = fds s" "has (ev_flags (evs s ev)) q"
  using assms
  by (auto simp: event_queue_remove_def Let_def touches_def same_face_def shrunk_def zeros_kept_def upd_ev_def
      flag_simps split: if_splits dest: set_remove1_subset [THEN subsetD])

lemma queue_insert_touches:
  assumes "event_queue_insert ev q s = Inr s'" "q = EVLIST_SIGNAL \<Longrightarrow> has (ev_events (evs s ev)) EV_SIGNAL"
  shows "touches {ev} s s'" "evs s' = (evs s)(ev := (evs s ev)\<lparr>ev_flags := or (ev_flags (evs s ev)) q\<rparr>) \<or> evs s' = evs s"
    "fds s' = fds s"
  using assms
  by (auto simp: event_queue_insert_def Let_def touches_def same_face_def shrunk_def zeros_kept_def upd_ev_def
      flag_simps split: if_splits)

lemma abort_loop_touches:
  assumes "abort_loop ev s = Inr s'"
  shows "touches {} s s'" "evs s' = evs s" "fds s' = fds s"
  using assms
  by (auto simp: abort_loop_def store_ncalls_def touches_def same_face_def shrunk_def zeros_kept_def
      split: if_splits option.splits)

lemma event_add_timeout_touches:
  assumes "event_add_timeout ev tv s = Inr s'"
  shows "touches {ev} s s' \<and> fds s' = fds s \<and> (\<forall>n. n \<noteq> 3 \<longrightarrow> n \<noteq> 0 \<longrightarrow> flag_bit s' ev n = flag_bit s ev n) \<and>
    (flag_bit s' ev 3 \<longrightarrow> flag_bit s ev 3) \<and> (\<forall>e. e \<noteq> ev \<longrightarrow> evs s' e = evs s e)"
proof -
  obtain s1 s2 where s1: "(if has (ev_flags (evs s ev)) EVLIST_TIMEOUT
      then event_queue_remove ev EVLIST_TIMEOUT s else Inr s) = Inr s1"
    and s2: "(if has (ev_flags (evs s1 ev)) EVLIST_ACTIVE \<and> has (ev_res (evs s1 ev)) EV_TIMEOUT
      then bnd (abort_loop ev s1) (event_queue_remove ev EVLIST_ACTIVE) else Inr s1) = Inr s2"
    and s3: "event_queue_insert ev EVLIST_TIMEOUT (upd_ev ev (\<lambda>e. e\<lparr>ev_timeout :=
      timeradd (clock s2 (ticks s2)) tv\<rparr>) (s2\<lparr>ticks := Suc (ticks s2)\<rparr>)) = Inr s'"
    using assms by (auto simp: event_add_timeout_def gettimeofday_def Let_def)
  have 1: "touches {} s s1 \<and> fds s1 = fds s \<and> (\<forall>e. e \<noteq> ev \<longrightarrow> evs s1 e = evs s e) \<and>
      (\<forall>n. n \<noteq> 0 \<longrightarrow> flag_bit s1 ev n = flag_bit s ev n)"
    using s1 queue_remove_touches [of ev EVLIST_TIMEOUT s s1] by (auto simp: flag_simps split: if_splits)
  have 2: "touches {} s1 s2 \<and> fds s2 = fds s1 \<and> (\<forall>e. e \<noteq> ev \<longrightarrow> evs s2 e = evs s1 e) \<and>
      (\<forall>n. n \<noteq> 3 \<longrightarrow> flag_bit s2 ev n = flag_bit s1 ev n) \<and> (flag_bit s2 ev 3 \<longrightarrow> flag_bit s1 ev 3)"
  proof (cases "has (ev_flags (evs s1 ev)) EVLIST_ACTIVE \<and> has (ev_res (evs s1 ev)) EV_TIMEOUT")
    case True
    then obtain sa where sa: "abort_loop ev s1 = Inr sa" "event_queue_remove ev EVLIST_ACTIVE sa = Inr s2"
      using s2 by auto
    from abort_loop_touches [OF sa(1)] queue_remove_touches [OF sa(2)] show ?thesis
      using touches_trans_same [of "{}" s1 sa s2] by (auto simp: flag_simps)
  qed (use s2 in auto)
  let ?s = "upd_ev ev (\<lambda>e. e\<lparr>ev_timeout := timeradd (clock s2 (ticks s2)) tv\<rparr>) (s2\<lparr>ticks := Suc (ticks s2)\<rparr>)"
  have u: "touches {ev} s2 ?s"
    by (simp add: touches_def same_face_def shrunk_def zeros_kept_def)
  have 3: "touches {ev} ?s s'" "fds s' = fds s2"
    "evs s' = (evs ?s)(ev := (evs ?s ev)\<lparr>ev_flags := or (ev_flags (evs ?s ev)) EVLIST_TIMEOUT\<rparr>) \<or> evs s' = evs ?s"
    using queue_insert_touches [OF s3] by (auto simp: EVLIST_TIMEOUT_def EVLIST_SIGNAL_def upd_ev_def)
  have "touches {ev} s s'"
    using 1 2 u 3(1) touches_mono [of "{}" _ _ "{ev}"] touches_trans_same [of "{ev}"] by (meson empty_subsetI)
  moreover have "(\<forall>n. n \<noteq> 3 \<longrightarrow> n \<noteq> 0 \<longrightarrow> flag_bit s' ev n = flag_bit s ev n) \<and> (flag_bit s' ev 3 \<longrightarrow> flag_bit s ev 3)"
    using 1 2 3(3) by (auto simp: flag_simps)
  moreover have "\<forall>e. e \<noteq> ev \<longrightarrow> evs s' e = evs s e"
    using 1 2 3(3) by auto
  ultimately show ?thesis
    using 1 2 3(2) by simp
qed


lemma event_del_touches:
  assumes del: "\<And>s s' r. del ev s = Inr (r, s') \<Longrightarrow> touches {} s s' \<and> evs s' = evs s"
    and run: "event_del del ev s = Inr (r, s')"
  shows "touches {} s s' \<and> (\<forall>e. e \<noteq> ev \<longrightarrow> evs s' e = evs s e) \<and>
    (ev_base (evs s ev) \<longrightarrow> \<not> flag_bit s' ev 0 \<and> \<not> flag_bit s' ev 1 \<and> \<not> flag_bit s' ev 3)"
proof (cases "ev_base (evs s ev)")
  case True
  obtain s0 s1 s2 where s0: "abort_loop ev s = Inr s0"
    and s1: "(if has (ev_flags (evs s0 ev)) EVLIST_TIMEOUT
      then event_queue_remove ev EVLIST_TIMEOUT s0 else Inr s0) = Inr s1"
    and s2: "(if has (ev_flags (evs s1 ev)) EVLIST_ACTIVE
      then event_queue_remove ev EVLIST_ACTIVE s1 else Inr s1) = Inr s2"
    and s3: "(if has (ev_flags (evs s2 ev)) EVLIST_INSERTED
        then bnd (event_queue_remove ev EVLIST_INSERTED s2) (del ev)
        else if has (ev_flags (evs s2 ev)) EVLIST_SIGNAL
        then bnd (event_queue_remove ev EVLIST_SIGNAL s2) (del ev)
        else Inr (0, s2)) = Inr (r, s')"
  proof -
    have "flags_ok (ev_flags (evs s ev))"
      using run True by (cases "flags_ok (ev_flags (evs s ev))") (simp_all add: event_del_def)
    then show ?thesis
      using run True that by (clarsimp simp: event_del_def)
  qed
  have off: "touches {} t t' \<and> (\<forall>e. e \<noteq> ev \<longrightarrow> evs t' e = evs t e) \<and> \<not> has (ev_flags (evs t' ev)) q \<and> shrunk (evs t ev) (evs t' ev)"
    if "(if has (ev_flags (evs t ev)) q then event_queue_remove ev q t else Inr t) = Inr t'" "queue_flag q" for q t t'
    using that queue_remove_touches [of ev q t t'] by (auto simp: queue_flag_def shrunk_def flag_simps split: if_splits)
  note a = abort_loop_touches [OF s0]
  note b = off [OF s1 queue_flag_intros(1)]
  note c = off [OF s2 queue_flag_intros(4)]
  have d: "touches {} s2 s' \<and> (\<forall>e. e \<noteq> ev \<longrightarrow> evs s' e = evs s2 e) \<and> \<not> flag_bit s' ev 1 \<and> shrunk (evs s2 ev) (evs s' ev)"
  proof -
    have step: "touches {} s2 s' \<and> (\<forall>e. e \<noteq> ev \<longrightarrow> evs s' e = evs s2 e) \<and> shrunk (evs s2 ev) (evs s' ev) \<and>
        \<not> has (ev_flags (evs s' ev)) q"
      if h: "bnd (event_queue_remove ev q s2) (del ev) = Inr (r, s')" "has (ev_flags (evs s2 ev)) q" "queue_flag q" for q
    proof -
      obtain t where t: "event_queue_remove ev q s2 = Inr t" "del ev t = Inr (r, s')"
        using h(1) by auto
      with off [of s2 q t] h(2,3) del [OF t(2)] touches_trans_same show ?thesis
        by auto
    qed
    show ?thesis
      using s3 step [of EVLIST_INSERTED] step [of EVLIST_SIGNAL]
      by (auto simp: has_EVLIST shrunk_def split: if_splits)
  qed
  have "touches {} s s'"
    using a(1) b c d touches_trans_same [of "{}"] by meson
  moreover have "\<not> flag_bit s' ev 0" "\<not> flag_bit s' ev 3"
    using b c d by (auto simp: shrunk_def has_EVLIST)
  ultimately show ?thesis
    using a(2) b c d by auto
qed (use run in \<open>simp add: event_del_def\<close>)

lemma event_active_touches:
  assumes "event_active ev res n s = Inr s'"
  shows "touches {ev} s s' \<and> fds s' = fds s \<and> (\<forall>e. e \<noteq> ev \<longrightarrow> evs s' e = evs s e) \<and>
    (\<forall>k. k \<noteq> 3 \<longrightarrow> flag_bit s' ev k = flag_bit s ev k) \<and>
    (ev_ncalls (evs s' ev) = n \<or> flag_bit s ev 3 \<and> ev_ncalls (evs s' ev) = ev_ncalls (evs s ev))"
proof (cases "has (ev_flags (evs s ev)) EVLIST_ACTIVE")
  case True
  with assms have "s' = upd_ev ev (\<lambda>e. e\<lparr>ev_res := or (ev_res e) res\<rparr>) s"
    by (simp add: event_active_def)
  with True show ?thesis
    by (simp add: touches_def same_face_def shrunk_def zeros_kept_def has_EVLIST)
next
  case False
  let ?s = "upd_ev ev (\<lambda>e. e\<lparr>ev_res := res, ev_ncalls := n, ev_pncalls := None\<rparr>) s"
  have i: "event_queue_insert ev EVLIST_ACTIVE ?s = Inr s'"
    using False assms by (auto simp: event_active_def Let_def split: if_splits)
  have 1: "touches {ev} s ?s"
    by (simp add: touches_def same_face_def shrunk_def zeros_kept_def)
  have 2: "touches {ev} ?s s'" "fds s' = fds s"
    "evs s' = (evs ?s)(ev := (evs ?s ev)\<lparr>ev_flags := or (ev_flags (evs ?s ev)) EVLIST_ACTIVE\<rparr>) \<or> evs s' = evs ?s"
    using queue_insert_touches [OF i] by (auto simp: EVLIST_ACTIVE_def EVLIST_SIGNAL_def upd_ev_def)
  show ?thesis
    using touches_trans_same [OF 1 2(1)] 2(2,3) by (auto simp: flag_simps)
qed


section \<open>The table\<close>

text \<open>An event the table names is on the event queue, for its descriptor and this direction; \<open>Y\<close> are
  events that have just been taken off.\<close>

definition slot_ok :: "nat set \<Rightarrow> 'a epollstate_scheme \<Rightarrow> nat \<Rightarrow> 16 word \<Rightarrow> nat \<Rightarrow> bool" where
  "slot_ok Y s i d e \<longleftrightarrow> ev_fd (evs s e) = int i \<and> has (ev_events (evs s e)) d \<and>
     \<not> has (ev_events (evs s e)) EV_SIGNAL \<and> (e \<in> Y \<or> flag_bit s e 1)"

definition tab_inv :: "nat set \<Rightarrow> 'a epollstate_scheme \<Rightarrow> bool" where
  "tab_inv Y s \<longleftrightarrow> (\<forall>i < length (fds s). (\<forall>e. evread (fds s ! i) = Some e \<longrightarrow> slot_ok Y s i EV_READ e) \<and>
     (\<forall>e. evwrite (fds s ! i) = Some e \<longrightarrow> slot_ok Y s i EV_WRITE e))"

lemma tab_inv_frame:
  assumes "tab_inv Y s" "fds s' = fds s" "touches A s s'" "\<And>e. e \<notin> Y' \<Longrightarrow> e \<in> Y \<or> flag_bit s e 1 \<Longrightarrow> flag_bit s' e 1"
  shows "tab_inv Y' s'"
  using assms unfolding tab_inv_def slot_ok_def touches_def same_face_def by (metis (full_types))

lemma tab_inv_kept:
  assumes "tab_inv {} s" "fds s' = fds s" "touches A s s'" "\<And>e. flag_bit s e 1 \<Longrightarrow> flag_bit s' e 1"
  shows "tab_inv {} s'"
  using tab_inv_frame [OF assms(1-3)] assms(4) by blast

lemma tab_inv_fields [simp]:
  "tab_inv Y (s\<lparr>calls := c\<rparr>) = tab_inv Y s" "tab_inv Y (s\<lparr>needrecalc := n\<rparr>) = tab_inv Y s"
  "tab_inv Y (s\<lparr>ev_signal_added := d\<rparr>) = tab_inv Y s" "tab_inv Y (s\<lparr>evsigmask := x\<rparr>) = tab_inv Y s"
  "tab_inv Y (s\<lparr>fds_block := b\<rparr>) = tab_inv Y s"
  "tab_inv Y (s\<lparr>evsigcaught := g\<rparr>) = tab_inv Y s" "tab_inv Y (s\<lparr>evsignal_caught := d\<rparr>) = tab_inv Y s"
  by (simp_all add: tab_inv_def slot_ok_def)

lemma tab_inv_grow: "tab_inv Y s \<Longrightarrow> tab_inv Y (s\<lparr>calls := c, fds := fds s @ replicate n evepoll_zero\<rparr>)"
  by (auto simp: tab_inv_def slot_ok_def nth_append evepoll_zero_def)

lemma epoll_del_frame:
  assumes "epoll_del K ev s = Inr (r, s')"
  shows "touches {} s s' \<and> evs s' = evs s"
  using assms
  by (auto simp: epoll_del_def evsignal_del_def syscall_def Let_def split: if_splits)

lemma epoll_del_table:
  assumes inv: "tab_inv {ev} s" and run: "epoll_del K ev s = Inr (r, s')"
  shows "tab_inv {} s'"
proof (cases "has (ev_events (evs s ev)) EV_SIGNAL")
  case True
  then have "tab_inv {} s"
    using inv by (auto simp: tab_inv_def slot_ok_def)
  with True run show ?thesis
    by (auto simp: epoll_del_def evsignal_del_def syscall_def Let_def)
next
  case nosig: False
  let ?i = "nat (ev_fd (evs s ev))"
  have elsewhere: "slot_ok {} s i d e" if "slot_ok {ev} s i d e" "i \<noteq> ?i" for i d e
    using that by (auto simp: slot_ok_def)
  show ?thesis
  proof (cases "ev_fd (evs s ev) \<ge> nfds s")
    case True
    then have "tab_inv {} s"
      using inv elsewhere by (auto simp: tab_inv_def nfds_def)
    with True nosig run show ?thesis
      by (auto simp: epoll_del_def)
  next
    case False
    define p where "p = fds s ! ?i"
    have i: "?i < length (fds s)" "0 \<le> ev_fd (evs s ev)"
      using False nosig run by (auto simp: epoll_del_def nfds_def Let_def split: if_splits)
    let ?r = "has (ev_events (evs s ev)) EV_READ"
    let ?w = "has (ev_events (evs s ev)) EV_WRITE"
    define keepwrite where "keepwrite = (?r \<and> \<not> ?w \<and> evwrite p \<noteq> None)"
    define keepread where "keepread = (?w \<and> \<not> ?r \<and> evread p \<noteq> None)"
    define p' where "p' = \<lparr>evread = (if keepread then evread p else None),
      evwrite = (if keepwrite then evwrite p else None)\<rparr>"
    define m where "m = (if keepwrite then EPOLLOUT else if keepread then EPOLLIN else event_mask (evs s ev))"
    define op where "op = (if keepwrite \<or> keepread then EPOLL_CTL_MOD else EPOLL_CTL_DEL)"
    define c where "c = calls s @ [Epoll_ctl op (ev_fd (evs s ev)) m (fds_block s, ?i)]"
    have nfd: "\<not> ev_fd (evs s ev) < 0"
      using i(2) by simp
    note run_simps = epoll_del_def mask_bits syscall_def p'_def keepread_def keepwrite_def p_def [symmetric]
      c_def m_def op_def
    consider "?r \<and> ?w" | "?r \<and> \<not> ?w \<and> evwrite p \<noteq> None" | "?r \<and> \<not> ?w \<and> evwrite p = None"
      | "\<not> ?r \<and> ?w \<and> evread p \<noteq> None" | "\<not> ?r \<and> ?w \<and> evread p = None" | "\<not> ?r \<and> \<not> ?w"
      by argo
    then have "\<exists>r. epoll_del K ev s = Inr (r, s\<lparr>fds := (fds s)[?i := p'], calls := c\<rparr>)"
      by cases (use nosig False nfd in \<open>cases p; simp add: run_simps Let_def\<close>)+
    then have s': "s' = s\<lparr>fds := (fds s)[?i := p'], calls := c\<rparr>"
      using run by auto
    have keep: "evread p' = Some e \<Longrightarrow> evread p = Some e \<and> \<not> ?r"
        "evwrite p' = Some e \<Longrightarrow> evwrite p = Some e \<and> \<not> ?w" for e
      by (auto simp: p'_def keepread_def keepwrite_def split: if_splits)
    have here: "slot_ok {} s ?i EV_READ e" if "evread p' = Some e" for e
    proof -
      have "slot_ok {ev} s ?i EV_READ e"
        using keep(1) [OF that] inv i(1) unfolding tab_inv_def p_def by blast
      with keep(1) [OF that] show ?thesis by (auto simp: slot_ok_def)
    qed
    have here': "slot_ok {} s ?i EV_WRITE e" if "evwrite p' = Some e" for e
    proof -
      have "slot_ok {ev} s ?i EV_WRITE e"
        using keep(2) [OF that] inv i(1) unfolding tab_inv_def p_def by blast
      with keep(2) [OF that] show ?thesis by (auto simp: slot_ok_def)
    qed
    have same: "slot_ok Y s' = slot_ok Y s" for Y
      by (simp add: s' slot_ok_def fun_eq_iff)
    show ?thesis
      unfolding tab_inv_def same
    proof (intro allI impI)
      fix j
      assume j: "j < length (fds s')"
      show "(\<forall>e. evread (fds s' ! j) = Some e \<longrightarrow> slot_ok {} s j EV_READ e) \<and>
          (\<forall>e. evwrite (fds s' ! j) = Some e \<longrightarrow> slot_ok {} s j EV_WRITE e)"
      proof (cases "j = ?i")
        case True
        with here here' i(1) show ?thesis by (simp add: s')
      next
        case False
        with inv j elsewhere show ?thesis by (simp add: s' tab_inv_def)
      qed
    qed
  qed
qed

lemma event_del_table:
  assumes inv: "tab_inv {} s" and run: "event_del (epoll_del K) ev s = Inr (r, s')"
  shows "tab_inv {} s'"
proof (cases "ev_base (evs s ev)")
  case True
  obtain s0 s1 s2 where s0: "abort_loop ev s = Inr s0"
    and s1: "(if has (ev_flags (evs s0 ev)) EVLIST_TIMEOUT
      then event_queue_remove ev EVLIST_TIMEOUT s0 else Inr s0) = Inr s1"
    and s2: "(if has (ev_flags (evs s1 ev)) EVLIST_ACTIVE
      then event_queue_remove ev EVLIST_ACTIVE s1 else Inr s1) = Inr s2"
    and s3: "(if has (ev_flags (evs s2 ev)) EVLIST_INSERTED
        then bnd (event_queue_remove ev EVLIST_INSERTED s2) (epoll_del K ev)
        else if has (ev_flags (evs s2 ev)) EVLIST_SIGNAL
        then bnd (event_queue_remove ev EVLIST_SIGNAL s2) (epoll_del K ev)
        else Inr (0, s2)) = Inr (r, s')"
  proof -
    have "flags_ok (ev_flags (evs s ev))"
      using run True by (cases "flags_ok (ev_flags (evs s ev))") (simp_all add: event_del_def)
    then show ?thesis
      using run True that by (clarsimp simp: event_del_def)
  qed
  have step: "tab_inv {} t'" if "tab_inv {} t" "(if has (ev_flags (evs t ev)) q then event_queue_remove ev q t else Inr t) = Inr t'"
    "\<not> bit q 1" for q t t'
  proof (cases "has (ev_flags (evs t ev)) q")
    case True
    with that(2) have r: "event_queue_remove ev q t = Inr t'"
      by simp
    show ?thesis
      using queue_remove_touches [OF r] that(3) by (intro tab_inv_kept [OF that(1), of t' "{}"]) (auto simp: flag_simps)
  qed (use that in auto)
  have "tab_inv {} s0"
    using abort_loop_touches [OF s0] by (intro tab_inv_kept [OF inv, of s0 "{}"]) auto
  from step [OF step [OF this s1] s2] have 2: "tab_inv {} s2"
    by (simp add: flag_simps)
  have last: "tab_inv {} s'" if "bnd (event_queue_remove ev q s2) (epoll_del K ev) = Inr (r, s')" for q
  proof -
    from that obtain t where t: "event_queue_remove ev q s2 = Inr t" "epoll_del K ev t = Inr (r, s')"
      by auto
    have "tab_inv {ev} t"
      using queue_remove_touches [OF t(1)] by (intro tab_inv_frame [OF 2]) auto
    from epoll_del_table [OF this t(2)] show ?thesis .
  qed
  from s3 2 last show ?thesis
    by (auto simp del: bnd_eq_Inr split: if_splits)
qed (use inv run in \<open>simp add: event_del_def\<close>)

lemma event_del_frame:
  assumes "event_del (epoll_del K) ev s = Inr (r, s')"
  shows "touches {} s s' \<and> (\<forall>e. e \<noteq> ev \<longrightarrow> evs s' e = evs s e) \<and>
    (ev_base (evs s ev) \<longrightarrow> \<not> flag_bit s' ev 0 \<and> \<not> flag_bit s' ev 1 \<and> \<not> flag_bit s' ev 3)"
  using assms by (rule event_del_touches [rotated]) (rule epoll_del_frame)

section \<open>Adding events\<close>

text \<open>
  The contract of \<open>add\<close> as far as it is a matter of queues: it is called on an event that is on the
  event queue or wants a signal, and may itself add \<open>ev_signal\<close>.
\<close>

definition adds_only_signal :: "(nat \<Rightarrow> 'a epollstate_scheme \<Rightarrow> (int \<times> 'a epollstate_scheme) outcome) \<Rightarrow> bool" where
  "adds_only_signal add \<longleftrightarrow> (\<forall>ev s r s'. add ev s = Inr (r, s') \<longrightarrow>
     has (ev_events (evs s ev)) EV_SIGNAL \<or> flag_bit s ev 1 \<longrightarrow>
     touches {ev_signal} s s' \<and> (\<forall>e. e \<noteq> ev_signal \<longrightarrow> evs s' e = evs s e) \<and>
     (flag_bit s ev_signal 1 \<longrightarrow> flag_bit s' ev_signal 1) \<and> (tab_inv {} s \<longrightarrow> tab_inv {} s'))"

definition joined_by :: "nat \<Rightarrow> 'a epollstate_scheme \<Rightarrow> 'a epollstate_scheme \<Rightarrow> bool" where
  "joined_by ev s s' \<longleftrightarrow> touches {ev, ev_signal} s s' \<and> (\<forall>e. e \<noteq> ev \<longrightarrow> e \<noteq> ev_signal \<longrightarrow> evs s' e = evs s e) \<and>
     (\<forall>e. flag_bit s e 1 \<longrightarrow> flag_bit s' e 1) \<and>
     (ev \<noteq> ev_signal \<longrightarrow> (flag_bit s' ev 3 \<longrightarrow> flag_bit s ev 3) \<and>
        (flag_bit s' ev 2 \<longrightarrow> flag_bit s ev 2 \<or> has (ev_events (evs s ev)) EV_SIGNAL)) \<and>
     (tab_inv {} s \<longrightarrow> tab_inv {} s')"

lemma event_add_io_frame:
  assumes add: "adds_only_signal add" and run: "event_add_io add ev s = Inr (r, s')"
  shows "joined_by ev s s'"
proof -
  have step: "joined_by ev s s'"
    if h: "bnd (event_queue_insert ev q s) (add ev) = Inr (r, s')" "q = EVLIST_INSERTED \<or> q = EVLIST_SIGNAL"
      "q = EVLIST_SIGNAL \<Longrightarrow> has (ev_events (evs s ev)) EV_SIGNAL" "\<not> has (ev_flags (evs s ev)) q" for q
  proof -
    obtain t where t: "event_queue_insert ev q s = Inr t" "add ev t = Inr (r, s')"
      using h(1) by auto
    note i = queue_insert_touches [OF t(1) h(3)]
    have "evs t = (evs s)(ev := (evs s ev)\<lparr>ev_flags := or (ev_flags (evs s ev)) q\<rparr>)"
      using t(1) h(4) h(2) by (auto simp: event_queue_insert_def Let_def upd_ev_def split: if_splits)
    then have fl: "flag_bit t ev n = (flag_bit s ev n \<or> bit q n)" "ev_events (evs t ev) = ev_events (evs s ev)"
      "\<And>e. e \<noteq> ev \<Longrightarrow> evs t e = evs s e" for n
      by (auto simp: flag_simps)
    have "has (ev_events (evs t ev)) EV_SIGNAL \<or> flag_bit t ev 1"
      using h(2,3) fl(1) [of 1] fl(2) by (auto simp: bit_EVLIST)
    then have a: "touches {ev_signal} t s'" "\<And>e. e \<noteq> ev_signal \<Longrightarrow> evs s' e = evs t e"
      "flag_bit t ev_signal 1 \<Longrightarrow> flag_bit s' ev_signal 1" "tab_inv {} t \<Longrightarrow> tab_inv {} s'"
      using add t(2) unfolding adds_only_signal_def by blast+
    have tt: "touches {ev, ev_signal} s s'"
      using touches_trans [OF i(1) a(1)] by (simp add: insert_commute)
    have one: "flag_bit s e 1 \<Longrightarrow> flag_bit t e 1" for e
      using fl(1,3) by (cases "e = ev") auto
    have tab: "tab_inv {} s \<longrightarrow> tab_inv {} s'"
      using tab_inv_kept [OF _ i(3,1)] one a(4) by blast
    have kept: "flag_bit s e 1 \<longrightarrow> flag_bit s' e 1" for e
      using one [of e] a(2) [of e] a(3) by (cases "e = ev_signal") auto
    have "flag_bit s' ev 3 \<longrightarrow> flag_bit s ev 3" "flag_bit s' ev 2 \<longrightarrow> flag_bit s ev 2 \<or> has (ev_events (evs s ev)) EV_SIGNAL"
      if "ev \<noteq> ev_signal"
      using fl(1) [of 3] fl(1) [of 2] a(2) [OF that] h(2,3) by (auto simp: bit_EVLIST)
    then show ?thesis
      using tt kept tab a(2) fl(3) unfolding joined_by_def by auto
  qed
  show ?thesis
    using run step [of EVLIST_INSERTED] step [of EVLIST_SIGNAL]
    by (auto simp: event_add_io_def joined_by_def has_or EVLIST_INSERTED_def EVLIST_SIGNAL_def
      simp del: bnd_eq_Inr split: if_splits)
qed

lemma event_add_frame:
  assumes add: "adds_only_signal add" and run: "event_add add ev tv s = Inr (r, s')"
  shows "joined_by ev s s'"
proof -
  obtain s1 where s1: "(case tv of None \<Rightarrow> Inr s | Some tv \<Rightarrow> event_add_timeout ev tv s) = Inr s1"
    and io: "event_add_io add ev s1 = Inr (r, s')"
    using run by (auto simp: event_add_def split: if_splits)
  note b = event_add_io_frame [OF add io]
  show ?thesis
  proof (cases tv)
    case (Some t)
    then have "event_add_timeout ev t s = Inr s1"
      using s1 by simp
    note a = event_add_timeout_touches [OF this]
    have one: "flag_bit s e 1 \<Longrightarrow> flag_bit s1 e 1" for e
      using a by (cases "e = ev") auto
    have "tab_inv {} s \<Longrightarrow> tab_inv {} s1"
      using a one by (intro tab_inv_kept [of s s1 "{ev}"]) auto
    moreover have "touches {ev, ev_signal} s s'"
      using touches_trans [of "{ev}" s s1 "{ev, ev_signal}" s'] a b by (simp add: joined_by_def insert_commute)
    moreover have "flag_bit s1 ev 2 = flag_bit s ev 2" "flag_bit s1 ev 3 \<longrightarrow> flag_bit s ev 3"
      using a by (auto simp del: One_nat_def)
    moreover have "ev_events (evs s1 ev) = ev_events (evs s ev)"
      using a by (simp add: touches_def same_face_def)
    ultimately show ?thesis
      using a b one unfolding joined_by_def by auto
  qed (use s1 b in simp)
qed

lemma syscall_touches: "syscall K c s = (f, s') \<Longrightarrow> s' = s\<lparr>calls := calls s @ [c]\<rparr>"
  by (simp add: syscall_def)

text \<open>What the back end's own functions do besides.\<close>

definition signal_added :: "'a epollstate_scheme \<Rightarrow> 'a epollstate_scheme \<Rightarrow> bool" where
  "signal_added s s' \<longleftrightarrow> touches {ev_signal} s s' \<and> (\<forall>e. e \<noteq> ev_signal \<longrightarrow> evs s' e = evs s e) \<and>
     (flag_bit s ev_signal 1 \<longrightarrow> flag_bit s' ev_signal 1) \<and> (tab_inv {} s \<longrightarrow> tab_inv {} s')"

lemma signal_added_trans: "signal_added s s' \<Longrightarrow> signal_added s' s'' \<Longrightarrow> signal_added s s''"
  unfolding signal_added_def using touches_trans_same by metis

lemma signal_added_refl [simp]: "signal_added s s"
  by (simp add: signal_added_def)

lemma signal_added_joined: "joined_by ev_signal s s' \<Longrightarrow> signal_added s s'"
  by (simp add: joined_by_def signal_added_def)

lemma signal_added_fields [simp]:
  "signal_added s (s'\<lparr>calls := c\<rparr>) = signal_added s s'" "signal_added s (s'\<lparr>needrecalc := n\<rparr>) = signal_added s s'"
  "signal_added s (s'\<lparr>ev_signal_added := d\<rparr>) = signal_added s s'" "signal_added s (s'\<lparr>evsigmask := x\<rparr>) = signal_added s s'"
  "signal_added s (s'\<lparr>evsigcaught := g\<rparr>) = signal_added s s'"
  "signal_added s (s'\<lparr>evsignal_caught := d\<rparr>) = signal_added s s'"
  by (simp_all add: signal_added_def)

lemma reinstall_frame: "reinstall K sigs q s = (r, s') \<Longrightarrow> signal_added s s'"
proof (induction q arbitrary: s)
  case (Cons ev q)
  let ?s = "s\<lparr>calls := calls s @ [Sigaction (EVENT_SIGNAL (evs s ev)) (Some sigs)]\<rparr>"
  have "signal_added s ?s"
    by simp
  moreover have "s' = ?s \<or> signal_added ?s s'"
    using Cons by (auto simp: syscall_def Let_def split: if_splits)
  ultimately show ?case
    using signal_added_trans by blast
qed simp

lemma evsignal_recalc_frame:
  assumes add: "adds_only_signal add" and run: "evsignal_recalc K add s = Inr (r, s')"
  shows "signal_added s s'"
proof -
  obtain s1 where s1: "(if \<not> ev_signal_added s
      then bnd (event_add add ev_signal None (s\<lparr>ev_signal_added := True\<rparr>)) (\<lambda>(r, s). Inr s)
      else Inr s) = Inr s1"
    and rest: "(if signalqueue s1 = [] \<and> \<not> needrecalc s1 then Inr (0, s1)
      else let s = s1\<lparr>needrecalc := False\<rparr>; (fail, s) = syscall K (Sigprocmask_block (evsigmask s)) s
           in if fail then Inr (- 1, s) else Inr (reinstall K (evsigmask s) (signalqueue s) s)) = (Inr (r, s') :: fault + _)"
    using run unfolding evsignal_recalc_def bnd_eq_Inr by (elim exE conjE) (rule that)
  have 1: "signal_added s s1"
  proof (cases "ev_signal_added s")
    case False
    then obtain r0 where "event_add add ev_signal None (s\<lparr>ev_signal_added := True\<rparr>) = Inr (r0, s1)"
      using s1 by auto
    from signal_added_joined [OF event_add_frame [OF add this]] show ?thesis
      using signal_added_trans [of s "s\<lparr>ev_signal_added := True\<rparr>"] by simp
  qed (use s1 in simp)
  have "signal_added s1 s'"
  proof (cases "signalqueue s1 = [] \<and> \<not> needrecalc s1")
    case False
    let ?s = "s1\<lparr>needrecalc := False, calls := calls s1 @ [Sigprocmask_block (evsigmask s1)]\<rparr>"
    have "signal_added s1 ?s"
      by simp
    moreover have "s' = ?s \<or> (\<exists>q r. reinstall K (evsigmask s1) q ?s = (r, s'))"
      using rest False by (auto simp: syscall_def Let_def split: if_splits)
    ultimately show ?thesis
      using reinstall_frame signal_added_trans by blast
  qed (use rest in simp)
  with 1 show ?thesis
    by (rule signal_added_trans)
qed

lemma grow_fds_frame: "grow_fds K k s = Inr (ok, s') \<Longrightarrow> signal_added s s'"
  by (auto simp: grow_fds_def syscall_def Let_def signal_added_def tab_inv_grow split: if_splits)

lemma epoll_recalc_with_frame:
  assumes add: "adds_only_signal add" and run: "epoll_recalc_with K add k s = Inr (r, s')"
  shows "signal_added s s'"
proof -
  obtain ok s1 where s1: "grow_fds K k s = Inr (ok, s1)"
    "(if \<not> ok then Inr (- 1, s1) else evsignal_recalc K add s1) = Inr (r, s')"
    using run by (auto simp: epoll_recalc_with_def)
  with grow_fds_frame [OF s1(1)] evsignal_recalc_frame [OF add, of K s1 r s'] signal_added_trans show ?thesis
    by (auto split: if_splits)
qed

lemma epoll_register_frame:
  assumes run: "epoll_register K ev s = Inr (r, s')"
    and ok: "\<not> has (ev_events (evs s ev)) EV_SIGNAL" "flag_bit s ev 1"
  shows "signal_added s s'"
proof -
  obtain i where i: "i < length (fds s)" "ev_fd (evs s ev) = int i"
    and s': "s' = (if sys_fails K (calls s) (register_call s ev i) then s\<lparr>calls := calls s @ [register_call s ev i]\<rparr>
      else s\<lparr>calls := calls s @ [register_call s ev i], fds := (fds s)[i := new_entry ev (evs s ev) (fds s ! i)]\<rparr>)"
    using epoll_register_run [OF run] by blast
  let ?p = "new_entry ev (evs s ev) (fds s ! i)"
  have new: "evread ?p = Some e \<Longrightarrow> evread (fds s ! i) = Some e \<or> e = ev \<and> has (ev_events (evs s ev)) EV_READ"
      "evwrite ?p = Some e \<Longrightarrow> evwrite (fds s ! i) = Some e \<or> e = ev \<and> has (ev_events (evs s ev)) EV_WRITE" for e
    by (auto simp: new_entry_def split: if_splits)
  have "tab_inv {} s'" if t: "tab_inv {} s" and s2: "s' = s\<lparr>calls := c, fds := (fds s)[i := ?p]\<rparr>" for c
  proof -
    have same: "slot_ok {} s' = slot_ok {} s"
      by (simp add: s2 slot_ok_def fun_eq_iff)
    have old: "\<And>e. evread (fds s ! i) = Some e \<Longrightarrow> slot_ok {} s i EV_READ e"
      "\<And>e. evwrite (fds s ! i) = Some e \<Longrightarrow> slot_ok {} s i EV_WRITE e"
      using t i(1) unfolding tab_inv_def by blast+
    have "slot_ok {} s i d ev" if "has (ev_events (evs s ev)) d" for d
      using that ok i(2) by (simp add: slot_ok_def)
    then have here: "\<And>e. evread ?p = Some e \<Longrightarrow> slot_ok {} s i EV_READ e" "\<And>e. evwrite ?p = Some e \<Longrightarrow> slot_ok {} s i EV_WRITE e"
      using new old by blast+
    show ?thesis
      unfolding tab_inv_def same
    proof (intro allI impI)
      fix j
      assume j: "j < length (fds s')"
      show "(\<forall>e. evread (fds s' ! j) = Some e \<longrightarrow> slot_ok {} s j EV_READ e) \<and>
          (\<forall>e. evwrite (fds s' ! j) = Some e \<longrightarrow> slot_ok {} s j EV_WRITE e)"
      proof (cases "j = i")
        case True
        with here i(1) show ?thesis by (simp add: s2)
      next
        case False
        with t j show ?thesis by (simp add: s2 tab_inv_def)
      qed
    qed
  qed
  with s' show ?thesis
    by (auto simp: signal_added_def)
qed

lemma epoll_add_at_frame: "adds_only_signal (epoll_add_at K n)"
proof (induction n)
  case 0
  show ?case by (simp add: adds_only_signal_def)
next
  case (Suc n)
  show ?case
    unfolding adds_only_signal_def signal_added_def [symmetric]
  proof (intro allI impI)
    fix ev s r and s' :: "'a epollstate_scheme"
    assume run: "epoll_add_at K (Suc n) ev s = Inr (r, s')" and ok: "has (ev_events (evs s ev)) EV_SIGNAL \<or> flag_bit s ev 1"
    show "signal_added s s'"
    proof (cases "has (ev_events (evs s ev)) EV_SIGNAL")
      case True
      with run show ?thesis
        by (auto simp: evsignal_add_def split: if_splits)
    next
      case False
      then obtain r1 s1 where s1: "(if ev_fd (evs s ev) \<ge> nfds s then epoll_recalc_with K (epoll_add_at K n) (ev_fd (evs s ev)) s
          else Inr (0, s)) = Inr (r1, s1)" "(if r1 = - 1 then Inr (- 1, s1) else epoll_register K ev s1) = Inr (r, s')"
        using run by (auto simp: Let_def)
      have 1: "signal_added s s1"
        using s1(1) epoll_recalc_with_frame [OF Suc.IH] by (auto split: if_splits)
      have "\<not> has (ev_events (evs s1 ev)) EV_SIGNAL"
        using False 1 by (simp add: signal_added_def touches_def same_face_def)
      moreover have "flag_bit s1 ev 1"
        using ok False 1 by (cases "ev = ev_signal") (auto simp: signal_added_def)
      ultimately show ?thesis
        using s1(2) 1 epoll_register_frame [of K ev s1 r s'] signal_added_trans by (auto split: if_splits)
    qed
  qed
qed

lemma epoll_add_frame: "adds_only_signal (epoll_add K)"
  unfolding epoll_add_def by (rule epoll_add_at_frame)

lemmas event_add_epoll = event_add_frame [OF epoll_add_frame]

end
