(* ===== verification/TaskEvents.thy ===== *)
theory TaskEvents
  imports Session
begin

text \<open>
  What the tasks ask of the event layer: whatever a client sends and however the sockets behave, a
  task only ever requests write events.
\<close>

section \<open>Messages\<close>

text \<open>A property that neither the socket nor the receive buffer affects is kept by the reading of
  messages if it is kept by their handling.\<close>

lemma recv_at_keeps:
  assumes P: "\<And>t s. P (t\<lparr>mSock := s\<rparr>) = P t" "\<And>f t. P (upd_recv f t) = P t"
    and run: "recv_at k n t = Inr (r, t')"
  shows "P t' = P t"
  using run by (auto simp: recv_at_def P Let_def split: prod.splits if_splits)

lemma recv_body_keeps:
  assumes P: "\<And>t s. P (t\<lparr>mSock := s\<rparr>) = P t" "\<And>f t. P (upd_recv f t) = P t"
    and act: "\<And>r t r' t'. P t \<Longrightarrow> act r t = Inr (r', t') \<Longrightarrow> P t'"
    and t: "P t" "recv_body act t = Inr (r, t')"
  shows "P t'"
proof -
  obtain ret t1 where t1: "recv_at (sizeof_NET_CMD + hasRecvLen (mRecv t))
      (size_of (c_int (recvTotal (mRecv t) - int (hasRecvLen (mRecv t))))) t = Inr (ret, t1)"
    using t(2) by (auto simp: recv_body_def)
  have "P t1"
    using recv_at_keeps [of P, OF P t1] t(1) by simp
  with t(2) t1 act [of "upd_recv (hasRecvLen_update (\<lambda>n. n + nat ret)) t1"] show ?thesis
    by (auto simp: recv_body_def P Let_def split: if_splits)
qed

lemma read_packet_keeps:
  assumes P: "\<And>t s. P (t\<lparr>mSock := s\<rparr>) = P t" "\<And>f t. P (upd_recv f t) = P t"
    and act: "\<And>r t r' t'. P t \<Longrightarrow> act r t = Inr (r', t') \<Longrightarrow> P t'"
    and t: "P t" "read_packet act t = Inr (r, t')"
  shows "P t'"
proof (cases "bProcHead (mRecv t)")
  case True
  then obtain ret t1 where t1: "recv_at (hasRecvLen (mRecv t)) (sizeof_NET_CMD - hasRecvLen (mRecv t)) t = Inr (ret, t1)"
    using t(2) by (auto simp: read_packet_def)
  have 1: "P t1"
    using recv_at_keeps [of P, OF P t1] t(1) by simp
  then have "P (upd_recv f (upd_recv g t1))" for f g
    by (simp add: P)
  then have "P t'" if "recv_body act (upd_recv f (upd_recv g t1)) = Inr (r, t')" for f g
    using recv_body_keeps [of P act "upd_recv f (upd_recv g t1)" r t'] P act that by blast
  then show ?thesis
    using t(2) t1 True 1 by (auto simp: read_packet_def P Let_def split: if_splits)
next
  case False
  with t(2) have "recv_body act t = Inr (r, t')"
    by (simp add: read_packet_def)
  with t(1) show ?thesis
    using recv_body_keeps [of P act t r t'] P act by blast
qed

section \<open>The tasks\<close>

definition writes_only :: "'a task_scheme \<Rightarrow> bool" where
  "writes_only t \<longleftrightarrow> set (addEvents t) \<subseteq> {EV_WRITE}"

lemma writes_only_simps [simp]:
  "writes_only (t\<lparr>mSock := s\<rparr>) = writes_only t" "writes_only (upd_recv f t) = writes_only t"
  "writes_only (request_write t) = writes_only t"
  by (simp_all add: writes_only_def upd_recv_def request_write_def)

lemma task_sendEx_writes: "task_sendEx xs t = Inr (r, t') \<Longrightarrow> writes_only t' = writes_only t"
  by (auto simp: task_sendEx_def)

text \<open>The file sender.\<close>

lemma writes_only_send [simp]:
  "writes_only (upd_send f t) = writes_only t" "writes_only (t\<lparr>mMsgQueue := q\<rparr>) = writes_only t"
  "writes_only (t\<lparr>mbSendingData := b\<rparr>) = writes_only t"
  "writes_only (t\<lparr>mFilePos := n, mHasReadLen := l, mFrameCount := c\<rparr>) = writes_only t"
  by (simp_all add: writes_only_def upd_send_def)

lemma set_command_writes: "set_command xs t = Inr t' \<Longrightarrow> writes_only t' = writes_only t"
  by (auto simp: set_command_def)

lemma file_send_writes:
  "TaskFileSend_tcpSendData t = Inr (r, t') \<Longrightarrow> writes_only t' = writes_only t"
  "TaskFileSend_next_frame t = Inr t' \<Longrightarrow> writes_only t' = writes_only t"
proof -
  show "TaskFileSend_tcpSendData t = Inr (r, t') \<Longrightarrow> writes_only t' = writes_only t"
    by (auto simp: TaskFileSend_tcpSendData_def Let_def dest!: task_sendEx_writes split: if_splits option.splits)
  show "TaskFileSend_next_frame t = Inr t' \<Longrightarrow> writes_only t' = writes_only t"
    by (auto simp: TaskFileSend_next_frame_def Let_def dest!: set_command_writes split: option.splits)
qed

lemma file_send_write_writes: "TaskFileSend_writeBuffer t = Inr (r, t') \<Longrightarrow> writes_only t' = writes_only t"
  by (auto simp: TaskFileSend_writeBuffer_def TaskFileSend_sendVariedCmd_def TaskFileSend_pushSendCmd_def Let_def
      dest!: file_send_writes set_command_writes split: if_splits prod.splits)

lemma file_send_new_writes: "TaskFileSend_new s content n = Inr t \<Longrightarrow> writes_only t"
  by (auto simp: TaskFileSend_new_def Let_def dest!: file_send_writes set_command_writes) (simp add: writes_only_def)

lemma file_send_handle_writes: "TaskFileSend_handle ret t = Inr (r, t') \<Longrightarrow> writes_only t' = writes_only t"
  by (simp only: TaskFileSend_handle_def bnd_eq_Inr, elim exE conjE, simp split: if_split_asm, auto)

text \<open>The file receiver.\<close>

lemma SendCmd_writes: "SendCmd cmd index d n t = Inr (r, t') \<Longrightarrow> writes_only t' = writes_only t"
  by (auto simp: SendCmd_def Let_def dest!: task_sendEx_writes split: if_splits)

lemma file_recv_handle_writes: "TaskFileRecv_handle ret t = Inr (r, t') \<Longrightarrow> writes_only t' = writes_only t"
  by (auto simp: TaskFileRecv_handle_def Let_def dest!: SendCmd_writes split: if_splits option.splits)
    (simp_all add: writes_only_def)

text \<open>Playback.\<close>

lemma writes_only_play [simp]:
  "writes_only (upd_psend f t) = writes_only t" "writes_only (t\<lparr>pMsgQueue := q\<rparr>) = writes_only t"
  "writes_only (t\<lparr>pMedia := med\<rparr>) = writes_only t" "writes_only (t\<lparr>pbSendingData := b\<rparr>) = writes_only t"
  "writes_only (t\<lparr>pFrameCount := c\<rparr>) = writes_only t" "writes_only (t\<lparr>pFrameRate := c\<rparr>) = writes_only t"
  by (simp_all add: writes_only_def upd_psend_def)

lemma put_at_writes: "put_at p xs t = Inr t' \<Longrightarrow> writes_only t' = writes_only t"
  by (auto simp: put_at_def)

lemma play_writes:
  "TaskPlayback_tcpSendData t = Inr (r, t') \<Longrightarrow> writes_only t' = writes_only t"
  "TaskPlayback_next_frame pkt ft t = Inr t' \<Longrightarrow> writes_only t' = writes_only t"
proof -
  show "TaskPlayback_tcpSendData t = Inr (r, t') \<Longrightarrow> writes_only t' = writes_only t"
    by (auto simp: TaskPlayback_tcpSendData_def Let_def dest!: task_sendEx_writes split: if_splits)
  show "TaskPlayback_next_frame pkt ft t = Inr t' \<Longrightarrow> writes_only t' = writes_only t"
    by (auto simp: TaskPlayback_next_frame_def Let_def dest!: put_at_writes split: if_splits)
qed

lemma pushSendCmd_writes:
  "send_simple iVal index t = Inr (r, t') \<Longrightarrow> writes_only t' = writes_only t"
  "TaskPlayback_pushSendCmd iVal index t = Inr (r, t') \<Longrightarrow> writes_only t' = writes_only t"
proof -
  show s: "send_simple iVal index t = Inr (r, t') \<Longrightarrow> writes_only t' = writes_only t"
    by (auto simp: send_simple_def dest!: put_at_writes play_writes)
  then show "TaskPlayback_pushSendCmd iVal index t = Inr (r, t') \<Longrightarrow> writes_only t' = writes_only t"
    by (auto simp: TaskPlayback_pushSendCmd_def split: if_splits)
qed

lemma play_write_writes: "TaskPlayback_writeBuffer t = Inr (r, t') \<Longrightarrow> writes_only t' = writes_only t"
  by (auto simp: TaskPlayback_writeBuffer_def TaskPlayback_sendVariedCmd_def Let_def
      dest!: play_writes pushSendCmd_writes split: if_splits option.splits list.splits prod.splits)

lemma play_new_writes: "TaskPlayback_new s memory med = Inr t \<Longrightarrow> writes_only t"
  by (auto simp: TaskPlayback_new_def getLoginRet_def Let_def dest!: play_writes put_at_writes split: option.splits)
    (simp add: writes_only_def)

lemma seek_writes: "TaskPlayback_seek iPos index t = Inr t' \<Longrightarrow> writes_only t' = writes_only t"
  by (simp only: TaskPlayback_seek_def Let_def bnd_eq_Inr split_paired_Ex prod.case, elim exE conjE)
    (drule pushSendCmd_writes, drule pushSendCmd_writes, simp split: if_split_asm, auto)

lemma play_handle_writes: "TaskPlayback_handle ret t = Inr (r, t') \<Longrightarrow> writes_only t' = writes_only t"
  by (simp only: TaskPlayback_handle_def bnd_eq_Inr, elim exE conjE, simp split: if_split_asm)
    (auto dest: seek_writes)

section \<open>Task objects and sessions\<close>

definition requests_writes :: "task_object option \<Rightarrow> bool" where
  "requests_writes k \<longleftrightarrow> (\<forall>k'. k = Some k' \<longrightarrow> set (task_events k') \<subseteq> {EV_WRITE})"

lemma requests_writes_task [simp]:
  "requests_writes None" "requests_writes (Some (Video_recv v))" "requests_writes (Some (File_recv f)) = writes_only f"
  "requests_writes (Some (Play p)) = writes_only p" "requests_writes (Some (File_send fs)) = writes_only fs"
  "requests_writes (Some (events_done k))"
  by (cases k; simp add: requests_writes_def task_events_def writes_only_def events_done_def)+

lemma read_packet_writes:
  assumes "\<And>r t r' t'. act r t = Inr (r', t') \<Longrightarrow> writes_only t' = writes_only t"
    and "writes_only t" "read_packet act t = Inr (r, t')"
  shows "writes_only t'"
  using read_packet_keeps [of writes_only act t r t'] assms by simp

lemma TaskBase_writes:
  "requests_writes (Some k) \<Longrightarrow> TaskBase_readBuffer A k = Inr (r, k') \<Longrightarrow> requests_writes (Some k')"
  "requests_writes (Some k) \<Longrightarrow> TaskBase_writeBuffer k = Inr (r, k') \<Longrightarrow> requests_writes (Some k')"
  "requests_writes (Some k) \<Longrightarrow> TaskBase_setHeartCount w k = (n, k') \<Longrightarrow> requests_writes (Some k')"
proof -
  have r: "read_packet TaskFileRecv_handle f = Inr (r, f') \<Longrightarrow> writes_only f \<Longrightarrow> writes_only f'"
    "read_packet TaskPlayback_handle p = Inr (r, p') \<Longrightarrow> writes_only p \<Longrightarrow> writes_only p'"
    "read_packet TaskFileSend_handle fs = Inr (r, fs') \<Longrightarrow> writes_only fs \<Longrightarrow> writes_only fs'" for f f' p p' fs fs'
    using read_packet_writes [of TaskFileRecv_handle f r f'] file_recv_handle_writes
      read_packet_writes [of TaskPlayback_handle p r p'] play_handle_writes
      read_packet_writes [of TaskFileSend_handle fs r fs'] file_send_handle_writes by blast+
  show "requests_writes (Some k) \<Longrightarrow> TaskBase_readBuffer A k = Inr (r, k') \<Longrightarrow> requests_writes (Some k')"
    by (cases k; simp add: TaskBase_readBuffer_def lift_task_def TaskFileRecv_readBuffer_def TaskPlayback_readBuffer_def
        TaskFileSend_readBuffer_def split_paired_Ex; elim exE conjE; use r in auto)
  show "requests_writes (Some k) \<Longrightarrow> TaskBase_writeBuffer k = Inr (r, k') \<Longrightarrow> requests_writes (Some k')"
    by (cases k) (auto simp: TaskBase_writeBuffer_def lift_task_def TaskFileRecv_writeBuffer_def
        dest!: play_write_writes file_send_write_writes)
  show "requests_writes (Some k) \<Longrightarrow> TaskBase_setHeartCount w k = (n, k') \<Longrightarrow> requests_writes (Some k')"
    by (cases k) (auto simp: TaskBase_setHeartCount_def TaskPlayback_setHeartCount_def Let_def split: prod.splits)
qed

definition asks_writes :: "session \<Rightarrow> bool" where
  "asks_writes t \<longleftrightarrow> requests_writes (mTaskBase t)"

lemma asks_writes_simps [simp]:
  "asks_writes (t\<lparr>mSock := s\<rparr>) = asks_writes t" "asks_writes (upd_recv f t) = asks_writes t"
  "asks_writes (t\<lparr>mTaskBase := k\<rparr>) = requests_writes k"
  "asks_writes (t\<lparr>mReading := n\<rparr>) = asks_writes t" "asks_writes (t\<lparr>mWriting := n\<rparr>) = asks_writes t"
  by (simp_all add: asks_writes_def upd_recv_def)

lemma Session_handle_writes: "asks_writes t \<Longrightarrow> Session_handle F ret t = Inr (r, t') \<Longrightarrow> asks_writes t'"
  by (simp only: Session_handle_def Let_def bnd_eq_Inr split_paired_Ex prod.case, elim exE conjE,
    simp split: if_split_asm, auto simp: asks_writes_def upd_recv_def dest: play_new_writes file_send_new_writes)

lemma Session_readBuffer_writes:
  assumes "asks_writes t" "Session_readBuffer A F t = Inr (r, t')"
  shows "asks_writes t'"
proof (cases "mTaskBase t")
  case None
  with assms(2) have "read_packet (Session_handle F) t = Inr (r, t')"
    by (simp add: Session_readBuffer_def)
  then show ?thesis
    by (rule read_packet_keeps [of asks_writes, OF asks_writes_simps(1,2) _ assms(1), rotated])
      (erule (1) Session_handle_writes)
next
  case (Some k)
  with assms TaskBase_writes(1) [of k A] show ?thesis
    by (auto simp: Session_readBuffer_def asks_writes_def)
qed

lemma Session_writeBuffer_writes: "asks_writes t \<Longrightarrow> Session_writeBuffer t = Inr (r, t') \<Longrightarrow> asks_writes t'"
  by (auto simp: Session_writeBuffer_def asks_writes_def TaskBase_writes(2) split: option.splits)

lemma Session_setHeartBeat_writes: "asks_writes t \<Longrightarrow> Session_setHeartBeat t = (n, t') \<Longrightarrow> asks_writes t'"
  by (auto simp: Session_setHeartBeat_def asks_writes_def TaskBase_writes(3) split: option.splits prod.splits)

end
