(* ===== verification/ServerInv.thy ===== *)
theory ServerInv
  imports EventCall EpollFrame TaskEvents
begin

text \<open>
  The invariant of the running server: every event on a queue whose callback is one of the three of
  a session belongs to a session that exists and waits for it. It is kept by every operation of the
  event loop and by every callback.
\<close>

section \<open>Owners of events\<close>

definition session_cb :: "callback \<Rightarrow> bool" where
  "session_cb c \<longleftrightarrow> c = CB_onRead \<or> c = CB_onWrite \<or> c = CB_onTimer"

text \<open>Where in its session's block the event of a callback is, and whether the session waits for it.\<close>

definition place :: "callback \<Rightarrow> nat" where
  "place c = (if c = CB_onRead then 1 else if c = CB_onWrite then 2 else 3)"

definition waits :: "session \<Rightarrow> callback \<Rightarrow> bool" where
  "waits t c \<longleftrightarrow> (c = CB_onRead \<longrightarrow> mReading t \<noteq> 0) \<and> (c = CB_onWrite \<longrightarrow> mWriting t \<noteq> 0)"

definition queued :: "'a evstate_scheme \<Rightarrow> nat \<Rightarrow> bool" where
  "queued s e \<longleftrightarrow> flag_bit s e 0 \<or> flag_bit s e 1 \<or> flag_bit s e 2 \<or> flag_bit s e 3"

definition entitled :: "server \<Rightarrow> nat \<Rightarrow> bool" where
  "entitled s e \<longleftrightarrow> (session_cb (ev_callback (evs s e)) \<longrightarrow>
     (\<exists>t. sessions s (ev_arg (evs s e)) = Some t \<and> e = ev_arg (evs s e) + place (ev_callback (evs s e)) \<and>
        waits t (ev_callback (evs s e))))"

text \<open>A session's event never waits for a signal, and on the active queue it is on no other and
  due for one call.\<close>

definition tame :: "event \<Rightarrow> bool" where
  "tame E \<longleftrightarrow> ev_base E \<and> \<not> has (ev_events E) EV_SIGNAL \<and> \<not> has (ev_events E) EV_PERSIST \<and>
     \<not> bit (ev_flags E) 2 \<and>
     (bit (ev_flags E) 3 \<longrightarrow> \<not> bit (ev_flags E) 0 \<and> \<not> bit (ev_flags E) 1 \<and> ev_ncalls E = 1)"

definition live_ok :: "server \<Rightarrow> nat \<Rightarrow> session \<Rightarrow> bool" where
  "live_ok s p t \<longleftrightarrow> p mod 4 = 0 \<and> p + 4 \<le> heap_next s \<and>
     mReadEvent t = p + 1 \<and> mWriteEvent t = p + 2 \<and> mTimeEvent t = p + 3 \<and>
     ev_callback (evs s (p + 1)) = CB_onRead \<and> ev_arg (evs s (p + 1)) = p \<and>
     ev_callback (evs s (p + 2)) = CB_onWrite \<and> ev_arg (evs s (p + 2)) = p \<and>
     asks_writes t"

text \<open>\<open>ev_signal\<close> is the event of the signal pipe and the argument of its own callback; a block of
  \<open>event_once\<close> can only stop the loop.\<close>

definition signals_ok :: "server \<Rightarrow> bool" where
  "signals_ok s \<longleftrightarrow> \<not> session_cb (ev_callback (evs s ev_signal)) \<and>
     (\<forall>e. ev_callback (evs s e) = CB_signal \<longrightarrow> ev_arg (evs s e) = ev_signal) \<and>
     (\<forall>e \<in> set (signalqueue s). e < heap_next s \<and> \<not> session_cb (ev_callback (evs s e))) \<and>
     (\<forall>p r. onces s p = Some r \<longrightarrow> once_cb r = CB_loopexit)"

text \<open>\<open>X\<close> are events between two queues.\<close>

definition srv_inv :: "nat set \<Rightarrow> server \<Rightarrow> bool" where
  "srv_inv X s \<longleftrightarrow> 0 < heap_next s \<and> heap_next s mod 4 = 0 \<and> (\<forall>e. heap_next s \<le> e \<longrightarrow> \<not> queued s e) \<and>
     (\<forall>p t. sessions s p = Some t \<longrightarrow> live_ok s p t) \<and>
     (\<forall>e. queued s e \<or> e \<in> X \<longrightarrow> entitled s e) \<and>
     (\<forall>e. session_cb (ev_callback (evs s e)) \<longrightarrow> tame (evs s e)) \<and>
     signals_ok s \<and> tab_inv {} s"

lemma srv_invD:
  assumes "srv_inv X s"
  shows "0 < heap_next s" "heap_next s mod 4 = 0" "queued s e \<Longrightarrow> e < heap_next s"
    "sessions s p = Some t \<Longrightarrow> live_ok s p t" "queued s e \<Longrightarrow> entitled s e" "e \<in> X \<Longrightarrow> entitled s e"
    "session_cb (ev_callback (evs s e)) \<Longrightarrow> tame (evs s e)" "signals_ok s" "tab_inv {} s"
  using assms unfolding srv_inv_def by (blast | metis not_le)+

lemma srv_inv_mono: "srv_inv X s \<Longrightarrow> Y \<subseteq> X \<Longrightarrow> srv_inv Y s"
  unfolding srv_inv_def by blast

lemma srv_inv_more: "srv_inv X s \<Longrightarrow> (\<And>e. e \<in> Y \<Longrightarrow> entitled s e) \<Longrightarrow> srv_inv Y s"
  unfolding srv_inv_def by blast

text \<open>The parts of the server that are not the event core's.\<close>

lemma server_parts:
  assumes "epollstate.more s' = epollstate.more s"
  shows "sessions s' = sessions s \<and> heap_next s' = heap_next s \<and> manager s' = manager s \<and> mTimeout s' = mTimeout s"
  using assms by (cases s; cases s') simp

text \<open>What an operation of the core or of the back end does to the invariant.\<close>

lemma srv_inv_touches:
  assumes inv: "srv_inv X s" and t: "touches A s s'" and tab: "tab_inv {} s'"
    and A: "\<And>e. e \<in> A \<Longrightarrow> session_cb (ev_callback (evs s e)) \<Longrightarrow> (queued s e \<or> e \<in> X) \<and> tame (evs s' e)"
      "\<And>e. e \<in> A \<Longrightarrow> e < heap_next s"
  shows "srv_inv X s'"
proof -
  have p: "sessions s' = sessions s" "heap_next s' = heap_next s"
    using t server_parts by (auto simp: touches_def)
  have face: "ev_callback (evs s' e) = ev_callback (evs s e)" "ev_arg (evs s' e) = ev_arg (evs s e)"
    "ev_events (evs s' e) = ev_events (evs s e)" "ev_base (evs s' e) = ev_base (evs s e)" for e
    using t by (auto simp: touches_def same_face_def)
  have q: "queued s' e \<Longrightarrow> e \<notin> A \<Longrightarrow> queued s e" for e
    using t by (auto simp: touches_def shrunk_def queued_def)
  have ent: "entitled s' e = entitled s e" for e
    by (simp add: entitled_def face p)
  have live: "live_ok s' = live_ok s"
    by (simp add: live_ok_def face p fun_eq_iff)
  have "entitled s e" if "queued s' e \<or> e \<in> X" for e
    using that q [of e] A(1) [of e] srv_invD(5,6) [OF inv, of e] by (cases "e \<in> A") (auto simp: entitled_def)
  moreover have "tame (evs s' e)" if c: "session_cb (ev_callback (evs s e))" for e
  proof (cases "e \<in> A")
    case False
    then have sh: "shrunk (evs s e) (evs s' e)"
      using t by (simp add: touches_def)
    have "tame (evs s e)"
      using srv_invD(7) [OF inv c] .
    with sh show ?thesis
      by (auto simp: tame_def shrunk_def face)
  qed (use A(1) c in blast)
  moreover have "e < heap_next s \<and> \<not> session_cb (ev_callback (evs s e))" if "e \<in> set (signalqueue s')" for e
  proof (rule conjI)
    show "e < heap_next s"
      using that t A(2) srv_invD(8) [OF inv] by (auto simp: touches_def signals_ok_def)
    show "\<not> session_cb (ev_callback (evs s e))"
    proof
    assume c: "session_cb (ev_callback (evs s e))"
    then have "\<not> has (ev_events (evs s e)) EV_SIGNAL"
      using srv_invD(7) [OF inv] by (simp add: tame_def)
    with that t have "e \<in> set (signalqueue s)"
      by (auto simp: touches_def)
    with c srv_invD(8) [OF inv] show False
      by (auto simp: signals_ok_def)
    qed
  qed
  moreover have "onces s' = onces s"
    using t by (simp add: touches_def)
  moreover have "\<not> queued s' e" if "heap_next s \<le> e" for e
    using that q [of e] A(2) [of e] srv_invD(3) [OF inv, of e] by auto
  ultimately show ?thesis
    using inv tab unfolding srv_inv_def by (simp add: p face ent live signals_ok_def)
qed

lemmas srv_inv_shrinks = srv_inv_touches [where A = "{}", simplified]

lemma srv_inv_fields [simp]:
  "srv_inv X (s\<lparr>ticks := k\<rparr>) = srv_inv X s" "srv_inv X (s\<lparr>event_tv := t\<rparr>) = srv_inv X s"
  "srv_inv X (s\<lparr>event_gotsig := b\<rparr>) = srv_inv X s" "srv_inv X (s\<lparr>event_gotterm := g\<rparr>) = srv_inv X s"
  "srv_inv X (s\<lparr>calls := c\<rparr>) = srv_inv X s" "srv_inv X (s\<lparr>ncalls_vars := V\<rparr>) = srv_inv X s"
  "srv_inv X (s\<lparr>next_var := v\<rparr>) = srv_inv X s" "srv_inv X (s\<lparr>evsigcaught := cg\<rparr>) = srv_inv X s"
  "srv_inv X (s\<lparr>evsignal_caught := d\<rparr>) = srv_inv X s"
  "srv_inv X (s\<lparr>manager := m\<rparr>) = srv_inv X s" "srv_inv X (s\<lparr>arrivals := a\<rparr>) = srv_inv X s"
  "srv_inv X (s\<lparr>closed_fds := cl\<rparr>) = srv_inv X s" "srv_inv X (s\<lparr>mIsShutdown := sd\<rparr>) = srv_inv X s"
  by (simp_all add: srv_inv_def queued_def live_ok_def entitled_def signals_ok_def tab_inv_def slot_ok_def)


section \<open>Operations of the event core\<close>

lemma event_del_srv:
  assumes inv: "srv_inv X s" and run: "event_del (epoll_del K) ev s = Inr (r, s')"
  shows "srv_inv X s' \<and> touches {} s s' \<and>
    (session_cb (ev_callback (evs s ev)) \<longrightarrow> \<not> queued s' ev)"
proof -
  have t: "touches {} s s'" "ev_base (evs s ev) \<longrightarrow> \<not> flag_bit s' ev 0 \<and> \<not> flag_bit s' ev 1 \<and> \<not> flag_bit s' ev 3"
    using event_del_frame [OF run] by auto
  have inv': "srv_inv X s'"
    using srv_inv_shrinks [OF inv t(1) event_del_table [OF srv_invD(9) [OF inv] run]] .
  moreover have "\<not> queued s' ev" if "session_cb (ev_callback (evs s ev))"
  proof -
    have "ev_callback (evs s' ev) = ev_callback (evs s ev)"
      using t(1) by (simp add: touches_def same_face_def)
    then have "tame (evs s' ev)" "ev_base (evs s ev)"
      using that srv_invD(7) [OF inv'] srv_invD(7) [OF inv] by (auto simp: tame_def)
    with t(2) show ?thesis
      by (simp add: queued_def tame_def)
  qed
  ultimately show ?thesis
    using t(1) by blast
qed

lemma joined_tame:
  assumes "joined_by ev s s'" "tame (evs s ev)" "\<not> flag_bit s ev 3" "ev \<noteq> ev_signal"
  shows "tame (evs s' ev)"
proof -
  have "same_face (evs s ev) (evs s' ev)"
    using assms(1) by (simp add: joined_by_def touches_def)
  with assms show ?thesis
    by (auto simp: joined_by_def tame_def same_face_def)
qed

lemma event_add_srv:
  assumes inv: "srv_inv X s" and run: "event_add (epoll_add K) ev tv s = Inr (r, s')" and ev: "ev < heap_next s"
    and ok: "session_cb (ev_callback (evs s ev)) \<Longrightarrow> (queued s ev \<or> ev \<in> X) \<and> \<not> flag_bit s ev 3"
  shows "srv_inv X s' \<and> joined_by ev s s'"
proof -
  note j = event_add_epoll [OF run]
  have t: "touches {ev, ev_signal} s s'" "tab_inv {} s'"
    using j srv_invD(9) [OF inv] by (auto simp: joined_by_def)
  have sig: "\<not> session_cb (ev_callback (evs s ev_signal))" "ev_signal < heap_next s"
    using srv_invD(8) [OF inv] srv_invD(1) [OF inv] by (auto simp: signals_ok_def ev_signal_def)
  have "srv_inv X s'"
  proof (rule srv_inv_touches [OF inv t])
    fix e
    assume e: "e \<in> {ev, ev_signal}" "session_cb (ev_callback (evs s e))"
    with sig have "e = ev" "ev \<noteq> ev_signal"
      by auto
    with ok e(2) joined_tame [OF j srv_invD(7) [OF inv]] show "(queued s e \<or> e \<in> X) \<and> tame (evs s' e)"
      by blast
  next
    fix e
    assume "e \<in> {ev, ev_signal}"
    with ev sig(2) show "e < heap_next s" by auto
  qed
  with j show ?thesis by blast
qed

lemma event_active_srv:
  assumes inv: "srv_inv X s" and run: "event_active ev res n s = Inr s'" and ev: "ev < heap_next s"
    and ok: "session_cb (ev_callback (evs s ev)) \<Longrightarrow>
      (queued s ev \<or> ev \<in> X) \<and> \<not> flag_bit s ev 0 \<and> \<not> flag_bit s ev 1 \<and> n = 1"
  shows "srv_inv X s' \<and> touches {ev} s s'"
proof -
  note t = event_active_touches [OF run]
  have one: "flag_bit s e 1 \<Longrightarrow> flag_bit s' e 1" for e
    using t by (cases "e = ev") auto
  have tab: "tab_inv {} s'"
    using t one by (intro tab_inv_kept [OF srv_invD(9) [OF inv], of s' "{ev}"]) auto
  have "tame (evs s' ev)" if c: "session_cb (ev_callback (evs s ev))"
  proof -
    have "same_face (evs s ev) (evs s' ev)"
      using t by (simp add: touches_def)
    with t ok [OF c] srv_invD(7) [OF inv c] show ?thesis
      by (auto simp: tame_def same_face_def)
  qed
  with ok ev t show ?thesis
    using srv_inv_touches [OF inv _ tab, of "{ev}"] by auto
qed

text \<open>Setting up an event that is on no queue.\<close>

lemma event_set_fields [simp]:
  "sessions (event_set ev fd events c p s) = sessions s" "heap_next (event_set ev fd events c p s) = heap_next s"
  "mTimeout (event_set ev fd events c p s) = mTimeout s" "manager (event_set ev fd events c p s) = manager s"
  "onces (event_set ev fd events c p s) = onces s" "signalqueue (event_set ev fd events c p s) = signalqueue s"
  "fds (event_set ev fd events c p s) = fds s" "e \<noteq> ev \<Longrightarrow> evs (event_set ev fd events c p s) e = evs s e"
  "ncalls_vars (event_set ev fd events c p s) = ncalls_vars s"
  by (simp_all add: event_set_def upd_ev_def)

lemma event_set_event:
  "evs (event_set ev fd events c p s) ev = (evs s ev)\<lparr>ev_base := True, ev_callback := c, ev_arg := p, ev_fd := fd,
     ev_events := events, ev_flags := EVLIST_INIT, ev_ncalls := 0, ev_pncalls := None, ev_pri := nactivequeues s div 2\<rparr>"
  by (simp add: event_set_def)

lemma event_set_face:
  "ev_callback (evs (event_set ev fd events c p s) e) = (if e = ev then c else ev_callback (evs s e))"
  "ev_arg (evs (event_set ev fd events c p s) e) = (if e = ev then p else ev_arg (evs s e))"
  by (simp_all add: event_set_def upd_ev_def)

lemma event_set_srv:
  assumes inv: "srv_inv {} s" and off: "\<not> queued s ev" "ev \<notin> set (signalqueue s)"
    and ev: "ev \<noteq> ev_signal" "c \<noteq> CB_signal" "session_cb c \<Longrightarrow> \<not> has events EV_SIGNAL \<and> \<not> has events EV_PERSIST"
    and own: "\<And>p' t. sessions s p' = Some t \<Longrightarrow>
      (ev = p' + 1 \<longrightarrow> c = CB_onRead \<and> p = p') \<and> (ev = p' + 2 \<longrightarrow> c = CB_onWrite \<and> p = p')"
  shows "srv_inv {} (event_set ev fd events c p s)"
proof -
  let ?s = "event_set ev fd events c p s"
  have q: "queued ?s e \<longleftrightarrow> queued s e" for e
    using off by (cases "e = ev") (auto simp: queued_def event_set_event flag_simps)
  have "entitled ?s e" if "queued ?s e" for e
  proof -
    have "e \<noteq> ev"
      using that off q by blast
    with that q srv_invD(5) [OF inv, of e] show ?thesis
      by (simp add: entitled_def)
  qed
  moreover have "live_ok ?s p' t" if t: "sessions s p' = Some t" for p' t
  proof -
    have l: "live_ok s p' t"
      using srv_invD(4) [OF inv t] .
    have "ev_callback (evs ?s (p' + 1)) = CB_onRead \<and> ev_arg (evs ?s (p' + 1)) = p'"
      using l own [OF t] by (simp only: event_set_face live_ok_def split: if_split) blast
    moreover have "ev_callback (evs ?s (p' + 2)) = CB_onWrite \<and> ev_arg (evs ?s (p' + 2)) = p'"
      using l own [OF t] by (simp only: event_set_face live_ok_def split: if_split) blast
    ultimately show ?thesis
      using l unfolding live_ok_def event_set_fields by blast
  qed
  moreover have "tame (evs ?s e)" if "session_cb (ev_callback (evs ?s e))" for e
  proof (cases "e = ev")
    case True
    with ev that show ?thesis by (simp add: tame_def event_set_event flag_simps)
  next
    case False
    with that srv_invD(7) [OF inv, of e] show ?thesis by simp
  qed
  moreover have "signals_ok ?s"
  proof -
    have o: "signals_ok s"
      using srv_invD(8) [OF inv] .
    have "e \<noteq> ev" if "e \<in> set (signalqueue s)" for e
      using that off(2) by blast
    moreover have "ev_arg (evs ?s e) = ev_signal" if "ev_callback (evs ?s e) = CB_signal" for e
      using that ev(2) o by (cases "e = ev") (simp_all add: event_set_face signals_ok_def)
    ultimately show ?thesis
      using o ev(1) by (simp add: signals_ok_def event_set_face)
  qed
  moreover have "tab_inv {} ?s"
  proof -
    have "slot_ok {} ?s i d e" if "slot_ok {} s i d e" for i d e
      using that off(1) by (cases "e = ev") (auto simp: slot_ok_def queued_def)
    then show ?thesis
      using srv_invD(9) [OF inv] unfolding tab_inv_def by simp
  qed
  ultimately show ?thesis
    using inv q unfolding srv_inv_def by simp
qed

section \<open>Sessions\<close>

text \<open>A new state of a session that keeps its events and does not stop waiting for a queued one.\<close>

lemma update_session_srv:
  assumes inv: "srv_inv {} s" and t: "sessions s p = Some t"
    and same: "mReadEvent t' = mReadEvent t" "mWriteEvent t' = mWriteEvent t" "mTimeEvent t' = mTimeEvent t"
    and asks: "asks_writes t'"
    and reading: "queued s (p + 1) \<Longrightarrow> mReading t \<noteq> 0 \<Longrightarrow> mReading t' \<noteq> 0"
    and writing: "queued s (p + 2) \<Longrightarrow> mWriting t \<noteq> 0 \<Longrightarrow> mWriting t' \<noteq> 0"
  shows "srv_inv {} (s\<lparr>sessions := (sessions s)(p := Some t')\<rparr>)" (is "srv_inv {} ?s")
proof -
  have "live_ok ?s p' t2" if "sessions ?s p' = Some t2" for p' t2
  proof (cases "p' = p")
    case True
    with that srv_invD(4) [OF inv t] same asks show ?thesis
      by (simp add: live_ok_def)
  next
    case False
    with that srv_invD(4) [OF inv, of p' t2] show ?thesis
      by (simp add: live_ok_def)
  qed
  moreover have "entitled ?s e" if "queued s e" for e
  proof (cases "ev_arg (evs s e) = p \<and> session_cb (ev_callback (evs s e))")
    case True
    then have "e = p + place (ev_callback (evs s e))" "waits t (ev_callback (evs s e))"
      using srv_invD(5) [OF inv that] t by (auto simp: entitled_def)
    then have "waits t' (ev_callback (evs s e))"
      using reading writing that by (auto simp: waits_def place_def CB_onRead_def CB_onWrite_def)
    with True \<open>e = _\<close> show ?thesis
      by (simp add: entitled_def)
  next
    case False
    with srv_invD(5) [OF inv that] show ?thesis
      by (auto simp: entitled_def)
  qed
  ultimately show ?thesis
    using inv unfolding srv_inv_def
    by (simp add: queued_def signals_ok_def tab_inv_def slot_ok_def del: fun_upd_apply)
qed

text \<open>What a handler of session \<open>p\<close> changes besides: its own two events and \<open>ev_signal\<close>.\<close>

definition local_to :: "nat \<Rightarrow> server \<Rightarrow> server \<Rightarrow> bool" where
  "local_to p s s' \<longleftrightarrow> (\<forall>e. e \<noteq> p + 1 \<longrightarrow> e \<noteq> p + 2 \<longrightarrow> e \<noteq> ev_signal \<longrightarrow> evs s' e = evs s e) \<and>
     (\<forall>q. q \<noteq> p \<longrightarrow> sessions s' q = sessions s q) \<and> (sessions s p \<noteq> None \<longrightarrow> sessions s' p \<noteq> None) \<and>
     heap_next s' = heap_next s \<and> zeros_kept s s' \<and>
     set (signalqueue s') \<subseteq> insert (p + 1) (insert (p + 2) (insert ev_signal (set (signalqueue s))))"

lemma zeros_kept_refl [simp]: "zeros_kept s s"
  by (simp add: zeros_kept_def)

lemma zeros_kept_trans: "zeros_kept s s' \<Longrightarrow> zeros_kept s' s'' \<Longrightarrow> zeros_kept s s''"
  by (simp add: zeros_kept_def)

lemma local_refl [simp]: "local_to p s s"
  by (auto simp: local_to_def)

lemma local_trans: "local_to p s s' \<Longrightarrow> local_to p s' s'' \<Longrightarrow> local_to p s s''"
  unfolding local_to_def by (auto intro: zeros_kept_trans)

lemma local_session [simp]: "local_to p s (s\<lparr>sessions := (sessions s)(p := Some x)\<rparr>)"
  by (auto simp: local_to_def zeros_kept_def)

lemma local_joined:
  assumes "joined_by ev s s'" "ev = p + 1 \<or> ev = p + 2"
  shows "local_to p s s'"
  using assms server_parts [of s' s] unfolding local_to_def joined_by_def touches_def by auto

text \<open>The block of a session decides its owner.\<close>

lemma block_owner:
  fixes p p' :: nat
  assumes "p mod 4 = 0" "p' mod 4 = 0" "i < 4" "j < 4" "p + i = p' + j"
  shows "p' = p \<and> j = i"
proof -
  have "(p + i) mod 4 = i" "(p' + j) mod 4 = j"
    using assms(1-4) by (metis add_0 mod_add_left_eq mod_less)+
  then show ?thesis
    using assms(5) by simp
qed

lemma own_event:
  assumes inv: "srv_inv X s" and t: "sessions s p = Some t" and ev: "ev = p + place c" "c = CB_onRead \<or> c = CB_onWrite"
    and t': "sessions s p' = Some t'"
  shows "(ev = p' + 1 \<longrightarrow> c = CB_onRead \<and> p = p') \<and> (ev = p' + 2 \<longrightarrow> c = CB_onWrite \<and> p = p')"
proof -
  have m: "p mod 4 = 0" "p' mod 4 = 0"
    using srv_invD(4) [OF inv t] srv_invD(4) [OF inv t'] by (auto simp: live_ok_def)
  have pl: "place c < 4"
    by (simp add: place_def)
  have "p' = p \<and> 1 = place c" if "ev = p' + 1"
    by (rule block_owner [OF m pl]) (use ev(1) that in simp_all)
  moreover have "p' = p \<and> 2 = place c" if "ev = p' + 2"
    by (rule block_owner [OF m pl]) (use ev(1) that in simp_all)
  ultimately show ?thesis
    using ev(2) by (auto simp: place_def split: if_splits)
qed

lemma base_set_srv:
  assumes inv: "srv_inv X s" and base: "ev_base (evs s ev)" and run: "event_base_set ev s = (r, s')"
  shows "srv_inv X s' \<and> (\<forall>e. e \<noteq> ev \<longrightarrow> evs s' e = evs s e) \<and> same_face (evs s ev) (evs s' ev) \<and>
    ev_flags (evs s' ev) = ev_flags (evs s ev) \<and> touches {} s s'"
proof -
  have f: "fds s' = fds s" "\<And>e. ev_flags (evs s' e) = ev_flags (evs s e)" and t: "touches {} s s'"
    using run base
    by (auto simp: event_base_set_def touches_def same_face_def shrunk_def zeros_kept_def split: if_splits)
  moreover have "tab_inv {} s'"
    using tab_inv_kept [OF srv_invD(9) [OF inv] f(1) t] f(2) by simp
  ultimately have t: "touches {} s s'" "tab_inv {} s'"
    by blast+
  with srv_inv_shrinks [OF inv t] run base show ?thesis
    by (auto simp: event_base_set_def same_face_def split: if_splits)
qed

lemma arm_srv:
  assumes inv: "srv_inv {} s" and t: "sessions s p = Some t" and ev: "ev = p + place c" "c = CB_onRead \<or> c = CB_onWrite"
    and w: "waits t c" "\<not> queued s ev" "\<not> has events EV_SIGNAL" "\<not> has events EV_PERSIST"
    and run: "arm K ev fd events c p s = Inr s'"
  shows "srv_inv {} s' \<and> local_to p s s' \<and> sessions s' = sessions s"
proof -
  let ?s = "event_set ev fd events c p s"
  obtain r s1 where s1: "event_base_set ev ?s = (r, s1)"
    by (cases "event_base_set ev ?s")
  obtain r' where add: "event_add (epoll_add K) ev (Some \<lparr>tv_sec = mTimeout s1, tv_usec = 0\<rparr>) s1 = Inr (r', s')"
    using run s1 by (auto simp: arm_def Let_def)
  have l: "live_ok s p t"
    using srv_invD(4) [OF inv t] .
  have cb: "session_cb c" "c \<noteq> CB_signal" "session_cb (ev_callback (evs s ev))"
    using ev l by (auto simp: session_cb_def CB_onRead_def CB_onWrite_def place_def live_ok_def)
  have sig: "ev \<notin> set (signalqueue s)" "ev \<noteq> ev_signal"
    using srv_invD(8) [OF inv] cb(3) by (auto simp: signals_ok_def)
  have 0: "srv_inv {} ?s"
    by (rule event_set_srv [OF inv w(2) sig(1,2) cb(2) conjI [OF w(3,4)] own_event [OF inv t ev]])
  have b: "ev_base (evs ?s ev)"
    by (simp add: event_set_event)
  note 1 = base_set_srv [OF 0 b s1]
  have p1: "sessions s1 = sessions s" "heap_next s1 = heap_next s"
    using 1 server_parts [of s1 ?s] by (auto simp: touches_def)
  have f1: "ev_callback (evs s1 ev) = c" "ev_arg (evs s1 ev) = p" "ev_flags (evs s1 ev) = EVLIST_INIT"
    using 1 by (auto simp: same_face_def event_set_event)
  have "entitled s1 ev"
    unfolding entitled_def f1 p1 using t ev(1) w(1) by blast
  then have inv1: "srv_inv {ev} s1"
    using 1 srv_inv_more by blast
  have "ev < heap_next s1"
    using l ev by (auto simp: p1 live_ok_def place_def)
  from event_add_srv [OF inv1 add this] f1(3) have "srv_inv {ev} s'" "joined_by ev s1 s'"
    by (auto simp: flag_simps)
  moreover from this(2) have "sessions s' = sessions s"
    using server_parts [of s' s1] by (simp add: joined_by_def touches_def p1)
  moreover have "local_to p s s1"
    using 1 ev p1 by (auto simp: local_to_def place_def touches_def zeros_kept_def CB_onRead_def CB_onWrite_def)
  moreover have "local_to p s1 s'"
    using local_joined [OF \<open>joined_by ev s1 s'\<close>] ev by (auto simp: place_def)
  ultimately show ?thesis
    using srv_inv_mono [of "{ev}" s' "{}"] local_trans by blast
qed

section \<open>The callbacks\<close>

definition plain_events :: "16 word \<Rightarrow> bool" where
  "plain_events events \<longleftrightarrow> \<not> has events EV_SIGNAL \<and> \<not> has events EV_PERSIST"

lemma plain_events [simp]: "plain_events EV_READ" "plain_events EV_WRITE" "plain_events EV_TIMEOUT"
  by (simp_all add: plain_events_def has_def EV_READ_def EV_WRITE_def EV_TIMEOUT_def EV_SIGNAL_def EV_PERSIST_def)

text \<open>A live session's event that does not wait is on no queue.\<close>

lemma idle_event:
  assumes inv: "srv_inv {} s" and t: "sessions s p = Some t" and c: "c = CB_onRead \<or> c = CB_onWrite" "\<not> waits t c"
  shows "\<not> queued s (p + place c)"
proof
  assume q: "queued s (p + place c)"
  have "ev_callback (evs s (p + place c)) = c" "ev_arg (evs s (p + place c)) = p" "session_cb c"
    using srv_invD(4) [OF inv t] c(1) by (auto simp: live_ok_def place_def session_cb_def CB_onRead_def CB_onWrite_def)
  with srv_invD(5) [OF inv q] t c(2) show False
    by (simp add: entitled_def)
qed

text \<open>One of the two branches of \<open>addEvent\<close>: mark the session as waiting, then arm the event.\<close>

lemma mark_and_arm:
  assumes inv: "srv_inv {} s" and t: "sessions s p = Some t" and c: "c = CB_onRead \<or> c = CB_onWrite" "\<not> waits t c"
    and ev: "plain_events events"
    and t': "t' = (if c = CB_onRead then t\<lparr>mReading := 1\<rparr> else t\<lparr>mWriting := 1\<rparr>)"
    and run: "arm K (p + place c) fd events c p (s\<lparr>sessions := (sessions s)(p := Some t')\<rparr>) = Inr s'"
  shows "srv_inv {} s' \<and> local_to p s s' \<and> sessions s' p = Some t'"
proof -
  let ?s = "s\<lparr>sessions := (sessions s)(p := Some t')\<rparr>"
  have w: "waits t' c"
    using c(1) by (auto simp: t' waits_def CB_onRead_def CB_onWrite_def)
  have "asks_writes t'"
    using srv_invD(4) [OF inv t] by (simp add: t' live_ok_def)
  then have 1: "srv_inv {} ?s"
    by (intro update_session_srv [OF inv t]) (simp_all add: t')
  have "\<not> queued ?s (p + place c)"
    using idle_event [OF inv t c] by (simp add: queued_def)
  from arm_srv [OF 1 _ refl c(1) w this _ _ run] ev have "srv_inv {} s' \<and> local_to p ?s s' \<and> sessions s' = sessions ?s"
    by (simp add: plain_events_def)
  then show ?thesis
    using local_trans [OF local_session, of p s t' s'] by simp
qed

lemma addEvent_srv:
  assumes inv: "srv_inv {} s" and ev: "plain_events events" and run: "addEvent K p events fd s = Inr s'"
  shows "srv_inv {} s' \<and> local_to p s s'"
proof -
  obtain t where t: "sessions s p = Some t"
    using run by (auto simp: addEvent_def split: option.splits)
  have l: "mWriteEvent t = p + 2" "mReadEvent t = p + 1"
    using srv_invD(4) [OF inv t] by (auto simp: live_ok_def)
  obtain fd1 s1 where s1: "(if has events EV_WRITE \<and> mWriting t = 0 then
                 let s = upd_session p (\<lambda>t. t\<lparr>mWriting := 1\<rparr>) s;
                     fd = (if fd < 0 then EVENT_FD (mWriteEvent t) s else fd)
                 in bnd (arm K (mWriteEvent t) fd events CB_onWrite p s) (\<lambda>s. Inr (fd, s))
               else Inr (fd, s)) = (Inr (fd1, s1) :: fault + _)"
    and rest: "(if has events EV_READ \<and> mReading t = 0 then
            let s = upd_session p (\<lambda>t. t\<lparr>mReading := 1\<rparr>) s1;
                fd = (if fd1 < 0 then EVENT_FD (mWriteEvent t) s else fd1)
            in arm K (mReadEvent t) fd events CB_onRead p s
          else Inr s1) = (Inr s' :: fault + _)"
    using run unfolding addEvent_def t option.case bnd_eq_Inr split_paired_Ex prod.case
    by (elim exE conjE) (rule that)
  have 1: "srv_inv {} s1 \<and> local_to p s s1 \<and> (\<exists>t1. sessions s1 p = Some t1 \<and> mReading t1 = mReading t)"
  proof (cases "has events EV_WRITE \<and> mWriting t = 0")
    case True
    let ?t = "t\<lparr>mWriting := 1\<rparr>"
    obtain fd2 where a: "arm K (p + place CB_onWrite) fd2 events CB_onWrite p (s\<lparr>sessions := (sessions s)(p := Some ?t)\<rparr>) = Inr s1"
      using s1 True t l by (auto simp: Let_def upd_session_def place_def CB_onRead_def CB_onWrite_def)
    have "\<not> waits t CB_onWrite"
      using True by (simp add: waits_def)
    from mark_and_arm [OF inv t disjI2 [OF refl] this ev _ a] show ?thesis
      by (auto simp: CB_onRead_def CB_onWrite_def)
  next
    case False
    with s1 have "s1 = s" by (simp split: if_split_asm)
    with inv t show ?thesis by simp
  qed
  then obtain t1 where t1: "sessions s1 p = Some t1" "mReading t1 = mReading t"
    by blast
  show ?thesis
  proof (cases "has events EV_READ \<and> mReading t = 0")
    case True
    let ?t = "t1\<lparr>mReading := 1\<rparr>"
    obtain fd2 where a: "arm K (p + place CB_onRead) fd2 events CB_onRead p (s1\<lparr>sessions := (sessions s1)(p := Some ?t)\<rparr>) = Inr s'"
      using rest True t1 l by (auto simp: Let_def upd_session_def place_def)
    have "\<not> waits t1 CB_onRead"
      using True t1 by (simp add: waits_def)
    from mark_and_arm [OF _ t1(1) disjI1 [OF refl] this ev _ a] 1 show ?thesis
      using local_trans by auto
  next
    case False
    with rest have "s' = s1" by (simp split: if_split_asm)
    with 1 show ?thesis by simp
  qed
qed

lemma addEvents_srv:
  "srv_inv {} s \<Longrightarrow> (\<And>e. e \<in> set es \<Longrightarrow> plain_events e) \<Longrightarrow> addEvents_of K p es s = Inr s' \<Longrightarrow>
    srv_inv {} s' \<and> local_to p s s'"
proof (induction es arbitrary: s)
  case (Cons e es)
  then obtain s1 where s1: "addEvent K p e (- 1) s = Inr s1" "addEvents_of K p es s1 = Inr s'"
    by auto
  have 1: "srv_inv {} s1 \<and> local_to p s s1"
    using addEvent_srv [OF Cons.prems(1) _ s1(1)] Cons.prems(2) by simp
  with Cons.IH [OF _ _ s1(2)] Cons.prems(2) local_trans show ?case
    by auto
qed simp

lemma run_task_events_srv:
  assumes inv: "srv_inv {} s" and run: "run_task_events K p s = Inr s'"
  shows "srv_inv {} s' \<and> local_to p s s'"
proof -
  obtain t where t: "sessions s p = Some t"
    using run by (auto simp: run_task_events_def split: option.splits)
  show ?thesis
  proof (cases "mTaskBase t")
    case (Some k)
    let ?s = "s\<lparr>sessions := (sessions s)(p := Some (t\<lparr>mTaskBase := Some (events_done k)\<rparr>))\<rparr>"
    have r: "addEvents_of K p (task_events k) ?s = Inr s'"
      using run t Some by (simp add: run_task_events_def upd_session_def)
    have 1: "srv_inv {} ?s"
      by (intro update_session_srv [OF inv t]) simp_all
    have "set (task_events k) \<subseteq> {EV_WRITE}"
      using srv_invD(4) [OF inv t] Some by (simp add: live_ok_def asks_writes_def requests_writes_def)
    then have "plain_events e" if "e \<in> set (task_events k)" for e
      using that by auto
    from addEvents_srv [OF 1 this r] show ?thesis
      using local_trans [OF local_session] by blast
  qed (use run t inv in \<open>simp add: run_task_events_def\<close>)
qed

text \<open>Deleting the three events of a session, and the session.\<close>

lemma deleted_event:
  assumes inv: "srv_inv X s" and run: "event_del (epoll_del K) ev s = Inr (r, s')"
  shows "srv_inv X s' \<and> sessions s' = sessions s \<and> heap_next s' = heap_next s \<and> zeros_kept s s' \<and>
    set (signalqueue s') \<subseteq> set (signalqueue s) \<and> (\<forall>e. e \<noteq> ev \<longrightarrow> evs s' e = evs s e) \<and>
    (\<forall>e. same_face (evs s e) (evs s' e)) \<and>
    (\<forall>e. queued s' e \<longrightarrow> queued s e \<and> \<not> (e = ev \<and> session_cb (ev_callback (evs s e))))"
proof -
  note d = event_del_srv [OF inv run]
  note f = event_del_frame [OF run]
  have "queued s' e \<Longrightarrow> queued s e" for e
    using f by (auto simp: touches_def shrunk_def queued_def)
  with d f server_parts [of s' s] show ?thesis
    unfolding touches_def by auto
qed

text \<open>\<open>gone p s s'\<close>: session \<open>p\<close> is deleted, the rest as by a handler of it.\<close>

definition gone :: "nat \<Rightarrow> server \<Rightarrow> server \<Rightarrow> bool" where
  "gone p s s' \<longleftrightarrow> sessions s' = (sessions s)(p := None) \<and> heap_next s' = heap_next s \<and> zeros_kept s s' \<and>
     (\<forall>e. ev_callback (evs s' e) = ev_callback (evs s e) \<and> ev_base (evs s' e) = ev_base (evs s e))"

lemma close_session_srv:
  assumes inv: "srv_inv {} s" and run: "close_session K p fd s = Inr s'"
  shows "srv_inv {} s' \<and> gone p s s'"
proof -
  obtain t where t: "sessions s p = Some t"
    using run by (auto simp: close_session_def split: option.splits)
  let ?s = "s\<lparr>manager := snd (sm_remove (word_of_int fd) (manager s))\<rparr>"
  obtain r1 s1 r2 s2 r3 s3 where s1: "event_del (epoll_del K) (mReadEvent t) ?s = Inr (r1, s1)"
    and s2: "event_del (epoll_del K) (mWriteEvent t) s1 = Inr (r2, s2)"
    and s3: "event_del (epoll_del K) (mTimeEvent t) s2 = Inr (r3, s3)"
    and s': "s' = s3\<lparr>sessions := (sessions s3)(p := None), closed_fds := closed_fds s3 @ [fd]\<rparr>"
    using run t by (auto simp: close_session_def Let_def)
  have l: "mReadEvent t = p + 1" "mWriteEvent t = p + 2" "mTimeEvent t = p + 3"
    using srv_invD(4) [OF inv t] by (auto simp: live_ok_def)
  have inv0: "srv_inv {} ?s"
    using inv by simp
  note d1 = deleted_event [OF inv0 s1]
  then have i1: "srv_inv {} s1" by blast
  note d2 = deleted_event [OF i1 s2]
  then have i2: "srv_inv {} s2" by blast
  note d3 = deleted_event [OF i2 s3]
  then have i3: "srv_inv {} s3" by blast
  have ss: "sessions s3 = sessions s"
    using d1 d2 d3 by simp
  have cb: "ev_callback (evs s3 e) = ev_callback (evs s e)" "ev_callback (evs s1 e) = ev_callback (evs s e)"
    "ev_callback (evs s2 e) = ev_callback (evs s e)" "ev_base (evs s3 e) = ev_base (evs s e)" for e
    using d1 d2 d3 by (simp_all add: same_face_def)
  have off: "e \<noteq> p + 1 \<and> e \<noteq> p + 2 \<and> e \<noteq> p + 3" if "queued s3 e" "session_cb (ev_callback (evs s3 e))" for e
  proof -
    have "queued s2 e" "e \<noteq> p + 3"
      using d3 that l cb by auto
    moreover from this have "queued s1 e" "e \<noteq> p + 2"
      using d2 that l cb by auto
    moreover from this have "e \<noteq> p + 1"
      using d1 that l cb by auto
    ultimately show ?thesis by blast
  qed
  have "entitled (s3\<lparr>sessions := (sessions s3)(p := None)\<rparr>) e" if q: "queued s3 e" for e
  proof (cases "session_cb (ev_callback (evs s3 e))")
    case True
    then have "e = ev_arg (evs s3 e) + place (ev_callback (evs s3 e))"
      using srv_invD(5) [OF i3 q] by (auto simp: entitled_def)
    then have "ev_arg (evs s3 e) \<noteq> p"
      using off [OF q True] by (auto simp: place_def split: if_splits)
    with srv_invD(5) [OF i3 q] show ?thesis
      by (auto simp: entitled_def)
  qed (simp add: entitled_def)
  moreover have "live_ok (s3\<lparr>sessions := (sessions s3)(p := None)\<rparr>) p' t'" if "sessions s3 p' = Some t'" for p' t'
    using srv_invD(4) [OF i3 that] by (simp add: live_ok_def)
  ultimately have "srv_inv {} (s3\<lparr>sessions := (sessions s3)(p := None)\<rparr>)"
    using i3 unfolding srv_inv_def by (simp add: queued_def signals_ok_def tab_inv_def slot_ok_def)
  moreover have "zeros_kept s s3"
    using d1 d2 d3 zeros_kept_trans by (auto simp: zeros_kept_def)
  ultimately show ?thesis
    using ss cb(1,4) d1 d2 d3 by (simp add: s' gone_def zeros_kept_def)
qed

text \<open>What every callback does to the events that are not a session's, and that it leaves every event with
  its base.\<close>

definition follows :: "server \<Rightarrow> server \<Rightarrow> bool" where
  "follows s s' \<longleftrightarrow> heap_next s \<le> heap_next s' \<and> zeros_kept s s' \<and>
     (\<forall>e < heap_next s. \<not> session_cb (ev_callback (evs s e)) \<longrightarrow> \<not> session_cb (ev_callback (evs s' e))) \<and>
     (\<forall>e < heap_next s. e \<noteq> ev_signal \<longrightarrow> ev_base (evs s e) \<longrightarrow> ev_base (evs s' e))"

lemma follows_refl [simp]: "follows s s"
  by (simp add: follows_def)

lemma follows_trans: "follows s s' \<Longrightarrow> follows s' s'' \<Longrightarrow> follows s s''"
  unfolding follows_def by (auto intro: zeros_kept_trans)

lemma follows_gone: "gone p s s' \<Longrightarrow> follows s s'"
  by (simp add: gone_def follows_def)

lemma follows_touches: "touches A s s' \<Longrightarrow> follows s s'"
  using server_parts [of s' s] by (simp add: touches_def follows_def same_face_def)

lemma follows_local:
  assumes inv: "srv_inv X s" "srv_inv Y s'" and t: "sessions s p = Some t" and loc: "local_to p s s'"
  shows "follows s s'"
proof -
  have "session_cb (ev_callback (evs s (p + 1)))" "session_cb (ev_callback (evs s (p + 2)))"
    using srv_invD(4) [OF inv(1) t] by (auto simp: live_ok_def session_cb_def)
  moreover have "\<not> session_cb (ev_callback (evs s' ev_signal))"
    using srv_invD(8) [OF inv(2)] by (simp add: signals_ok_def)
  moreover have "ev_base (evs s' (p + 1))" "ev_base (evs s' (p + 2))"
  proof -
    obtain t' where "sessions s' p = Some t'"
      using loc t unfolding local_to_def by blast
    from srv_invD(4) [OF inv(2) this] show "ev_base (evs s' (p + 1))" "ev_base (evs s' (p + 2))"
      using srv_invD(7) [OF inv(2), of "p + 1"] srv_invD(7) [OF inv(2), of "p + 2"]
      unfolding live_ok_def session_cb_def tame_def by blast+
  qed
  ultimately show ?thesis
    using loc unfolding local_to_def follows_def by (metis order_refl)
qed

text \<open>A callback is run with its event off every queue; the session stops waiting.\<close>

lemma onRead_srv:
  assumes inv: "srv_inv {} s" and off: "\<not> queued s (p + 1)" and run: "onRead K C fd events p s = Inr s'"
  shows "srv_inv {} s' \<and> follows s s'"
proof -
  obtain t where t: "sessions s p = Some t"
    using run by (auto simp: onRead_def split: option.splits)
  let ?t = "t\<lparr>mReading := 0\<rparr>"
  let ?s = "s\<lparr>sessions := (sessions s)(p := Some ?t)\<rparr>"
  have asks: "asks_writes ?t"
    using srv_invD(4) [OF inv t] by (simp add: live_ok_def)
  have 0: "srv_inv {} ?s"
    using asks off by (intro update_session_srv [OF inv t]) simp_all
  show ?thesis
  proof (cases "has events EV_READ")
    case True
    then obtain ret t1 s1 where t1: "Session_readBuffer (env_alloc C) (env_fs C) ?t = Inr (ret, t1)"
      and s1: "run_task_events K p (?s\<lparr>sessions := (sessions ?s)(p := Some t1)\<rparr>) = Inr s1"
      and rest: "(if ret = 0 then close_session K p fd s1 else addEvent K p EV_READ fd s1) = Inr s'"
      using run t by (auto simp: onRead_def Let_def)
    have h: "same_handles ?t t1" "asks_writes t1"
      using Session_readBuffer_handles [OF t1] Session_readBuffer_writes [OF asks t1] by auto
    let ?s1 = "?s\<lparr>sessions := (sessions ?s)(p := Some t1)\<rparr>"
    have "srv_inv {} ?s1"
      using h by (intro update_session_srv [OF 0, where t = ?t]) (simp_all add: same_handles_def)
    from run_task_events_srv [OF this s1] have 1: "srv_inv {} s1" "local_to p s s1"
      using local_trans [OF local_session local_trans [OF local_session]] by blast+
    show ?thesis
    proof (cases "ret = 0")
      case True
      with rest close_session_srv [OF 1(1)] have "srv_inv {} s'" "gone p s1 s'"
        by auto
      then show ?thesis
        using follows_trans [OF follows_local [OF inv 1(1) t 1(2)] follows_gone] by blast
    next
      case False
      with rest addEvent_srv [OF 1(1), of EV_READ] have 2: "srv_inv {} s'" "local_to p s1 s'"
        by auto
      then show ?thesis
        using follows_local [OF inv _ t local_trans [OF 1(2)]] by blast
    qed
  next
    case False
    with run t have "addEvent K p EV_READ fd ?s = Inr s'"
      by (simp add: onRead_def)
    from addEvent_srv [OF 0 _ this] have "srv_inv {} s'" "local_to p s s'"
      using local_trans [OF local_session] by auto
    then show ?thesis
      using follows_local [OF inv _ t] by blast
  qed
qed

lemma onWrite_srv:
  assumes inv: "srv_inv {} s" and off: "\<not> queued s (p + 2)" and run: "onWrite K fd events p s = Inr s'"
  shows "srv_inv {} s' \<and> follows s s'"
proof -
  obtain t where t: "sessions s p = Some t"
    using run by (auto simp: onWrite_def split: option.splits)
  let ?t = "t\<lparr>mWriting := 0\<rparr>"
  let ?s = "s\<lparr>sessions := (sessions s)(p := Some ?t)\<rparr>"
  have asks: "asks_writes ?t"
    using srv_invD(4) [OF inv t] by (simp add: live_ok_def)
  have 0: "srv_inv {} ?s"
    using asks off by (intro update_session_srv [OF inv t]) simp_all
  obtain ret s1 where s1: "(if has events EV_WRITE then
        bnd (Session_writeBuffer ?t) (\<lambda>(ret, t).
        bnd (run_task_events K p (?s\<lparr>sessions := (sessions ?s)(p := Some t)\<rparr>)) (\<lambda>s. Inr (ret, s)))
      else Inr (0, ?s)) = (Inr (ret, s1) :: fault + _)"
    and rest: "(if ret = OWN_SOCK_EXIT then close_session K p fd s1
      else if ret \<noteq> 0 then addEvent K p EV_WRITE fd s1 else Inr s1) = (Inr s' :: fault + _)"
    using run unfolding onWrite_def t option.case Let_def bnd_eq_Inr [of "if _ then _ else _"] split_paired_Ex prod.case
    by (elim exE conjE) (rule that)
  have 1: "srv_inv {} s1 \<and> local_to p s s1"
  proof (cases "has events EV_WRITE")
    case True
    then obtain t1 where t1: "Session_writeBuffer ?t = Inr (ret, t1)"
      "run_task_events K p (?s\<lparr>sessions := (sessions ?s)(p := Some t1)\<rparr>) = Inr s1"
      using s1 by (auto split: if_split_asm)
    have h: "same_handles ?t t1" "asks_writes t1"
      using Session_writeBuffer_handles [OF t1(1)] Session_writeBuffer_writes [OF asks t1(1)] by auto
    have "srv_inv {} (?s\<lparr>sessions := (sessions ?s)(p := Some t1)\<rparr>)"
      using h by (intro update_session_srv [OF 0, where t = ?t]) (simp_all add: same_handles_def)
    from run_task_events_srv [OF this t1(2)] show ?thesis
      using local_trans [OF local_session local_trans [OF local_session]] by blast
  next
    case False
    with s1 have "s1 = ?s" by (simp split: if_split_asm)
    with 0 show ?thesis by simp
  qed
  then have inv1: "srv_inv {} s1" and loc1: "local_to p s s1"
    by blast+
  note f1 = follows_local [OF inv inv1 t loc1]
  show ?thesis
  proof (cases "ret = OWN_SOCK_EXIT")
    case True
    with rest have "close_session K p fd s1 = Inr s'"
      by (simp only: refl if_True)
    from close_session_srv [OF inv1 this] follows_trans [OF f1 follows_gone] show ?thesis
      by blast
  next
    case no_exit: False
    show ?thesis
    proof (cases "ret = 0")
      case True
      with rest no_exit have "s' = s1"
        by simp
      with inv1 f1 show ?thesis by blast
    next
      case False
      with rest no_exit have "addEvent K p EV_WRITE fd s1 = Inr s'"
        by (simp only: if_False if_True not_False_eq_True)
      from addEvent_srv [OF inv1 plain_events(2) this] have "srv_inv {} s'" "local_to p s s'"
        using local_trans [OF loc1] by blast+
      with follows_local [OF inv _ t] show ?thesis by blast
    qed
  qed
qed

lemma queued_cong: "ev_flags (evs s' e) = ev_flags (evs s e) \<Longrightarrow> queued s' e = queued s e"
  by (simp add: queued_def)

lemma onTimer_srv:
  assumes inv: "srv_inv {} s" and off: "\<not> queued s (p + 3)"
    and cb: "ev_callback (evs s (p + 3)) = CB_onTimer" "ev_arg (evs s (p + 3)) = p"
    and run: "onTimer K fd events p s = Inr s'"
  shows "srv_inv {} s' \<and> follows s s'"
proof -
  obtain t where t: "sessions s p = Some t"
    using run by (auto simp: onTimer_def split: option.splits)
  obtain n t1 where t1: "Session_setHeartBeat t = (n, t1)"
    by (cases "Session_setHeartBeat t")
  let ?s = "s\<lparr>sessions := (sessions s)(p := Some t1)\<rparr>"
  obtain s1 r where s1: "run_task_events K p ?s = Inr s1"
    and add: "event_add (epoll_add K) (mTimeEvent t1) (Some \<lparr>tv_sec = 0, tv_usec = TIMEOUT_US\<rparr>) s1 = Inr (r, s')"
    using run t t1 by (auto simp: onTimer_def)
  have l: "live_ok s p t"
    using srv_invD(4) [OF inv t] .
  have h: "same_handles t t1" "asks_writes t1"
    using Session_setHeartBeat_handles [OF t1] Session_setHeartBeat_writes [OF _ t1] l by (auto simp: live_ok_def)
  have "srv_inv {} ?s"
    using h by (intro update_session_srv [OF inv t]) (simp_all add: same_handles_def)
  from run_task_events_srv [OF this s1] have 1: "srv_inv {} s1" "local_to p s s1"
    using local_trans [OF local_session] by blast+
  have time: "mTimeEvent t1 = p + 3" "p + 3 < heap_next s1" "p + 3 \<noteq> ev_signal"
    using h l 1(2) by (auto simp: same_handles_def live_ok_def local_to_def ev_signal_def)
  have same: "evs s1 (p + 3) = evs s (p + 3)"
    using 1(2) time(3) unfolding local_to_def by simp
  have off1: "\<not> queued s1 (p + 3)"
    using off same by (simp add: queued_def)
  have "sessions s1 p \<noteq> None"
    using 1(2) t by (simp add: local_to_def)
  then have "entitled s1 (p + 3)"
    using cb by (auto simp: entitled_def same place_def waits_def CB_onRead_def CB_onWrite_def CB_onTimer_def)
  then have "srv_inv {p + 3} s1"
    by (intro srv_inv_more [OF 1(1)]) blast
  from event_add_srv [OF this add] off1 time have "srv_inv {p + 3} s'" "joined_by (p + 3) s1 s'"
    by (auto simp: queued_def)
  then show ?thesis
    using srv_inv_mono follows_trans [OF follows_local [OF inv 1(1) t 1(2)] follows_touches]
    unfolding joined_by_def by blast
qed

text \<open>A new session takes the first block that has not been handed out.\<close>

lemma fresh_block:
  assumes inv: "srv_inv {} s" and p: "p = heap_next s"
    and s': "s' = s\<lparr>heap_next := p + 4, sessions := (sessions s)(p := Some t), manager := m\<rparr>"
    and t: "mReadEvent t = p + 1" "mWriteEvent t = p + 2" "mTimeEvent t = p + 3" "asks_writes t"
      "mReading t = 0" "mWriting t = 0"
    and s2: "s2 = event_set (p + 2) fd EV_WRITE CB_onWrite p (event_set (p + 1) fd EV_READ CB_onRead p s')"
  shows "srv_inv {} s2 \<and> \<not> queued s2 (p + 3) \<and> p + 3 \<notin> set (signalqueue s2) \<and> follows s s2"
proof -
  have fresh: "\<not> queued s e" "e \<notin> set (signalqueue s)" if "p \<le> e" for e
    using that srv_invD(3) [OF inv, of e] srv_invD(8) [OF inv] by (auto simp: p signals_ok_def)
  have p0: "p mod 4 = 0" "0 < p"
    using srv_invD(1,2) [OF inv] by (auto simp: p)
  have ev: "evs s2 e = evs s e" if "e \<noteq> p + 1" "e \<noteq> p + 2" for e
    using that by (simp add: s2 s' event_set_def upd_ev_def)
  have new: "ev_callback (evs s2 (p + 1)) = CB_onRead" "ev_arg (evs s2 (p + 1)) = p"
    "ev_callback (evs s2 (p + 2)) = CB_onWrite" "ev_arg (evs s2 (p + 2)) = p"
    "tame (evs s2 (p + 1))" "tame (evs s2 (p + 2))" "\<not> queued s2 (p + 1)" "\<not> queued s2 (p + 2)"
    by (simp_all add: s2 s' event_set_def upd_ev_def tame_def queued_def flag_simps has_def EV_READ_def EV_WRITE_def
        EV_SIGNAL_def EV_PERSIST_def)
  have q: "queued s2 e = queued s e" for e
  proof (cases "e = p + 1 \<or> e = p + 2")
    case True
    then have "\<not> queued s2 e" "\<not> queued s e"
      using new(7,8) fresh(1) by auto
    then show ?thesis by simp
  next
    case False
    then show ?thesis using ev [of e] by (simp add: queued_def)
  qed
  have flds: "sessions s2 = (sessions s)(p := Some t)" "heap_next s2 = p + 4" "onces s2 = onces s"
    "signalqueue s2 = signalqueue s" "fds s2 = fds s" "ncalls_vars s2 = ncalls_vars s"
    by (simp_all add: s2 s' event_set_def upd_ev_def)
  have "live_ok s2 p' t'" if t': "sessions s2 p' = Some t'" for p' t'
  proof (cases "p' = p")
    case True
    with t' t new p0 show ?thesis by (simp add: flds live_ok_def)
  next
    case False
    with t' have o: "live_ok s p' t'"
      using srv_invD(4) [OF inv] by (simp add: flds)
    then have "p' + 4 \<le> p"
      by (simp add: live_ok_def p)
    with o show ?thesis
      by (simp add: live_ok_def flds ev p)
  qed
  moreover have "entitled s2 e" if "queued s2 e" for e
  proof -
    have "queued s e" "e < p"
      using that q fresh(1) [of e] by (auto simp: not_le [symmetric])
    from srv_invD(5) [OF inv this(1)] have "entitled s e" .
    moreover have "evs s2 e = evs s e"
      using ev \<open>e < p\<close> by simp
    moreover have "sessions s2 q = sessions s q" if "e = q + i" for q i
      using \<open>e < p\<close> that by (simp add: flds)
    ultimately show ?thesis
      unfolding entitled_def by metis
  qed
  moreover have "tame (evs s2 e)" if "session_cb (ev_callback (evs s2 e))" for e
  proof (cases "e = p + 1 \<or> e = p + 2")
    case True
    then show ?thesis using new(5,6) by blast
  next
    case False
    then show ?thesis using that ev [of e] srv_invD(7) [OF inv, of e] by metis
  qed
  moreover have "signals_ok s2"
  proof -
    have "ev_callback (evs s2 e) = CB_signal \<longrightarrow> ev_arg (evs s2 e) = ev_signal" for e
    proof (cases "e = p + 1 \<or> e = p + 2")
      case True
      then show ?thesis using new(1,3) by (auto simp: CB_onRead_def CB_onWrite_def)
    next
      case False
      then show ?thesis using ev [of e] srv_invD(8) [OF inv] by (simp add: signals_ok_def)
    qed
    moreover have "e < p + 4 \<and> \<not> session_cb (ev_callback (evs s2 e))" if "e \<in> set (signalqueue s)" for e
    proof -
      have "e < p" "\<not> session_cb (ev_callback (evs s e))"
        using that srv_invD(8) [OF inv] by (simp_all add: signals_ok_def p)
      then show ?thesis using ev [of e] by simp
    qed
    moreover have "evs s2 ev_signal = evs s ev_signal"
      using p0 by (intro ev) (simp_all add: ev_signal_def)
    ultimately show ?thesis
      using srv_invD(8) [OF inv] by (simp add: signals_ok_def flds)
  qed
  moreover have "tab_inv {} s2"
  proof -
    have "slot_ok {} s2 i d e" if "slot_ok {} s i d e" for i d e
    proof -
      have "queued s e"
        using that by (simp add: slot_ok_def queued_def)
      then have "e \<noteq> p + 1" "e \<noteq> p + 2"
        using fresh(1) by auto
      with that show ?thesis
        by (simp add: slot_ok_def ev)
    qed
    then show ?thesis
      using srv_invD(9) [OF inv] unfolding tab_inv_def flds by blast
  qed
  moreover have "\<forall>e. p + 4 \<le> e \<longrightarrow> \<not> queued s2 e"
    using q fresh(1) by simp
  ultimately have "srv_inv {} s2"
    using p0 by (simp add: srv_inv_def flds)
  moreover have "follows s s2"
    using ev by (auto simp: follows_def flds p zeros_kept_def)
  ultimately show ?thesis
    using q fresh [of "p + 3"] by (simp add: flds)
qed

end
