(* ===== verification/ServerRun.thy ===== *)
theory ServerRun
  imports ServerInv
begin

text \<open>
  The callbacks \<open>onAccept\<close>, \<open>sigHandler\<close> and those of the event library keep the invariant of
  \<open>ServerInv\<close>, and so does a whole run of the event loop: a callback of a session is only ever
  called while the session exists.
\<close>

section \<open>Accepting a connection\<close>

lemma onAccept_srv:
  assumes inv: "srv_inv {} s" and run: "onAccept K C s = Inr s'"
  shows "srv_inv {} s' \<and> follows s s'"
proof (cases "arrivals s")
  case Nil
  with run inv show ?thesis by (simp add: onAccept_def)
next
  case (Cons a as)
  show ?thesis
  proof (cases "arr_fd a = - 1")
    case True
    with Cons run inv show ?thesis
      by (auto simp: onAccept_def follows_def zeros_kept_def)
  next
    case False
    let ?p = "heap_next s" and ?key = "word_of_int (arr_fd a) :: 16 word"
    define t where "t = Session_new ?key (snd (sm_get ?key (manager s))) (arr_sock a) (arr_memory a) (?p + 1)"
    define s0 where "s0 = s\<lparr>arrivals := as\<rparr>"
    define s1 where "s1 = s0\<lparr>heap_next := ?p + 4, sessions := (sessions s0)(?p := Some t),
      manager := snd (sm_put ?key ?p (manager s))\<rparr>"
    define s2 where "s2 = event_set (?p + 2) (arr_fd a) EV_WRITE CB_onWrite ?p (event_set (?p + 1) (arr_fd a) EV_READ CB_onRead ?p s1)"
    have t: "mReadEvent t = ?p + 1" "mWriteEvent t = ?p + 2" "mTimeEvent t = ?p + 3" "asks_writes t"
      "mReading t = 0" "mWriting t = 0"
      by (simp_all add: t_def Session_new_def asks_writes_def requests_writes_def)
    obtain s3 s5 r s6 where s3: "addEvent K ?p EV_READ (arr_fd a) s2 = Inr s3"
      and s5': "addEvent K ?p EV_TIMEOUT (arr_fd a) (event_set (mTimeEvent t) (- 1) 0 CB_onTimer ?p s3) = Inr s5"
      and s6': "event_add (epoll_add K) (mTimeEvent t) (Some \<lparr>tv_sec = 0, tv_usec = TIMEOUT_US\<rparr>) s5 = Inr (r, s6)"
      and rest: "(if sm_getCount (manager s6) > mMaxConnections C
        then addEvent K ?p EV_WRITE (arr_fd a) (upd_session ?p (\<lambda>t. t\<lparr>mStatus := eExit\<rparr>) s6)
        else Inr s6) = (Inr s' :: fault + _)"
      using run Cons False
      by (simp add: onAccept_def s0_def s1_def s2_def t_def Let_def case_prod_beta Session_new_def cong: if_cong) blast
    note s5 = s5' [unfolded t(3)] and s6 = s6' [unfolded t(3)]
    have i0: "srv_inv {} s0" "follows s s0" "?p = heap_next s0"
      using inv by (simp_all add: s0_def follows_def zeros_kept_def)
    have 2: "srv_inv {} s2" "\<not> queued s2 (?p + 3)" "?p + 3 \<notin> set (signalqueue s2)" "follows s0 s2"
      using fresh_block [OF i0(1,3) s1_def t s2_def] by blast+
    have p2: "sessions s2 ?p = Some t" "heap_next s2 = ?p + 4"
      by (simp_all add: s2_def s1_def)
    have 3: "srv_inv {} s3" "local_to ?p s2 s3"
      using addEvent_srv [OF 2(1) _ s3] by simp_all
    have l2: "live_ok s2 ?p t"
      using srv_invD(4) [OF 2(1) p2(1)] .
    have p3: "?p + 3 \<noteq> ev_signal" "?p mod 4 = 0"
      using l2 by (simp_all add: ev_signal_def live_ok_def)
    have "evs s3 (?p + 3) = evs s2 (?p + 3)"
      using 3(2) p3(1) unfolding local_to_def by simp
    then have off1: "\<not> queued s3 (?p + 3)"
      using 2(2) by (simp add: queued_def)
    have "set (signalqueue s3) \<subseteq> insert (?p + 1) (insert (?p + 2) (insert ev_signal (set (signalqueue s2))))"
      using 3(2) unfolding local_to_def by blast
    moreover have "?p + 3 \<noteq> ?p + 1" "?p + 3 \<noteq> ?p + 2"
      by simp_all
    ultimately have off: "\<not> queued s3 (?p + 3)" "?p + 3 \<notin> set (signalqueue s3)"
      using off1 2(3) p3(1) by blast+
    let ?s4 = "event_set (?p + 3) (- 1) 0 CB_onTimer ?p s3"
    have own: "?p + 3 \<noteq> p' + 1 \<and> ?p + 3 \<noteq> p' + 2" if "sessions s3 p' = Some t'" for p' t'
      using srv_invD(4) [OF 3(1) that] block_owner [OF p3(2), of p' 3 1] block_owner [OF p3(2), of p' 3 2]
      by (auto simp: live_ok_def)
    have 4: "srv_inv {} ?s4"
      by (rule event_set_srv [OF 3(1) off p3(1)]) (use own in \<open>auto simp: CB_onTimer_def has_def\<close>)
    have f4: "follows s ?s4"
    proof -
      have "follows s s3"
        using i0(2) 2(4) follows_local [OF 2(1) 3(1) p2(1) 3(2)] follows_trans by blast
      moreover have "evs ?s4 e = evs s3 e" if "e < heap_next s" for e
        using that by simp
      ultimately show ?thesis
        by (simp add: follows_def zeros_kept_def)
    qed
    have 5: "srv_inv {} s5" "local_to ?p ?s4 s5"
      using addEvent_srv [OF 4 _ s5] by simp_all
    have live: "sessions s3 ?p \<noteq> None" "sessions s5 ?p \<noteq> None"
      using 3(2) 5(2) p2(1) by (auto simp: local_to_def)
    then obtain t4 where t4: "sessions ?s4 ?p = Some t4"
      by auto
    have ev5: "evs s5 (?p + 3) = evs ?s4 (?p + 3)" "heap_next s5 = ?p + 4"
      using 5(2) 3(2) p3(1) p2(2) by (auto simp: local_to_def)
    have "entitled s5 (?p + 3)"
      using live(2) unfolding entitled_def ev5
      by (auto simp: event_set_event place_def waits_def CB_onRead_def CB_onWrite_def CB_onTimer_def)
    then have i5: "srv_inv {?p + 3} s5"
      by (intro srv_inv_more [OF 5(1)]) blast
    have "\<not> flag_bit s5 (?p + 3) 3" "?p + 3 < heap_next s5"
      by (simp_all add: ev5 event_set_event flag_simps)
    from event_add_srv [OF i5 s6 this(2)] this(1) have 6: "srv_inv {} s6" "joined_by (?p + 3) s5 s6"
      using srv_inv_mono by blast+
    have f6: "follows s s6"
      using f4 follows_local [OF 4 5(1) t4 5(2)] 6(2) follows_touches follows_trans
      unfolding joined_by_def by meson
    obtain t6 where t6: "sessions s6 ?p = Some t6"
      using 6(2) live(2) server_parts [of s6 s5] by (auto simp: joined_by_def touches_def)
    let ?s7 = "s6\<lparr>sessions := (sessions s6)(?p := Some (t6\<lparr>mStatus := eExit\<rparr>))\<rparr>"
    have "asks_writes (t6\<lparr>mStatus := eExit\<rparr>)"
      using srv_invD(4) [OF 6(1) t6] by (simp add: live_ok_def asks_writes_def)
    then have 7: "srv_inv {} ?s7"
      by (intro update_session_srv [OF 6(1) t6]) simp_all
    show ?thesis
    proof (cases "sm_getCount (manager s6) > mMaxConnections C")
      case True
      with rest t6 have "addEvent K ?p EV_WRITE (arr_fd a) ?s7 = Inr s'"
        by (simp add: upd_session_def)
      from addEvent_srv [OF 7 _ this] have "srv_inv {} s'" "local_to ?p s6 s'"
        using local_trans [OF local_session] by auto
      with f6 follows_local [OF 6(1) _ t6] follows_trans show ?thesis
        by blast
    next
      case False
      with rest 6 f6 show ?thesis by simp
    qed
  qed
qed

section \<open>The callbacks of the library\<close>

lemma fresh_once:
  assumes inv: "srv_inv {} s" and p: "p = heap_next s"
    and s': "s' = s\<lparr>mIsShutdown := 1, heap_next := p + 4, evs := (evs s)(p := event_zero),
      onces := (onces s)(p \<mapsto> \<lparr>once_cb = CB_loopexit, once_arg = 0\<rparr>)\<rparr>"
    and s2: "s2 = event_set p (- 1) 0 CB_once p s'"
  shows "srv_inv {} s2 \<and> \<not> queued s2 p \<and> follows s s2"
proof -
  have p0: "0 < p" "p mod 4 = 0"
    using srv_invD(1,2) [OF inv] by (simp_all add: p)
  have ev: "evs s2 e = evs s e" if "e \<noteq> p" for e
    using that by (simp add: s2 s' event_set_def upd_ev_def)
  have new: "\<not> session_cb (ev_callback (evs s2 p))" "ev_callback (evs s2 p) \<noteq> CB_signal" "\<not> queued s2 p"
    by (simp_all add: s2 s' event_set_event session_cb_def CB_onRead_def CB_onWrite_def CB_onTimer_def queued_def flag_simps)
  have flds: "sessions s2 = sessions s" "heap_next s2 = p + 4" "signalqueue s2 = signalqueue s" "fds s2 = fds s"
    "ncalls_vars s2 = ncalls_vars s" "onces s2 = (onces s)(p \<mapsto> \<lparr>once_cb = CB_loopexit, once_arg = 0\<rparr>)"
    by (simp_all add: s2 s' event_set_def upd_ev_def)
  have q: "queued s2 e = queued s e" for e
  proof (cases "e = p")
    case True
    with new(3) srv_invD(3) [OF inv, of p] show ?thesis by (auto simp: p)
  next
    case False
    then show ?thesis by (simp add: queued_def ev)
  qed
  have sq: "e < p \<and> \<not> session_cb (ev_callback (evs s e))" if "e \<in> set (signalqueue s)" for e
    using that srv_invD(8) [OF inv] by (simp add: signals_ok_def p)
  have "live_ok s2 p' t" if t: "sessions s p' = Some t" for p' t
  proof -
    have o: "live_ok s p' t"
      using srv_invD(4) [OF inv t] .
    then have "p' + 4 \<le> p"
      by (simp add: live_ok_def p)
    then have "p' + 1 \<noteq> p" "p' + 2 \<noteq> p"
      by simp_all
    with o show ?thesis
      unfolding live_ok_def flds p [symmetric] by (simp add: ev)
  qed
  moreover have "entitled s2 e" if "queued s2 e" for e
  proof -
    have "e \<noteq> p" "entitled s e"
      using that new(3) q srv_invD(5) [OF inv] by blast+
    then show ?thesis
      by (simp add: entitled_def ev flds)
  qed
  moreover have "tame (evs s2 e)" if "session_cb (ev_callback (evs s2 e))" for e
    using that new(1) ev [of e] srv_invD(7) [OF inv, of e] by metis
  moreover have "signals_ok s2"
  proof -
    have "ev_arg (evs s2 e) = ev_signal" if "ev_callback (evs s2 e) = CB_signal" for e
      using that new(2) ev [of e] srv_invD(8) [OF inv] unfolding signals_ok_def by metis
    moreover have "evs s2 ev_signal = evs s ev_signal"
      using p0(1) by (intro ev) (simp add: ev_signal_def)
    moreover have "e < p + 4 \<and> \<not> session_cb (ev_callback (evs s2 e))" if "e \<in> set (signalqueue s)" for e
      using sq [OF that] ev [of e] by simp
    ultimately show ?thesis
      using srv_invD(8) [OF inv] by (simp add: signals_ok_def flds)
  qed
  moreover have "tab_inv {} s2"
  proof -
    have "slot_ok {} s2 i d e" if h: "slot_ok {} s i d e" for i d e
    proof -
      have "queued s e"
        using h by (simp add: slot_ok_def queued_def)
      then have "e \<noteq> p"
        using q new(3) by blast
      with h show ?thesis
        by (simp add: slot_ok_def ev)
    qed
    then show ?thesis
      using srv_invD(9) [OF inv] unfolding tab_inv_def flds by blast
  qed
  moreover have "\<not> queued s2 e" if "p + 4 \<le> e" for e
    using that q srv_invD(3) [OF inv, of e] by (auto simp: p)
  ultimately have "srv_inv {} s2"
    using p0 unfolding srv_inv_def flds q by (simp add: q)
  moreover have "follows s s2"
    using ev by (simp add: follows_def flds p zeros_kept_def)
  ultimately show ?thesis
    using new(3) by blast
qed

lemma station_shutdown_srv:
  assumes inv: "srv_inv {} s" and run: "station_shutdown K s = Inr s'"
  shows "srv_inv {} s' \<and> follows s s'"
proof -
  let ?p = "heap_next s"
  define s1 where "s1 = s\<lparr>mIsShutdown := 1, heap_next := ?p + 4, evs := (evs s)(?p := event_zero),
      onces := (onces s)(?p \<mapsto> \<lparr>once_cb = CB_loopexit, once_arg = 0\<rparr>)\<rparr>"
  define s2 where "s2 = event_set ?p (- 1) 0 CB_once ?p s1"
  have t: "\<not> has (EV_TIMEOUT :: 16 word) EV_SIGNAL"
    by (simp add: has_def EV_TIMEOUT_def EV_SIGNAL_def)
  have "op_add (epollops K) = (epoll_add K :: nat \<Rightarrow> server \<Rightarrow> _)"
    by (simp add: epollops_def)
  then obtain r where add: "event_add (epoll_add K) ?p (Some \<lparr>tv_sec = 0, tv_usec = 10\<rparr>) s2 = Inr (r, s')"
    using run t by (auto simp: station_shutdown_def event_loopexit_def event_once_def Let_def s1_def s2_def)
  note 2 = fresh_once [OF inv refl s1_def s2_def]
  have "heap_next s2 = ?p + 4"
    by (simp add: s2_def s1_def)
  moreover have "\<not> session_cb (ev_callback (evs s2 ?p))"
    by (simp add: s2_def event_set_event session_cb_def CB_onRead_def CB_onWrite_def CB_onTimer_def)
  ultimately have "srv_inv {} s' \<and> joined_by ?p s2 s'"
    using 2 by (intro event_add_srv [OF _ add]) simp_all
  with 2 show ?thesis
    using follows_trans follows_touches unfolding joined_by_def by blast
qed

lemma evsignal_cb_srv:
  assumes inv: "srv_inv {} s" and run: "evsignal_cb K (epoll_add K) fd ev_signal s = Inr s'"
  shows "srv_inv {} s' \<and> follows s s'"
proof -
  let ?s = "s\<lparr>calls := calls s @ [Read_fd fd]\<rparr>"
  obtain r where add: "event_add (epoll_add K) ev_signal None ?s = Inr (r, s')"
    using run by (auto simp: evsignal_cb_def syscall_def split: if_splits)
  have "srv_inv {} s' \<and> joined_by ev_signal ?s s'"
    using inv srv_invD(1,8) [OF inv] by (intro event_add_srv [OF _ add]) (simp_all add: signals_ok_def ev_signal_def)
  then show ?thesis
    using follows_touches [of _ ?s s'] unfolding joined_by_def follows_def zeros_kept_def by auto
qed

text \<open>What a callback may rely on: its event is off every queue, and a session's is in its block.\<close>

lemma run_callback_srv:
  assumes inv: "srv_inv {} s" and c: "c = ev_callback (evs s e)" "a = ev_arg (evs s e)"
    and off: "session_cb c \<Longrightarrow> \<not> queued s e" and own: "session_cb c \<Longrightarrow> e = a + place c"
    and run: "run_callback (server_callbacks K C) c fd events a s = Inr s'"
  shows "srv_inv {} s' \<and> follows s s'"
proof -
  have distinct: "c = CB_onRead \<Longrightarrow> c \<noteq> CB_onAccept" "c = CB_onWrite \<Longrightarrow> c \<noteq> CB_onAccept \<and> c \<noteq> CB_onRead"
    "c = CB_onTimer \<Longrightarrow> c \<noteq> CB_onAccept \<and> c \<noteq> CB_onRead \<and> c \<noteq> CB_onWrite"
    by (simp_all add: CB_onAccept_def CB_onRead_def CB_onWrite_def CB_onTimer_def)
  have once: "srv_inv {} s' \<and> follows s s'" if h: "event_once_cb (server_callbacks K C) fd events a s = Inr s'"
  proof -
    obtain rec where rec: "onces s a = Some rec"
      using h by (auto simp: event_once_cb_def split: option.splits)
    then have "once_cb rec = CB_loopexit"
      using srv_invD(8) [OF inv] by (simp add: signals_ok_def)
    with h rec have s': "s' = s\<lparr>event_gotterm := 1, onces := (onces s)(a := None)\<rparr>"
      by (simp add: event_once_cb_def event_loopexit_cb_def)
    have "signals_ok s'"
      using srv_invD(8) [OF inv] by (simp add: signals_ok_def s')
    then have "srv_inv {} s'"
      using inv unfolding srv_inv_def
      by (simp add: s' queued_def live_ok_def entitled_def tab_inv_def slot_ok_def)
    then show ?thesis
      by (simp add: s' follows_def zeros_kept_def)
  qed
  have place: "place CB_onRead = 1" "place CB_onWrite = 2" "place CB_onTimer = 3"
    by (simp_all add: place_def CB_onRead_def CB_onWrite_def CB_onTimer_def)
  consider "c = CB_once" | "c = CB_loopexit" | "c = CB_onAccept" | "c = CB_onRead" | "c = CB_onWrite"
    | "c = CB_onTimer" | "c = CB_sigHandler" | "c = CB_signal"
    | "c \<noteq> CB_once" "c \<noteq> CB_loopexit" "c \<noteq> CB_onAccept" "c \<noteq> CB_onRead" "c \<noteq> CB_onWrite" "c \<noteq> CB_onTimer"
      "c \<noteq> CB_sigHandler" "c \<noteq> CB_signal"
    by blast
  then show ?thesis
  proof cases
    case 1
    with run once show ?thesis by (simp add: run_callback_def)
  next
    case 2
    with run have "s' = s\<lparr>event_gotterm := 1\<rparr>"
      by (simp add: run_callback_def event_loopexit_cb_def)
    with inv show ?thesis by (simp add: follows_def zeros_kept_def)
  next
    case 3
    with run have "onAccept K C s = Inr s'"
      by (simp add: run_callback_def server_callbacks_def CB_onAccept_def)
    with onAccept_srv [OF inv] show ?thesis by blast
  next
    case 4
    then have "onRead K C fd events a s = Inr s'" "\<not> queued s (a + 1)"
      using run own off place
      by (simp_all add: run_callback_def server_callbacks_def CB_onAccept_def CB_onRead_def session_cb_def)
    with onRead_srv [OF inv] show ?thesis by blast
  next
    case 5
    then have "onWrite K fd events a s = Inr s'" "\<not> queued s (a + 2)"
      using run own off place
      by (simp_all add: run_callback_def server_callbacks_def CB_onAccept_def CB_onRead_def CB_onWrite_def session_cb_def)
    with onWrite_srv [OF inv] show ?thesis by blast
  next
    case 6
    then have "e = a + 3"
      using own place by (simp add: session_cb_def)
    moreover have "onTimer K fd events a s = Inr s'"
      using run 6 by (simp add: run_callback_def server_callbacks_def CB_onAccept_def CB_onRead_def CB_onWrite_def CB_onTimer_def)
    moreover have "\<not> queued s e" "ev_callback (evs s e) = CB_onTimer" "ev_arg (evs s e) = a"
      using off c 6 by (simp_all add: session_cb_def)
    ultimately show ?thesis
      using onTimer_srv [OF inv, of a] by simp
  next
    case 7
    with run have "station_shutdown K s = Inr s'"
      by (simp add: run_callback_def server_callbacks_def CB_onAccept_def CB_onRead_def CB_onWrite_def
        CB_onTimer_def CB_sigHandler_def)
    with station_shutdown_srv [OF inv] show ?thesis by blast
  next
    case 8
    have "a = ev_signal"
      using c srv_invD(8) [OF inv] 8 unfolding signals_ok_def by metis
    with run 8 have "evsignal_cb K (epoll_add K) fd ev_signal s = Inr s'"
      by (simp add: run_callback_def server_callbacks_def CB_onAccept_def CB_onRead_def CB_onWrite_def
        CB_onTimer_def CB_sigHandler_def)
    with evsignal_cb_srv [OF inv] show ?thesis by blast
  next
    case 9
    with run inv show ?thesis
      by (simp add: run_callback_def server_callbacks_def)
  qed
qed

section \<open>The loops\<close>

text \<open>Writing the counters of the callback loop into an event.\<close>

lemma srv_inv_upd:
  assumes inv: "srv_inv X s" and f: "\<And>E. same_face E (f E) \<and> ev_flags (f E) = ev_flags E"
    and n: "session_cb (ev_callback (evs s ev)) \<Longrightarrow> flag_bit s ev 3 \<Longrightarrow> ev_ncalls (f (evs s ev)) = 1"
  shows "srv_inv X (upd_ev ev f s)"
proof -
  define s2 where "s2 = upd_ev ev f s"
  have face: "ev_callback (evs s2 e) = ev_callback (evs s e)" "ev_arg (evs s2 e) = ev_arg (evs s e)"
    "ev_flags (evs s2 e) = ev_flags (evs s e)" "ev_events (evs s2 e) = ev_events (evs s e)"
    "ev_base (evs s2 e) = ev_base (evs s e)" "ev_fd (evs s2 e) = ev_fd (evs s e)" for e
    using f by (auto simp: s2_def upd_ev_def same_face_def)
  have "tame (evs s2 e)" if c: "session_cb (ev_callback (evs s e))" for e
  proof -
    have "flag_bit s e 3 \<Longrightarrow> ev_ncalls (evs s2 e) = 1"
      using n c srv_invD(7) [OF inv c] by (cases "e = ev") (auto simp: s2_def tame_def)
    with srv_invD(7) [OF inv c] show ?thesis
      unfolding tame_def face by blast
  qed
  moreover have "sessions s2 = sessions s" "heap_next s2 = heap_next s" "onces s2 = onces s"
    "signalqueue s2 = signalqueue s" "fds s2 = fds s"
    by (simp_all add: s2_def upd_ev_def)
  ultimately have "srv_inv X s2"
    using inv unfolding srv_inv_def
    by (simp add: queued_def live_ok_def entitled_def signals_ok_def tab_inv_def slot_ok_def face)
  then show ?thesis
    by (simp add: s2_def)
qed

lemma follows_upd: "(\<And>E. same_face E (f E)) \<Longrightarrow> follows s (upd_ev ev f s)"
  by (simp add: follows_def zeros_kept_def upd_ev_def same_face_def)

lemma queue_remove_srv:
  assumes inv: "srv_inv X s" and run: "event_queue_remove ev q s = Inr s'" and q: "\<not> bit q 1"
  shows "srv_inv X s' \<and> touches {} s s'"
proof -
  note r = queue_remove_touches [OF run]
  have "flag_bit s' e 1 = flag_bit s e 1" for e
    using r(2) q by (auto simp: flag_simps)
  then have "tab_inv {} s'"
    using tab_inv_kept [OF srv_invD(9) [OF inv] r(3) r(1)] by blast
  with srv_inv_shrinks [OF inv r(1)] r(1) show ?thesis by blast
qed

lemma touches_server: "touches A s s' \<Longrightarrow> sessions s' = sessions s \<and> heap_next s' = heap_next s"
  using server_parts [of s' s] by (simp add: touches_def)

lemma timeout_loop_srv:
  "srv_inv {} s \<Longrightarrow> timeout_loop (epollops K) n now e s = Inr s' \<Longrightarrow> srv_inv {} s' \<and> follows s s'"
proof (induction n arbitrary: e s)
  case 0
  then show ?case by (cases e) simp_all
next
  case (Suc n)
  show ?case
  proof (cases e)
    case None
    with Suc.prems show ?thesis by simp
  next
    case e: (Some ev)
    show ?thesis
    proof (cases "timercmp_greater (ev_timeout (evs s ev)) now")
      case True
      with Suc.prems e show ?thesis by simp
    next
      case False
      then obtain s1 r s2 s3 where s1: "event_queue_remove ev EVLIST_TIMEOUT s = Inr s1"
        and s2: "event_del (epoll_del K) ev s1 = Inr (r, s2)" and s3: "event_active ev EV_TIMEOUT 1 s2 = Inr s3"
        and rest: "timeout_loop (epollops K) n now (rb_next (timetree s) ev) s3 = Inr s'"
        using Suc.prems(2) e by (auto simp: epollops_def Let_def)
      have q: "queued s ev"
        using queue_remove_touches(4) [OF s1] by (simp add: queued_def has_EVLIST)
      then have x: "srv_inv {ev} s"
        using srv_invD(5) [OF Suc.prems(1)] by (intro srv_inv_more [OF Suc.prems(1)]) blast
      have 1: "srv_inv {ev} s1" "touches {} s s1"
        using queue_remove_srv [OF x s1] by (simp_all add: EVLIST_TIMEOUT_def)
      have 2: "srv_inv {ev} s2" "touches {} s1 s2" "session_cb (ev_callback (evs s1 ev)) \<longrightarrow> \<not> queued s2 ev"
        using event_del_srv [OF 1(1) s2] by blast+
      have "ev < heap_next s2"
        using srv_invD(3) [OF Suc.prems(1) q] touches_server [OF 1(2)] touches_server [OF 2(2)] by simp
      moreover have "session_cb (ev_callback (evs s2 ev)) \<Longrightarrow> \<not> queued s2 ev"
        using 2(2,3) by (simp add: touches_def same_face_def)
      ultimately have t: "srv_inv {ev} s3 \<and> touches {ev} s2 s3"
        by (intro event_active_srv [OF 2(1) s3]) (auto simp: queued_def)
      then have "srv_inv {} s3"
        using srv_inv_mono by blast
      from Suc.IH [OF this rest] show ?thesis
        using follows_touches [OF 1(2)] follows_touches [OF 2(2)] follows_touches t follows_trans by meson
    qed
  qed
qed

lemma timeout_process_srv:
  "srv_inv {} s \<Longrightarrow> timeout_process (epollops K) s = Inr s' \<Longrightarrow> srv_inv {} s' \<and> follows s s'"
  using timeout_loop_srv [of "s\<lparr>ticks := Suc (ticks s)\<rparr>"]
  by (auto simp: timeout_process_def gettimeofday_def follows_def zeros_kept_def)

text \<open>The events on the signal queue are no session's.\<close>

lemma process_caught_srv:
  "srv_inv {} s \<Longrightarrow> (\<And>e. e \<in> set q \<Longrightarrow> e < heap_next s \<and> \<not> session_cb (ev_callback (evs s e))) \<Longrightarrow>
    process_caught (epoll_del K) q s = Inr s' \<Longrightarrow> srv_inv {} s' \<and> follows s s'"
proof (induction q arbitrary: s)
  case (Cons ev q)
  let ?n = "evsigcaught s (EVENT_SIGNAL (evs s ev))"
  obtain s1 where s1: "(if ?n \<noteq> 0 then
        bnd (if \<not> has (ev_events (evs s ev)) EV_PERSIST then event_del (epoll_del K) ev s else Inr (0, s))
          (\<lambda>(r, s). event_active ev EV_SIGNAL (ucast ?n) s)
      else Inr s) = (Inr s1 :: fault + _)" and rest: "process_caught (epoll_del K) q s1 = Inr s'"
    using Cons.prems(3) by (auto simp: Let_def split: if_split_asm)
  have ev: "ev < heap_next s" "\<not> session_cb (ev_callback (evs s ev))"
    using Cons.prems(2) by simp_all
  have 1: "srv_inv {} s1 \<and> touches {ev} s s1"
  proof (cases "?n \<noteq> 0")
    case True
    then obtain r t where t: "(if \<not> has (ev_events (evs s ev)) EV_PERSIST then event_del (epoll_del K) ev s else Inr (0, s)) =
        (Inr (r, t) :: fault + _)" and a: "event_active ev EV_SIGNAL (ucast ?n) t = Inr s1"
      using s1 by auto
    have 2: "srv_inv {} t \<and> touches {} s t"
      using t event_del_srv [OF Cons.prems(1), of K ev r t] Cons.prems(1) by (auto split: if_split_asm)
    then have "ev < heap_next t" "\<not> session_cb (ev_callback (evs t ev))"
      using ev touches_server [of "{}" s t] by (simp_all add: touches_def same_face_def)
    then have "srv_inv {} s1 \<and> touches {ev} t s1"
      using 2 by (intro event_active_srv [OF _ a]) simp_all
    with 2 show ?thesis
      using touches_trans [of "{}" s t "{ev}" s1] by simp
  next
    case False
    with s1 Cons.prems(1) show ?thesis by simp
  qed
  have "e < heap_next s1 \<and> \<not> session_cb (ev_callback (evs s1 e))" if "e \<in> set q" for e
    using Cons.prems(2) [of e] that 1 touches_server [of "{ev}" s s1] by (simp add: touches_def same_face_def)
  from Cons.IH [OF _ this rest] 1 show ?case
    using follows_trans follows_touches by blast
qed simp

lemma evsignal_process_srv:
  assumes inv: "srv_inv {} s" and run: "evsignal_process (epoll_del K) s = Inr s'"
  shows "srv_inv {} s' \<and> follows s s'"
proof -
  obtain s1 where s1: "process_caught (epoll_del K) (signalqueue s) s = Inr s1"
    and s': "s' = s1\<lparr>evsigcaught := \<lambda>_. 0, evsignal_caught := False\<rparr>"
    using run by (auto simp: evsignal_process_def)
  have "e < heap_next s \<and> \<not> session_cb (ev_callback (evs s e))" if "e \<in> set (signalqueue s)" for e
    using that srv_invD(8) [OF inv] by (simp add: signals_ok_def)
  from process_caught_srv [OF inv this s1] show ?thesis
    by (simp add: s' follows_def zeros_kept_def)
qed

text \<open>One event the kernel reports. The table has led from it to an event on the event queue.\<close>

lemma deleted_if_session:
  assumes inv: "srv_inv X s" and run: "(if \<not> has (ev_events (evs s e)) EV_PERSIST then event_del (epoll_del K) e s
      else Inr (0, s)) = (Inr (r, s') :: fault + _)"
  shows "srv_inv X s' \<and> touches {} s s' \<and> (session_cb (ev_callback (evs s e)) \<longrightarrow> \<not> queued s' e)"
proof (cases "has (ev_events (evs s e)) EV_PERSIST")
  case True
  then have "\<not> session_cb (ev_callback (evs s e))"
    using srv_invD(7) [OF inv] by (auto simp: tame_def)
  with True run inv show ?thesis by simp
next
  case False
  with run event_del_srv [OF inv] show ?thesis by simp
qed

lemma queued_touches: "touches {} s s' \<Longrightarrow> queued s' e \<Longrightarrow> queued s e"
  by (auto simp: touches_def shrunk_def queued_def)

lemma dispatch_one_srv:
  assumes inv: "srv_inv {} s" and run: "dispatch_one K pw s = Inr s'"
  shows "srv_inv {} s' \<and> follows s s'"
proof -
  obtain blk i what where pw: "pw = ((blk, i), what)"
    by (metis prod.exhaust)
  define w where "w = (if has what EPOLLHUP then or what (or EPOLLIN EPOLLOUT)
                  else if has what EPOLLERR then or what (or EPOLLIN EPOLLOUT) else what)"
  show ?thesis
  proof (cases "\<not> (has w EPOLLIN \<or> has w EPOLLOUT)")
    case True
    then have "s' = s"
      using run unfolding dispatch_one_def pw prod.case Let_def w_def [symmetric] by simp
    with inv show ?thesis by simp
  next
    case False
    define er where "er = (if has w EPOLLIN then evread (fds s ! i) else None)"
    define ew where "ew = (if has w EPOLLOUT then evwrite (fds s ! i) else None)"
    have i: "i < length (fds s)"
      using run False unfolding dispatch_one_def pw prod.case Let_def w_def [symmetric]
      by (auto split: if_split_asm)
    obtain r1 s1 r2 s2 s3 where
        s1: "(case er of None \<Rightarrow> Inr (0, s) | Some e \<Rightarrow> if \<not> has (ev_events (evs s e)) EV_PERSIST
          then event_del (epoll_del K) e s else Inr (0, s)) = (Inr (r1, s1) :: fault + _)"
      and s2: "(case ew of None \<Rightarrow> Inr (0, s1) | Some e \<Rightarrow> if ew \<noteq> er \<and> \<not> has (ev_events (evs s1 e)) EV_PERSIST
          then event_del (epoll_del K) e s1 else Inr (0, s1)) = (Inr (r2, s2) :: fault + _)"
      and s3: "(case er of None \<Rightarrow> Inr s2 | Some e \<Rightarrow> event_active e EV_READ 1 s2) = (Inr s3 :: fault + _)"
      and s': "(case ew of None \<Rightarrow> Inr s3 | Some e \<Rightarrow> event_active e EV_WRITE 1 s3) = (Inr s' :: fault + _)"
      using run False unfolding dispatch_one_def pw prod.case Let_def w_def [symmetric] er_def [symmetric] ew_def [symmetric]
        if_False if_not_P [OF False]
      by (auto split: if_split_asm)
    let ?X = "set_option er \<union> set_option ew"
    have q: "queued s e" if "e \<in> ?X" for e
    proof -
      have "evread (fds s ! i) = Some e \<or> evwrite (fds s ! i) = Some e"
        using that by (auto simp: er_def ew_def split: if_splits)
      then have "flag_bit s e 1"
        using srv_invD(9) [OF inv] i by (auto simp: tab_inv_def slot_ok_def)
      then show ?thesis by (simp add: queued_def)
    qed
    have x: "srv_inv ?X s"
      using q srv_invD(5) [OF inv] by (intro srv_inv_more [OF inv]) blast
    have 1: "srv_inv ?X s1 \<and> touches {} s s1 \<and> (\<forall>e. er = Some e \<longrightarrow> session_cb (ev_callback (evs s e)) \<longrightarrow> \<not> queued s1 e)"
      using s1 x deleted_if_session [OF x] by (cases er) auto
    have face: "touches {} t t' \<Longrightarrow> session_cb (ev_callback (evs t' e)) = session_cb (ev_callback (evs t e))" for t t' :: server and e
      by (simp add: touches_def same_face_def)
    have 2: "srv_inv ?X s2 \<and> touches {} s1 s2 \<and>
        (\<forall>e. ew = Some e \<longrightarrow> session_cb (ev_callback (evs s e)) \<longrightarrow> \<not> queued s2 e)"
    proof (cases ew)
      case (Some e)
      show ?thesis
      proof (cases "ew = er")
        case True
        with s2 Some 1 show ?thesis by simp
      next
        case False
        with s2 Some have "(if \<not> has (ev_events (evs s1 e)) EV_PERSIST then event_del (epoll_del K) e s1
            else Inr (0, s1)) = (Inr (r2, s2) :: fault + _)"
          by simp
        from deleted_if_session [OF conjunct1 [OF 1] this] 1 face [of s s1] Some show ?thesis
          by simp
      qed
    qed (use s2 1 in simp)
    have t2: "touches {} s s2"
      using 1 2 touches_trans_same by blast
    have off: "\<not> queued s2 e" if "e \<in> ?X" "session_cb (ev_callback (evs s e))" for e
      using that 1 2 queued_touches [of s1 s2 e] by (auto dest: elem_set [THEN iffD1])
    have bound: "e < heap_next s" if "e \<in> ?X" for e
      using srv_invD(3) [OF inv q [OF that]] .
    have 3: "srv_inv ?X s3 \<and> touches ?X s2 s3 \<and> (\<forall>e k. k \<noteq> 3 \<longrightarrow> flag_bit s3 e k = flag_bit s2 e k)"
    proof (cases er)
      case (Some e)
      then have a: "event_active e EV_READ 1 s2 = Inr s3" and e: "e \<in> ?X"
        using s3 by simp_all
      have "srv_inv ?X s3 \<and> touches {e} s2 s3"
        using 2 bound [OF e] touches_server [OF t2] e off [OF e] face [OF t2, of e]
        by (intro event_active_srv [OF _ a]) (auto simp: queued_def)
      moreover have "\<forall>e k. k \<noteq> 3 \<longrightarrow> flag_bit s3 e k = flag_bit s2 e k"
        using event_active_touches [OF a] by metis
      ultimately show ?thesis
        using touches_mono [of "{e}" s2 s3 ?X] e by blast
    qed (use s3 2 in simp)
    have 4: "srv_inv ?X s' \<and> touches ?X s3 s'"
    proof (cases ew)
      case (Some e)
      then have a: "event_active e EV_WRITE 1 s3 = Inr s'" and e: "e \<in> ?X"
        using s' by simp_all
      have "e < heap_next s3"
        using bound [OF e] touches_server [OF t2] 3 touches_server [of ?X s2 s3] by simp
      moreover have "session_cb (ev_callback (evs s3 e)) \<Longrightarrow> \<not> flag_bit s3 e 0 \<and> \<not> flag_bit s3 e 1"
        using off [OF e] face [OF t2, of e] 3 by (simp add: touches_def same_face_def queued_def)
      ultimately have "srv_inv ?X s' \<and> touches {e} s3 s'"
        using 3 e by (intro event_active_srv [OF _ a]) auto
      then show ?thesis
        using touches_mono [of "{e}" s3 s' ?X] e by blast
    qed (use s' 3 in simp)
    show ?thesis
      using 4 3 t2 srv_inv_mono follows_trans follows_touches by (meson empty_subsetI)
  qed
qed

lemma dispatch_loop_srv:
  "srv_inv {} s \<Longrightarrow> dispatch_loop K pws s = Inr s' \<Longrightarrow> srv_inv {} s' \<and> follows s s'"
proof (induction pws arbitrary: s)
  case (Cons pw pws)
  then obtain s1 where "dispatch_one K pw s = Inr s1" "dispatch_loop K pws s1 = Inr s'"
    by auto
  with Cons.IH dispatch_one_srv [OF Cons.prems(1)] show ?case
    using follows_trans by blast
qed simp

section \<open>The back end and the loop\<close>

lemma signal_added_srv:
  assumes inv: "srv_inv {} s" and t: "signal_added s s'"
  shows "srv_inv {} s' \<and> follows s s'"
proof -
  have "touches {ev_signal} s s'" "tab_inv {} s'"
    using t srv_invD(9) [OF inv] by (simp_all add: signal_added_def)
  moreover have "\<not> session_cb (ev_callback (evs s ev_signal))" "ev_signal < heap_next s"
    using srv_invD(1,8) [OF inv] by (simp_all add: signals_ok_def ev_signal_def)
  ultimately show ?thesis
    using srv_inv_touches [OF inv, of "{ev_signal}" s'] follows_touches by auto
qed

lemma deliver_signals_srv:
  "srv_inv {} s \<Longrightarrow> deliver_signals K sigs s = Inr s' \<Longrightarrow> srv_inv {} s' \<and> follows s s'"
proof (induction sigs arbitrary: s)
  case (Cons sig sigs)
  then obtain s1 where s1: "evsignal_handler K sig s = Inr s1" "deliver_signals K sigs s1 = Inr s'"
    by auto
  have "srv_inv {} s1 \<and> follows s s1"
    using s1(1) Cons.prems(1)
    by (auto simp: evsignal_handler_def syscall_def Let_def follows_def zeros_kept_def split: if_split_asm)
  with Cons.IH s1(2) show ?case
    using follows_trans by blast
qed simp

lemma epoll_dispatch_srv:
  assumes inv: "srv_inv {} s" and run: "epoll_dispatch K tv s = Inr (r, s')"
  shows "srv_inv {} s' \<and> follows s s'"
proof -
  obtain r0 s0 where s0: "evsignal_deliver K s = (r0, s0)"
    by (cases "evsignal_deliver K s")
  have 0: "srv_inv {} s0 \<and> follows s s0"
    using s0 inv
    by (auto simp: evsignal_deliver_def syscall_def follows_def zeros_kept_def split: if_split_asm)
  show ?thesis
  proof (cases "r0 = - 1")
    case True
    with run s0 0 show ?thesis by (simp add: epoll_dispatch_def)
  next
    case False
    define s1 where "s1 = s0\<lparr>calls := calls s0 @ [Epoll_wait (nevents s0) (wait_ms tv)]\<rparr>"
    define fail where "fail = sys_fails K (calls s0) (Epoll_wait (nevents s0) (wait_ms tv))"
    have 1: "srv_inv {} s1 \<and> follows s s1"
      using 0 by (simp add: s1_def follows_def zeros_kept_def)
    obtain s2 r3 s3 where s2: "deliver_signals K (sys_signals K (calls s0)) s1 = Inr s2"
      and s3: "evsignal_recalc K (epoll_add K) s2 = Inr (r3, s3)"
      and rest: "(if r3 = - 1 then Inr (- 1, s3)
           else if fail then
             (if \<not> sys_eintr K (calls s0) then Inr (- 1, s3)
              else bnd (evsignal_process (epoll_del K) s3) (\<lambda>s. Inr (0, s)))
           else
             bnd (if evsignal_caught s3 then evsignal_process (epoll_del K) s3 else Inr s3) (\<lambda>s.
             bnd (dispatch_loop K (sys_ready K (calls s0)) s) (\<lambda>s. Inr (0, s)))) = (Inr (r, s') :: fault + _)"
      using run False
      unfolding epoll_dispatch_def s0 prod.case Let_def syscall_def if_not_P [OF False] s1_def [symmetric] fail_def [symmetric]
        bnd_eq_Inr [of "deliver_signals _ _ _"] bnd_eq_Inr [of "evsignal_recalc _ _ _"] split_paired_Ex
      by (elim exE conjE) (rule that)
    have 3: "srv_inv {} s3 \<and> follows s s3"
      using 1 deliver_signals_srv [OF _ s2] signal_added_srv [OF _ evsignal_recalc_frame [OF epoll_add_frame s3]]
        follows_trans by blast
    consider "s' = s3" | "evsignal_process (epoll_del K) s3 = Inr s'"
      | s4 where "s4 = s3 \<or> evsignal_process (epoll_del K) s3 = Inr s4" "dispatch_loop K (sys_ready K (calls s0)) s4 = Inr s'"
      using rest by (auto split: if_split_asm)
    then show ?thesis
      using 3 evsignal_process_srv [of s3 K] dispatch_loop_srv follows_trans by cases blast+
  qed
qed

lemma epoll_recalc_srv: "srv_inv {} s \<Longrightarrow> epoll_recalc K k s = Inr (r, s') \<Longrightarrow> srv_inv {} s' \<and> follows s s'"
  unfolding epoll_recalc_def using signal_added_srv epoll_recalc_with_frame [OF epoll_add_frame] by blast

lemma timeout_correct_srv:
  assumes inv: "srv_inv {} s" and run: "timeout_correct d s = Inr s'"
  shows "srv_inv {} s' \<and> follows s s'"
proof -
  obtain es where s': "s' = fold (\<lambda>ev. upd_ev ev (\<lambda>e. e\<lparr>ev_timeout := timersub (ev_timeout e) d\<rparr>)) es s"
    using run by (auto simp: timeout_correct_def)
  show ?thesis
    unfolding s' using inv
  proof (induction es arbitrary: s)
    case (Cons ev es)
    let ?f = "\<lambda>e. e\<lparr>ev_timeout := timersub (ev_timeout e) d\<rparr>"
    have f: "same_face E (?f E) \<and> ev_flags (?f E) = ev_flags E" for E
      by (simp add: same_face_def)
    have "srv_inv {} (upd_ev ev ?f s)"
      using srv_invD(7) [OF Cons.prems] by (intro srv_inv_upd [OF Cons.prems f]) (simp add: tame_def)
    from Cons.IH [OF this] follows_trans [OF follows_upd [of ?f s ev]] f show ?case
      unfolding fold_simps comp_apply by blast
  qed simp
qed

lemma timeout_next_srv: "srv_inv {} s \<Longrightarrow> timeout_next s = Inr (tv, s') \<Longrightarrow> srv_inv {} s' \<and> follows s s'"
  by (auto simp: timeout_next_def gettimeofday_def Let_def follows_def zeros_kept_def split: option.splits if_split_asm)

lemma sig_loop_srv:
  "srv_inv {} s \<Longrightarrow> sig_loop None n s = Inr (b, s') \<Longrightarrow> srv_inv {} s' \<and> follows s s'"
proof (induction n arbitrary: s)
  case (Suc n)
  show ?case
  proof (cases "event_gotsig s")
    case True
    with Suc.prems have "srv_inv {} (s\<lparr>event_gotsig := False\<rparr>)" "sig_loop None n (s\<lparr>event_gotsig := False\<rparr>) = Inr (b, s')"
      by simp_all
    with Suc.IH [OF this] show ?thesis
      by (simp add: follows_def zeros_kept_def)
  qed (use Suc.prems in simp)
qed simp

section \<open>Callbacks on deleted sessions\<close>

text \<open>
  \<open>server_callbacks\<close> with the undefined behaviour made explicit: a callback of a session that has
  been deleted does \<open>F\<close>.
\<close>

definition callbacks_if_deleted :: "server callbacks \<Rightarrow> kernel \<Rightarrow> env \<Rightarrow> server callbacks" where
  "callbacks_if_deleted F K C c fd events arg s =
     (if session_cb c \<and> sessions s arg = None then F c fd events arg s
      else server_callbacks K C c fd events arg s)"

definition keeps_bases :: "server \<Rightarrow> server \<Rightarrow> bool" where
  "keeps_bases s s' \<longleftrightarrow> heap_next s \<le> heap_next s' \<and>
     (\<forall>e < heap_next s. e \<noteq> ev_signal \<longrightarrow> ev_base (evs s e) \<longrightarrow> ev_base (evs s' e))"

lemma keeps_bases_refl [simp]: "keeps_bases s s"
  by (simp add: keeps_bases_def)

lemma keeps_bases_trans: "keeps_bases s s' \<Longrightarrow> keeps_bases s' s'' \<Longrightarrow> keeps_bases s s''"
  by (simp add: keeps_bases_def)

lemma follows_keeps: "follows s s' \<Longrightarrow> keeps_bases s s'"
  by (simp add: follows_def keeps_bases_def)

text \<open>What runs with either set of callbacks is the same, and ends in a good state.\<close>

definition settled_by :: "('r \<Rightarrow> server) \<Rightarrow> server \<Rightarrow> 'r outcome \<Rightarrow> 'r outcome \<Rightarrow> bool" where
  "settled_by g s r r' \<longleftrightarrow> r = r' \<and> (\<forall>x. r' = Inr x \<longrightarrow> srv_inv {} (g x) \<and> keeps_bases s (g x))"

abbreviation settled :: "server \<Rightarrow> server outcome \<Rightarrow> server outcome \<Rightarrow> bool" where
  "settled \<equiv> settled_by (\<lambda>s. s)"

lemma settled_fault [simp]: "settled_by g s (Inl e) (Inl e)"
  by (simp add: settled_by_def)

lemma settled_done [simp]: "settled_by g s (Inr x) (Inr x) \<longleftrightarrow> srv_inv {} (g x) \<and> keeps_bases s (g x)"
  by (auto simp: settled_by_def)

lemma settled_after: "settled_by g s1 r r' \<Longrightarrow> keeps_bases s s1 \<Longrightarrow> settled_by g s r r'"
  using keeps_bases_trans by (auto simp: settled_by_def)

lemma settled_bnd:
  "settled_by g s r r' \<Longrightarrow> (\<And>x. srv_inv {} (g x) \<Longrightarrow> keeps_bases s (g x) \<Longrightarrow> settled_by h s (f x) (f' x)) \<Longrightarrow>
    settled_by h s (bnd r f) (bnd r' f')"
  by (cases r') (auto simp: settled_by_def)

text \<open>A step that does not depend on the callbacks.\<close>

lemma settled_step:
  assumes "\<And>x. r = Inr x \<Longrightarrow> srv_inv {} (g x) \<and> follows t (g x)" "keeps_bases s t"
    "\<And>x. srv_inv {} (g x) \<Longrightarrow> keeps_bases s (g x) \<Longrightarrow> settled_by h s (f x) (f' x)"
  shows "settled_by h s (bnd r f) (bnd r f')"
proof (rule settled_bnd [where g = g])
  show "settled_by g s r r"
    using assms(1,2) follows_keeps keeps_bases_trans unfolding settled_by_def by blast
qed (use assms(3) in blast)

lemma keeps_bases_fields [simp]:
  "keeps_bases s (s'\<lparr>ticks := k\<rparr>) = keeps_bases s s'" "keeps_bases s (s'\<lparr>event_tv := t\<rparr>) = keeps_bases s s'"
  "keeps_bases s (s'\<lparr>event_gotterm := g\<rparr>) = keeps_bases s s'" "keeps_bases s (s'\<lparr>ncalls_vars := V\<rparr>) = keeps_bases s s'"
  by (simp_all add: keeps_bases_def)

lemma run_callback_same:
  assumes inv: "srv_inv {} s" and live: "session_cb c \<Longrightarrow> sessions s a \<noteq> None"
  shows "run_callback (callbacks_if_deleted F K C) c fd events a s = run_callback (server_callbacks K C) c fd events a s"
proof -
  have "event_once_cb (callbacks_if_deleted F K C) fd events a s = event_once_cb (server_callbacks K C) fd events a s"
  proof (cases "onces s a")
    case (Some rec)
    then have "once_cb rec = CB_loopexit"
      using srv_invD(8) [OF inv] by (simp add: signals_ok_def)
    with Some show ?thesis by (simp add: event_once_cb_def)
  qed (simp add: event_once_cb_def)
  with live show ?thesis
    by (auto simp: run_callback_def callbacks_if_deleted_def)
qed

text \<open>The loop over the calls of one event; a session's event is due for one call.\<close>

lemma call_loop_srv:
  "srv_inv {} s \<Longrightarrow> ev < heap_next s \<Longrightarrow>
    (session_cb (ev_callback (evs s ev)) \<Longrightarrow>
      ncalls_vars s v = Some 0 \<or> ncalls_vars s v = Some 1 \<and> \<not> queued s ev \<and> entitled s ev) \<Longrightarrow>
    settled s (call_loop (callbacks_if_deleted F K C) n ev v s) (call_loop (server_callbacks K C) n ev v s)"
proof (induction n arbitrary: s)
  case (Suc n)
  show ?case
  proof (cases "ncalls_vars s v")
    case (Some k)
    show ?thesis
    proof (cases "k = 0")
      case False
      let ?f = "\<lambda>e. e\<lparr>ev_ncalls := k - 1\<rparr>"
      define s1 where "s1 = upd_ev ev ?f (s\<lparr>ncalls_vars := (ncalls_vars s)(v \<mapsto> k - 1)\<rparr>)"
      have face: "ev_callback (evs s1 e) = ev_callback (evs s e)" "ev_arg (evs s1 e) = ev_arg (evs s e)"
        "ev_flags (evs s1 e) = ev_flags (evs s e)" "sessions s1 = sessions s" "heap_next s1 = heap_next s" for e
        by (simp_all add: s1_def upd_ev_def)
      have one: "k = 1" "\<not> queued s ev" "entitled s ev" if "session_cb (ev_callback (evs s ev))"
        using Suc.prems(3) [OF that] Some False by auto
      have 1: "srv_inv {} s1"
        unfolding s1_def
      proof (rule srv_inv_upd)
        show "srv_inv {} (s\<lparr>ncalls_vars := (ncalls_vars s)(v \<mapsto> k - 1)\<rparr>)"
          using Suc.prems(1) by simp
        show "same_face E (?f E) \<and> ev_flags (?f E) = ev_flags E" for E
          by (simp add: same_face_def)
      qed (use one(2) in \<open>simp add: queued_def\<close>)
      have f1: "follows s s1"
        using Some False by (simp add: s1_def follows_def zeros_kept_def upd_ev_def)
      have ent: "session_cb (ev_callback (evs s ev)) \<Longrightarrow>
          \<exists>t. sessions s (ev_arg (evs s ev)) = Some t \<and> ev = ev_arg (evs s ev) + place (ev_callback (evs s ev))"
        using one(3) by (auto simp: entitled_def)
      let ?run = "\<lambda>cbs. run_callback cbs (ev_callback (evs s1 ev)) (ev_fd (evs s1 ev)) (ucast (ev_res (evs s1 ev)))
        (ev_arg (evs s1 ev)) s1"
      have same: "?run (callbacks_if_deleted F K C) = ?run (server_callbacks K C)"
        using ent by (intro run_callback_same [OF 1]) (auto simp: face)
      have step: "call_loop cbs (Suc n) ev v s = bnd (?run cbs) (call_loop cbs n ev v)" for cbs
        using Some False by (simp add: s1_def Let_def)
      show ?thesis
      proof (cases "?run (server_callbacks K C)")
        case (Inr s2)
        have "\<not> queued s1 ev" if "session_cb (ev_callback (evs s1 ev))"
          using that one(2) by (simp add: queued_def face)
        moreover have "ev = ev_arg (evs s1 ev) + place (ev_callback (evs s1 ev))" if "session_cb (ev_callback (evs s1 ev))"
          using that ent by (simp add: face)
        ultimately have 2: "srv_inv {} s2 \<and> follows s1 s2"
          by (intro run_callback_srv [OF 1 refl refl _ _ Inr])
        have "ncalls_vars s2 v = Some 0" if "session_cb (ev_callback (evs s2 ev))"
        proof -
          have "session_cb (ev_callback (evs s ev))"
            using that 2 f1 Suc.prems(2) face(5) unfolding follows_def by metis
          then have "ncalls_vars s1 v = Some 0"
            using one(1) by (simp add: s1_def upd_ev_def)
          with 2 show ?thesis by (simp add: follows_def zeros_kept_def)
        qed
        moreover have "ev < heap_next s2"
          using 2 Suc.prems(2) face(5) by (simp add: follows_def)
        ultimately have "settled s2 (call_loop (callbacks_if_deleted F K C) n ev v s2) (call_loop (server_callbacks K C) n ev v s2)"
          using 2 by (intro Suc.IH) simp_all
        then show ?thesis
          unfolding step same Inr bnd_Inr
          using settled_after follows_keeps [OF f1] follows_keeps 2 keeps_bases_trans by blast
      next
        case (Inl e)
        then show ?thesis
          unfolding step same by (simp only: Inl bnd_Inl settled_fault)
      qed
    qed (use Suc.prems Some in simp)
  qed simp
qed simp

lemma keeps_bases_of:
  assumes "heap_next s' = heap_next s" "\<And>e. ev_base (evs s' e) = ev_base (evs s e)"
  shows "keeps_bases s s'"
  using assms by (simp add: keeps_bases_def)

lemma active_loop_srv:
  "srv_inv {} s \<Longrightarrow>
    settled s (active_loop (callbacks_if_deleted F K C) n i v s) (active_loop (server_callbacks K C) n i v s)"
proof (induction n arbitrary: s)
  case (Suc n)
  consider "i \<ge> length (activequeues s)" | "i < length (activequeues s)" "activequeues s ! i = []"
    | ev q where "i < length (activequeues s)" "activequeues s ! i = ev # q"
    by (meson list.exhaust not_le)
  then show ?case
  proof cases
    case (3 ev q)
    have step: "active_loop cbs (Suc n) i v s = bnd (event_queue_remove ev EVLIST_ACTIVE s) (\<lambda>s1.
        bnd (call_loop cbs n ev v (upd_ev ev (\<lambda>e. e\<lparr>ev_pncalls := Some v\<rparr>)
          (s1\<lparr>ncalls_vars := (ncalls_vars s1)(v \<mapsto> ev_ncalls (evs s1 ev))\<rparr>))) (active_loop cbs n i v))" for cbs
      using 3 by (simp add: Let_def)
    show ?thesis
    proof (cases "event_queue_remove ev EVLIST_ACTIVE s")
      case (Inr s1)
      note r = queue_remove_touches [OF Inr]
      define s2 where "s2 = upd_ev ev (\<lambda>e. e\<lparr>ev_pncalls := Some v\<rparr>) (s1\<lparr>ncalls_vars := (ncalls_vars s1)(v \<mapsto> ev_ncalls (evs s1 ev))\<rparr>)"
      have bit3: "flag_bit s ev 3"
        using r(4) by (simp add: has_EVLIST)
      then have q: "queued s ev"
        by (simp add: queued_def)
      have i1: "srv_inv {} s1"
        using queue_remove_srv [OF Suc.prems Inr] by (simp add: EVLIST_ACTIVE_def)
      have f: "same_face E (E\<lparr>ev_pncalls := Some v\<rparr>) \<and> ev_flags (E\<lparr>ev_pncalls := Some v\<rparr>) = ev_flags E" for E
        by (simp add: same_face_def)
      have 2: "srv_inv {} s2"
        unfolding s2_def using i1 srv_invD(7) [OF i1] by (intro srv_inv_upd [OF _ f]) (simp_all add: tame_def)
      have face: "ev_callback (evs s2 e) = ev_callback (evs s e)" "ev_arg (evs s2 e) = ev_arg (evs s e)"
        "ev_base (evs s2 e) = ev_base (evs s e)" "sessions s2 = sessions s" "heap_next s2 = heap_next s" for e
        using r(2) touches_server [OF r(1)] by (simp_all add: s2_def upd_ev_def)
      have "ncalls_vars s2 v = Some 1 \<and> \<not> queued s2 ev \<and> entitled s2 ev" if "session_cb (ev_callback (evs s2 ev))"
      proof -
        have t: "tame (evs s ev)"
          using that srv_invD(7) [OF Suc.prems] by (simp add: face)
        then have "ncalls_vars s2 v = Some 1"
          using r(2) bit3 by (simp add: s2_def tame_def)
        moreover have "\<not> queued s2 ev"
          using t bit3 r(2) by (simp add: s2_def queued_def tame_def flag_simps)
        moreover have "entitled s2 ev"
          using srv_invD(5) [OF Suc.prems q] by (simp add: entitled_def face)
        ultimately show ?thesis by blast
      qed
      then have "settled s2 (call_loop (callbacks_if_deleted F K C) n ev v s2) (call_loop (server_callbacks K C) n ev v s2)"
        using srv_invD(3) [OF Suc.prems q] by (intro call_loop_srv [OF 2]) (simp_all add: face)
      then have "settled s2 (bnd (call_loop (callbacks_if_deleted F K C) n ev v s2) (active_loop (callbacks_if_deleted F K C) n i v))
          (bnd (call_loop (server_callbacks K C) n ev v s2) (active_loop (server_callbacks K C) n i v))"
        by (rule settled_bnd) (rule settled_after [OF Suc.IH])
      then show ?thesis
        unfolding step Inr bnd_Inr s2_def [symmetric]
        using settled_after keeps_bases_of [OF face(5,3)] by blast
    next
      case (Inl e)
      then show ?thesis
        unfolding step by (simp only: Inl bnd_Inl settled_fault)
    qed
  qed (use Suc.prems in simp_all)
qed simp

lemma event_process_active_srv:
  assumes inv: "srv_inv {} s"
  shows "settled s (event_process_active (callbacks_if_deleted F K C) n s) (event_process_active (server_callbacks K C) n s)"
proof (cases "event_count_active s = 0 \<or> first_active 0 (activequeues s) = None")
  case True
  with inv show ?thesis
    by (auto simp: event_process_active_def)
next
  case False
  then obtain i where i: "event_count_active s \<noteq> 0" "first_active 0 (activequeues s) = Some i"
    by auto
  let ?s = "s\<lparr>next_var := Suc (next_var s), ncalls_vars := (ncalls_vars s)(next_var s \<mapsto> 0)\<rparr>"
  let ?fin = "\<lambda>s1. Inr (s1\<lparr>ncalls_vars := (ncalls_vars s1)(next_var s := None)\<rparr>)"
  have "settled ?s (bnd (active_loop (callbacks_if_deleted F K C) n i (next_var s) ?s) ?fin)
      (bnd (active_loop (server_callbacks K C) n i (next_var s) ?s) ?fin)"
  proof (rule settled_bnd)
    show "settled ?s (active_loop (callbacks_if_deleted F K C) n i (next_var s) ?s) (active_loop (server_callbacks K C) n i (next_var s) ?s)"
      using inv by (intro active_loop_srv) simp
  qed (simp add: keeps_bases_def)
  then have "settled s (bnd (active_loop (callbacks_if_deleted F K C) n i (next_var s) ?s) ?fin)
      (bnd (active_loop (server_callbacks K C) n i (next_var s) ?s) ?fin)"
    by (rule settled_after) (simp add: keeps_bases_def)
  with i show ?thesis
    by (simp add: event_process_active_def Let_def)
qed

text \<open>One turn of \<open>event_base_loop\<close> in three parts: from the clock on, the wait, the callbacks.\<close>

definition loop_end :: "server eventop \<Rightarrow> server callbacks \<Rightarrow> nat \<Rightarrow> 32 word \<Rightarrow> server \<Rightarrow> (int \<times> server) outcome" where
  "loop_end evsel cbs n fl s =
     (if event_count_active s \<noteq> 0 then
        bnd (event_process_active cbs n s) (\<lambda>s.
          if event_count_active s = 0 \<and> has fl EVLOOP_ONCE then Inr (0, s)
          else event_base_loop evsel cbs None n fl s)
      else if has fl EVLOOP_NONBLOCK then Inr (0, s)
      else event_base_loop evsel cbs None n fl s)"

definition loop_wait :: "server eventop \<Rightarrow> server callbacks \<Rightarrow> nat \<Rightarrow> 32 word \<Rightarrow> timeval \<Rightarrow> server \<Rightarrow> (int \<times> server) outcome" where
  "loop_wait evsel cbs n fl tv s =
     (if \<not> event_haveevents s then Inr (1, s)
      else bnd (op_dispatch evsel tv s) (\<lambda>(res, s).
        if res = - 1 then Inr (- 1, s)
        else bnd (timeout_process evsel s) (loop_end evsel cbs n fl)))"

definition loop_clock :: "server eventop \<Rightarrow> server callbacks \<Rightarrow> nat \<Rightarrow> 32 word \<Rightarrow> server \<Rightarrow> (int \<times> server) outcome" where
  "loop_clock evsel cbs n fl s =
     (let (tv, s) = gettimeofday s
      in bnd (if timercmp_less tv (event_tv s) then timeout_correct (timersub (event_tv s) tv) s else Inr s) (\<lambda>s.
         let s = s\<lparr>event_tv := tv\<rparr>
         in bnd (if event_count_active s = 0 \<and> \<not> has fl EVLOOP_NONBLOCK then timeout_next s
                 else Inr (timerclear, s)) (\<lambda>(tv, s). loop_wait evsel cbs n fl tv s)))"

lemma event_base_loop_parts:
  "event_base_loop evsel cbs None (Suc n) fl s =
     bnd (op_recalc evsel 0 s) (\<lambda>(res, s).
     if res = - 1 then Inr (- 1, s)
     else if event_gotterm s \<noteq> 0 then Inr (0, s\<lparr>event_gotterm := 0\<rparr>)
     else bnd (sig_loop None n s) (\<lambda>(fail, s). if fail then Inr (- 1, s) else loop_clock evsel cbs n fl s))"
  unfolding event_base_loop.simps loop_clock_def loop_wait_def loop_end_def [abs_def] ..

lemma dispatch_epoll: "op_dispatch (epollops K) = epoll_dispatch K"
  by (simp add: epollops_def)

lemma event_base_loop_srv:
  "srv_inv {} s \<Longrightarrow> settled_by snd s (event_base_loop (epollops K) (callbacks_if_deleted F K C) None n fl s)
    (event_base_loop (epollops K) (server_callbacks K C) None n fl s)"
proof (induction n arbitrary: s)
  case (Suc n)
  define D where "D = callbacks_if_deleted F K C"
  define S where "S = server_callbacks K C"
  let ?E = "epollops K :: server eventop"
  have IH: "settled_by snd s (event_base_loop ?E D None n fl s1) (event_base_loop ?E S None n fl s1)"
    if "srv_inv {} s1" "keeps_bases s s1" for s1
    unfolding D_def S_def by (rule settled_after [OF Suc.IH [OF that(1)] that(2)])
  have 1: "settled_by snd s (loop_end ?E D n fl s1) (loop_end ?E S n fl s1)" if "srv_inv {} s1" "keeps_bases s s1" for s1
  proof -
    have "settled s (event_process_active D n s1) (event_process_active S n s1)"
      unfolding D_def S_def by (rule settled_after [OF event_process_active_srv [OF that(1)] that(2)])
    then have "settled_by snd s
        (bnd (event_process_active D n s1) (\<lambda>s. if event_count_active s = 0 \<and> has fl EVLOOP_ONCE then Inr (0, s)
          else event_base_loop ?E D None n fl s))
        (bnd (event_process_active S n s1) (\<lambda>s. if event_count_active s = 0 \<and> has fl EVLOOP_ONCE then Inr (0, s)
          else event_base_loop ?E S None n fl s))"
      by (rule settled_bnd) (use IH in auto)
    with that IH show ?thesis
      by (simp add: loop_end_def)
  qed
  have 2: "settled_by snd s (loop_wait ?E D n fl tv s1) (loop_wait ?E S n fl tv s1)"
    if h: "srv_inv {} s1" "keeps_bases s s1" for tv s1
  proof (cases "event_haveevents s1")
    case True
    have "settled_by snd s
        (bnd (epoll_dispatch K tv s1) (\<lambda>(res, s). if res = - 1 then Inr (- 1, s)
          else bnd (timeout_process ?E s) (loop_end ?E D n fl)))
        (bnd (epoll_dispatch K tv s1) (\<lambda>(res, s). if res = - 1 then Inr (- 1, s)
          else bnd (timeout_process ?E s) (loop_end ?E S n fl)))"
    proof (rule settled_step [where g = snd, OF _ h(2)])
      fix x :: "int \<times> server" assume x: "srv_inv {} (snd x)" "keeps_bases s (snd x)"
      have "settled_by snd s (bnd (timeout_process ?E (snd x)) (loop_end ?E D n fl))
          (bnd (timeout_process ?E (snd x)) (loop_end ?E S n fl))"
        by (rule settled_step [where g = "\<lambda>s. s", OF _ x(2)]) (use x timeout_process_srv 1 in auto)
      with x show "settled_by snd s
          (case x of (res, s) \<Rightarrow> if res = - 1 then Inr (- 1, s) else bnd (timeout_process ?E s) (loop_end ?E D n fl))
          (case x of (res, s) \<Rightarrow> if res = - 1 then Inr (- 1, s) else bnd (timeout_process ?E s) (loop_end ?E S n fl))"
        by (cases x) simp
    qed (use h epoll_dispatch_srv in auto)
    with True show ?thesis
      by (simp add: loop_wait_def dispatch_epoll)
  qed (use h in \<open>simp add: loop_wait_def\<close>)
  have 3: "settled_by snd s (loop_clock ?E D n fl s1) (loop_clock ?E S n fl s1)"
    if h: "srv_inv {} s1" "keeps_bases s s1" for s1
    unfolding loop_clock_def gettimeofday_def Let_def prod.case
  proof (rule settled_step [where g = "\<lambda>s. s" and t = "s1\<lparr>ticks := Suc (ticks s1)\<rparr>"])
    fix s2 assume x: "srv_inv {} s2" "keeps_bases s s2"
    let ?s = "s2\<lparr>event_tv := clock s1 (ticks s1)\<rparr>"
    show "settled_by snd s
        (bnd (if event_count_active ?s = 0 \<and> \<not> has fl EVLOOP_NONBLOCK then timeout_next ?s else Inr (timerclear, ?s))
          (\<lambda>(tv, s). loop_wait ?E D n fl tv s))
        (bnd (if event_count_active ?s = 0 \<and> \<not> has fl EVLOOP_NONBLOCK then timeout_next ?s else Inr (timerclear, ?s))
          (\<lambda>(tv, s). loop_wait ?E S n fl tv s))"
      by (rule settled_step [where g = snd and t = ?s])
        (use x 2 timeout_next_srv [of ?s] in \<open>auto split: if_split_asm\<close>)
  qed (use h timeout_correct_srv [of "s1\<lparr>ticks := Suc (ticks s1)\<rparr>"] in \<open>auto split: if_split_asm\<close>)
  show ?case
    unfolding event_base_loop_parts D_def [symmetric] S_def [symmetric]
  proof (rule settled_step [where g = snd and t = s])
    fix x :: "int \<times> server" assume x: "srv_inv {} (snd x)" "keeps_bases s (snd x)"
    have "settled_by snd s
        (bnd (sig_loop None n (snd x)) (\<lambda>(fail, s). if fail then Inr (- 1, s) else loop_clock ?E D n fl s))
        (bnd (sig_loop None n (snd x)) (\<lambda>(fail, s). if fail then Inr (- 1, s) else loop_clock ?E S n fl s))"
      by (rule settled_step [where g = snd, OF _ x(2)]) (use x 3 sig_loop_srv in auto)
    with x show "settled_by snd s
        (case x of (res, s) \<Rightarrow> if res = - 1 then Inr (- 1, s)
          else if event_gotterm s \<noteq> 0 then Inr (0, s\<lparr>event_gotterm := 0\<rparr>)
          else bnd (sig_loop None n s) (\<lambda>(fail, s). if fail then Inr (- 1, s) else loop_clock ?E D n fl s))
        (case x of (res, s) \<Rightarrow> if res = - 1 then Inr (- 1, s)
          else if event_gotterm s \<noteq> 0 then Inr (0, s\<lparr>event_gotterm := 0\<rparr>)
          else bnd (sig_loop None n s) (\<lambda>(fail, s). if fail then Inr (- 1, s) else loop_clock ?E S n fl s))"
      by (cases x) simp
  qed (use Suc.prems epoll_recalc_srv in \<open>auto simp: epollops_def\<close>)
qed simp

lemma station_loop_srv:
  "srv_inv {} s \<Longrightarrow> settled s (station_loop K C n m s) (station_loop K C n m s)"
proof (induction m arbitrary: s)
  case (Suc m)
  let ?run = "\<lambda>cbs. event_base_loop (epollops K) cbs None n EVLOOP_ONCE s"
  have "?run (callbacks_if_deleted F K C) = ?run (server_callbacks K C)" for F
    using event_base_loop_srv [OF Suc.prems] unfolding settled_by_def by blast
  moreover have "settled_by snd s (?run (server_callbacks K C)) (?run (server_callbacks K C))"
    using event_base_loop_srv [OF Suc.prems] unfolding settled_by_def by blast
  then have "settled s (bnd (?run (server_callbacks K C)) (\<lambda>(r, s). station_loop K C n m s))
      (bnd (?run (server_callbacks K C)) (\<lambda>(r, s). station_loop K C n m s))"
    by (rule settled_bnd) (auto intro: settled_after [OF Suc.IH])
  with Suc.prems show ?case by simp
qed simp

end
