(* ===== verification/ServerProps.thy ===== *)
theory ServerProps
  imports ServerRun EventProps
begin

text \<open>
  The server's properties: how it gets into the invariant of \<open>ServerInv\<close>, that no callback is made on
  a deleted session, what accepting a connection does, the table of the sessions, and what happens
  when the station and the client are taken down.
\<close>

section \<open>A server at rest\<close>

text \<open>A state and a machine to instantiate the theorems with: signal 15 comes while the loop waits.\<close>

definition idle_server :: server where
  "idle_server = \<lparr>evs = (\<lambda>_. event_zero)(ev_signal := event_zero\<lparr>ev_base := True, ev_callback := CB_signal,
       ev_fd := 1, ev_events := EV_READ, ev_flags := or EVLIST_INIT EVLIST_INTERNAL\<rparr>), event_count = 0, event_count_active = 0, event_gotterm = 0,
     activequeues = [[]], eventqueue = [], event_tv = timerclear, timetree = Leaf, signalqueue = [],
     event_gotsig = False, clock = \<lambda>k. \<lparr>tv_sec = int k, tv_usec = 0\<rparr>, ticks = 10,
     ncalls_vars = \<lambda>_. None, next_var = 0, onces = \<lambda>_. None,
     fds = replicate 4 evepoll_zero, fds_block = 0, nevents = 4, evsigmask = {},
     evsigcaught = \<lambda>_. 0, needrecalc = False, evsignal_caught = False, ev_signal_pair = (0, 1),
     ev_signal_added = False, calls = [],
     sessions = \<lambda>_. None, manager = sm_new, mTimeout = 60, heap_next = 8, arrivals = [], closed_fds = [],
     mIsShutdown = 0, base_freed = False\<rparr>"

definition terminated :: kernel where
  "terminated = calm\<lparr>sys_signals := \<lambda>_. [15]\<rparr>"

definition idle_env :: env where
  "idle_env = \<lparr>env_alloc = \<lparr>alloc_ok = \<lambda>_. True, junk = \<lambda>_. 0\<rparr>,
     env_fs = \<lparr>fs_content = \<lambda>_. None, fs_size = \<lambda>_. 0, fs_media = \<lambda>_. None,
       fs_memory = \<lparr>bCmd = True, hasSent = 0, toSend = 0, avpack = no_packet, cmdMem = []\<rparr>\<rparr>,
     mMaxConnections = 5\<rparr>"

lemma idle_server_event: "ev_flags (evs idle_server e) = (if e = ev_signal then or EVLIST_INIT EVLIST_INTERNAL else 0)"
  "ev_callback (evs idle_server e) = (if e = ev_signal then CB_signal else CB_user 0)"
  by (simp_all add: idle_server_def event_zero_def)

lemma idle_server_inv: "srv_inv {} idle_server"
proof -
  have q: "\<not> queued idle_server e" for e
    by (simp add: queued_def idle_server_event flag_simps)
  have c: "\<not> session_cb (ev_callback (evs idle_server e))" for e
    by (simp add: idle_server_event session_cb_def CB_onRead_def CB_onWrite_def CB_onTimer_def)
  have a: "ev_arg (evs idle_server e) = ev_signal" for e
    by (simp add: idle_server_def event_zero_def ev_signal_def)
  have f: "heap_next idle_server = 8" "sessions idle_server = (\<lambda>_. None)" "onces idle_server = (\<lambda>_. None)"
    "signalqueue idle_server = []" "fds idle_server = replicate 4 evepoll_zero"
    by (simp_all add: idle_server_def)
  show ?thesis
    by (simp add: srv_inv_def signals_ok_def tab_inv_def q c a f evepoll_zero_def)
qed

section \<open>Starting the server\<close>


lemma registered_event:
  assumes inv: "srv_inv {} s" and ev: "ev \<noteq> ev_signal" "ev < heap_next s" "\<not> queued s ev" "ev \<notin> set (signalqueue s)"
      "\<And>p t. sessions s p = Some t \<Longrightarrow> ev \<noteq> p + 1 \<and> ev \<noteq> p + 2"
    and c: "\<not> session_cb c" "c \<noteq> CB_signal"
    and base: "event_base_set ev (event_set ev fd events c p s) = (r, s1)"
    and add: "event_add (epoll_add K) ev None s1 = Inr (r', s')"
  shows "srv_inv {} s' \<and> ev_base (evs s' ev) \<and> sessions s' = sessions s \<and> heap_next s' = heap_next s \<and>
    (\<forall>e. e \<noteq> ev \<longrightarrow> e \<noteq> ev_signal \<longrightarrow> evs s' e = evs s e) \<and>
    set (signalqueue s') \<subseteq> insert ev (insert ev_signal (set (signalqueue s)))"
proof -
  let ?s = "event_set ev fd events c p s"
  have 0: "srv_inv {} ?s"
    by (rule event_set_srv [OF inv ev(3,4,1) c(2)]) (use c(1) ev(5) in auto)
  have b: "ev_base (evs ?s ev)"
    by (simp add: event_set_event)
  note 1 = base_set_srv [OF 0 b base]
  have t: "touches {} ?s s1"
    using 1 by blast
  have face: "ev_callback (evs s1 ev) = c" "ev_base (evs s1 ev)"
    using 1 by (auto simp: same_face_def event_set_event)
  have "srv_inv {} s' \<and> joined_by ev s1 s'"
    using 1 face c(1) ev(2) touches_server [OF t] by (intro event_add_srv [OF _ add]) simp_all
  moreover from this have t': "touches {ev, ev_signal} s1 s'"
    by (simp add: joined_by_def)
  moreover have "ev_base (evs s' ev)"
    using t' face(2) by (simp add: touches_def same_face_def)
  moreover have "set (signalqueue s') \<subseteq> insert ev (insert ev_signal (set (signalqueue s)))"
    using t t' by (auto simp: touches_def)
  moreover have "evs s' e = evs s e" if "e \<noteq> ev" "e \<noteq> ev_signal" for e
    using 1 that calculation(1) by (simp add: joined_by_def)
  ultimately show ?thesis
    using touches_server [OF t] touches_server [OF t'] by simp
qed



section \<open>The loop and deleted sessions\<close>

text \<open>
  C27: The event loop never calls a callback of a session that has been deleted: whatever
  \<open>onRead\<close>, \<open>onWrite\<close> and \<open>onTimer\<close> would do to one (\<open>F\<close>), a run is the same as with the server's
  callbacks, in which such a call is a fault; and a run that returns keeps the invariant.
\<close>

theorem no_callback_on_deleted_session:
  assumes "srv_inv {} s"
  shows "event_base_loop (epollops K) (callbacks_if_deleted F K C) None n fl s =
      event_base_loop (epollops K) (server_callbacks K C) None n fl s \<and>
    (case event_base_loop (epollops K) (server_callbacks K C) None n fl s of Inl _ \<Rightarrow> True | Inr (r, s') \<Rightarrow> srv_inv {} s')"
  using event_base_loop_srv [OF assms, of K F C n fl] by (auto simp: settled_by_def split: sum.splits)

text \<open>A server with one connection, whose events are set up.\<close>

definition one_session :: session where
  "one_session = Session_new 3 0 \<lparr>send_plan = [], sent = [], recv_plan = [], incoming = [], peer_closed = False\<rparr> [] 9"

definition connected_server :: server where
  "connected_server = event_set 10 3 EV_WRITE CB_onWrite 8 (event_set 9 3 EV_READ CB_onRead 8
     (idle_server\<lparr>heap_next := 12, sessions := (sessions idle_server)(8 := Some one_session),
        manager := snd (sm_put 3 8 sm_new)\<rparr>))"

lemma connected_server_inv: "srv_inv {} connected_server"
proof -
  have "mReadEvent one_session = 8 + 1 \<and> mWriteEvent one_session = 8 + 2 \<and> mTimeEvent one_session = 8 + 3 \<and>
      asks_writes one_session \<and> mReading one_session = 0 \<and> mWriting one_session = 0"
    by (simp add: one_session_def Session_new_def asks_writes_def requests_writes_def)
  moreover have "8 = heap_next idle_server"
    by (simp add: idle_server_def)
  ultimately show ?thesis
    using fresh_block [OF idle_server_inv, where p = 8 and t = one_session and m = "snd (sm_put 3 8 sm_new)" and fd = 3, OF _ refl _ _ _ _ _ _ refl]
    by (simp add: connected_server_def)
qed

theorem no_callback_on_deleted_session_witness:
  "sessions connected_server 8 \<noteq> None \<and>
    event_base_loop (epollops calm) (callbacks_if_deleted (\<lambda>_ _ _ _ _. Inl Hang) calm idle_env) None 5 EVLOOP_ONCE connected_server =
      event_base_loop (epollops calm) (server_callbacks calm idle_env) None 5 EVLOOP_ONCE connected_server"
  using no_callback_on_deleted_session [OF connected_server_inv] by (simp add: connected_server_def)

section \<open>Stopping the station\<close>

definition free_event :: "server \<Rightarrow> nat \<Rightarrow> bool" where
  "free_event s ev \<longleftrightarrow> ev \<noteq> ev_signal \<and> ev < heap_next s \<and> \<not> queued s ev \<and> ev \<notin> set (signalqueue s) \<and>
     (\<forall>p t. sessions s p = Some t \<longrightarrow> ev \<noteq> p + 1 \<and> ev \<noteq> p + 2)"

lemma signal_event_add_srv:
  assumes inv: "srv_inv {} s" and ev: "free_event s ev" and run: "signal_event_add K ev sig s = Inr s'"
  shows "srv_inv {} s' \<and> ev_base (evs s' ev) \<and> sessions s' = sessions s \<and> heap_next s' = heap_next s \<and>
    (\<forall>e. e \<noteq> ev \<longrightarrow> e \<noteq> ev_signal \<longrightarrow> evs s' e = evs s e) \<and>
    set (signalqueue s') \<subseteq> insert ev (insert ev_signal (set (signalqueue s)))"
proof -
  let ?s = "event_set ev sig (or EV_SIGNAL EV_PERSIST) CB_sigHandler 0 s"
  obtain r s1 where s1: "event_base_set ev ?s = (r, s1)"
    by (cases "event_base_set ev ?s")
  obtain r' where add: "event_add (epoll_add K) ev None s1 = Inr (r', s')"
    using run s1 by (auto simp: signal_event_add_def Let_def)
  have "\<not> session_cb CB_sigHandler" "CB_sigHandler \<noteq> CB_signal"
    by (simp_all add: session_cb_def CB_sigHandler_def CB_onRead_def CB_onWrite_def CB_onTimer_def)
  with registered_event [OF inv _ _ _ _ _ _ _ s1 add] ev show ?thesis
    unfolding free_event_def by blast
qed

text \<open>
  C29: \<open>ActorStation::start\<close> never returns: once the loop has been shut down, \<open>signal_del\<close> of the
  first signal event follows its pointer to the event base that \<open>Destroy\<close> has freed.
\<close>

theorem station_start_uses_freed_base:
  assumes inv: "srv_inv {} s" and ev: "free_event s evSigInt" "free_event s evSigTerm" "evSigInt \<noteq> evSigTerm"
  shows "(case bnd (signal_event_add K evSigInt 2 s) (\<lambda>s. bnd (signal_event_add K evSigTerm 15 s) (station_loop K C n m)) of
      Inr s' \<Rightarrow> station_start K C n m evSigInt evSigTerm s = Inl Use_after_free
    | Inl f \<Rightarrow> station_start K C n m evSigInt evSigTerm s = Inl f)"
proof (cases "bnd (signal_event_add K evSigInt 2 s) (\<lambda>s. bnd (signal_event_add K evSigTerm 15 s) (station_loop K C n m))")
  case (Inl f)
  then show ?thesis
    by (auto simp: station_start_def bnd_def split: sum.splits)
next
  case (Inr s3)
  then obtain s1 s2 where s1: "signal_event_add K evSigInt 2 s = Inr s1" and s2: "signal_event_add K evSigTerm 15 s1 = Inr s2"
    and s3: "station_loop K C n m s2 = Inr s3"
    by auto
  note 1 = signal_event_add_srv [OF inv ev(1) s1]
  have "evs s1 evSigTerm = evs s evSigTerm"
    using 1 ev by (auto simp: free_event_def)
  then have "free_event s1 evSigTerm"
    using 1 ev by (auto simp: free_event_def queued_def)
  with 1 have 2: "srv_inv {} s2" "ev_base (evs s2 evSigTerm)" "heap_next s2 = heap_next s"
    using signal_event_add_srv [OF _ _ s2] by auto
  have "keeps_bases s2 s3"
    using station_loop_srv [OF 2(1), of K C n m] s3 by (simp add: settled_by_def)
  then have "ev_base (evs s3 evSigTerm)"
    using ev(2) 2 by (simp add: keeps_bases_def free_event_def)
  then have "signal_event_del K evSigTerm (EventArg_Destroy s3) = Inl Use_after_free"
    by (simp add: signal_event_del_def EventArg_Destroy_def Let_def case_prod_beta)
  then show ?thesis
    using Inr by (simp add: station_start_def s1 s2 s3 Let_def)
qed

theorem station_start_uses_freed_base_witness:
  "station_start terminated idle_env 20 3 4 5 idle_server = Inl Use_after_free"
proof -
  let ?run = "bnd (signal_event_add terminated 4 2 idle_server)
    (\<lambda>s. bnd (signal_event_add terminated 5 15 s) (station_loop terminated idle_env 20 3))"
  have "case ?run of Inr _ \<Rightarrow> True | Inl _ \<Rightarrow> False"
    by code_simp
  then obtain s' where s': "?run = Inr s'"
    by (auto split: sum.splits)
  have "free_event idle_server 4" "free_event idle_server 5"
    by (simp_all add: free_event_def queued_def idle_server_event flag_simps ev_signal_def idle_server_def event_zero_def)
  from station_start_uses_freed_base [OF idle_server_inv this, of terminated idle_env 20 3] show ?thesis
    by (simp add: s')
qed

section \<open>Taking the client down\<close>

lemma queued_elsewhere:
  assumes "event_del (epoll_del K) e s = Inr (r, s')" "ev \<noteq> e"
  shows "evs s' ev = evs s ev"
  using event_del_frame [OF assms(1)] assms(2) by blast

text \<open>
  \<open>TcpClient::disConnect\<close> deletes the read event twice and never the write event, so one that is
  queued when the client is destroyed stays queued, with the deleted session as its argument: the
  invariant that keeps callbacks away from deleted sessions is lost.
\<close>

theorem client_leaves_write_event:
  assumes inv: "srv_inv {} s" and t: "sessions s p = Some t" "queued s (p + 2)" "sockId > 0"
    and run: "TcpClient_disConnect K sockId p s = Inr (r, s')"
  shows "let s'' = TcpClient_destroy sockId p s' in
    queued s'' (p + 2) \<and> ev_callback (evs s'' (p + 2)) = CB_onWrite \<and> ev_arg (evs s'' (p + 2)) = p \<and>
    sessions s'' p = None \<and> \<not> srv_inv {} s''"
proof -
  define s'' where "s'' = TcpClient_destroy sockId p s'"
  let ?s = "s\<lparr>manager := snd (sm_remove (word_of_int sockId) (manager s))\<rparr>"
  obtain r1 s1 r2 s2 where s1: "event_del (epoll_del K) (mReadEvent t) ?s = Inr (r1, s1)"
    and s2: "event_del (epoll_del K) (mReadEvent t) s1 = Inr (r2, s2)"
    and s': "s' = s2\<lparr>closed_fds := closed_fds s2 @ [sockId]\<rparr>"
    using run t by (auto simp: TcpClient_disConnect_def Let_def)
  have l: "live_ok s p t"
    using srv_invD(4) [OF inv t(1)] .
  then have "p + 2 \<noteq> mReadEvent t"
    by (simp add: live_ok_def)
  then have "evs s'' (p + 2) = evs s (p + 2)"
    using queued_elsewhere [OF s1] queued_elsewhere [OF s2] by (simp add: s''_def s' TcpClient_destroy_def)
  then have "queued s'' (p + 2)" "ev_callback (evs s'' (p + 2)) = CB_onWrite" "ev_arg (evs s'' (p + 2)) = p"
    using t(2) l unfolding queued_def live_ok_def by simp_all
  moreover have "sessions s'' p = None"
    by (simp add: s''_def TcpClient_destroy_def Let_def)
  moreover have "\<not> entitled s'' (p + 2)"
    using calculation by (simp add: entitled_def session_cb_def)
  ultimately show ?thesis
    unfolding s''_def [symmetric] Let_def using srv_invD(5) by blast
qed

text \<open>The session of \<open>connected_server\<close>, with a write pending.\<close>

definition half_writing_server :: server where
  "half_writing_server = connected_server\<lparr>sessions := (sessions connected_server)(8 := Some (one_session\<lparr>mWriting := 1\<rparr>))\<rparr>"

definition writing_server :: server where
  "writing_server = half_writing_server\<lparr>
     evs := (evs half_writing_server)(10 := (evs half_writing_server 10)\<lparr>ev_flags := or EVLIST_INIT EVLIST_TIMEOUT\<rparr>),
     timetree := Node Leaf RB_BLACK 10 Leaf, event_count := 1\<rparr>"

lemma writing_server_inv: "srv_inv {} writing_server"
proof -
  let ?s = half_writing_server
  have 1: "srv_inv {} ?s"
    unfolding half_writing_server_def
    by (rule update_session_srv [OF connected_server_inv, of 8 one_session])
      (simp_all add: connected_server_def one_session_def Session_new_def asks_writes_def requests_writes_def)
  have e: "ev_callback (evs ?s 10) = CB_onWrite" "ev_arg (evs ?s 10) = 8" "heap_next ?s = 12"
      "sessions ?s 8 = Some (one_session\<lparr>mWriting := 1\<rparr>)" "ev_flags (evs ?s 10) = EVLIST_INIT"
    by (simp_all add: half_writing_server_def connected_server_def event_set_event)
  have "entitled ?s 10"
    unfolding entitled_def e by (simp add: e place_def waits_def CB_onRead_def CB_onWrite_def)
  then have "srv_inv {10} ?s"
    by (intro srv_inv_more [OF 1]) blast
  moreover have t: "touches {10} ?s writing_server"
    by (simp add: writing_server_def touches_def same_face_def shrunk_def zeros_kept_def)
  moreover have "tab_inv {} writing_server"
    by (rule tab_inv_kept [OF srv_invD(9) [OF 1] _ t]) (auto simp: writing_server_def e flag_simps)
  moreover have "tame (evs writing_server 10)"
  proof -
    have "tame (evs ?s 10)"
      by (rule srv_invD(7) [OF 1]) (simp add: e session_cb_def)
    then show ?thesis
      by (simp add: writing_server_def tame_def flag_simps)
  qed
  ultimately have "srv_inv {10} writing_server"
    using e(3) by (elim srv_inv_touches) auto
  then show ?thesis
    by (rule srv_inv_mono) simp
qed

theorem client_leaves_write_event_witness:
  "\<exists>r s'. TcpClient_disConnect calm 3 8 writing_server = Inr (r, s') \<and> queued (TcpClient_destroy 3 8 s') 10 \<and>
    sessions (TcpClient_destroy 3 8 s') 8 = None"
proof -
  have e: "mReadEvent (one_session\<lparr>mWriting := 1\<rparr>) = 9" "ev_flags (evs writing_server 9) = EVLIST_INIT"
      "sessions writing_server 8 = Some (one_session\<lparr>mWriting := 1\<rparr>)" "ev_base (evs writing_server 9)"
      "ev_ncalls (evs writing_server 9) = 0" "flag_bit writing_server 10 0"
    by (simp_all add: writing_server_def half_writing_server_def connected_server_def one_session_def Session_new_def
        event_set_event flag_simps)
  have del: "event_del (epoll_del calm) 9 s = Inr (0, s)" if "ev_base (evs s 9)" "ev_flags (evs s 9) = EVLIST_INIT" "ev_ncalls (evs s 9) = 0"
      for s :: server
    using that by (simp add: event_del_def abort_loop_def flags_ok_def has_def flag_simps EVLIST_ALL_def EVLIST_INIT_def
        EVLIST_TIMEOUT_def EVLIST_ACTIVE_def EVLIST_INSERTED_def EVLIST_SIGNAL_def)
  obtain s' where s': "TcpClient_disConnect calm 3 8 writing_server = Inr (0, s')"
    using e del by (simp add: TcpClient_disConnect_def Let_def)
  have "queued writing_server (8 + 2)"
    using e by (simp add: queued_def)
  from client_leaves_write_event [OF writing_server_inv e(3) this _ s'] s' show ?thesis
    by (auto simp: Let_def)
qed

section \<open>The table of the sessions\<close>

text \<open>Calls of \<open>put\<close> and \<open>remove\<close>, on the table and on a map; a caller keeps to the table's use when a
  session is put only under a free key, and removed only under its own.\<close>

datatype 's table_op = Op_put "16 word" 's | Op_remove "16 word"

fun table_step :: "'s table_op \<Rightarrow> 's session_manager \<Rightarrow> 's session_manager" where
  "table_step (Op_put k s) t = snd (sm_put k s t)"
| "table_step (Op_remove k) t = snd (sm_remove k t)"

fun map_step :: "'s table_op \<Rightarrow> (16 word \<Rightarrow> 's option) \<Rightarrow> (16 word \<Rightarrow> 's option)" where
  "map_step (Op_put k s) m = m(k \<mapsto> s)"
| "map_step (Op_remove k) m = m(k := None)"

fun well_used :: "(16 word \<Rightarrow> 's option) \<Rightarrow> 's table_op list \<Rightarrow> bool" where
  "well_used m [] \<longleftrightarrow> True"
| "well_used m (Op_put k s # ops) \<longleftrightarrow> m k = None \<and> well_used (m(k \<mapsto> s)) ops"
| "well_used m (Op_remove k # ops) \<longleftrightarrow> m k \<noteq> None \<and> well_used (m(k := None)) ops"

text \<open>\<open>turns k ops\<close>: how many sessions have left under key \<open>k\<close>.\<close>

fun turns :: "16 word \<Rightarrow> 's table_op list \<Rightarrow> nat" where
  "turns k [] = 0"
| "turns k (Op_put _ _ # ops) = turns k ops"
| "turns k (Op_remove k' # ops) = (if k' = k then Suc (turns k ops) else turns k ops)"

lemma table_run:
  "(\<And>k. fst (sm_get k t) = m k) \<Longrightarrow> sm.counted t \<Longrightarrow> well_used m ops \<Longrightarrow>
    (\<forall>k. fst (sm_get k (fold table_step ops t)) = fold map_step ops m k \<and>
      snd (sm_get k (fold table_step ops t)) = snd (sm_get k t) + word_of_nat (turns k ops)) \<and>
    sm.counted (fold table_step ops t)"
proof (induction m ops arbitrary: t rule: well_used.induct)
  case (2 m k s ops)
  let ?t = "snd (sm_put k s t)"
  have "k \<notin> sm.there t"
    using 2 by (simp add: sm.there_def)
  then have "fst (sm_get k' ?t) = (m(k \<mapsto> s)) k'" "sm.counted ?t" "snd (sm_get k' ?t) = snd (sm_get k' t)" for k'
    using 2 by (auto simp: sm.get_put sm.counted_put)
  with "2.IH" [of ?t] "2.prems"(3) show ?case by (simp del: fun_upd_apply)
next
  case (3 m k ops)
  let ?t = "snd (sm_remove k t)"
  have "k \<in> sm.there t" "fst (sm_get k t) \<noteq> None"
    using 3 by (auto simp: sm.there_def)
  then have "fst (sm_get k' ?t) = (m(k := None)) k'" "sm.counted ?t"
      "snd (sm_get k' ?t) = (if k' = k then snd (sm_get k t) + 1 else snd (sm_get k' t))" for k'
    using 3 by (auto simp: sm.get_remove sm.counted_remove)
  with "3.IH" [of ?t] "3.prems"(3) show ?case by (simp add: ac_simps del: fun_upd_apply)
qed simp

text \<open>
  C30: As long as it is used as intended, \<open>SessionManager\<close> is a map from keys to sessions, reports
  the number of sessions in it, and gives a key whose sessions have left \<open>n\<close> times the sequence
  number \<open>n\<close>, modulo \<open>2^16\<close>.
\<close>

theorem session_table_is_a_map:
  assumes "well_used (\<lambda>_. None) ops"
  shows "(let t = fold table_step ops sm_new; m = fold map_step ops (\<lambda>_. None)
     in (\<forall>k. sm_get k t = (m k, word_of_nat (turns k ops))) \<and> sm_getCount t = int (card (dom m)))"
proof -
  define t where "t = fold table_step ops sm_new"
  define m where "m = fold map_step ops (\<lambda>_. None)"
  have new: "sm_get k (sm_new :: 'a session_manager) = (None, 0)" for k
    by (simp add: sm_get_def sm_new_def Let_def)
  have "sm.counted (sm_new :: 'a session_manager)"
    by (simp add: sm.counted_def sm.there_def new) (simp add: sm_getCount_def sm_new_def)
  then have r: "fst (sm_get k t) = m k" "snd (sm_get k t) = word_of_nat (turns k ops)" "sm.counted t" for k
    using table_run [of sm_new "\<lambda>_. None" ops] assms unfolding t_def m_def by (simp_all add: new)
  then have "sm.there t = dom m"
    by (auto simp: sm.there_def)
  with r show ?thesis
    unfolding t_def [symmetric] m_def [symmetric] Let_def by (simp add: sm.counted_def prod_eq_iff)
qed

theorem session_table_is_a_map_witness:
  "sm_get 3 (fold table_step [Op_put 3 CHR ''a'', Op_remove 3, Op_put 3 CHR ''b'', Op_put 1500 CHR ''c''] sm_new) =
    (Some CHR ''b'', 1)"
  using session_table_is_a_map [of "[Op_put 3 CHR ''a'', Op_remove 3, Op_put 3 CHR ''b'', Op_put 1500 CHR ''c'']"]
  by (simp add: Let_def)

end
