(* ===== verification/IOUtils.thy ===== *)
theory IOUtils
  imports CString
begin

text \<open>
  \<open>IOUtils.cpp\<close>: sockets. The operating system answers a call from the calls made before it;
  \<open>inet_aton\<close> and \<open>inet_addr\<close> are functions of the C library. An operation returns its result and
  the calls it has made.
\<close>

unbundle bit_operations_syntax

section \<open>The system\<close>

datatype io_call =
    Io_socket
  | Io_getfl int
  | Io_setfl int int
  | Io_nodelay int
  | Io_reuseaddr int
  | Io_connect int "32 word" int
  | Io_bind int "32 word" int
  | Io_listen int
  | Io_close int
  | Io_send int nat nat

record os =
  os_result :: "io_call list \<Rightarrow> io_call \<Rightarrow> int"
  inet_aton :: "byte list \<Rightarrow> 32 word option"
  inet_addr :: "byte list \<Rightarrow> 32 word"

definition io :: "os \<Rightarrow> io_call \<Rightarrow> io_call list \<Rightarrow> int \<times> io_call list" where
  "io S c h = (os_result S h c, h @ [c])"

definition O_NONBLOCK :: int where "O_NONBLOCK = 2048"
definition IO_MAX_MTU :: int where "IO_MAX_MTU = 1400"
definition INADDR_ANY :: "32 word" where "INADDR_ANY = 0"

section \<open>The functions of IOUtils.cpp\<close>

definition IOUtils_inetNtoa :: "32 word \<Rightarrow> int \<Rightarrow> byte list" where
  "IOUtils_inetNtoa addr len =
     (let p = (\<lambda>k. fmt_d (int (unat (drop_bit k addr AND 0xff))))
      in take (nat (len - 1)) (p 0 @ [46] @ p 8 @ [46] @ p 16 @ [46] @ p 24) @ [0])"

definition IOUtils_setNonblock :: "os \<Rightarrow> int \<Rightarrow> io_call list \<Rightarrow> int \<times> io_call list" where
  "IOUtils_setNonblock S fd h =
     (let (flags, h) = io S (Io_getfl fd) h
      in if flags < 0 then (flags, h)
         else let (r, h) = io S (Io_setfl fd (flags OR O_NONBLOCK)) h
              in (if r < 0 then - 1 else 0, h))"

definition IOUtils_setBlock :: "os \<Rightarrow> int \<Rightarrow> io_call list \<Rightarrow> int \<times> io_call list" where
  "IOUtils_setBlock S fd h =
     (let (flags, h) = io S (Io_getfl fd) h
      in if flags < 0 then (flags, h)
         else let (r, h) = io S (Io_setfl fd (flags AND NOT O_NONBLOCK)) h
              in (if r < 0 then - 1 else 0, h))"

text \<open>The result, the descriptor that is stored through \<open>fd\<close>, and the calls.\<close>

definition IOUtils_tcpConnect :: "os \<Rightarrow> byte list \<Rightarrow> int \<Rightarrow> int \<Rightarrow> io_call list \<Rightarrow> int \<times> int option \<times> io_call list" where
  "IOUtils_tcpConnect S destip destport tcpdelay h =
     (let (sockid, h) = io S Io_socket h
      in if sockid < 0 then (- 1, None, h)
         else
           let h = (if tcpdelay = 0 then snd (io S (Io_nodelay sockid) h) else h);
               (ret, h) = io S (Io_connect sockid (inet_addr S destip) destport) h;
               h = (if ret \<noteq> 0 \<and> sockid \<ge> 0 then snd (io S (Io_close sockid) h) else h)
           in (ret, if ret = 0 then Some sockid else None, h))"

text \<open>The loop over pieces of \<open>IO_MAX_MTU\<close> bytes; each result of \<open>send\<close> is added, whatever it is.\<close>

fun send_pieces :: "os \<Rightarrow> int \<Rightarrow> nat \<Rightarrow> nat \<Rightarrow> int \<Rightarrow> io_call list \<Rightarrow> int \<times> io_call list" where
  "send_pieces S fd len sendLen iRet h =
     (if sendLen = 0 then (iRet, h)
      else let (r, h) = io S (Io_send fd (len - sendLen) (min sendLen 1400)) h
           in send_pieces S fd len (sendLen - 1400) (iRet + r) h)"

declare send_pieces.simps [simp del]

definition IOUtils_tcpSendData :: "os \<Rightarrow> int \<Rightarrow> nat \<Rightarrow> io_call list \<Rightarrow> int \<times> io_call list" where
  "IOUtils_tcpSendData S fd len h =
     (if int len \<le> IO_MAX_MTU then io S (Io_send fd 0 len) h else send_pieces S fd len len 0 h)"

text \<open>The blocks of \<open>tcpListen\<close> under \<open>0 == ret\<close>, in their order.\<close>

definition when_ok :: "int \<Rightarrow> (io_call list \<Rightarrow> int \<times> io_call list) \<Rightarrow> io_call list \<Rightarrow> int \<times> io_call list" where
  "when_ok ret f h = (if ret = 0 then f h else (ret, h))"

definition fails :: "os \<Rightarrow> io_call \<Rightarrow> io_call list \<Rightarrow> int \<times> io_call list" where
  "fails S c h = (let (r, h) = io S c h in (if r < 0 then - 1 else 0, h))"

definition set_options :: "os \<Rightarrow> int \<Rightarrow> io_call list \<Rightarrow> int \<times> io_call list" where
  "set_options S listenFd h =
     (let (r1, h) = fails S (Io_reuseaddr listenFd) h;
          (r2, h) = fails S (Io_nodelay listenFd) h
      in (if r1 < 0 \<or> r2 < 0 then - 1 else 0, h))"

text \<open>The address; \<open>inet_aton\<close> returns nonzero when it succeeds, and stores the address then only.\<close>

definition listen_address :: "os \<Rightarrow> byte list \<Rightarrow> int \<times> 32 word" where
  "listen_address S ip =
     (if c_str ip = [] then (0, INADDR_ANY)
      else case inet_aton S ip of Some a \<Rightarrow> (- 1, a) | None \<Rightarrow> (0, INADDR_ANY))"

definition IOUtils_tcpListen :: "os \<Rightarrow> byte list \<Rightarrow> int \<Rightarrow> bool \<Rightarrow> io_call list \<Rightarrow> int \<times> int option \<times> io_call list" where
  "IOUtils_tcpListen S ip port blocking h =
     (let (listenFd, h) = io S Io_socket h;
          ret = (if listenFd < 0 then - 1 else 0);
          (ret, h) = when_ok ret (\<lambda>h. if blocking then (0, h) else
                       let (r, h) = IOUtils_setNonblock S listenFd h in (if r < 0 then - 1 else 0, h)) h;
          (ret, h) = when_ok ret (set_options S listenFd) h;
          (ret, addr) = (if ret = 0 then listen_address S ip else (ret, INADDR_ANY));
          (ret, h) = when_ok ret (fails S (Io_bind listenFd addr port)) h;
          (ret, h) = when_ok ret (fails S (Io_listen listenFd)) h;
          h = (if ret \<noteq> 0 \<and> listenFd \<ge> 0 then snd (io S (Io_close listenFd) h) else h)
      in (ret, if ret = 0 then Some listenFd else None, h))"

section \<open>Properties\<close>

lemma fails_cases: "fails S c h = (r, h') \<Longrightarrow> (r = 0 \<or> r = - 1) \<and> h' = h @ [c]"
  by (auto simp: fails_def io_def split: if_splits)


text \<open>A system in which every call succeeds, with 7 as the next descriptor.\<close>

definition some_os :: os where
  "some_os = \<lparr>os_result = \<lambda>h c. (case c of Io_socket \<Rightarrow> 7 | Io_send fd p n \<Rightarrow> int n | _ \<Rightarrow> 0),
     inet_aton = \<lambda>ip. if ip = str ''10.0.0.1'' @ [0] then Some 0x0100000a else None, inet_addr = \<lambda>_. 0\<rparr>"


text \<open>
  the test of \<open>inet_aton\<close> is the wrong way round. Given an address that \<open>inet_aton\<close> accepts,
  \<open>tcpListen\<close> fails, whatever the system answers; given one that it does not accept, it listens on
  all addresses if every other call succeeds.
\<close>

theorem tcpListen_address_inverted:
  assumes "c_str ip \<noteq> []"
  shows "(inet_aton S ip \<noteq> None \<longrightarrow> fst (IOUtils_tcpListen S ip port blocking h) = - 1) \<and>
    (inet_aton S ip = None \<and> (\<forall>h c. 0 \<le> os_result S h c) \<longrightarrow>
       (\<exists>cs. IOUtils_tcpListen S ip port blocking h =
         (0, Some (os_result S h Io_socket), cs @ [Io_bind (os_result S h Io_socket) INADDR_ANY port,
            Io_listen (os_result S h Io_socket)])))"
proof (intro conjI impI)
  assume "inet_aton S ip \<noteq> None"
  then show "fst (IOUtils_tcpListen S ip port blocking h) = - 1"
    using assms
    by (auto simp: IOUtils_tcpListen_def IOUtils_setNonblock_def when_ok_def fails_def set_options_def
      listen_address_def io_def Let_def split: if_splits option.splits)
next
  assume a: "inet_aton S ip = None \<and> (\<forall>h c. 0 \<le> os_result S h c)"
  then have "\<not> os_result S h c < 0" for h c
    by (simp add: not_less)
  then show "\<exists>cs. IOUtils_tcpListen S ip port blocking h =
         (0, Some (os_result S h Io_socket), cs @ [Io_bind (os_result S h Io_socket) INADDR_ANY port,
            Io_listen (os_result S h Io_socket)])"
    using a assms
    by (simp add: IOUtils_tcpListen_def IOUtils_setNonblock_def when_ok_def fails_def set_options_def
      listen_address_def io_def Let_def)
qed

theorem tcpListen_address_inverted_witness:
  "fst (IOUtils_tcpListen some_os (str ''10.0.0.1'' @ [0]) 31000 False []) = - 1 \<and>
   fst (IOUtils_tcpListen some_os (str ''nonsense'' @ [0]) 31000 False []) = 0"
proof -
  have "c_str (str ''10.0.0.1'' @ [0]) \<noteq> []" "c_str (str ''nonsense'' @ [0]) \<noteq> []"
    by code_simp+
  moreover have "inet_aton some_os (str ''10.0.0.1'' @ [0]) \<noteq> None" "inet_aton some_os (str ''nonsense'' @ [0]) = None"
    by (simp_all add: some_os_def) code_simp
  moreover have "0 \<le> os_result some_os h c" for h c
    by (simp add: some_os_def split: io_call.split)
  ultimately show ?thesis
    using tcpListen_address_inverted [of "str ''10.0.0.1'' @ [0]" some_os 31000 False "[]"]
      tcpListen_address_inverted [of "str ''nonsense'' @ [0]" some_os 31000 False "[]"] by force
qed

text \<open>The bytes the calls of \<open>send\<close> name, in order.\<close>

fun sent_ranges :: "int \<Rightarrow> io_call list \<Rightarrow> nat list" where
  "sent_ranges fd [] = []"
| "sent_ranges fd (Io_send fd' p n # cs) = (if fd' = fd then [p..<p + n] else []) @ sent_ranges fd cs"
| "sent_ranges fd (c # cs) = sent_ranges fd cs"

lemma sent_ranges_append: "sent_ranges fd (cs @ ds) = sent_ranges fd cs @ sent_ranges fd ds"
  by (induction fd cs rule: sent_ranges.induct) auto

lemma send_pieces_ranges:
  "sendLen \<le> len \<Longrightarrow> send_pieces S fd len sendLen iRet h = (r, h') \<Longrightarrow>
    \<exists>cs. h' = h @ cs \<and> sent_ranges fd cs = [len - sendLen..<len] \<and>
      (\<forall>c \<in> set cs. \<exists>p n. c = Io_send fd p n \<and> n \<le> 1400)"
proof (induction S fd len sendLen iRet h rule: send_pieces.induct)
  case (1 S fd len sendLen iRet h)
  show ?case
  proof (cases "sendLen = 0")
    case True
    with 1 show ?thesis by (simp add: send_pieces.simps)
  next
    case False
    let ?c = "Io_send fd (len - sendLen) (min sendLen 1400)"
    have "send_pieces S fd len (sendLen - 1400) (iRet + os_result S h ?c) (h @ [?c]) = (r, h')"
      using 1(3) False by (subst (asm) send_pieces.simps) (simp add: io_def)
    then obtain cs where cs: "h' = (h @ [?c]) @ cs" "sent_ranges fd cs = [len - (sendLen - 1400)..<len]"
      "\<forall>c \<in> set cs. \<exists>p n. c = Io_send fd p n \<and> n \<le> 1400"
      using 1(1) [OF False, of "(os_result S h ?c, h @ [?c])" "os_result S h ?c" "h @ [?c]"] diff_le_self [of sendLen 1400] 1(2)
      by (auto simp: io_def dest: le_trans)
    have "[len - sendLen..<len - sendLen + min sendLen 1400] @ [len - (sendLen - 1400)..<len] = [len - sendLen..<len]"
    proof -
      have "len - (sendLen - 1400) = len - sendLen + min sendLen 1400"
        using 1(2) by (auto simp: min_def)
      moreover have "len - sendLen + min sendLen 1400 \<le> len"
        using 1(2) by (auto simp: min_def)
      ultimately show ?thesis
        by (metis le_add1 upt_add_eq_append le_Suc_ex)
    qed
    then show ?thesis
      using cs by (intro exI [of _ "?c # cs"]) auto
  qed
qed

text \<open>
  \<open>tcpSendData\<close> names every byte exactly once and in order, in calls of at most 1400 bytes; it
  never looks at how many bytes a call took, so what one call leaves unsent is skipped.
\<close>

theorem tcpSendData_covers:
  "\<exists>cs. snd (IOUtils_tcpSendData S fd len h) = h @ cs \<and> sent_ranges fd cs = [0..<len] \<and>
    (\<forall>c \<in> set cs. \<exists>p n. c = Io_send fd p n \<and> n \<le> 1400)"
proof (cases "int len \<le> IO_MAX_MTU")
  case True
  then show ?thesis
    by (auto simp: IOUtils_tcpSendData_def io_def IO_MAX_MTU_def)
next
  case False
  then show ?thesis
    using send_pieces_ranges [of len len S fd 0 h] by (cases "send_pieces S fd len len 0 h") (auto simp: IOUtils_tcpSendData_def)
qed

end
