(* ===== verification/NAL.thy ===== *)
theory NAL
  imports VideoTask
begin

text \<open>
  \<open>NALDecoder.cpp\<close> and the sending half of \<open>TaskVideoSend\<close>: a file in the Annex B format is cut at its
  start codes, and one NAL unit is sent per call of \<open>writeBuffer\<close>. A \<open>FILE*\<close> is the contents, the
  position and the end-of-file flag.
\<close>

section \<open>Streams\<close>

record bitstream =
  bs_bytes :: "byte list"
  bs_pos :: nat
  bs_eof :: bool

definition fread :: "nat \<Rightarrow> bitstream \<Rightarrow> byte list \<times> bitstream" where
  "fread n f =
     (if bs_eof f then ([], f)
      else let xs = take n (drop (bs_pos f) (bs_bytes f))
           in (xs, f\<lparr>bs_pos := bs_pos f + length xs, bs_eof := length xs < n\<rparr>))"

text \<open>\<open>fgetc\<close> as it is stored into a byte: \<open>EOF\<close> becomes 255.\<close>

definition fgetc :: "bitstream \<Rightarrow> byte \<times> bitstream" where
  "fgetc f =
     (if bs_eof f \<or> bs_pos f \<ge> length (bs_bytes f) then (255, f\<lparr>bs_eof := True\<rparr>)
      else (bs_bytes f ! bs_pos f, f\<lparr>bs_pos := bs_pos f + 1\<rparr>))"

text \<open>\<open>fseek\<close> backwards from the current position; it clears the flag.\<close>

definition fseek_back :: "nat \<Rightarrow> bitstream \<Rightarrow> bool \<times> bitstream" where
  "fseek_back n f = (if n \<le> bs_pos f then (True, f\<lparr>bs_pos := bs_pos f - n, bs_eof := False\<rparr>) else (False, f))"

section \<open>NAL units\<close>

record NALU_t =
  startcodeprefix_len :: nat
  nal_len :: nat
  nal_max_size :: nat
  forbidden_bit :: byte
  nal_reference_idc :: byte
  nal_unit_type :: byte
  nal_buf :: "byte list"

text \<open>Both failures of \<open>calloc\<close> end the process.\<close>

definition AllocNALU :: "bool \<Rightarrow> nat \<Rightarrow> NALU_t outcome" where
  "AllocNALU ok buffersize =
     (if \<not> ok then Inl Exit_errx
      else Inr \<lparr>startcodeprefix_len = 0, nal_len = 0, nal_max_size = buffersize, forbidden_bit = 0,
        nal_reference_idc = 0, nal_unit_type = 0, nal_buf = replicate buffersize 0\<rparr>)"

definition OpenBitstreamFile :: "byte list option \<Rightarrow> bitstream outcome" where
  "OpenBitstreamFile c =
     (case c of None \<Rightarrow> Inl Exit_errx | Some xs \<Rightarrow> Inr \<lparr>bs_bytes = xs, bs_pos = 0, bs_eof = False\<rparr>)"

definition FindStartCode2 :: "byte list \<Rightarrow> nat \<Rightarrow> bool" where
  "FindStartCode2 Buf p \<longleftrightarrow> \<not> (Buf ! p \<noteq> 0 \<or> Buf ! (p + 1) \<noteq> 0 \<or> Buf ! (p + 2) \<noteq> 1)"

definition FindStartCode3 :: "byte list \<Rightarrow> nat \<Rightarrow> bool" where
  "FindStartCode3 Buf p \<longleftrightarrow> \<not> (Buf ! p \<noteq> 0 \<or> Buf ! (p + 1) \<noteq> 0 \<or> Buf ! (p + 2) \<noteq> 0 \<or> Buf ! (p + 3) \<noteq> 1)"

text \<open>
  The loop \<open>while (!StartCodeFound)\<close>: the result is the buffer, \<open>pos\<close>, whether \<open>info2\<close> and \<open>info3\<close>
  are set, and the stream. Every turn reads a byte or sets the flag, so it ends.
\<close>

function scan_nalu :: "byte list \<Rightarrow> nat \<Rightarrow> bool \<Rightarrow> bool \<Rightarrow> bitstream \<Rightarrow> (byte list \<times> nat \<times> bool \<times> bool \<times> bitstream) outcome" where
  "scan_nalu Buf pos info2 info3 f =
     (if info2 \<or> info3 \<or> bs_eof f then Inr (Buf, pos, info2, info3, f)
      else if pos \<ge> length Buf then Inl Out_of_bounds
      else
        let (c, f) = fgetc f;
            Buf = Buf[pos := c];
            pos = pos + 1;
            info3 = FindStartCode3 Buf (pos - 4);
            info2 = (if \<not> info3 then FindStartCode2 Buf (pos - 3) else info2)
        in scan_nalu Buf pos info2 info3 f)"
  by pat_completeness auto

termination
  by (relation "measure (\<lambda>(Buf, pos, info2, info3, f). (length (bs_bytes f) - bs_pos f) + (if bs_eof f then 0 else 1))")
    (auto simp: fgetc_def split: if_splits)

declare scan_nalu.simps [simp del]

text \<open>The assignments after the loop; \<open>n\<close> is the number of bytes of the unit with its start code.\<close>

definition set_nalu :: "byte list \<Rightarrow> nat \<Rightarrow> NALU_t \<Rightarrow> NALU_t outcome" where
  "set_nalu Buf n nalu =
     (let len = n - startcodeprefix_len nalu
      in bnd (load Buf (startcodeprefix_len nalu) len) (\<lambda>xs.
         bnd (store (nal_buf nalu) 0 xs) (\<lambda>buf.
         bnd (load buf 0 1) (\<lambda>ys.
         let c = hd ys
         in Inr (nalu\<lparr>nal_len := len, nal_buf := buf, forbidden_bit := and c 0x80, nal_reference_idc := and c 0x60,
              nal_unit_type := and c 0x1f\<rparr>)))))"

text \<open>From the loop on: the start code of this unit is in \<open>Buf\<close>, before \<open>pos\<close>.\<close>

definition rest_of_nalu :: "byte list \<Rightarrow> nat \<Rightarrow> NALU_t \<Rightarrow> bitstream \<Rightarrow> (int \<times> NALU_t \<times> bitstream) outcome" where
  "rest_of_nalu Buf pos nalu f =
     bnd (scan_nalu Buf pos False False f) (\<lambda>(Buf, pos, info2, info3, f).
     if \<not> (info2 \<or> info3) then
       bnd (set_nalu Buf (pos - 1) nalu) (\<lambda>nalu. Inr (int (pos - 1), nalu, f))
     else
       let n = (if info3 then 4 else 3);
           (moved, f) = fseek_back n f
       in bnd (set_nalu Buf (pos - n) nalu) (\<lambda>nalu. Inr (int (pos - n), nalu, f)))"

text \<open>\<open>ok\<close>: \<open>calloc\<close> of the buffer succeeds; a failure is only printed.\<close>

definition GetAnnexbNALU :: "bool \<Rightarrow> bitstream \<Rightarrow> NALU_t \<Rightarrow> (int \<times> NALU_t \<times> bitstream) outcome" where
  "GetAnnexbNALU ok f nalu =
     (if \<not> ok then Inl Null_deref
      else
        let nalu = nalu\<lparr>startcodeprefix_len := 3\<rparr>;
            (xs, f) = fread 3 f
        in bnd (store (replicate (nal_max_size nalu) 0) 0 xs) (\<lambda>Buf.
           if length xs \<noteq> 3 then Inr (0, nalu, f)
           else
             if FindStartCode2 Buf 0 then rest_of_nalu Buf 3 nalu f
             else
               let (ys, f) = fread 1 f
               in bnd (store Buf 3 ys) (\<lambda>Buf.
                  if length ys \<noteq> 1 then Inr (0, nalu, f)
                  else if \<not> FindStartCode3 Buf 0 then Inr (- 1, nalu, f)
                  else rest_of_nalu Buf 4 (nalu\<lparr>startcodeprefix_len := 4\<rparr>) f)))"

section \<open>Sending a file\<close>

record video_sender =
  vs_task :: video_task
  vs_file :: bitstream
  vs_nalu :: NALU_t

text \<open>The constructor opens the file, allocates the unit and announces itself.\<close>

definition TaskVideoSend_new :: "sock \<Rightarrow> byte list \<Rightarrow> evbuffer \<Rightarrow> byte list option \<Rightarrow> bool \<Rightarrow> video_sender outcome" where
  "TaskVideoSend_new s memory cache content ok =
     bnd (OpenBitstreamFile content) (\<lambda>f.
     bnd (AllocNALU ok 8000000) (\<lambda>n.
     bnd (tpcSendMsg VIDEO_RECV_MSG (TaskVideoRecv_new s memory cache True)) (\<lambda>(r, t).
     Inr \<lparr>vs_task = t, vs_file = f, vs_nalu = n\<rparr>)))"

text \<open>A result below 4 is logged; the unit is sent all the same.\<close>

definition TaskVideoSend_writeBuffer :: "bool \<Rightarrow> video_sender \<Rightarrow> (int \<times> video_sender) outcome" where
  "TaskVideoSend_writeBuffer ok t =
     (if bs_eof (vs_file t) then Inr (0, t)
      else
        bnd (GetAnnexbNALU ok (vs_file t) (vs_nalu t)) (\<lambda>(size, n, f).
        bnd (TaskVideoSend_tcpSendData (nal_buf n) (c_int (int (nal_len n))) (vs_task t)) (\<lambda>(ret, k).
        Inr (ret, t\<lparr>vs_task := k, vs_file := f, vs_nalu := n\<rparr>))))"

end
