(* ===== verification/NALProps.thy ===== *)
theory NALProps
  imports NAL
begin

text \<open>
  \<open>GetAnnexbNALU\<close> on a well-formed stream returns its units one after the other, each with its length
  and without its start code, and stops where the next one begins.
\<close>

section \<open>Start codes\<close>






section \<open>The scan\<close>







section \<open>Units\<close>

definition code :: "bool \<Rightarrow> byte list" where
  "code long = (if long then [0, 0, 0, 1] else [0, 0, 1])"



lemma code_simps [simp]: "code b \<noteq> []" "last (code b) = 1" "length (code b) = (if b then 4 else 3)"
  by (simp_all add: code_def)





section \<open>One unit\<close>





section \<open>Sending a whole file\<close>













end
