(* ===== verification/ThreadPool.thy ===== *)
theory ThreadPool
  imports ThreadQueue
begin

text \<open>
  \<open>common/gthread/gthreadpool.cpp\<close>: a pool that keeps its threads when their job is done. A
  \<open>GThread_t\<close> is known by its address; \<open>workers\<close> holds the ones that exist with the place their
  \<open>wrapperFunc\<close> has reached. Every method holds \<open>mMainMutex\<close> except while it waits, so a run is a
  sequence of steps, one per critical section or wait. A worker keeps its own mutex from
  \<open>saveThread\<close> until it waits for its condition, so no signal to it comes in between.
\<close>

section \<open>State\<close>

datatype place =
    At_top
  | Running
  | Idle
  | Leaving
  | Gone

record 'j worker =
  place :: place
  job :: 'j

text \<open>
  Where the destructor is: not called, in the wait for \<open>mFullCond\<close>, woken from it, in the wait
  for \<open>mEmptyCond\<close>, woken from it, returned.
\<close>

datatype destroyer =
    Uncalled
  | Waits_full
  | Woken_full
  | Waits_empty
  | Woken_empty
  | Destroyed

text \<open>\<open>idle_waiting\<close> and \<open>idle_woken\<close>: the threads in \<open>dispatch\<close> that wait for \<open>mIdleCond\<close> or have
  been woken from it, each with its job.\<close>

record 'j pool =
  mMaxThreads :: int
  mIndex :: int
  mTotal :: int
  mIsShutdown :: bool
  mThreadList :: "nat option list"
  workers :: "nat \<rightharpoonup> 'j worker"
  idle_waiting :: "nat \<rightharpoonup> 'j"
  idle_woken :: "nat \<rightharpoonup> 'j"
  destroyer :: destroyer

definition GThreadPool_new :: "int \<Rightarrow> 'j pool" where
  "GThreadPool_new maxThreads =
     (let maxThreads = (if maxThreads \<le> 0 then 2 else maxThreads)
      in \<lparr>mMaxThreads = maxThreads, mIndex = 0, mTotal = 0, mIsShutdown = False,
          mThreadList = replicate (nat maxThreads) None, workers = Map.empty,
          idle_waiting = Map.empty, idle_woken = Map.empty, destroyer = Uncalled\<rparr>)"

section \<open>Methods\<close>

definition move :: "nat \<Rightarrow> place \<Rightarrow> 'j pool \<Rightarrow> 'j pool" where
  "move t p s = s\<lparr>workers := (workers s)(t := map_option (\<lambda>w. w\<lparr>place := p\<rparr>) (workers s t))\<rparr>"

text \<open>\<open>pthread_cond_signal\<close> on the condition of a worker.\<close>

definition signal_worker :: "nat \<Rightarrow> 'j pool \<Rightarrow> 'j pool" where
  "signal_worker t s =
     (case workers s t of Some w \<Rightarrow> if place w = Idle then move t At_top s else s | None \<Rightarrow> s)"

text \<open>The test before the wait in \<open>dispatch\<close>, and what follows it: \<open>t\<close> is the address of the new
  \<open>GThread_t\<close>, \<open>created\<close> whether \<open>pthread_create\<close> succeeds.\<close>

definition dispatch_waits :: "'j pool \<Rightarrow> bool" where
  "dispatch_waits s \<longleftrightarrow> mIndex s \<le> 0 \<and> mTotal s \<ge> mMaxThreads s"

definition dispatch_body :: "bool \<Rightarrow> nat \<Rightarrow> 'j \<Rightarrow> 'j pool \<Rightarrow> (int \<times> 'j pool) outcome" where
  "dispatch_body created t arg s =
     (if mIndex s \<le> 0 then
        if created then
          Inr (0, s\<lparr>mTotal := mTotal s + 1, workers := (workers s)(t \<mapsto> \<lparr>place = At_top, job = arg\<rparr>)\<rparr>)
        else Inr (- 1, s)
      else
        let i = mIndex s - 1
        in if nat i \<ge> length (mThreadList s) then Inl Out_of_bounds
           else case mThreadList s ! nat i of
             None \<Rightarrow> Inl Null_deref
           | Some thread \<Rightarrow>
               (case workers s thread of
                  None \<Rightarrow> Inl Use_after_free
                | Some w \<Rightarrow>
                    let s = s\<lparr>mIndex := i, mThreadList := (mThreadList s)[nat i := None],
                              workers := (workers s)(thread \<mapsto> w\<lparr>job := arg\<rparr>)\<rparr>
                    in Inr (0, signal_worker thread s)))"

text \<open>\<open>pthread_cond_signal\<close> on \<open>mIdleCond\<close>, which wakes \<open>d\<close>, and on \<open>mFullCond\<close>.\<close>

definition signal_idle :: "nat option \<Rightarrow> 'j pool \<Rightarrow> 'j pool" where
  "signal_idle d s =
     (case d of None \<Rightarrow> s
      | Some d \<Rightarrow> s\<lparr>idle_waiting := (idle_waiting s)(d := None), idle_woken := (idle_woken s)(d := idle_waiting s d)\<rparr>)"

definition can_wake :: "nat option \<Rightarrow> 'j pool \<Rightarrow> bool" where
  "can_wake d s \<longleftrightarrow> (case d of None \<Rightarrow> idle_waiting s = Map.empty | Some d \<Rightarrow> idle_waiting s d \<noteq> None)"

definition signal_full :: "'j pool \<Rightarrow> 'j pool" where
  "signal_full s = (if destroyer s = Waits_full then s\<lparr>destroyer := Woken_full\<rparr> else s)"

definition saveThread :: "nat option \<Rightarrow> nat \<Rightarrow> 'j pool \<Rightarrow> int \<times> 'j pool" where
  "saveThread d thread s =
     (if mIndex s < mMaxThreads s then
        let s = s\<lparr>mThreadList := (mThreadList s)[nat (mIndex s) := Some thread], mIndex := mIndex s + 1\<rparr>;
            s = signal_idle d s
        in (0, if mIndex s \<ge> mTotal s then signal_full s else s)
      else (- 1, s))"

text \<open>The end of \<open>wrapperFunc\<close>.\<close>

definition leave :: "nat \<Rightarrow> 'j pool \<Rightarrow> 'j pool" where
  "leave t s =
     (let s = move t Gone (s\<lparr>mTotal := mTotal s - 1\<rparr>)
      in if mTotal s \<le> 0 \<and> destroyer s = Waits_empty then s\<lparr>destroyer := Woken_empty\<rparr> else s)"

text \<open>The destructor between its two waits, and after them.\<close>

definition destroy_threads :: "'j pool \<Rightarrow> 'j pool" where
  "destroy_threads s =
     s\<lparr>workers := (\<lambda>t. if Some t \<in> set (take (nat (mIndex s)) (mThreadList s)) then None else workers s t),
       mThreadList := [], mIndex := 0, destroyer := Destroyed\<rparr>"

definition destroy_shutdown :: "'j pool \<Rightarrow> 'j pool" where
  "destroy_shutdown s =
     (let s = s\<lparr>mIsShutdown := True\<rparr>;
          s = fold signal_worker (map the (take (nat (mIndex s)) (mThreadList s))) s
      in if mTotal s > 0 then s\<lparr>destroyer := Waits_empty\<rparr> else destroy_threads s)"

section \<open>Steps\<close>

datatype 'j pool_event =
    Dispatched nat 'j int
  | Waited nat 'j
  | Called nat 'j
  | Saved nat
  | Dropped nat
  | Left_loop nat
  | Exited nat
  | Destroy
  | Shut_down
  | Freed
  | Spurious nat
  | Spurious_worker nat
  | Spurious_destroy

inductive pool_step :: "'j pool \<Rightarrow> 'j pool_event \<Rightarrow> 'j pool \<Rightarrow> bool" where
  dispatch_now: "\<not> dispatch_waits s \<Longrightarrow> idle_waiting s d = None \<Longrightarrow> idle_woken s d = None \<Longrightarrow> workers s t = None \<Longrightarrow>
    dispatch_body ok t x s = Inr (r, s') \<Longrightarrow> pool_step s (Dispatched d x r) s'"
| dispatch_wait: "dispatch_waits s \<Longrightarrow> idle_waiting s d = None \<Longrightarrow> idle_woken s d = None \<Longrightarrow>
    pool_step s (Waited d x) (s\<lparr>idle_waiting := (idle_waiting s)(d \<mapsto> x)\<rparr>)"
| dispatch_spurious: "idle_waiting s d = Some x \<Longrightarrow> pool_step s (Spurious d) (signal_idle (Some d) s)"
| dispatch_after: "idle_woken s d = Some x \<Longrightarrow> workers s t = None \<Longrightarrow>
    dispatch_body ok t x (s\<lparr>idle_woken := (idle_woken s)(d := None)\<rparr>) = Inr (r, s') \<Longrightarrow>
    pool_step s (Dispatched d x r) s'"
| call: "workers s t = Some w \<Longrightarrow> place w = At_top \<Longrightarrow> \<not> mIsShutdown s \<Longrightarrow>
    pool_step s (Called t (job w)) (move t Running s)"
| save: "workers s t = Some w \<Longrightarrow> place w = Running \<Longrightarrow> can_wake d s \<Longrightarrow> saveThread d t s = (0, s') \<Longrightarrow>
    pool_step s (Saved t) (move t Idle s')"
| drop_thread: "workers s t = Some w \<Longrightarrow> place w = Running \<Longrightarrow> saveThread d t s = (- 1, s') \<Longrightarrow>
    pool_step s (Dropped t) (s'\<lparr>workers := (workers s')(t := None)\<rparr>)"
| worker_spurious: "workers s t = Some w \<Longrightarrow> place w = Idle \<Longrightarrow> pool_step s (Spurious_worker t) (move t At_top s)"
| left_loop: "workers s t = Some w \<Longrightarrow> place w = At_top \<Longrightarrow> mIsShutdown s \<Longrightarrow>
    pool_step s (Left_loop t) (move t Leaving s)"
| exited: "workers s t = Some w \<Longrightarrow> place w = Leaving \<Longrightarrow> pool_step s (Exited t) (leave t s)"
| destroy: "destroyer s = Uncalled \<Longrightarrow>
    pool_step s Destroy (if mIndex s < mTotal s then s\<lparr>destroyer := Waits_full\<rparr> else destroy_shutdown s)"
| shut_down: "destroyer s = Woken_full \<Longrightarrow> pool_step s Shut_down (destroy_shutdown s)"
| freed: "destroyer s = Woken_empty \<Longrightarrow> pool_step s Freed (destroy_threads s)"
| destroy_spurious: "destroyer s = Waits_full \<and> p = Woken_full \<or> destroyer s = Waits_empty \<and> p = Woken_empty \<Longrightarrow>
    pool_step s Spurious_destroy (s\<lparr>destroyer := p\<rparr>)"

inductive_cases pool_stepE:
  "pool_step s (Dispatched d x r) s'"
  "pool_step s (Waited d x) s'"
  "pool_step s (Called t x) s'"
  "pool_step s (Saved t) s'"
  "pool_step s (Dropped t) s'"
  "pool_step s (Left_loop t) s'"
  "pool_step s (Exited t) s'"
  "pool_step s Destroy s'"
  "pool_step s Shut_down s'"
  "pool_step s Freed s'"

section \<open>Counting over workers\<close>

definition tally :: "('j worker \<Rightarrow> 'm::comm_monoid_add) \<Rightarrow> (nat \<rightharpoonup> 'j worker) \<Rightarrow> 'm" where
  "tally f W = (\<Sum>t\<in>dom W. f (the (W t)))"

lemma tally_delete: "finite (dom W) \<Longrightarrow> W t = Some w \<Longrightarrow> tally f W = f w + tally f (W(t := None))"
proof -
  assume a: "finite (dom W)" "W t = Some w"
  then have "tally f W = f w + (\<Sum>t\<in>dom W - {t}. f (the (W t)))"
    using sum.remove [of "dom W" t "\<lambda>t. f (the (W t))"] by (auto simp: tally_def)
  also have "(\<Sum>t\<in>dom W - {t}. f (the (W t))) = tally f (W(t := None))"
    by (auto simp: tally_def intro!: sum.cong)
  finally show ?thesis .
qed

lemma tally_insert: "finite (dom W) \<Longrightarrow> W t = None \<Longrightarrow> tally f (W(t \<mapsto> w)) = f w + tally f W"
  using tally_delete [of "W(t \<mapsto> w)" t w f] by (simp add: fun_upd_idem)

lemma tally_update: "finite (dom W) \<Longrightarrow> W t = Some w \<Longrightarrow> tally f (W(t \<mapsto> w')) = f w' + tally f (W(t := None))"
  using tally_delete [of "W(t \<mapsto> w')" t w' f] by simp

definition busy :: "'j worker \<Rightarrow> nat" where
  "busy w = (case place w of Idle \<Rightarrow> 0 | Gone \<Rightarrow> 0 | _ \<Rightarrow> 1)"

definition awaits_call :: "'j worker \<Rightarrow> 'j multiset" where
  "awaits_call w = (if place w = At_top then {#job w#} else {#})"

lemma tally_busy_0: "finite (dom W) \<Longrightarrow> tally busy W = 0 \<Longrightarrow> W t = Some w \<Longrightarrow> busy w = 0"
  by (force simp: tally_def)

fun called :: "'j pool_event list \<Rightarrow> 'j list" where
  "called [] = []"
| "called (Called t x # es) = x # called es"
| "called (e # es) = called es"

fun dispatched :: "'j pool_event list \<Rightarrow> 'j list" where
  "dispatched [] = []"
| "dispatched (Dispatched d x r # es) = (if r = 0 then x # dispatched es else dispatched es)"
| "dispatched (e # es) = dispatched es"

lemma called_append [simp]: "called (as @ bs) = called as @ called bs"
  by (induction as rule: called.induct) auto

lemma dispatched_append [simp]: "dispatched (as @ bs) = dispatched as @ dispatched bs"
  by (induction as rule: dispatched.induct) auto

section \<open>Calm runs\<close>

text \<open>No wait ends without a signal, and nothing is dispatched once the destructor has been called.\<close>

fun calm :: "'j pool \<Rightarrow> 'j pool_event \<Rightarrow> bool" where
  "calm s (Spurious d) = False"
| "calm s (Spurious_worker t) = False"
| "calm s Spurious_destroy = False"
| "calm s (Dispatched d x r) = (destroyer s = Uncalled)"
| "calm s (Waited d x) = (destroyer s = Uncalled)"
| "calm s e = True"

definition calm_step :: "'j pool \<Rightarrow> 'j pool_event \<Rightarrow> 'j pool \<Rightarrow> bool" where
  "calm_step s e s' \<longleftrightarrow> pool_step s e s' \<and> calm s e"

section \<open>The invariant\<close>

text \<open>The first \<open>mIndex\<close> entries of the list are the threads \<open>ts\<close>.\<close>

definition listed :: "'j pool \<Rightarrow> nat list \<Rightarrow> bool" where
  "listed s ts \<longleftrightarrow> mIndex s = int (length ts) \<and> length ts \<le> length (mThreadList s) \<and>
     take (length ts) (mThreadList s) = map Some ts"

definition live :: "'j pool_event list \<Rightarrow> 'j pool \<Rightarrow> bool" where
  "live es s \<longleftrightarrow>
     (\<exists>ts. listed s ts \<and> distinct ts \<and> (\<forall>t. t \<in> set ts \<longleftrightarrow> (\<exists>w. workers s t = Some w \<and> place w = Idle))) \<and>
     finite (dom (workers s)) \<and> int (length (mThreadList s)) = mMaxThreads s \<and> \<not> mIsShutdown s \<and>
     (\<forall>t w. workers s t = Some w \<longrightarrow> place w \<in> {At_top, Running, Idle}) \<and>
     int (tally busy (workers s)) + mIndex s \<le> mTotal s \<and>
     mset (called es) + tally awaits_call (workers s) = mset (dispatched es) \<and>
     destroyer s \<in> {Uncalled, Waits_full, Woken_full} \<and> (destroyer s = Woken_full \<longrightarrow> mTotal s \<le> mIndex s)"

definition shut :: "'j pool_event list \<Rightarrow> 'j pool \<Rightarrow> bool" where
  "shut es s \<longleftrightarrow> (\<exists>ts. listed s ts \<and> dom (workers s) = set ts) \<and> mIsShutdown s \<and>
     (\<forall>t w. workers s t = Some w \<longrightarrow> place w \<in> {At_top, Leaving, Gone}) \<and>
     int (tally busy (workers s)) \<le> mTotal s \<and> mset (called es) = mset (dispatched es) \<and>
     destroyer s \<in> {Waits_empty, Woken_empty} \<and> (destroyer s = Woken_empty \<longrightarrow> mTotal s \<le> 0)"

definition over :: "'j pool_event list \<Rightarrow> 'j pool \<Rightarrow> bool" where
  "over es s \<longleftrightarrow> destroyer s = Destroyed \<and> workers s = Map.empty \<and> mset (called es) = mset (dispatched es)"

lemma live_new: "live [] (GThreadPool_new n)"
  by (simp add: live_def GThreadPool_new_def listed_def Let_def tally_def)

lemma listed_cong: "listed s ts \<Longrightarrow> mIndex s = mIndex s' \<Longrightarrow> mThreadList s = mThreadList s' \<Longrightarrow> listed s' ts"
  by (simp add: listed_def)

lemma listed_append:
  assumes "listed s ts" "length ts < length (mThreadList s)"
  shows "listed (s\<lparr>mThreadList := (mThreadList s)[nat (mIndex s) := Some t], mIndex := mIndex s + 1\<rparr>) (ts @ [t])"
  using assms by (auto simp: listed_def take_Suc_conv_app_nth)

lemma listed_last:
  assumes "listed s (ts @ [t])"
  shows "mThreadList s ! nat (mIndex s - 1) = Some t" "nat (mIndex s - 1) < length (mThreadList s)" "mIndex s > 0"
    "listed (s\<lparr>mIndex := mIndex s - 1, mThreadList := (mThreadList s)[nat (mIndex s - 1) := None]\<rparr>) ts"
  using assms by (auto simp: listed_def take_Suc_conv_app_nth)

lemma dispatch_new:
  "mIndex s \<le> 0 \<Longrightarrow> dispatch_body ok t x s =
    (if ok then Inr (0, s\<lparr>mTotal := mTotal s + 1, workers := (workers s)(t \<mapsto> \<lparr>place = At_top, job = x\<rparr>)\<rparr>)
     else Inr (- 1, s))"
  by (simp add: dispatch_body_def)

lemma dispatch_reuse:
  assumes "listed s (us @ [u])" "workers s u = Some w" "place w = Idle"
  shows "dispatch_body ok t x s =
    Inr (0, s\<lparr>mIndex := mIndex s - 1, mThreadList := (mThreadList s)[nat (mIndex s - 1) := None],
      workers := (workers s)(u \<mapsto> w\<lparr>place := At_top, job := x\<rparr>)\<rparr>)"
  using assms listed_last [OF assms(1)] by (cases w) (simp add: dispatch_body_def Let_def signal_worker_def move_def)

lemma liveI:
  assumes "listed s ts" "distinct ts" "\<And>t. t \<in> set ts \<longleftrightarrow> (\<exists>w. workers s t = Some w \<and> place w = Idle)"
    and "finite (dom (workers s))" "int (length (mThreadList s)) = mMaxThreads s" "\<not> mIsShutdown s"
    and "\<And>t w. workers s t = Some w \<Longrightarrow> place w \<in> {At_top, Running, Idle}"
    and "int (tally busy (workers s)) + mIndex s \<le> mTotal s"
    and "mset (called es) + tally awaits_call (workers s) = mset (dispatched es)"
    and "destroyer s \<in> {Uncalled, Waits_full, Woken_full}" "destroyer s = Woken_full \<Longrightarrow> mTotal s \<le> mIndex s"
  shows "live es s"
  using assms unfolding live_def by blast

lemma live_dispatch:
  assumes "live es s" "workers s t = None" "dispatch_body ok t x s = Inr (r, s')" "destroyer s = Uncalled"
  shows "live (es @ [Dispatched d x r]) s'"
proof -
  from assms(1) obtain ts where ts: "listed s ts" "distinct ts"
    "\<And>t. t \<in> set ts \<longleftrightarrow> (\<exists>w. workers s t = Some w \<and> place w = Idle)"
    and fin: "finite (dom (workers s))" and busy: "int (tally busy (workers s)) + mIndex s \<le> mTotal s"
    and jobs: "mset (called es) + tally awaits_call (workers s) = mset (dispatched es)"
    and rest: "int (length (mThreadList s)) = mMaxThreads s" "\<not> mIsShutdown s"
      "\<And>t w. workers s t = Some w \<Longrightarrow> place w \<in> {At_top, Running, Idle}"
    unfolding live_def by blast
  show ?thesis
  proof (cases ts rule: rev_cases)
    case Nil
    then have i: "mIndex s = 0"
      using ts(1) by (simp add: listed_def)
    show ?thesis
    proof (cases ok)
      case True
      with assms(3) i have r: "r = 0" "s' = s\<lparr>mTotal := mTotal s + 1, workers := (workers s)(t \<mapsto> \<lparr>place = At_top, job = x\<rparr>)\<rparr>"
        by (simp_all add: dispatch_new)
      have "listed s' []"
        using i r by (simp add: listed_def)
      moreover have "v \<in> set [] \<longleftrightarrow> (\<exists>w. workers s' v = Some w \<and> place w = Idle)" for v
        using ts(3) [of v] r Nil by auto
      moreover have "place w \<in> {At_top, Running, Idle}" if "workers s' v = Some w" for v w
        using that rest(3) [of v] r by (auto split: if_splits)
      moreover have "tally busy (workers s') = 1 + tally busy (workers s)"
        "tally awaits_call (workers s') = {#x#} + tally awaits_call (workers s)"
        using r fin assms(2) by (simp_all add: tally_insert busy_def awaits_call_def)
      ultimately show ?thesis
        using r fin busy jobs rest(1,2) assms(4) i by (intro liveI [where ts = "[]"]) simp_all
    next
      case False
      with assms i have "r = - 1" "s' = s"
        by (simp_all add: dispatch_new)
      with assms(1) show ?thesis
        by (simp add: live_def)
    qed
  next
    case (snoc us u)
    then obtain w where w: "workers s u = Some w" "place w = Idle"
      using ts(3) [of u] by auto
    note st = listed_last [OF ts(1) [unfolded snoc]]
    have r: "r = 0" "s' = s\<lparr>mIndex := mIndex s - 1, mThreadList := (mThreadList s)[nat (mIndex s - 1) := None],
      workers := (workers s)(u \<mapsto> w\<lparr>place := At_top, job := x\<rparr>)\<rparr>"
      using assms(3) dispatch_reuse [OF ts(1) [unfolded snoc] w] by simp_all
    have "listed s' us"
      using st(4) by (rule listed_cong) (simp_all add: r)
    moreover have "v \<in> set us \<longleftrightarrow> (\<exists>w. workers s' v = Some w \<and> place w = Idle)" for v
      using ts(2) ts(3) [of v] r snoc by (cases "v = u") auto
    moreover have "place w \<in> {At_top, Running, Idle}" if "workers s' v = Some w" for v w
      using that rest(3) [of v] r by (auto split: if_splits)
    moreover have "tally busy (workers s') = 1 + tally busy (workers s)"
      "tally awaits_call (workers s') = {#x#} + tally awaits_call (workers s)"
      using r fin w by (simp_all add: tally_update tally_delete [OF fin w(1)] busy_def awaits_call_def)
    ultimately show ?thesis
      using r fin busy jobs rest(1,2) assms(4) ts(2) snoc by (intro liveI [where ts = us]) simp_all
  qed
qed

lemma move_some: "workers s t = Some w \<Longrightarrow> move t p s = s\<lparr>workers := (workers s)(t \<mapsto> w\<lparr>place := p\<rparr>)\<rparr>"
  by (simp add: move_def)

lemma live_call:
  assumes "live es s" "workers s t = Some w" "place w = At_top"
  shows "live (es @ [Called t (job w)]) (move t Running s)"
proof -
  from assms(1) obtain ts where ts: "listed s ts" "distinct ts"
    "\<And>t. t \<in> set ts \<longleftrightarrow> (\<exists>w. workers s t = Some w \<and> place w = Idle)"
    unfolding live_def by blast
  have fin: "finite (dom (workers s))"
    using assms(1) by (simp add: live_def)
  note del = tally_delete [OF fin assms(2)] tally_update [OF fin assms(2)]
  have "listed (move t Running s) ts"
    using ts(1) by (rule listed_cong) (simp_all add: move_def)
  moreover have "v \<in> set ts \<longleftrightarrow> (\<exists>w. workers (move t Running s) v = Some w \<and> place w = Idle)" for v
    using ts(3) [of v] assms(2,3) by (cases "v = t") (auto simp: move_def)
  moreover have "place w \<in> {At_top, Running, Idle}" if "workers (move t Running s) v = Some w" for v w
    using that assms(1) by (auto simp: move_def live_def split: if_splits)
  ultimately show ?thesis
    using assms fin ts(2) by (intro liveI [where ts = ts]) (auto simp: live_def move_some del busy_def awaits_call_def)
qed

lemma live_save:
  assumes "live es s" "workers s t = Some w" "place w = Running" "saveThread d t s = (0, s')"
  shows "live (es @ [Saved t]) (move t Idle s')"
proof -
  from assms(1) obtain ts where ts: "listed s ts" "distinct ts"
    "\<And>t. t \<in> set ts \<longleftrightarrow> (\<exists>w. workers s t = Some w \<and> place w = Idle)"
    unfolding live_def by blast
  have fin: "finite (dom (workers s))"
    using assms(1) by (simp add: live_def)
  note del = tally_delete [OF fin assms(2)] tally_update [OF fin assms(2)]
  have room: "mIndex s < mMaxThreads s"
    using assms(4) by (auto simp: saveThread_def split: if_splits)
  let ?s = "s\<lparr>mThreadList := (mThreadList s)[nat (mIndex s) := Some t], mIndex := mIndex s + 1\<rparr>"
  have s': "s' = (let s = signal_idle d ?s in if mIndex s \<ge> mTotal s then signal_full s else s)"
    using assms(4) room by (simp add: saveThread_def Let_def)
  then have f: "workers s' = workers s" "mTotal s' = mTotal s" "mIndex s' = mIndex s + 1" "mThreadList s' = mThreadList ?s"
    "mMaxThreads s' = mMaxThreads s" "mIsShutdown s' = mIsShutdown s"
    "destroyer s' = (if mIndex s + 1 \<ge> mTotal s \<and> destroyer s = Waits_full then Woken_full else destroyer s)"
    by (simp_all add: signal_idle_def signal_full_def Let_def split: option.splits)
  have "length ts < length (mThreadList s)"
    using ts(1) room assms(1) by (simp add: listed_def live_def)
  then have "listed ?s (ts @ [t])"
    using ts(1) by (intro listed_append)
  then have "listed (move t Idle s') (ts @ [t])"
    by (rule listed_cong) (simp_all add: move_def f)
  moreover have "v \<in> set (ts @ [t]) \<longleftrightarrow> (\<exists>w. workers (move t Idle s') v = Some w \<and> place w = Idle)" for v
    using ts(3) [of v] assms(2,3) by (cases "v = t") (auto simp: move_def f)
  moreover have "place w \<in> {At_top, Running, Idle}" if "workers (move t Idle s') v = Some w" for v w
    using that assms(1) by (auto simp: move_def f live_def split: if_splits)
  moreover have "t \<notin> set ts"
    using ts(3) [of t] assms(2,3) by auto
  ultimately show ?thesis
    using assms fin ts(2)
    by (intro liveI [where ts = "ts @ [t]"]) (auto simp: live_def move_some f del busy_def awaits_call_def split: if_splits)
qed

lemma live_drop:
  assumes "live es s" "workers s t = Some w" "place w = Running" "saveThread d t s = (- 1, s')"
  shows "live (es @ [Dropped t]) (s'\<lparr>workers := (workers s')(t := None)\<rparr>)"
proof -
  from assms(1) obtain ts where ts: "listed s ts" "distinct ts"
    "\<And>t. t \<in> set ts \<longleftrightarrow> (\<exists>w. workers s t = Some w \<and> place w = Idle)"
    unfolding live_def by blast
  have fin: "finite (dom (workers s))"
    using assms(1) by (simp add: live_def)
  note del = tally_delete [OF fin assms(2)]
  have s': "s' = s"
    using assms(4) by (auto simp: saveThread_def Let_def split: if_splits)
  let ?s = "s\<lparr>workers := (workers s)(t := None)\<rparr>"
  have "listed ?s ts"
    using ts(1) by (rule listed_cong) simp_all
  moreover have "v \<in> set ts \<longleftrightarrow> (\<exists>w. workers ?s v = Some w \<and> place w = Idle)" for v
    using ts(3) [of v] assms(2,3) by (cases "v = t") auto
  moreover have "place w \<in> {At_top, Running, Idle}" if "workers ?s v = Some w" for v w
    using that assms(1) by (auto simp: live_def split: if_splits)
  ultimately show ?thesis
    unfolding s' using assms fin ts(2) by (intro liveI [where ts = ts]) (auto simp: live_def del busy_def awaits_call_def)
qed

text \<open>When no thread is out, the destructor wakes all of them.\<close>

lemma fold_signal:
  assumes "distinct ts" "\<And>t. t \<in> set ts \<Longrightarrow> \<exists>w. workers s t = Some w \<and> place w = Idle"
  shows "fold signal_worker ts s =
    s\<lparr>workers := (\<lambda>t. if t \<in> set ts then map_option (\<lambda>w. w\<lparr>place := At_top\<rparr>) (workers s t) else workers s t)\<rparr>"
  using assms
proof (induction ts arbitrary: s)
  case (Cons t ts)
  obtain w where w: "workers s t = Some w" "place w = Idle"
    using Cons.prems(2) [of t] by auto
  let ?s = "s\<lparr>workers := (workers s)(t \<mapsto> w\<lparr>place := At_top\<rparr>)\<rparr>"
  have "fold signal_worker ts ?s =
      ?s\<lparr>workers := (\<lambda>u. if u \<in> set ts then map_option (\<lambda>w. w\<lparr>place := At_top\<rparr>) (workers ?s u) else workers ?s u)\<rparr>"
    using Cons.prems by (intro Cons.IH) auto
  moreover have "signal_worker t s = ?s"
    using w by (simp add: signal_worker_def move_def)
  ultimately show ?case
    using w Cons.prems(1) by (auto simp: fun_eq_iff)
qed simp

lemma live_shutdown:
  assumes "live es s" "mTotal s \<le> mIndex s" "called es' = called es" "dispatched es' = dispatched es"
  shows "shut es' (destroy_shutdown s) \<or> over es' (destroy_shutdown s)"
proof -
  from assms(1) obtain ts where ts: "listed s ts" "distinct ts"
    "\<And>t. t \<in> set ts \<longleftrightarrow> (\<exists>w. workers s t = Some w \<and> place w = Idle)"
    and fin: "finite (dom (workers s))" and none: "tally busy (workers s) = 0"
    and places: "\<And>t w. workers s t = Some w \<Longrightarrow> place w \<in> {At_top, Running, Idle}"
    and jobs: "mset (called es) + tally awaits_call (workers s) = mset (dispatched es)"
    and room: "mIndex s \<le> mTotal s"
    unfolding live_def using assms(2) by force
  have idle: "place w = Idle" if "workers s t = Some w" for t w
    using tally_busy_0 [OF fin none that] places [OF that] by (auto simp: busy_def)
  have dom: "dom (workers s) = set ts"
    using idle ts(3) by auto
  have "tally awaits_call (workers s) = {#}"
    using idle by (auto simp: tally_def awaits_call_def intro!: sum.neutral)
  then have calls_done: "mset (called es') = mset (dispatched es')"
    using jobs assms(3,4) by simp
  define W where "W = (\<lambda>t. if t \<in> set ts then map_option (\<lambda>w. w\<lparr>place := At_top\<rparr>) (workers s t) else workers s t)"
  have top: "place w = At_top" if "W t = Some w" for t w
    using that dom by (auto simp: W_def split: if_splits)
  have "W t = None \<longleftrightarrow> workers s t = None" for t
    by (simp add: W_def)
  then have dW: "dom W = set ts"
    using dom by (simp add: dom_def)
  have tk: "map the (take (nat (mIndex s)) (mThreadList s)) = ts"
    using ts(1) by (simp add: listed_def comp_def)
  have "fold signal_worker ts (s\<lparr>mIsShutdown := True\<rparr>) = s\<lparr>mIsShutdown := True\<rparr>\<lparr>workers :=
      (\<lambda>t. if t \<in> set ts then map_option (\<lambda>w. w\<lparr>place := At_top\<rparr>) (workers (s\<lparr>mIsShutdown := True\<rparr>) t)
        else workers (s\<lparr>mIsShutdown := True\<rparr>) t)\<rparr>"
    by (rule fold_signal [OF ts(2)]) (simp add: ts(3))
  then have st: "fold signal_worker (map the (take (nat (mIndex s)) (mThreadList s))) (s\<lparr>mIsShutdown := True\<rparr>) =
      s\<lparr>mIsShutdown := True, workers := W\<rparr>"
    by (simp add: tk W_def cong: if_cong)
  have "busy (the (W t)) = 1" if t: "t \<in> set ts" for t
  proof -
    obtain w where w: "W t = Some w"
      using t dW by auto
    then show ?thesis
      using top [OF w] by (simp add: busy_def)
  qed
  then have "tally busy W = card (set ts)"
    unfolding tally_def dW by simp
  then have "int (tally busy W) \<le> mTotal s"
    using ts(1,2) room by (simp add: distinct_card listed_def)
  moreover have "listed (s\<lparr>mIsShutdown := True, workers := W, destroyer := Waits_empty\<rparr>) ts"
    using ts(1) by (rule listed_cong) simp_all
  moreover have "over es' (destroy_threads (s\<lparr>mIsShutdown := True, workers := W\<rparr>))"
    using ts(1) dW calls_done by (auto simp: over_def destroy_threads_def listed_def fun_eq_iff domIff)
  ultimately show ?thesis
    unfolding destroy_shutdown_def Let_def using st top dW calls_done by (auto simp: shut_def)
qed

lemma shutI:
  assumes "listed s ts" "dom (workers s) = set ts" "mIsShutdown s"
    and "\<And>t w. workers s t = Some w \<Longrightarrow> place w \<in> {At_top, Leaving, Gone}"
    and "int (tally busy (workers s)) \<le> mTotal s" "mset (called es) = mset (dispatched es)"
    and "destroyer s \<in> {Waits_empty, Woken_empty}" "destroyer s = Woken_empty \<Longrightarrow> mTotal s \<le> 0"
  shows "shut es s"
  using assms unfolding shut_def by blast

lemma shut_left_loop:
  assumes "shut es s" "workers s t = Some w" "place w = At_top"
  shows "shut (es @ [Left_loop t]) (move t Leaving s)"
proof -
  from assms(1) obtain ts where ts: "listed s ts" "dom (workers s) = set ts"
    unfolding shut_def by blast
  have fin: "finite (dom (workers s))"
    using ts(2) by simp
  note del = tally_delete [OF fin assms(2)] tally_update [OF fin assms(2)]
  have "listed (move t Leaving s) ts"
    using ts(1) by (rule listed_cong) (simp_all add: move_def)
  moreover have "dom (workers (move t Leaving s)) = set ts"
    using ts(2) assms(2) by (auto simp: move_some)
  moreover have "place w \<in> {At_top, Leaving, Gone}" if "workers (move t Leaving s) v = Some w" for v w
    using that assms(1) by (auto simp: move_def shut_def split: if_splits)
  ultimately show ?thesis
    using assms by (intro shutI [where ts = ts]) (simp_all add: shut_def move_some del busy_def)
qed

lemma shut_exited:
  assumes "shut es s" "workers s t = Some w" "place w = Leaving"
  shows "shut (es @ [Exited t]) (leave t s)"
proof -
  from assms(1) obtain ts where ts: "listed s ts" "dom (workers s) = set ts"
    unfolding shut_def by blast
  have fin: "finite (dom (workers s))"
    using ts(2) by simp
  note del = tally_delete [OF fin assms(2)] tally_update [OF fin assms(2)]
  have f: "workers (leave t s) = (workers s)(t \<mapsto> w\<lparr>place := Gone\<rparr>)" "mTotal (leave t s) = mTotal s - 1"
    "mIsShutdown (leave t s) = mIsShutdown s" "mIndex (leave t s) = mIndex s" "mThreadList (leave t s) = mThreadList s"
    "destroyer (leave t s) = (if mTotal s \<le> 1 \<and> destroyer s = Waits_empty then Woken_empty else destroyer s)"
    using assms(2) by (auto simp: leave_def move_def Let_def)
  have "listed (leave t s) ts"
    using ts(1) by (rule listed_cong) (simp_all add: f)
  moreover have "dom (workers (leave t s)) = set ts"
    using ts(2) assms(2) by (auto simp: f)
  moreover have "place w \<in> {At_top, Leaving, Gone}" if "workers (leave t s) v = Some w" for v w
    using that assms(1) by (auto simp: f shut_def split: if_splits)
  ultimately show ?thesis
    using assms by (intro shutI [where ts = ts]) (simp_all add: shut_def f del busy_def split: if_splits)
qed

lemma shut_freed:
  assumes "shut es s"
  shows "over (es @ [Freed]) (destroy_threads s)"
proof -
  from assms obtain ts where "listed s ts" "dom (workers s) = set ts"
    unfolding shut_def by blast
  then show ?thesis
    using assms by (auto simp: over_def shut_def destroy_threads_def listed_def fun_eq_iff domIff)
qed

definition pool_inv :: "'j pool_event list \<Rightarrow> 'j pool \<Rightarrow> bool" where
  "pool_inv es s \<longleftrightarrow> live es s \<or> shut es s \<or> over es s"

lemma live_cong:
  assumes "live es s" "workers s' = workers s" "mIndex s' = mIndex s" "mThreadList s' = mThreadList s" "mTotal s' = mTotal s"
    "mMaxThreads s' = mMaxThreads s" "mIsShutdown s' = mIsShutdown s" "called es' = called es" "dispatched es' = dispatched es"
    "destroyer s' \<in> {Uncalled, Waits_full, Woken_full}" "destroyer s' = Woken_full \<Longrightarrow> mTotal s \<le> mIndex s"
  shows "live es' s'"
proof -
  from assms(1) obtain ts where ts: "listed s ts" "distinct ts"
    "\<And>t. t \<in> set ts \<longleftrightarrow> (\<exists>w. workers s t = Some w \<and> place w = Idle)"
    unfolding live_def by blast
  show ?thesis
  proof (rule liveI [where ts = ts])
    show "listed s' ts"
      using ts(1) by (rule listed_cong) (simp_all add: assms(3,4))
    show "t \<in> set ts \<longleftrightarrow> (\<exists>w. workers s' t = Some w \<and> place w = Idle)" for t
      unfolding assms(2) by (rule ts(3))
    show "place w \<in> {At_top, Running, Idle}" if "workers s' t = Some w" for t w
      using that assms(1) unfolding assms(2) live_def by blast
  qed (use assms(1,10,11) ts(2) in \<open>simp_all add: live_def assms(2-9)\<close>)
qed

lemma live_place: "live es s \<Longrightarrow> workers s t = Some w \<Longrightarrow> place w \<in> {At_top, Running, Idle}"
  unfolding live_def by blast

lemma shut_place: "shut es s \<Longrightarrow> workers s t = Some w \<Longrightarrow> place w \<in> {At_top, Leaving, Gone}"
  unfolding shut_def by blast

lemma calm_step_inv:
  assumes "pool_inv es s" "calm_step s e s'"
  shows "pool_inv (es @ [e]) s'"
proof -
  have st: "pool_step s e s'" and c: "calm s e"
    using assms(2) by (simp_all add: calm_step_def)
  consider "live es s" | "shut es s" | "over es s"
    using assms(1) by (auto simp: pool_inv_def)
  then have "live (es @ [e]) s' \<or> shut (es @ [e]) s' \<or> over (es @ [e]) s'"
  proof cases
    case 1
    then have no: "\<not> mIsShutdown s" "destroyer s \<noteq> Woken_empty" "\<And>t w. workers s t = Some w \<Longrightarrow> place w \<noteq> Leaving"
      by (auto simp: live_def dest: live_place [OF 1])
    from st show ?thesis
    proof cases
      case (dispatch_now d t ok x r)
      with 1 c show ?thesis by (auto intro: live_dispatch)
    next
      case (dispatch_wait d x)
      with 1 c show ?thesis by (auto intro: live_cong)
    next
      case (dispatch_after d x t ok r)
      let ?s = "s\<lparr>idle_woken := (idle_woken s)(d := None)\<rparr>"
      have "live es ?s"
        using 1 c dispatch_after by (auto intro!: live_cong [OF 1])
      with dispatch_after c live_dispatch [of es ?s] show ?thesis by auto
    next
      case (call t w)
      with 1 show ?thesis by (auto intro: live_call)
    next
      case (save t w d s0)
      with 1 show ?thesis by (auto intro: live_save)
    next
      case (drop_thread t w d s0)
      with 1 show ?thesis by (auto intro: live_drop)
    next
      case destroy
      show ?thesis
      proof (cases "mIndex s < mTotal s")
        case True
        with destroy 1 show ?thesis by (auto intro: live_cong)
      next
        case False
        with destroy 1 live_shutdown [OF 1, of "es @ [e]"] show ?thesis by auto
      qed
    next
      case shut_down
      then have "mTotal s \<le> mIndex s"
        using 1 by (simp add: live_def)
      with shut_down live_shutdown [OF 1, of "es @ [e]"] show ?thesis by auto
    qed (use c no in auto)
  next
    case 2
    then have no: "mIsShutdown s" "destroyer s \<in> {Waits_empty, Woken_empty}"
        "\<And>t w. workers s t = Some w \<Longrightarrow> place w \<noteq> Running"
      by (auto simp: shut_def dest: shut_place [OF 2])
    from st show ?thesis
    proof cases
      case (left_loop t w)
      with 2 show ?thesis by (auto intro: shut_left_loop)
    next
      case (exited t w)
      with 2 show ?thesis by (auto intro: shut_exited)
    next
      case freed
      with 2 show ?thesis by (auto intro: shut_freed)
    qed (use c no in auto)
  next
    case 3
    with st c show ?thesis
      by cases (auto simp: over_def)
  qed
  then show ?thesis
    by (simp add: pool_inv_def)
qed

lemma pool_run_inv: "run calm_step (GThreadPool_new n) es s \<Longrightarrow> pool_inv es s"
  by (rule run_invariant [of calm_step "GThreadPool_new n" es s pool_inv])
    (simp_all add: calm_step_inv, simp add: pool_inv_def live_new)

end
