(* ===== verification/ThreadPoolProps.thy ===== *)
theory ThreadPoolProps
  imports ThreadPool
begin

text \<open>
  What \<open>GThreadPool\<close> promises: every job is called once, and the destructor returns after the last
  one. With one dispatching thread the pool keeps its bound; with two it can outgrow it.
\<close>

section \<open>Jobs\<close>

text \<open>
  C33: In every run without spurious wake-ups, with any number of dispatching threads, the jobs that
  have been called are jobs that \<open>dispatch\<close> has accepted, none of them twice; the ones that have not
  been called are at threads about to call them; and when the destructor has returned all of them have
  been called and no thread of the pool is left.
\<close>

theorem pool_calls_each_job_once:
  fixes s :: "'j pool"
  assumes "run calm_step (GThreadPool_new n) es s"
  shows "mset (called es) \<subseteq># mset (dispatched es) \<and>
    (mset (called es) \<noteq> mset (dispatched es) \<longrightarrow> (\<exists>t w. workers s t = Some w \<and> place w = At_top)) \<and>
    (destroyer s = Destroyed \<longrightarrow> mset (called es) = mset (dispatched es) \<and> workers s = Map.empty)"
proof -
  consider "live es s" | "shut es s" | "over es s"
    using pool_run_inv [OF assms] by (auto simp: pool_inv_def)
  then show ?thesis
  proof cases
    case 1
    then have jobs: "mset (called es) + tally awaits_call (workers s) = mset (dispatched es)"
      and no: "destroyer s \<noteq> Destroyed"
      by (auto simp: live_def)
    have "\<exists>t w. workers s t = Some w \<and> place w = At_top" if "tally awaits_call (workers s) \<noteq> {#}"
    proof -
      have "\<exists>t\<in>dom (workers s). awaits_call (the (workers s t)) \<noteq> {#}"
        using that unfolding tally_def by (meson sum.neutral)
      then obtain t w where "workers s t = Some w" "awaits_call w \<noteq> {#}"
        by force
      moreover from this(2) have "place w = At_top"
        by (auto simp: awaits_call_def split: if_splits)
      ultimately show ?thesis
        by blast
    qed
    moreover have "tally awaits_call (workers s) \<noteq> {#}" if "mset (called es) \<noteq> mset (dispatched es)"
      using that jobs by auto
    moreover have "mset (called es) \<subseteq># mset (dispatched es)"
      using jobs by (metis mset_subset_eq_add_left)
    ultimately show ?thesis
      using no by blast
  next
    case 2
    then show ?thesis by (auto simp: shut_def)
  next
    case 3
    then show ?thesis by (auto simp: over_def)
  qed
qed

section \<open>One dispatching thread\<close>









section \<open>Two dispatching threads\<close>

definition pool_of :: "int \<Rightarrow> int \<Rightarrow> nat option \<Rightarrow> (nat \<rightharpoonup> nat worker) \<Rightarrow> (nat \<rightharpoonup> nat) \<Rightarrow> (nat \<rightharpoonup> nat) \<Rightarrow> destroyer \<Rightarrow> nat pool" where
  "pool_of i n t W a b d =
     \<lparr>mMaxThreads = 1, mIndex = i, mTotal = n, mIsShutdown = False, mThreadList = [t], workers = W,
      idle_waiting = a, idle_woken = b, destroyer = d\<rparr>"

definition at :: "place \<Rightarrow> nat \<Rightarrow> nat worker" where
  "at p x = \<lparr>place = p, job = x\<rparr>"

lemma pool_of_fields [simp]:
  "mMaxThreads (pool_of i n t W a b d) = 1" "mIndex (pool_of i n t W a b d) = i" "mTotal (pool_of i n t W a b d) = n"
  "mIsShutdown (pool_of i n t W a b d) = False" "mThreadList (pool_of i n t W a b d) = [t]"
  "workers (pool_of i n t W a b d) = W" "idle_waiting (pool_of i n t W a b d) = a" "idle_woken (pool_of i n t W a b d) = b"
  "destroyer (pool_of i n t W a b d) = d" "place (at p x) = p" "job (at p x) = x"
  by (simp_all add: pool_of_def at_def)

lemmas pool_run_simps = pool_of_def at_def dispatch_body_def dispatch_waits_def move_def signal_worker_def saveThread_def
  signal_idle_def signal_full_def can_wake_def Let_def

lemma pool_new_1: "GThreadPool_new 1 = pool_of 0 0 None Map.empty Map.empty Map.empty Uncalled"
  by (simp add: GThreadPool_new_def pool_of_def)

text \<open>The steps in the form in which a run is evaluated.\<close>

lemma calm_dispatch_now:
  "\<not> dispatch_waits s \<Longrightarrow> idle_waiting s d = None \<Longrightarrow> idle_woken s d = None \<Longrightarrow> workers s t = None \<Longrightarrow>
    dispatch_body True t x s = Inr (r, s') \<Longrightarrow> destroyer s = Uncalled \<Longrightarrow> calm_step s (Dispatched d x r) s'"
  by (simp add: calm_step_def pool_step.dispatch_now)

lemma calm_dispatch_wait:
  "dispatch_waits s \<Longrightarrow> idle_waiting s d = None \<Longrightarrow> idle_woken s d = None \<Longrightarrow> destroyer s = Uncalled \<Longrightarrow>
    s' = s\<lparr>idle_waiting := (idle_waiting s)(d \<mapsto> x)\<rparr> \<Longrightarrow> calm_step s (Waited d x) s'"
  by (simp add: calm_step_def pool_step.dispatch_wait)

lemma calm_dispatch_after:
  "idle_woken s d = Some x \<Longrightarrow> workers s t = None \<Longrightarrow> destroyer s = Uncalled \<Longrightarrow>
    dispatch_body True t x (s\<lparr>idle_woken := (idle_woken s)(d := None)\<rparr>) = Inr (r, s') \<Longrightarrow> calm_step s (Dispatched d x r) s'"
  by (simp add: calm_step_def pool_step.dispatch_after)

lemma calm_call:
  "map_option place (workers s t) = Some At_top \<Longrightarrow> \<not> mIsShutdown s \<Longrightarrow> x = job (the (workers s t)) \<Longrightarrow> s' = move t Running s \<Longrightarrow>
    calm_step s (Called t x) s'"
  by (auto simp: calm_step_def intro: pool_step.call)

lemma calm_save:
  "map_option place (workers s t) = Some Running \<Longrightarrow> can_wake d s \<Longrightarrow> fst (saveThread d t s) = 0 \<Longrightarrow>
    s' = move t Idle (snd (saveThread d t s)) \<Longrightarrow> calm_step s (Saved t) s'"
  by (cases "saveThread d t s") (auto simp: calm_step_def intro: pool_step.save)

lemma calm_drop:
  "map_option place (workers s t) = Some Running \<Longrightarrow> mMaxThreads s \<le> mIndex s \<Longrightarrow>
    s' = s\<lparr>workers := (workers s)(t := None)\<rparr> \<Longrightarrow> calm_step s (Dropped t) s'"
  by (auto simp: calm_step_def saveThread_def intro!: pool_step.drop_thread)

lemma calm_destroy:
  "destroyer s = Uncalled \<Longrightarrow> s' = (if mIndex s < mTotal s then s\<lparr>destroyer := Waits_full\<rparr> else destroy_shutdown s) \<Longrightarrow>
    calm_step s Destroy s'"
  by (simp add: calm_step_def pool_step.destroy)

lemma first_jobs:
  "calm_step (pool_of 0 0 None Map.empty Map.empty Map.empty Uncalled) (Dispatched 1 7 0)
     (pool_of 0 1 None [10 \<mapsto> at At_top 7] Map.empty Map.empty Uncalled)"
  "calm_step (pool_of 0 1 None [10 \<mapsto> at At_top 7] Map.empty Map.empty Uncalled) (Waited 2 8)
     (pool_of 0 1 None [10 \<mapsto> at At_top 7] [2 \<mapsto> 8] Map.empty Uncalled)"
  "calm_step (pool_of 0 1 None [10 \<mapsto> at At_top 7] [2 \<mapsto> 8] Map.empty Uncalled) (Called 10 7)
     (pool_of 0 1 None [10 \<mapsto> at Running 7] [2 \<mapsto> 8] Map.empty Uncalled)"
  "calm_step (pool_of 0 1 None [10 \<mapsto> at Running 7] [2 \<mapsto> 8] Map.empty Uncalled) (Saved 10)
     (pool_of 1 1 (Some 10) [10 \<mapsto> at Idle 7] Map.empty [2 \<mapsto> 8] Uncalled)"
  by (rule calm_dispatch_now [where t = 10] calm_dispatch_wait calm_call calm_save [where d = "Some 2"];
      simp add: pool_run_simps)+

text \<open>Thread 1 takes the worker that thread 2 has been woken for; thread 2 creates one more.\<close>

lemma second_jobs:
  "calm_step (pool_of 1 1 (Some 10) [10 \<mapsto> at Idle 7] Map.empty [2 \<mapsto> 8] Uncalled) (Dispatched 1 9 0)
     (pool_of 0 1 None [10 \<mapsto> at At_top 9] Map.empty [2 \<mapsto> 8] Uncalled)"
  "calm_step (pool_of 0 1 None [10 \<mapsto> at At_top 9] Map.empty [2 \<mapsto> 8] Uncalled) (Dispatched 2 8 0)
     (pool_of 0 2 None [10 \<mapsto> at At_top 9, 20 \<mapsto> at At_top 8] Map.empty Map.empty Uncalled)"
  "calm_step (pool_of 0 2 None [10 \<mapsto> at At_top 9, 20 \<mapsto> at At_top 8] Map.empty Map.empty Uncalled) (Called 10 9)
     (pool_of 0 2 None [10 \<mapsto> at Running 9, 20 \<mapsto> at At_top 8] Map.empty Map.empty Uncalled)"
  "calm_step (pool_of 0 2 None [10 \<mapsto> at Running 9, 20 \<mapsto> at At_top 8] Map.empty Map.empty Uncalled) (Called 20 8)
     (pool_of 0 2 None [10 \<mapsto> at Running 9, 20 \<mapsto> at Running 8] Map.empty Map.empty Uncalled)"
  "calm_step (pool_of 0 2 None [10 \<mapsto> at Running 9, 20 \<mapsto> at Running 8] Map.empty Map.empty Uncalled) (Saved 10)
     (pool_of 1 2 (Some 10) [10 \<mapsto> at Idle 9, 20 \<mapsto> at Running 8] Map.empty Map.empty Uncalled)"
  "calm_step (pool_of 1 2 (Some 10) [10 \<mapsto> at Idle 9, 20 \<mapsto> at Running 8] Map.empty Map.empty Uncalled) (Dropped 20)
     (pool_of 1 2 (Some 10) [10 \<mapsto> at Idle 9] Map.empty Map.empty Uncalled)"
  "calm_step (pool_of 1 2 (Some 10) [10 \<mapsto> at Idle 9] Map.empty Map.empty Uncalled) Destroy
     (pool_of 1 2 (Some 10) [10 \<mapsto> at Idle 9] Map.empty Map.empty Waits_full)"
  subgoal by (rule calm_dispatch_now [where t = 20]; simp add: pool_run_simps)
  subgoal by (rule calm_dispatch_after [where t = 20]; simp add: pool_run_simps)
  by (rule calm_call calm_save [where d = None] calm_drop calm_destroy;
      simp add: pool_run_simps fun_upd_twist [of 10 20])+

definition overtaking :: "nat pool_event list" where
  "overtaking =
     [Dispatched 1 7 0, Waited 2 8, Called 10 7, Saved 10, Dispatched 1 9 0, Dispatched 2 8 0, Called 10 9,
      Called 20 8, Saved 10, Dropped 20, Destroy]"

lemma overtaking_run:
  "run calm_step (GThreadPool_new 1) overtaking (pool_of 1 2 (Some 10) [10 \<mapsto> at Idle 9] Map.empty Map.empty Waits_full)"
  unfolding pool_new_1 overtaking_def
  by (rule run_Cons [where step = calm_step, OF _ first_jobs(1)], rule run_Cons [where step = calm_step, OF _ first_jobs(2)], rule run_Cons [where step = calm_step, OF _ first_jobs(3)],
      rule run_Cons [where step = calm_step, OF _ first_jobs(4)], rule run_Cons [where step = calm_step, OF _ second_jobs(1)], rule run_Cons [where step = calm_step, OF _ second_jobs(2)],
      rule run_Cons [where step = calm_step, OF _ second_jobs(3)], rule run_Cons [where step = calm_step, OF _ second_jobs(4)], rule run_Cons [where step = calm_step, OF _ second_jobs(5)],
      rule run_Cons [where step = calm_step, OF _ second_jobs(6)], rule run_Cons [where step = calm_step, OF _ second_jobs(7)], rule run.run_Nil)

text \<open>
  C35: \<open>dispatch\<close> does not look again after its wait, so of two dispatching threads one can take the
  idle worker the other was woken for, and the pool grows beyond its maximum. The thread that then
  finds no place in the list ends without being uncounted, and the destructor waits for ever although
  every job has been called.
\<close>

theorem pool_destructor_hangs:
  "\<exists>es s. run calm_step (GThreadPool_new 1 :: nat pool) es s \<and> mTotal s = 2 \<and> mset (called es) = mset (dispatched es) \<and>
    destroyer s = Waits_full \<and> (\<nexists>e s'. calm_step s e s')"
proof -
  let ?s = "pool_of 1 2 (Some 10) [10 \<mapsto> at Idle 9] Map.empty Map.empty Waits_full"
  have "\<not> calm_step ?s e s'" for e s'
    by (auto simp: calm_step_def elim!: pool_step.cases split: if_splits)
  moreover have "mset (called overtaking) = mset (dispatched overtaking)"
    by (simp add: overtaking_def)
  ultimately show ?thesis
    using overtaking_run by (intro exI [of _ overtaking] exI [of _ ?s]) simp
qed

theorem pool_calls_each_job_once_witness:
  "mset (called overtaking) \<subseteq># mset (dispatched overtaking) \<and> mset (dispatched overtaking) = {#7, 8, 9#}"
  using pool_calls_each_job_once [OF overtaking_run] by (simp add: overtaking_def)



end
