(* ===== verification/Bufferevent.thy ===== *)
theory Bufferevent
  imports EventCore Evbuffer
begin

text \<open>
  \<open>evbuffer.c\<close>: an event for reading and one for writing around two byte buffers, with water marks.
  The two embedded events are the addresses \<open>ev_read\<close> and \<open>ev_write\<close>. Calling one of the
  application's functions is always the last thing a function here does, so the calls are returned.
  Of the callbacks an \<open>evbuffer\<close> can have only \<open>bufferevent_read_pressure_cb\<close> acts on the
  \<open>bufferevent\<close>; the evbuffer's callback number 0 stands for it.
\<close>

section \<open>State\<close>

record event_watermark =
  low :: size
  high :: size

record bufferevent =
  ev_read :: nat
  ev_write :: nat
  input_buf :: evbuffer
  output_buf :: evbuffer
  wm_read :: event_watermark
  wm_write :: event_watermark
  readcb :: nat
  writecb :: nat
  errorcb :: nat
  bev_cbarg :: nat
  timeout_read :: int
  timeout_write :: int
  enabled :: "16 word"

definition EVBUFFER_READ :: "16 word" where "EVBUFFER_READ = 0x01"
definition EVBUFFER_WRITE :: "16 word" where "EVBUFFER_WRITE = 0x02"
definition EVBUFFER_EOF :: "16 word" where "EVBUFFER_EOF = 0x10"
definition EVBUFFER_ERROR :: "16 word" where "EVBUFFER_ERROR = 0x20"
definition EVBUFFER_TIMEOUT :: "16 word" where "EVBUFFER_TIMEOUT = 0x40"

definition EINTR :: int where "EINTR = 4"
definition EAGAIN :: int where "EAGAIN = 11"
definition EINPROGRESS :: int where "EINPROGRESS = 115"

definition PRESSURE_CB :: nat where "PRESSURE_CB = 0"

datatype user_call =
    Data_cb nat nat
  | Error_cb nat "16 word" nat

type_synonym 's bevres = "(bufferevent \<times> 's \<times> user_call list) outcome"

section \<open>Events\<close>

definition bufferevent_add :: "('a evstate_scheme) eventop \<Rightarrow> nat \<Rightarrow> int \<Rightarrow> 'a evstate_scheme \<Rightarrow> (int \<times> 'a evstate_scheme) outcome" where
  "bufferevent_add evsel ev timeout s =
     event_add (op_add evsel) ev (if timeout \<noteq> 0 then Some \<lparr>tv_sec = timeout, tv_usec = 0\<rparr> else None) s"

definition bufferevent_read_pressure_cb :: "('a evstate_scheme) eventop \<Rightarrow> size \<Rightarrow> bufferevent \<Rightarrow> 'a evstate_scheme \<Rightarrow> (bufferevent \<times> 'a evstate_scheme) outcome" where
  "bufferevent_read_pressure_cb evsel now b s =
     (if high (wm_read b) = 0 \<or> now < high (wm_read b) then
        let b = b\<lparr>input_buf := evbuffer_setcb (input_buf b) None 0\<rparr>
        in if has (enabled b) EV_READ
           then bnd (bufferevent_add evsel (ev_read b) (timeout_read b) s) (\<lambda>(r, s). Inr (b, s))
           else Inr (b, s)
      else Inr (b, s))"

text \<open>The calls of the change callback of \<open>input\<close>.\<close>

fun run_notes :: "('a evstate_scheme) eventop \<Rightarrow> notification list \<Rightarrow> bufferevent \<Rightarrow> 'a evstate_scheme \<Rightarrow> (bufferevent \<times> 'a evstate_scheme) outcome" where
  "run_notes evsel [] b s = Inr (b, s)"
| "run_notes evsel ((f, old, now, arg) # ns) b s =
     bnd (if f = PRESSURE_CB then bufferevent_read_pressure_cb evsel now b s else Inr (b, s)) (\<lambda>(b, s).
     run_notes evsel ns b s)"

text \<open>
  \<open>bufferevent_readcb\<close>: \<open>fionread\<close> and \<open>readf\<close> are what the kernel answers in \<open>evbuffer_read\<close>,
  \<open>errno\<close> is the error number when it returns -1.
\<close>

definition bufferevent_readcb :: "('a evstate_scheme) eventop \<Rightarrow> allocator \<Rightarrow> int option \<Rightarrow> (int \<Rightarrow> byte list option) \<Rightarrow> int \<Rightarrow> 16 word \<Rightarrow> bufferevent \<Rightarrow> 'a evstate_scheme \<Rightarrow> ('a evstate_scheme) bevres" where
  "bufferevent_readcb evsel A fionread readf errno event b s =
     (if event = EV_TIMEOUT then Inr (b, s, [Error_cb (errorcb b) (or EVBUFFER_READ EVBUFFER_TIMEOUT) (bev_cbarg b)])
      else
        bnd (evbuffer_read A fionread readf (input_buf b) (- 1)) (\<lambda>(res, inp, ns).
        bnd (run_notes evsel ns (b\<lparr>input_buf := inp\<rparr>) s) (\<lambda>(b, s).
        if res = - 1 \<and> (errno = EAGAIN \<or> errno = EINTR) then
          bnd (bufferevent_add evsel (ev_read b) (timeout_read b) s) (\<lambda>(r, s). Inr (b, s, []))
        else if res \<le> 0 then
          Inr (b, s, [Error_cb (errorcb b)
            (or EVBUFFER_READ (if res = - 1 then EVBUFFER_ERROR else EVBUFFER_EOF)) (bev_cbarg b)])
        else
          bnd (bufferevent_add evsel (ev_read b) (timeout_read b) s) (\<lambda>(r, s).
          if low (wm_read b) \<noteq> 0 \<and> off (input_buf b) < low (wm_read b) then Inr (b, s, [])
          else if high (wm_read b) \<noteq> 0 \<and> off (input_buf b) > high (wm_read b) then
            bnd (event_del (op_del evsel) (ev_read b) s) (\<lambda>(r, s).
            Inr (b\<lparr>input_buf := evbuffer_setcb (input_buf b) (Some PRESSURE_CB) 0\<rparr>, s, []))
          else Inr (b, s, [Data_cb (readcb b) (bev_cbarg b)])))))"

text \<open>\<open>bufferevent_writecb\<close>, with the bytes \<open>write\<close> has accepted.\<close>

definition writecb_tail :: "('a evstate_scheme) eventop \<Rightarrow> bufferevent \<Rightarrow> 'a evstate_scheme \<Rightarrow> ('a evstate_scheme) bevres" where
  "writecb_tail evsel b s =
     bnd (if off (output_buf b) \<noteq> 0 then bufferevent_add evsel (ev_write b) (timeout_write b) s else Inr (0, s)) (\<lambda>(r, s).
     Inr (b, s, if off (output_buf b) \<le> low (wm_write b) then [Data_cb (writecb b) (bev_cbarg b)] else []))"

definition bufferevent_writecb :: "('a evstate_scheme) eventop \<Rightarrow> (byte list \<Rightarrow> int) \<Rightarrow> int \<Rightarrow> 16 word \<Rightarrow> bufferevent \<Rightarrow> 'a evstate_scheme \<Rightarrow> (byte list \<times> bufferevent \<times> 'a evstate_scheme \<times> user_call list) outcome" where
  "bufferevent_writecb evsel writef errno event b s =
     (if event = EV_TIMEOUT then
        Inr ([], b, s, [Error_cb (errorcb b) (or EVBUFFER_WRITE EVBUFFER_TIMEOUT) (bev_cbarg b)])
      else if off (output_buf b) = 0 then bnd (writecb_tail evsel b s) (\<lambda>r. Inr ([], r))
      else
        bnd (evbuffer_write writef (output_buf b)) (\<lambda>(res, out, xs, ns).
        let b = b\<lparr>output_buf := out\<rparr>
        in if res = - 1 \<and> (errno = EAGAIN \<or> errno = EINTR \<or> errno = EINPROGRESS) then
             bnd (if off (output_buf b) \<noteq> 0 then bufferevent_add evsel (ev_write b) (timeout_write b) s else Inr (0, s)) (\<lambda>(r, s).
             Inr (xs, b, s, []))
           else if res \<le> 0 then
             Inr (xs, b, s, [Error_cb (errorcb b)
               (or EVBUFFER_WRITE (if res = - 1 then EVBUFFER_ERROR else if res = 0 then EVBUFFER_EOF else 0)) (bev_cbarg b)])
           else bnd (writecb_tail evsel b s) (\<lambda>r. Inr (xs, r))))"

section \<open>Creation\<close>

text \<open>\<open>ok\<close>, \<open>ok1\<close>, \<open>ok2\<close>: whether \<open>calloc\<close> succeeds for the three blocks; \<open>p\<close> is the address of the
  \<open>bufferevent\<close> and \<open>r\<close>, \<open>w\<close> those of its events.\<close>

definition bufferevent_new :: "bool \<Rightarrow> bool \<Rightarrow> bool \<Rightarrow> nat \<Rightarrow> nat \<Rightarrow> nat \<Rightarrow> int \<Rightarrow> nat \<Rightarrow> nat \<Rightarrow> nat \<Rightarrow> nat \<Rightarrow> 'a evstate_scheme \<Rightarrow> bufferevent option \<times> 'a evstate_scheme" where
  "bufferevent_new ok ok1 ok2 p r w fd rcb wcb ecb arg s =
     (if \<not> ok then (None, s)
      else case evbuffer_new ok1 of
        None \<Rightarrow> (None, s)
      | Some inp \<Rightarrow>
          (case evbuffer_new ok2 of
             None \<Rightarrow> (None, s)
           | Some out \<Rightarrow>
               let s = s\<lparr>evs := (evs s)(r := event_zero, w := event_zero)\<rparr>;
                   s = event_set r fd EV_READ CB_bufread p s;
                   s = event_set w fd EV_WRITE CB_bufwrite p s
               in (Some \<lparr>ev_read = r, ev_write = w, input_buf = inp, output_buf = out,
                     wm_read = \<lparr>low = 0, high = 0\<rparr>, wm_write = \<lparr>low = 0, high = 0\<rparr>,
                     readcb = rcb, writecb = wcb, errorcb = ecb, bev_cbarg = arg,
                     timeout_read = 0, timeout_write = 0, enabled = or EV_READ EV_WRITE\<rparr>, s)))"

definition bufferevent_priority_set :: "bufferevent \<Rightarrow> int \<Rightarrow> 'a evstate_scheme \<Rightarrow> (int \<times> 'a evstate_scheme) outcome" where
  "bufferevent_priority_set b pri s =
     bnd (event_priority_set (ev_read b) pri s) (\<lambda>(r, s).
     if r = - 1 then Inr (- 1, s)
     else bnd (event_priority_set (ev_write b) pri s) (\<lambda>(r, s).
       if r = - 1 then Inr (- 1, s) else Inr (0, s)))"

text \<open>\<open>bufferevent_free\<close>: what is left is the event core.\<close>

definition bufferevent_free :: "('a evstate_scheme) eventop \<Rightarrow> bufferevent \<Rightarrow> 'a evstate_scheme \<Rightarrow> 'a evstate_scheme outcome" where
  "bufferevent_free evsel b s =
     bnd (event_del (op_del evsel) (ev_read b) s) (\<lambda>(r, s).
     bnd (event_del (op_del evsel) (ev_write b) s) (\<lambda>(r, s). Inr s))"

section \<open>Operations\<close>

definition bufferevent_write :: "('a evstate_scheme) eventop \<Rightarrow> allocator \<Rightarrow> byte list \<Rightarrow> bufferevent \<Rightarrow> 'a evstate_scheme \<Rightarrow> (int \<times> bufferevent \<times> 'a evstate_scheme) outcome" where
  "bufferevent_write evsel A data b s =
     bnd (evbuffer_add A (output_buf b) data) (\<lambda>(res, out, ns).
     let b = b\<lparr>output_buf := out\<rparr>
     in if res = - 1 then Inr (res, b, s)
        else if length data > 0 \<and> has (enabled b) EV_WRITE then
          bnd (bufferevent_add evsel (ev_write b) (timeout_write b) s) (\<lambda>(r, s). Inr (res, b, s))
        else Inr (res, b, s))"

definition bufferevent_write_buffer :: "('a evstate_scheme) eventop \<Rightarrow> allocator \<Rightarrow> evbuffer \<Rightarrow> bufferevent \<Rightarrow> 'a evstate_scheme \<Rightarrow> (int \<times> evbuffer \<times> bufferevent \<times> 'a evstate_scheme) outcome" where
  "bufferevent_write_buffer evsel A buf b s =
     bnd (load (orig_buffer buf) (buffer buf) (unat (off buf))) (\<lambda>xs.
     bnd (bufferevent_write evsel A xs b s) (\<lambda>(res, b, s).
     Inr (res, if res \<noteq> - 1 then fst (evbuffer_drain buf (off buf)) else buf, b, s)))"

definition bufferevent_read :: "('a evstate_scheme) eventop \<Rightarrow> size \<Rightarrow> bufferevent \<Rightarrow> 'a evstate_scheme \<Rightarrow> (byte list \<times> bufferevent \<times> 'a evstate_scheme) outcome" where
  "bufferevent_read evsel n b s =
     (let n = (if off (input_buf b) < n then off (input_buf b) else n)
      in bnd (load (orig_buffer (input_buf b)) (buffer (input_buf b)) (unat n)) (\<lambda>xs.
         if n \<noteq> 0 then
           let (inp, ns) = evbuffer_drain (input_buf b) n
           in bnd (run_notes evsel ns (b\<lparr>input_buf := inp\<rparr>) s) (\<lambda>(b, s). Inr (xs, b, s))
         else Inr (xs, b, s)))"

definition bufferevent_enable :: "('a evstate_scheme) eventop \<Rightarrow> 16 word \<Rightarrow> bufferevent \<Rightarrow> 'a evstate_scheme \<Rightarrow> (int \<times> bufferevent \<times> 'a evstate_scheme) outcome" where
  "bufferevent_enable evsel event b s =
     bnd (if has event EV_READ then bufferevent_add evsel (ev_read b) (timeout_read b) s else Inr (0, s)) (\<lambda>(r, s).
     if r = - 1 then Inr (- 1, b, s)
     else bnd (if has event EV_WRITE then bufferevent_add evsel (ev_write b) (timeout_write b) s else Inr (0, s)) (\<lambda>(r, s).
       if r = - 1 then Inr (- 1, b, s)
       else Inr (0, b\<lparr>enabled := or (enabled b) event\<rparr>, s)))"

definition bufferevent_disable :: "('a evstate_scheme) eventop \<Rightarrow> 16 word \<Rightarrow> bufferevent \<Rightarrow> 'a evstate_scheme \<Rightarrow> (int \<times> bufferevent \<times> 'a evstate_scheme) outcome" where
  "bufferevent_disable evsel event b s =
     bnd (if has event EV_READ then event_del (op_del evsel) (ev_read b) s else Inr (0, s)) (\<lambda>(r, s).
     if r = - 1 then Inr (- 1, b, s)
     else bnd (if has event EV_WRITE then event_del (op_del evsel) (ev_write b) s else Inr (0, s)) (\<lambda>(r, s).
       if r = - 1 then Inr (- 1, b, s)
       else Inr (0, b\<lparr>enabled := and (enabled b) (not event)\<rparr>, s)))"

definition bufferevent_settimeout :: "int \<Rightarrow> int \<Rightarrow> bufferevent \<Rightarrow> bufferevent" where
  "bufferevent_settimeout r w b = b\<lparr>timeout_read := r, timeout_write := w\<rparr>"

definition bufferevent_setwatermark :: "('a evstate_scheme) eventop \<Rightarrow> 16 word \<Rightarrow> size \<Rightarrow> size \<Rightarrow> bufferevent \<Rightarrow> 'a evstate_scheme \<Rightarrow> (bufferevent \<times> 'a evstate_scheme) outcome" where
  "bufferevent_setwatermark evsel events lowmark highmark b s =
     (let b = (if has events EV_READ then b\<lparr>wm_read := \<lparr>low = lowmark, high = highmark\<rparr>\<rparr> else b);
          b = (if has events EV_WRITE then b\<lparr>wm_write := \<lparr>low = lowmark, high = highmark\<rparr>\<rparr> else b)
      in bufferevent_read_pressure_cb evsel (off (input_buf b)) b s)"

end
