(* ===== verification/DataBuffer.thy ===== *)
theory DataBuffer
  imports Fifo
begin

text \<open>
  \<open>PlayerClient/DataBuffer.h\<close> and \<open>.cpp\<close>: a block of bytes that grows, and a queue of such blocks
  that are used again. A block is known by its contents, and \<open>m_pData\<close> is its distance from
  \<open>m_pBuffer\<close>; each \<open>Buffer*\<close> is in one of the two lists only, so the lists hold the objects. The
  mutex is taken for a whole method or not at all. \<open>ok n\<close> says whether \<open>new\<close> can give \<open>n\<close> bytes (if it
  cannot it throws, which nobody catches) and \<open>junk\<close> what they contain.
\<close>

section \<open>Blocks\<close>

record media_buffer =
  m_pBuffer :: "byte list option"
  m_nBufferSize :: "32 word"
  m_pData :: nat
  m_nDataSize :: "32 word"

definition Buffer_new :: media_buffer where
  "Buffer_new = \<lparr>m_pBuffer = None, m_nBufferSize = 0, m_pData = 0, m_nDataSize = 0\<rparr>"

definition FreeBuffer :: "media_buffer \<Rightarrow> media_buffer" where
  "FreeBuffer b = (if m_pBuffer b = None then b else Buffer_new)"

definition new_bytes :: "(nat \<Rightarrow> bool) \<Rightarrow> (nat \<Rightarrow> byte) \<Rightarrow> 32 word \<Rightarrow> byte list outcome" where
  "new_bytes ok junk n = (if ok (unat n) then Inr (map junk [0..<unat n]) else Inl Exit_errx)"

definition AllocateBuffer :: "(nat \<Rightarrow> bool) \<Rightarrow> (nat \<Rightarrow> byte) \<Rightarrow> 32 word \<Rightarrow> media_buffer \<Rightarrow> (bool \<times> media_buffer) outcome" where
  "AllocateBuffer ok junk n b =
     (if n = 0 then Inr (False, b)
      else bnd (new_bytes ok junk n) (\<lambda>m.
        Inr (True, (FreeBuffer b)\<lparr>m_pBuffer := Some m, m_nBufferSize := n, m_pData := 0\<rparr>)))"

definition ExtendBuffer :: "(nat \<Rightarrow> bool) \<Rightarrow> (nat \<Rightarrow> byte) \<Rightarrow> 32 word \<Rightarrow> media_buffer \<Rightarrow> (bool \<times> media_buffer) outcome" where
  "ExtendBuffer ok junk n b = (if n \<le> m_nBufferSize b then Inr (True, b) else AllocateBuffer ok junk n b)"

text \<open>The block a pointer that can be NULL points to.\<close>

definition block :: "byte list option \<Rightarrow> byte list outcome" where
  "block p = (case p of None \<Rightarrow> Inl Null_deref | Some m \<Rightarrow> Inr m)"

definition copy_to :: "nat \<Rightarrow> byte list \<Rightarrow> media_buffer \<Rightarrow> media_buffer outcome" where
  "copy_to p xs b = bnd (block (m_pBuffer b)) (\<lambda>m. bnd (store m p xs) (\<lambda>m. Inr (b\<lparr>m_pBuffer := Some m\<rparr>)))"

definition FillData :: "(nat \<Rightarrow> bool) \<Rightarrow> (nat \<Rightarrow> byte) \<Rightarrow> byte list option \<Rightarrow> 32 word \<Rightarrow> media_buffer \<Rightarrow> (bool \<times> media_buffer) outcome" where
  "FillData ok junk pData n b =
     (case pData of
        None \<Rightarrow> Inr (False, b)
      | Some d \<Rightarrow>
          if n = 0 then Inr (False, b)
          else
            bnd (if m_nBufferSize b < n then bnd (AllocateBuffer ok junk n b) (\<lambda>(r, b). Inr b) else Inr b) (\<lambda>b.
            bnd (load d 0 (unat n)) (\<lambda>xs.
            bnd (copy_to 0 xs b) (\<lambda>b. Inr (True, b\<lparr>m_nDataSize := n\<rparr>)))))"

text \<open>The move to a larger block in \<open>AppendData\<close>, which has room for nothing more than the new data.\<close>

definition grow_block :: "(nat \<Rightarrow> bool) \<Rightarrow> (nat \<Rightarrow> byte) \<Rightarrow> 32 word \<Rightarrow> media_buffer \<Rightarrow> media_buffer outcome" where
  "grow_block ok junk n b =
     bnd (new_bytes ok junk (m_nDataSize b + n)) (\<lambda>m.
     bnd (if m_nDataSize b = 0 then Inr m
          else bnd (block (m_pBuffer b)) (\<lambda>old. bnd (load old 0 (unat (m_nDataSize b))) (\<lambda>xs. store m 0 xs))) (\<lambda>m.
     Inr (b\<lparr>m_pBuffer := Some m, m_pData := 0, m_nBufferSize := m_nDataSize b + n\<rparr>)))"

definition AppendData :: "(nat \<Rightarrow> bool) \<Rightarrow> (nat \<Rightarrow> byte) \<Rightarrow> byte list option \<Rightarrow> 32 word \<Rightarrow> media_buffer \<Rightarrow> (bool \<times> media_buffer) outcome" where
  "AppendData ok junk pData n b =
     (case pData of
        None \<Rightarrow> Inr (False, b)
      | Some d \<Rightarrow>
          if n = 0 then Inr (False, b)
          else
            bnd (if m_pBuffer b = None \<and> m_nBufferSize b = 0
                 then bnd (AllocateBuffer ok junk n b) (\<lambda>(r, b). Inr b) else Inr b) (\<lambda>b.
            bnd (if int (unat (m_nBufferSize b)) - int (m_pData b) < int (unat (m_nDataSize b + n))
                 then grow_block ok junk n b else Inr b) (\<lambda>b.
            bnd (load d 0 (unat n)) (\<lambda>xs.
            bnd (copy_to (m_pData b + unat (m_nDataSize b)) xs b) (\<lambda>b.
            Inr (True, b\<lparr>m_nDataSize := m_nDataSize b + n\<rparr>))))))"

definition ClearData :: "media_buffer \<Rightarrow> media_buffer" where
  "ClearData b = b\<lparr>m_nDataSize := 0, m_pData := 0\<rparr>"

section \<open>The queue\<close>

record data_buffer =
  m_listData :: "media_buffer list"
  m_listUnuse :: "media_buffer list"

definition CDataBuffer_new :: data_buffer where
  "CDataBuffer_new = \<lparr>m_listData = [], m_listUnuse = []\<rparr>"

definition ClearBuffer :: "data_buffer \<Rightarrow> data_buffer" where
  "ClearBuffer q = q\<lparr>m_listData := [], m_listUnuse := m_listUnuse q @ m_listData q\<rparr>"

definition ReleaseBuffer :: "data_buffer \<Rightarrow> data_buffer" where
  "ReleaseBuffer q = q\<lparr>m_listData := [], m_listUnuse := []\<rparr>"

definition GetDataCount :: "data_buffer \<Rightarrow> 32 word" where
  "GetDataCount q = word_of_nat (length (m_listData q))"

text \<open>\<open>(len + 1023) / 1024 * 1024\<close> in \<open>int\<close>, converted to \<open>UINT\<close>.\<close>

definition round_up :: "int \<Rightarrow> 32 word outcome" where
  "round_up len =
     (if len + 1023 \<ge> 2 ^ 31 then Inl Int_overflow
      else Inr (word_of_int (sgn (len + 1023) * (\<bar>len + 1023\<bar> div 1024) * 1024)))"

text \<open>
  The search through the unused blocks: the iterators \<open>itRet\<close>, the smallest block that is large
  enough, and \<open>itMax\<close>, the largest, both \<open>None\<close> at the end of the list.
\<close>

definition pick_step :: "32 word \<Rightarrow> media_buffer list \<Rightarrow> nat option \<times> nat option \<Rightarrow> nat \<Rightarrow> nat option \<times> nat option" where
  "pick_step len us = (\<lambda>(itRet, itMax) it.
     (if len \<le> m_nBufferSize (us ! it) \<and>
         (case itRet of None \<Rightarrow> True | Some r \<Rightarrow> m_nBufferSize (us ! it) < m_nBufferSize (us ! r))
      then Some it else itRet,
      if (case itMax of None \<Rightarrow> True | Some r \<Rightarrow> m_nBufferSize (us ! r) < m_nBufferSize (us ! it))
      then Some it else itMax))"

definition pick :: "32 word \<Rightarrow> media_buffer list \<Rightarrow> nat option \<times> nat option" where
  "pick len us = foldl (pick_step len us) (None, None) [0..<length us]"

definition erase :: "nat \<Rightarrow> 'a list \<Rightarrow> 'a list" where
  "erase i us = take i us @ drop (Suc i) us"

definition GetUnuseBuffer :: "(nat \<Rightarrow> bool) \<Rightarrow> (nat \<Rightarrow> byte) \<Rightarrow> int \<Rightarrow> data_buffer \<Rightarrow> (media_buffer \<times> data_buffer) outcome" where
  "GetUnuseBuffer ok junk len q =
     (let us = m_listUnuse q in
      if us = [] then
        bnd (round_up len) (\<lambda>n. bnd (ExtendBuffer ok junk n Buffer_new) (\<lambda>(r, b). Inr (b, q)))
      else case pick (word_of_int len) us of
        (Some i, _) \<Rightarrow> Inr (us ! i, q\<lparr>m_listUnuse := erase i us\<rparr>)
      | (None, Some i) \<Rightarrow>
          bnd (round_up len) (\<lambda>n.
          bnd (ExtendBuffer ok junk n (us ! i)) (\<lambda>(r, b). Inr (b, q\<lparr>m_listUnuse := erase i us\<rparr>)))
      | (None, None) \<Rightarrow> Inl Out_of_bounds)"

definition WriteData :: "(nat \<Rightarrow> bool) \<Rightarrow> (nat \<Rightarrow> byte) \<Rightarrow> byte list option \<Rightarrow> int \<Rightarrow> data_buffer \<Rightarrow> data_buffer outcome" where
  "WriteData ok junk lpData nLength q =
     bnd (GetUnuseBuffer ok junk nLength q) (\<lambda>(b, q).
     bnd (AppendData ok junk lpData (word_of_int nLength) (ClearData b)) (\<lambda>(r, b).
     Inr (q\<lparr>m_listData := m_listData q @ [b]\<rparr>)))"

definition data_pointer :: "media_buffer \<Rightarrow> byte list option" where
  "data_pointer b = map_option (drop (m_pData b)) (m_pBuffer b)"

definition RemoveHead :: "data_buffer \<Rightarrow> data_buffer" where
  "RemoveHead q =
     (case m_listData q of [] \<Rightarrow> q
      | b # bs \<Rightarrow> q\<lparr>m_listUnuse := m_listUnuse q @ [b], m_listData := bs\<rparr>)"

definition GetHead :: "data_buffer \<Rightarrow> byte list option" where
  "GetHead q = (case m_listData q of [] \<Rightarrow> None | b # bs \<Rightarrow> data_pointer b)"

definition GetData :: "(nat \<Rightarrow> bool) \<Rightarrow> (nat \<Rightarrow> byte) \<Rightarrow> media_buffer \<Rightarrow> data_buffer \<Rightarrow> (bool \<times> media_buffer \<times> data_buffer) outcome" where
  "GetData ok junk dataBuf q =
     (case m_listData q of
        [] \<Rightarrow> Inr (False, dataBuf, q)
      | b # bs \<Rightarrow>
          bnd (AppendData ok junk (data_pointer b) (m_nDataSize b) (ClearData dataBuf)) (\<lambda>(r, dataBuf).
          Inr (True, dataBuf, q\<lparr>m_listUnuse := m_listUnuse q @ [b], m_listData := bs\<rparr>)))"

section \<open>What a block holds\<close>

definition buf_inv :: "media_buffer \<Rightarrow> bool" where
  "buf_inv b \<longleftrightarrow> m_pData b = 0 \<and> unat (m_nDataSize b) \<le> unat (m_nBufferSize b) \<and>
     (case m_pBuffer b of None \<Rightarrow> m_nBufferSize b = 0 | Some m \<Rightarrow> length m = unat (m_nBufferSize b))"

definition contents :: "media_buffer \<Rightarrow> byte list" where
  "contents b = (case m_pBuffer b of None \<Rightarrow> [] | Some m \<Rightarrow> take (unat (m_nDataSize b)) (drop (m_pData b) m))"

abbreviation memory :: "nat \<Rightarrow> bool" where
  "memory \<equiv> \<lambda>n. True"

lemma new_bytes_ok [simp]: "new_bytes memory junk n = Inr (map junk [0..<unat n])"
  by (simp add: new_bytes_def)

lemma Buffer_new_ok [simp]: "buf_inv Buffer_new" "contents Buffer_new = []"
  by (simp_all add: buf_inv_def contents_def Buffer_new_def)

lemma buf_inv_NULL: "buf_inv b \<Longrightarrow> m_pBuffer b = None \<Longrightarrow> b = Buffer_new"
  by (cases b) (auto simp: buf_inv_def Buffer_new_def unat_eq_0)

lemma ClearData_ok: "buf_inv b \<Longrightarrow> buf_inv (ClearData b) \<and> contents (ClearData b) = []"
  by (auto simp: buf_inv_def contents_def ClearData_def split: option.splits)

text \<open>Allocation discards what the block held; it is used on blocks that are empty.\<close>

lemma AllocateBuffer_ok:
  assumes "buf_inv b" "n \<noteq> 0"
  shows "\<exists>b'. AllocateBuffer memory junk n b = Inr (True, b') \<and> buf_inv b' \<and> m_nDataSize b' = 0 \<and>
    m_nBufferSize b' = n \<and> m_pBuffer b' \<noteq> None"
  using assms buf_inv_NULL [OF assms(1)] by (auto simp: AllocateBuffer_def FreeBuffer_def buf_inv_def Buffer_new_def)

lemma ExtendBuffer_ok:
  assumes "buf_inv b"
  shows "\<exists>b'. ExtendBuffer memory junk n b = Inr (True, b') \<and> buf_inv b' \<and> n \<le> m_nBufferSize b'"
proof (cases "n \<le> m_nBufferSize b")
  case True
  with assms show ?thesis by (simp add: ExtendBuffer_def)
next
  case False
  then have "n \<noteq> 0" by auto
  with AllocateBuffer_ok [OF assms, of n junk] False show ?thesis
    by (auto simp: ExtendBuffer_def)
qed

text \<open>The two ways \<open>AppendData\<close> gets its room.\<close>

lemma grow_block_ok:
  assumes "buf_inv b" "m_pBuffer b \<noteq> None" "unat (m_nDataSize b) + unat n < 2 ^ 32"
  shows "\<exists>b'. grow_block memory junk n b = Inr b' \<and> buf_inv b' \<and> contents b' = contents b \<and> m_pBuffer b' \<noteq> None \<and>
    m_nDataSize b' = m_nDataSize b \<and> unat (m_nBufferSize b') = unat (m_nDataSize b) + unat n"
proof -
  have u: "unat (m_nDataSize b + n) = unat (m_nDataSize b) + unat n"
    using assms(3) by (simp add: unat_word_ariths)
  obtain m where m: "m_pBuffer b = Some m" "length m = unat (m_nBufferSize b)" "m_pData b = 0"
      "unat (m_nDataSize b) \<le> length m"
    using assms(1,2) by (auto simp: buf_inv_def)
  show ?thesis
    using m u
    by (cases "m_nDataSize b = 0")
       (auto simp: grow_block_def block_def load_def store_def buf_inv_def contents_def)
qed

lemma AppendData_ok:
  assumes "buf_inv b" "unat (m_nDataSize b) + length xs < 2 ^ 32" "n = word_of_nat (length xs)" "d = xs @ ys"
  shows "\<exists>r b'. AppendData memory junk (Some d) n b = Inr (r, b') \<and> buf_inv b' \<and> contents b' = contents b @ xs"
proof (cases "xs = []")
  case True
  with assms show ?thesis by (intro exI [of _ False]) (simp add: AppendData_def)
next
  case False
  have n1: "unat n = length xs"
    using assms(2,3) by (simp add: unsigned_of_nat take_bit_nat_eq_self)
  then have n: "unat n = length xs" "n \<noteq> 0"
    using False by auto
  have "\<exists>b1. (if m_pBuffer b = None \<and> m_nBufferSize b = 0
      then bnd (AllocateBuffer memory junk n b) (\<lambda>(r, b). Inr b) else Inr b) = Inr b1 \<and>
    buf_inv b1 \<and> contents b1 = contents b \<and> m_pBuffer b1 \<noteq> None \<and> m_nDataSize b1 = m_nDataSize b"
  proof (cases "m_pBuffer b = None")
    case True
    with buf_inv_NULL [OF assms(1)] have b: "b = Buffer_new" by blast
    with AllocateBuffer_ok [OF assms(1) n(2), of junk] show ?thesis
      by (auto simp: Buffer_new_def contents_def split: option.splits)
  qed (use assms(1) in auto)
  then obtain b1 where b1: "(if m_pBuffer b = None \<and> m_nBufferSize b = 0
      then bnd (AllocateBuffer memory junk n b) (\<lambda>(r, b). Inr b) else Inr b) = Inr b1"
    "buf_inv b1" "contents b1 = contents b" "m_pBuffer b1 \<noteq> None" "m_nDataSize b1 = m_nDataSize b"
    by blast
  have u: "unat (m_nDataSize b1 + n) = unat (m_nDataSize b1) + length xs"
    using assms(2) n(1) b1(5) by (simp add: unat_word_ariths)
  have "\<exists>b2. (if int (unat (m_nBufferSize b1)) - int (m_pData b1) < int (unat (m_nDataSize b1 + n))
      then grow_block memory junk n b1 else Inr b1) = Inr b2 \<and>
    buf_inv b2 \<and> contents b2 = contents b \<and> m_pBuffer b2 \<noteq> None \<and> m_nDataSize b2 = m_nDataSize b \<and>
    unat (m_nDataSize b) + length xs \<le> unat (m_nBufferSize b2)"
  proof (cases "int (unat (m_nBufferSize b1)) - int (m_pData b1) < int (unat (m_nDataSize b1 + n))")
    case True
    with grow_block_ok [OF b1(2,4), of n junk] assms(2) b1(3,5) n(1) show ?thesis
      by auto
  next
    case False
    moreover have "m_pData b1 = 0"
      using b1(2) by (simp add: buf_inv_def)
    ultimately have "unat (m_nDataSize b1 + n) \<le> unat (m_nBufferSize b1)"
      by linarith
    then have "unat (m_nDataSize b) + length xs \<le> unat (m_nBufferSize b1)"
      using u b1(5) by simp
    with b1(2-5) show ?thesis
      unfolding if_not_P [OF False] by blast
  qed
  then obtain b2 where b2: "(if int (unat (m_nBufferSize b1)) - int (m_pData b1) < int (unat (m_nDataSize b1 + n))
      then grow_block memory junk n b1 else Inr b1) = Inr b2"
    "buf_inv b2" "contents b2 = contents b" "m_pBuffer b2 \<noteq> None" "m_nDataSize b2 = m_nDataSize b"
    "unat (m_nDataSize b) + length xs \<le> unat (m_nBufferSize b2)"
    by blast
  obtain m where m: "m_pBuffer b2 = Some m" "length m = unat (m_nBufferSize b2)" "m_pData b2 = 0"
    using b2(2,4) by (auto simp: buf_inv_def)
  have u2: "unat (m_nDataSize b2 + n) = unat (m_nDataSize b2) + length xs"
    using u b1(5) b2(5) by simp
  let ?p = "unat (m_nDataSize b2)"
  have cp: "copy_to (m_pData b2 + ?p) xs b2 = Inr (b2\<lparr>m_pBuffer := Some (take ?p m @ xs @ drop (?p + length xs) m)\<rparr>)"
    using b2(5,6) m by (simp add: copy_to_def block_def store_def)
  have ld: "load d 0 (unat n) = Inr xs"
    by (simp add: load_def assms(4) n(1))
  have "AppendData memory junk (Some d) n b =
    Inr (True, b2\<lparr>m_pBuffer := Some (take ?p m @ xs @ drop (?p + length xs) m), m_nDataSize := m_nDataSize b2 + n\<rparr>)"
    unfolding AppendData_def option.case if_not_P [OF n(2)] b1(1) bnd_Inr b2(1) ld cp by simp
  moreover have "contents b = take ?p m"
    using b2(3) m by (simp add: contents_def)
  ultimately show ?thesis
    using b2(5,6) m u2 by (auto simp: buf_inv_def contents_def)
qed

section \<open>What the queue holds\<close>

definition dq_inv :: "data_buffer \<Rightarrow> bool" where
  "dq_inv q \<longleftrightarrow> (\<forall>b \<in> set (m_listData q) \<union> set (m_listUnuse q). buf_inv b)"

definition dq_items :: "data_buffer \<Rightarrow> byte list list" where
  "dq_items q = map contents (m_listData q)"

definition dq_fits :: "byte list \<Rightarrow> bool" where
  "dq_fits xs \<longleftrightarrow> length xs + 1023 < 2 ^ 31"

lemma set_erase: "set (erase i us) \<subseteq> set us"
  by (auto simp: erase_def dest: in_set_takeD in_set_dropD)

lemma pick_upto:
  "k \<le> length us \<Longrightarrow>
    (\<forall>i. fst (foldl (pick_step len us) (None, None) [0..<k]) = Some i \<longrightarrow> i < k \<and> len \<le> m_nBufferSize (us ! i)) \<and>
    (\<forall>i. snd (foldl (pick_step len us) (None, None) [0..<k]) = Some i \<longrightarrow> i < k) \<and>
    (0 < k \<longrightarrow> snd (foldl (pick_step len us) (None, None) [0..<k]) \<noteq> None)"
proof (induction k)
  case (Suc k)
  then show ?case
    by (cases "foldl (pick_step len us) (None, None) [0..<k]")
       (auto simp: pick_step_def less_Suc_eq split: if_splits option.splits)
qed simp

lemma pick_ok:
  assumes "us \<noteq> []"
  shows "(\<exists>i m. pick len us = (Some i, m) \<and> i < length us \<and> len \<le> m_nBufferSize (us ! i)) \<or>
    (\<exists>i. pick len us = (None, Some i) \<and> i < length us)"
  using pick_upto [of "length us" us len] assms
  by (cases "pick len us"; cases "fst (pick len us)"; cases "snd (pick len us)") (auto simp: pick_def)

lemma GetUnuseBuffer_ok:
  assumes "dq_inv q" "0 \<le> len" "len + 1023 < 2 ^ 31"
  shows "\<exists>b q'. GetUnuseBuffer memory junk len q = Inr (b, q') \<and> buf_inv b \<and> dq_inv q' \<and> m_listData q' = m_listData q"
proof -
  obtain n where n: "round_up len = Inr n"
    using assms(3) by (simp add: round_up_def)
  show ?thesis
  proof (cases "m_listUnuse q = []")
    case True
    with ExtendBuffer_ok [of Buffer_new junk n] assms(1) n show ?thesis
      by (fastforce simp: GetUnuseBuffer_def)
  next
    case False
    from pick_ok [OF this, of "word_of_int len"] show ?thesis
    proof (elim disjE exE conjE)
      fix i m
      assume "pick (word_of_int len) (m_listUnuse q) = (Some i, m)" "i < length (m_listUnuse q)"
      with False assms(1) set_erase [of i "m_listUnuse q"] show ?thesis
        by (fastforce simp: GetUnuseBuffer_def dq_inv_def Let_def)
    next
      fix i
      assume i: "pick (word_of_int len) (m_listUnuse q) = (None, Some i)" "i < length (m_listUnuse q)"
      then have "buf_inv (m_listUnuse q ! i)"
        using assms(1) by (simp add: dq_inv_def)
      from ExtendBuffer_ok [OF this, of junk n] i False n assms(1) set_erase [of i "m_listUnuse q"] show ?thesis
        by (fastforce simp: GetUnuseBuffer_def dq_inv_def)
    qed
  qed
qed

lemma WriteData_ok:
  assumes "dq_inv q" "dq_fits xs"
  shows "\<exists>q'. WriteData memory junk (Some xs) (int (length xs)) q = Inr q' \<and> dq_inv q' \<and> dq_items q' = dq_items q @ [xs]"
proof -
  obtain b q1 where b: "GetUnuseBuffer memory junk (int (length xs)) q = Inr (b, q1)" "buf_inv b" "dq_inv q1"
      "m_listData q1 = m_listData q"
    using GetUnuseBuffer_ok [OF assms(1), of "int (length xs)" junk] assms(2) by (auto simp: dq_fits_def)
  have "unat (m_nDataSize (ClearData b)) + length xs < 2 ^ 32"
    using assms(2) by (simp add: ClearData_def dq_fits_def)
  moreover have "(word_of_int (int (length xs)) :: 32 word) = word_of_nat (length xs)"
    by simp
  ultimately obtain r b' where "AppendData memory junk (Some xs) (word_of_int (int (length xs))) (ClearData b) = Inr (r, b')"
      "buf_inv b'" "contents b' = xs"
    using AppendData_ok [of "ClearData b" xs _ xs "[]" junk] ClearData_ok [OF b(2)] by auto
  with b show ?thesis
    by (auto simp: WriteData_def dq_inv_def dq_items_def)
qed

lemma GetData_ok:
  assumes "dq_inv q" "m_listData q = b # bs" "buf_inv t"
  shows "\<exists>t' q'. GetData memory junk t q = Inr (True, t', q') \<and> buf_inv t' \<and> contents t' = contents b \<and>
    dq_inv q' \<and> dq_items q' = map contents bs"
proof -
  have b: "buf_inv b"
    using assms(1,2) by (simp add: dq_inv_def)
  have t: "buf_inv (ClearData t)" "contents (ClearData t) = []"
    using ClearData_ok [OF assms(3)] by auto
  have "\<exists>r t'. AppendData memory junk (data_pointer b) (m_nDataSize b) (ClearData t) = Inr (r, t') \<and>
    buf_inv t' \<and> contents t' = contents b"
  proof (cases "m_pBuffer b")
    case None
    with t show ?thesis
      by (intro exI [of _ False]) (simp add: data_pointer_def AppendData_def contents_def)
  next
    case (Some m)
    have len: "length (contents b) = unat (m_nDataSize b)" and m: "m = contents b @ drop (unat (m_nDataSize b)) m"
      using b Some by (auto simp: contents_def buf_inv_def)
    have p: "data_pointer b = Some m"
      using b Some by (simp add: data_pointer_def buf_inv_def)
    have "unat (m_nDataSize b) < 2 ^ 32"
      using unsigned_less [of "m_nDataSize b"] by simp
    then have "unat (m_nDataSize (ClearData t)) + length (contents b) < 2 ^ 32"
      by (simp add: ClearData_def len)
    from AppendData_ok [OF t(1) this, of "m_nDataSize b" m, OF _ m] show ?thesis
      unfolding p t(2) by (simp add: len)
  qed
  then obtain r t' where t': "AppendData memory junk (data_pointer b) (m_nDataSize b) (ClearData t) = Inr (r, t')"
      "buf_inv t'" "contents t' = contents b"
    by blast
  let ?q = "q\<lparr>m_listUnuse := m_listUnuse q @ [b], m_listData := bs\<rparr>"
  have "GetData memory junk t q = Inr (True, t', ?q)"
    using t'(1) assms(2) by (simp add: GetData_def)
  moreover have "dq_inv ?q" "dq_items ?q = map contents bs"
    using assms(1,2) b by (auto simp: dq_inv_def dq_items_def)
  ultimately show ?thesis
    using t'(2,3) by blast
qed

lemma GetHead_ok:
  assumes "m_listData q = b # bs" "GetHead q = Some m"
  shows "\<exists>ys. m = contents b @ ys"
proof -
  obtain z where "m_pBuffer b = Some z" "m = drop (m_pData b) z"
    using assms by (auto simp: GetHead_def data_pointer_def)
  then have "m = contents b @ drop (unat (m_nDataSize b)) m"
    by (simp add: contents_def del: drop_drop)
  then show ?thesis
    by blast
qed

lemma RemoveHead_ok: "dq_inv q \<Longrightarrow> dq_inv (RemoveHead q) \<and> dq_items (RemoveHead q) = tl (dq_items q)"
  by (auto simp: RemoveHead_def dq_inv_def dq_items_def split: list.splits)

lemma ClearBuffer_ok: "dq_inv q \<Longrightarrow> dq_inv (ClearBuffer q) \<and> dq_items (ClearBuffer q) = []"
  by (auto simp: ClearBuffer_def dq_inv_def dq_items_def)

section \<open>It is a queue\<close>

text \<open>Writing a byte string, and reading one into the block \<open>t\<close>.\<close>

definition write_item :: "(nat \<Rightarrow> byte) \<Rightarrow> byte list \<Rightarrow> data_buffer \<Rightarrow> data_buffer outcome" where
  "write_item junk xs = WriteData memory junk (Some xs) (int (length xs))"

definition read_item :: "(nat \<Rightarrow> byte) \<Rightarrow> media_buffer \<Rightarrow> data_buffer \<Rightarrow> (byte list option \<times> data_buffer) outcome" where
  "read_item junk t q = bnd (GetData memory junk t q) (\<lambda>(r, t', q). Inr (if r then Some (contents t') else None, q))"

interpretation dq: fifo "write_item junk" "read_item junk Buffer_new" dq_items "\<lambda>k. dq_inv" n "\<lambda>r. r" dq_fits
  for junk :: "nat \<Rightarrow> byte" and n :: nat
proof (unfold_locales, goal_cases)
  case (1 k q x)
  with WriteData_ok [of q x junk] show ?case
    by (simp add: write_item_def)
next
  case (2 k q x xs)
  then obtain b bs where b: "m_listData q = b # bs" "x = contents b" "xs = map contents bs"
    by (auto simp: dq_items_def)
  from GetData_ok [OF 2(1) b(1), of Buffer_new junk] b(2,3) show ?case
    by (auto simp: read_item_def)
next
  case (3 k q)
  then show ?case
    by (simp add: read_item_def GetData_def dq_items_def)
qed

end
