(* ===== verification/PlayerClient.thy ===== *)
theory PlayerClient
  imports Playback DataBuffer
begin

text \<open>
  \<open>PlayerClient\<close>: the connection (\<open>net/TcpConnect.cpp\<close>), the exchange of messages
  (\<open>NetDataClient.cpp\<close>) and the player (\<open>PlayBackClient.cpp\<close>). A thread of its own runs \<open>Work\<close>; the
  operations of the other thread are functions on the same state, and what the one does while the
  other waits is an argument. What is printed to the log is left out, and so are the times, which
  are only written.
\<close>

section \<open>\<open>CTcpConnect\<close>\<close>

text \<open>
  What \<open>select\<close> and the call after it do is given in advance. A call of \<open>recv\<close> is answered by \<open>None\<close>
  when \<open>select\<close> gives up after its three seconds, else by \<open>Some k\<close>: \<open>k\<close> is how many bytes of \<open>lk_in\<close> it
  hands out at most; with none it returns 0 or -1, which the code does not tell apart. In the same way
  \<open>lk_send\<close> answers the calls of \<open>send\<close>, and \<open>lk_ready\<close> those of \<open>select\<close> in \<open>CanRead\<close>. A plan at its end
  stands for a peer that is silent.
\<close>

record tcp_link =
  lk_recv :: "nat option list"
  lk_in :: "byte list"
  lk_ready :: "bool list"
  lk_send :: "nat option list"
  lk_out :: "byte list"

text \<open>An attempt to connect: what \<open>socket\<close>, \<open>inet_pton\<close> and \<open>select\<close> answer, and the peer.\<close>

record attempt =
  at_socket :: int
  at_addr :: bool
  at_writable :: bool
  at_link :: tcp_link

text \<open>An entry of the thread that waits for an answer.\<close>

record wait_info =
  hWait :: bool
  nRetLen :: int
  szWait :: "byte list"

record net_client =
  m_hSocket :: int
  peer :: tcp_link
  attempts :: "attempt list"
  closed_fds :: "int list"
  m_szFile :: "byte list"
  m_opt :: int
  m_nIndex :: int
  m_mapWait :: "int \<Rightarrow> wait_info option"
  mwFile :: "byte list option"
  m_evtQuit :: bool
  m_hThread :: bool

definition INVALID_SOCKET :: int where "INVALID_SOCKET = - 1"

text \<open>\<open>FD_SET\<close> writes outside of an \<open>fd_set\<close> for other descriptors.\<close>

definition fd_setable :: "int \<Rightarrow> bool" where
  "fd_setable fd \<longleftrightarrow> 0 \<le> fd \<and> fd < 1024"

text \<open>The constructor; \<open>opened\<close> says whether \<open>fopen\<close> succeeds, \<open>tries\<close> what the attempts to connect will meet.\<close>

definition CNetDataClient_new :: "bool \<Rightarrow> attempt list \<Rightarrow> net_client" where
  "CNetDataClient_new opened tries =
     \<lparr>m_hSocket = INVALID_SOCKET, peer = \<lparr>lk_recv = [], lk_in = [], lk_ready = [], lk_send = [], lk_out = []\<rparr>,
      attempts = tries, closed_fds = [], m_szFile = [], m_opt = 0, m_nIndex = 0, m_mapWait = (\<lambda>_. None),
      mwFile = (if opened then Some [] else None), m_evtQuit = False, m_hThread = False\<rparr>"

definition CTcpConnect_Close :: "'a net_client_scheme \<Rightarrow> 'a net_client_scheme" where
  "CTcpConnect_Close c =
     (if m_hSocket c \<noteq> INVALID_SOCKET then c\<lparr>m_hSocket := INVALID_SOCKET, closed_fds := closed_fds c @ [m_hSocket c]\<rparr>
      else c)"

text \<open>The loop of \<open>Recv\<close> with \<open>n\<close> bytes to go: whether it got them, those it got, the plan and input left.\<close>

fun recv_loop :: "nat \<Rightarrow> nat option list \<Rightarrow> byte list \<Rightarrow> bool \<times> byte list \<times> nat option list \<times> byte list" where
  "recv_loop n [] inp = (False, [], [], inp)"
| "recv_loop n (None # ps) inp = (False, [], ps, inp)"
| "recv_loop n (Some k # ps) inp =
     (let xs = take (min n k) inp in
      if xs = [] then (False, [], ps, inp)
      else if n \<le> length xs then (True, xs, ps, drop (length xs) inp)
      else let (r, ys, ps', rest) = recv_loop (n - length xs) ps (drop (length xs) inp) in (r, xs @ ys, ps', rest))"

definition CTcpConnect_Recv :: "nat \<Rightarrow> 'a net_client_scheme \<Rightarrow> (bool \<times> byte list \<times> 'a net_client_scheme) outcome" where
  "CTcpConnect_Recv nLength c =
     bnd (guard (fd_setable (m_hSocket c)) Out_of_bounds) (\<lambda>_.
     let (r, xs, ps, rest) = recv_loop nLength (lk_recv (peer c)) (lk_in (peer c))
     in Inr (r, xs, c\<lparr>peer := (peer c)\<lparr>lk_recv := ps, lk_in := rest\<rparr>\<rparr>))"

text \<open>The loop of \<open>Send\<close>: whether it sent everything, what it sent, the plan left.\<close>

fun send_all :: "nat option list \<Rightarrow> byte list \<Rightarrow> bool \<times> byte list \<times> nat option list" where
  "send_all [] xs = (False, [], [])"
| "send_all (None # ps) xs = (False, [], ps)"
| "send_all (Some k # ps) xs =
     (let ys = take k xs in
      if ys = [] then (False, [], ps)
      else if length xs \<le> length ys then (True, ys, ps)
      else let (r, zs, ps') = send_all ps (drop k xs) in (r, ys @ zs, ps'))"

definition CTcpConnect_Send :: "byte list \<Rightarrow> 'a net_client_scheme \<Rightarrow> (bool \<times> 'a net_client_scheme) outcome" where
  "CTcpConnect_Send xs c =
     bnd (guard (fd_setable (m_hSocket c)) Out_of_bounds) (\<lambda>_.
     let (r, ys, ps) = send_all (lk_send (peer c)) xs
     in Inr (r, c\<lparr>peer := (peer c)\<lparr>lk_send := ps, lk_out := lk_out (peer c) @ ys\<rparr>\<rparr>))"

definition CTcpConnect_CanRead :: "'a net_client_scheme \<Rightarrow> (bool \<times> 'a net_client_scheme) outcome" where
  "CTcpConnect_CanRead c =
     bnd (guard (fd_setable (m_hSocket c)) Out_of_bounds) (\<lambda>_.
     case lk_ready (peer c) of
       [] \<Rightarrow> Inr (False, c)
     | r # rs \<Rightarrow> Inr (r, c\<lparr>peer := (peer c)\<lparr>lk_ready := rs\<rparr>\<rparr>))"

text \<open>\<open>Connect\<close>; no attempt left means that \<open>socket\<close> fails. A failure leaves the socket open.\<close>

definition CTcpConnect_Connect :: "'a net_client_scheme \<Rightarrow> (bool \<times> 'a net_client_scheme) outcome" where
  "CTcpConnect_Connect c =
     (let c = CTcpConnect_Close c in
      case attempts c of
        [] \<Rightarrow> Inr (False, c)
      | a # rest \<Rightarrow>
          let c = c\<lparr>m_hSocket := at_socket a, peer := at_link a, attempts := rest\<rparr> in
          if at_socket a = INVALID_SOCKET then Inr (False, c)
          else if \<not> at_addr a then Inr (False, c)
          else bnd (guard (fd_setable (m_hSocket c)) Out_of_bounds) (\<lambda>_. Inr (at_writable a, c)))"

section \<open>\<open>CNetDataClient\<close>\<close>

definition WORK_BUFFER_LEN :: nat where "WORK_BUFFER_LEN = 1025 * 1024"

definition GetIndex :: "'a net_client_scheme \<Rightarrow> int \<times> 'a net_client_scheme" where
  "GetIndex c =
     (let i = (if m_nIndex c + 1 = 0 then 1 else m_nIndex c + 1) in (i, c\<lparr>m_nIndex := i\<rparr>))"

text \<open>After a success the data is printed as a string, so it has to end.\<close>

definition CNetDataClient_SendCmd :: "int \<Rightarrow> 32 word \<Rightarrow> byte list \<Rightarrow> int \<Rightarrow> 'a net_client_scheme \<Rightarrow> (bool \<times> 'a net_client_scheme) outcome" where
  "CNetDataClient_SendCmd cmd index lpData nLength c =
     (let nc = \<lparr>dwFlag = NET_FLAG, dwCmd = word_of_int cmd, dwIndex = index, dwLength = word_of_int nLength\<rparr>
      in bnd (CTcpConnect_Send (put_cmd nc) c) (\<lambda>(r, c).
         if \<not> r then Inr (False, c)
         else if nLength = 0 then Inr (True, c)
         else bnd (load lpData 0 (size_of nLength)) (\<lambda>xs.
              bnd (CTcpConnect_Send xs c) (\<lambda>(r, c).
              if \<not> r then Inr (False, c) else bnd (strlen lpData) (\<lambda>_. Inr (True, c))))))"

text \<open>
  \<open>RecvCmd\<close>: \<open>None\<close> for \<open>FALSE\<close>, else the command, the length and the memory at \<open>lpLogin\<close>. The fields it
  prints are within the 2048 bytes its only caller passes.
\<close>

definition CNetDataClient_RecvCmd :: "byte list \<Rightarrow> int \<Rightarrow> 'a net_client_scheme \<Rightarrow> ((32 word \<times> int \<times> byte list) option \<times> 'a net_client_scheme) outcome" where
  "CNetDataClient_RecvCmd lpLogin nLength c =
     bnd (CTcpConnect_Recv sizeof_NET_CMD c) (\<lambda>(r, head, c).
     if \<not> r then Inr (None, c)
     else let nc = get_cmd head in
       if dwFlag nc \<noteq> NET_FLAG then Inr (None, c)
       else if dwLength nc = 0 then Inr (Some (dwCmd nc, 0, lpLogin), c)
       else if dwLength nc > word_of_int nLength then Inr (None, c)
       else bnd (CTcpConnect_Recv (unat (dwLength nc)) c) (\<lambda>(r, xs, c).
            bnd (store lpLogin 0 xs) (\<lambda>lpLogin.
            if \<not> r then Inr (None, c) else Inr (Some (dwCmd nc, sint (dwLength nc), lpLogin), c))))"

definition mw_write :: "byte list \<Rightarrow> 'a net_client_scheme \<Rightarrow> 'a net_client_scheme outcome" where
  "mw_write xs c = (case mwFile c of None \<Rightarrow> Inl Null_deref | Some f \<Rightarrow> Inr (c\<lparr>mwFile := Some (f @ xs)\<rparr>))"

text \<open>
  \<open>RecvData\<close> over the memory \<open>lpData\<close>, which keeps what earlier calls have left. It is only called with
  a block of \<open>WORK_BUFFER_LEN\<close> bytes, which contains the five bytes it compares and prints.
\<close>

definition CNetDataClient_RecvData :: "byte list \<Rightarrow> int \<Rightarrow> 'a net_client_scheme \<Rightarrow> (bool \<times> byte list \<times> 'a net_client_scheme) outcome" where
  "CNetDataClient_RecvData lpData nLength c =
     bnd (CTcpConnect_Recv sizeof_NET_CMD c) (\<lambda>(r, head, c).
     if \<not> r then Inr (False, lpData, c)
     else let nc = get_cmd head in
       if dwFlag nc \<noteq> NET_FLAG then Inr (False, lpData, c)
       else if dwLength nc > word_of_int nLength then Inr (False, lpData, c)
       else if dwCmd nc = word_of_int MODULE_MSG_VIDEO then
         bnd (CTcpConnect_Recv (unat (dwLength nc)) c) (\<lambda>(r, xs, c).
         bnd (store lpData 0 xs) (\<lambda>lpData.
         if \<not> r then Inr (False, lpData, c)
         else
           bnd (load32 lpData 0) (\<lambda>dwFrameType.
           if dwFrameType = FRAME_VIDEO_I \<or> dwFrameType = FRAME_VIDEO_P then
             bnd (load32 lpData 4) (\<lambda>len.
             bnd (load lpData sizeof_AV_FRAME (size_of (sint len))) (\<lambda>ys.
             bnd (mw_write ys c) (\<lambda>c. Inr (True, lpData, c))))
           else Inr (True, lpData, c))))
       else if dwCmd nc = word_of_int MODULE_MSG_DATAEND then Inr (False, lpData, c)
       else Inr (True, lpData, c))"

text \<open>
  The search for the parameter sets in \<open>videoExtData\<close>, from \<open>i\<close> on, \<open>n\<close> turns, over the struct
  \<open>lpInfo\<close> points to; the array is at offset 220, so index -1 is the last byte of the field before it.
\<close>

definition ext_at :: "byte list \<Rightarrow> int \<Rightarrow> byte outcome" where
  "ext_at info i = peek info (220 + i)"

fun ext_loop :: "byte list \<Rightarrow> nat \<Rightarrow> int \<Rightarrow> int \<times> int \<Rightarrow> int \<times> int \<Rightarrow> ((int \<times> int) \<times> (int \<times> int)) outcome" where
  "ext_loop info 0 i sps pps = Inr (sps, pps)"
| "ext_loop info (Suc n) i sps pps =
     bnd (ext_at info i) (\<lambda>x.
     if x = 0x67 then bnd (ext_at info (i - 1)) (\<lambda>l. ext_loop info n (i + 1) (i, sint l) pps)
     else if x = 0x68 then bnd (ext_at info (i - 1)) (\<lambda>l. ext_loop info n (i + 1) sps (i, sint l))
     else ext_loop info n (i + 1) sps pps)"

text \<open>The end of \<open>ConnectServer\<close>: the parameter sets go to the file, each behind a start code.\<close>

definition write_parameter_sets :: "byte list \<Rightarrow> 'a net_client_scheme \<Rightarrow> 'a net_client_scheme outcome" where
  "write_parameter_sets info c =
     bnd (load32 info 216) (\<lambda>nVideoExtSize.
     bnd (ext_loop info (nat (sint nVideoExtSize)) 0 (0, 0) (0, 0)) (\<lambda>((spsIndex, spsLen), (ppsIndex, ppsLen)).
     bnd (mw_write start_code c) (\<lambda>c.
     bnd (load info (nat (220 + spsIndex)) (size_of spsLen)) (\<lambda>xs.
     bnd (mw_write xs c) (\<lambda>c.
     bnd (mw_write start_code c) (\<lambda>c.
     bnd (load info (nat (220 + ppsIndex)) (size_of ppsLen)) (\<lambda>ys.
     mw_write ys c)))))))"

text \<open>What \<open>ConnectServer\<close> prints into \<open>lpData[2048]\<close>.\<close>

definition login_request :: "int \<Rightarrow> byte list \<Rightarrow> byte list" where
  "login_request opt path = (if opt = 0 then str ''<play path='' else str ''<get path='') @ [34] @ c_str path @ [34] @ str ''/>''"

text \<open>\<open>ConnectServer\<close> with the struct at \<open>lpInfo\<close>, \<open>None\<close> for NULL.\<close>

definition CNetDataClient_ConnectServer :: "byte list option \<Rightarrow> 'a net_client_scheme \<Rightarrow> (bool \<times> byte list option \<times> 'a net_client_scheme) outcome" where
  "CNetDataClient_ConnectServer lpInfo c =
     bnd (CTcpConnect_Connect c) (\<lambda>(r, c).
     if \<not> r then Inr (False, lpInfo, c)
     else let xs = login_request (m_opt c) (m_szFile c) in
       bnd (store (replicate 2048 0) 0 (xs @ [0])) (\<lambda>lpData.
       bnd (CNetDataClient_SendCmd MODULE_MSG_LOGIN 0 lpData (int (length xs)) c) (\<lambda>(r, c).
       if \<not> r then Inr (False, lpInfo, c)
       else bnd (CNetDataClient_RecvCmd lpData 2048 c) (\<lambda>(r, c).
         case r of
           None \<Rightarrow> Inr (False, lpInfo, c)
         | Some (dwMsg, n, lpData) \<Rightarrow>
             if dwMsg \<noteq> word_of_int MODULE_MSG_LOGINRET then Inr (False, lpInfo, c)
             else bnd (load32 lpData 0) (\<lambda>lRet.
               if lRet \<noteq> ERR_NOERROR then Inr (False, lpInfo, c)
               else
                 bnd (load32 lpData 4) (\<lambda>len.
                 case lpInfo of
                   None \<Rightarrow> Inl Null_deref
                 | Some info \<Rightarrow>
                     bnd (load lpData 8 (size_of (sint len))) (\<lambda>ys.
                     bnd (store info 0 ys) (\<lambda>info.
                     bnd (write_parameter_sets info c) (\<lambda>c. Inr (True, Some info, c))))))))))"

definition CNetDataClient_OpenClient :: "byte list \<Rightarrow> int \<Rightarrow> byte list option \<Rightarrow> 'a net_client_scheme \<Rightarrow> (bool \<times> byte list option \<times> 'a net_client_scheme) outcome" where
  "CNetDataClient_OpenClient szPath opt lpFileInfo c =
     CNetDataClient_ConnectServer lpFileInfo (c\<lparr>m_szFile := c_str szPath, m_opt := opt\<rparr>)"

definition CNetDataClient_Reconnect :: "'a net_client_scheme \<Rightarrow> (bool \<times> 'a net_client_scheme) outcome" where
  "CNetDataClient_Reconnect c = bnd (CNetDataClient_ConnectServer None c) (\<lambda>(r, info, c). Inr (r, c))"

text \<open>
  The first loop of \<open>Work\<close>, \<open>n\<close> turns of it at most: whether it has ended. It does not end while the
  server is silent.
\<close>

fun Work_reads :: "nat \<Rightarrow> byte list \<Rightarrow> 'a net_client_scheme \<Rightarrow> (bool \<times> byte list \<times> 'a net_client_scheme) outcome" where
  "Work_reads 0 lpData c = Inr (False, lpData, c)"
| "Work_reads (Suc n) lpData c =
     bnd (CTcpConnect_CanRead c) (\<lambda>(r, c).
     if r then
       bnd (CNetDataClient_RecvData lpData (int WORK_BUFFER_LEN) c) (\<lambda>(ok, lpData, c).
       if ok then Work_reads n lpData c else Inr (True, lpData, c))
     else Work_reads n lpData c)"

text \<open>
  The second loop, with what each \<open>Wait\<close> for the event \<open>m_evtQuit\<close> returns. After a reconnection the
  first loop runs again.
\<close>

fun Work_rounds :: "('a net_client_scheme \<Rightarrow> (bool \<times> 'a net_client_scheme) outcome) \<Rightarrow> nat \<Rightarrow> bool list \<Rightarrow> byte list \<Rightarrow>
    'a net_client_scheme \<Rightarrow> (bool \<times> byte list \<times> 'a net_client_scheme) outcome" where
  "Work_rounds reconnect n [] lpData c = Inr (False, lpData, c)"
| "Work_rounds reconnect n (quit # qs) lpData c =
     (if quit then Inr (True, lpData, c)
      else bnd (reconnect c) (\<lambda>(ok, c).
        if ok then
          bnd (Work_reads n lpData c) (\<lambda>(ended, lpData, c).
          if ended then Work_rounds reconnect n qs lpData c else Inr (False, lpData, c))
        else Work_rounds reconnect n qs lpData c))"

text \<open>\<open>Work\<close>; \<open>mem\<close> is what \<open>malloc\<close> returns and \<open>reconnect\<close> the virtual function \<open>Reconnect\<close>.\<close>

definition CNetDataClient_Work :: "('a net_client_scheme \<Rightarrow> (bool \<times> 'a net_client_scheme) outcome) \<Rightarrow> nat \<Rightarrow> bool list \<Rightarrow>
    byte list option \<Rightarrow> 'a net_client_scheme \<Rightarrow> (bool \<times> 'a net_client_scheme) outcome" where
  "CNetDataClient_Work reconnect n qs mem c =
     (case mem of
        None \<Rightarrow> Inr (True, c)
      | Some lpData \<Rightarrow>
          bnd (Work_reads n lpData c) (\<lambda>(ended, lpData, c).
          if ended then bnd (Work_rounds reconnect n qs lpData c) (\<lambda>(r, lpData, c). Inr (r, c))
          else Inr (False, c)))"

definition CNetDataClient_DefNetMessage :: "32 word \<Rightarrow> 32 word \<Rightarrow> byte list \<Rightarrow> int \<Rightarrow> 'a net_client_scheme \<Rightarrow> 'a net_client_scheme outcome" where
  "CNetDataClient_DefNetMessage dwMsg index lpData nLength c =
     (if dwMsg = word_of_int MODULE_MSG_EXERET then
        bnd (strlen lpData) (\<lambda>_.
        case m_mapWait c (uint index) of
          None \<Rightarrow> Inr c
        | Some w \<Rightarrow>
            bnd (load lpData 0 (size_of nLength)) (\<lambda>xs.
            bnd (store (szWait w) 0 xs) (\<lambda>m.
            Inr (c\<lparr>m_mapWait := (m_mapWait c)(uint index \<mapsto> \<lparr>hWait = True, nRetLen = nLength, szWait = m\<rparr>)\<rparr>))))
      else Inr c)"

text \<open>
  \<open>ExecCmd\<close>; \<open>meanwhile\<close> is what the other thread does until the wait ends. The string it returns is what
  the other thread has put into the entry.
\<close>

definition CNetDataClient_ExecCmd :: "('a net_client_scheme \<Rightarrow> 'a net_client_scheme outcome) \<Rightarrow> int \<Rightarrow> byte list \<Rightarrow> int \<Rightarrow>
    'a net_client_scheme \<Rightarrow> (byte list \<times> 'a net_client_scheme) outcome" where
  "CNetDataClient_ExecCmd meanwhile dwMsg szMsg nMsgLen c =
     (let wi = \<lparr>hWait = False, nRetLen = 0, szWait = replicate 1024 0\<rparr>;
          (nIndex, c) = GetIndex c;
          c = c\<lparr>m_mapWait := (m_mapWait c)(nIndex \<mapsto> wi)\<rparr>
      in bnd (CNetDataClient_SendCmd dwMsg (word_of_int nIndex) szMsg nMsgLen c) (\<lambda>(r, c).
         if \<not> r then Inr ([], c\<lparr>m_mapWait := (m_mapWait c)(nIndex := None)\<rparr>)
         else bnd (meanwhile c) (\<lambda>c.
           let w = (case m_mapWait c nIndex of None \<Rightarrow> wi | Some w \<Rightarrow> w)
           in bnd (strlen (szWait w)) (\<lambda>l.
              Inr (take l (szWait w), c\<lparr>m_mapWait := (m_mapWait c)(nIndex := None)\<rparr>)))))"

text \<open>What \<open>Start\<close> prints into \<open>szCmd[100]\<close>.\<close>

definition start_request :: "32 word \<Rightarrow> 32 word \<Rightarrow> byte list" where
  "start_request dwStart dwEnd = str ''<control name='' @ [34] @ str ''start'' @ [34] @ str '' tmstart='' @ [34] @
     fmt_d (sint dwStart) @ [34] @ str '' tmend='' @ [34] @ fmt_d (sint dwEnd) @ [34] @ str '' />''"

definition CNetDataClient_Start :: "32 word \<Rightarrow> 32 word \<Rightarrow> 'a net_client_scheme \<Rightarrow> (bool \<times> 'a net_client_scheme) outcome" where
  "CNetDataClient_Start dwStart dwEnd c =
     (let xs = start_request dwStart dwEnd
      in bnd (store (replicate 100 0) 0 (xs @ [0])) (\<lambda>szCmd.
         CNetDataClient_SendCmd MODULE_MSG_CONTROL_PLAY 0 szCmd (int (length xs) + 1) c))"

definition CNetDataClient_StartWork :: "'a net_client_scheme \<Rightarrow> 'a net_client_scheme" where
  "CNetDataClient_StartWork c = (if m_hThread c then c else c\<lparr>m_evtQuit := False, m_hThread := True\<rparr>)"

text \<open>\<open>CloseClient\<close>; \<open>finish\<close> is what the other thread does until it has been joined.\<close>

definition CNetDataClient_CloseClient :: "('a net_client_scheme \<Rightarrow> 'a net_client_scheme outcome) \<Rightarrow> 'a net_client_scheme \<Rightarrow> 'a net_client_scheme outcome" where
  "CNetDataClient_CloseClient finish c =
     (let c = c\<lparr>m_evtQuit := True\<rparr>
      in bnd (if m_hThread c then finish c else Inr c) (\<lambda>c. Inr (CTcpConnect_Close c)))"

section \<open>\<open>CPlayBackClient\<close>\<close>

text \<open>
  \<open>has_proc\<close> and \<open>has_getEmp\<close> say whether the two callbacks have been set; \<open>proc_log\<close> lists the calls
  of the first: its frame, \<open>dataEnd\<close> and \<open>bSend\<close>. \<open>sendControl\<close> returns at once, and the code behind the
  \<open>return\<close> statements of \<open>DefNetMessage\<close> is never reached.
\<close>

record playback_client = net_client +
  m_bDataEnd :: bool
  m_dwCurPts :: "32 word"
  m_bSend :: bool
  m_bPause :: int
  has_proc :: bool
  has_getEmp :: bool
  proc_log :: "(byte list option \<times> bool \<times> bool) list"
  m_bufData :: data_buffer

definition CPlayBackClient_new :: "bool \<Rightarrow> attempt list \<Rightarrow> playback_client" where
  "CPlayBackClient_new opened tries = net_client.extend (CNetDataClient_new opened tries)
     (playback_client.fields False 0 False 0 False False [] CDataBuffer_new)"

definition call_proc :: "byte list option \<Rightarrow> bool \<Rightarrow> bool \<Rightarrow> playback_client \<Rightarrow> playback_client" where
  "call_proc frame dataEnd bSend c = (if has_proc c then c\<lparr>proc_log := proc_log c @ [(frame, dataEnd, bSend)]\<rparr> else c)"

definition CPlayBackClient_DefNetMessage :: "32 word \<Rightarrow> 32 word \<Rightarrow> byte list \<Rightarrow> int \<Rightarrow> playback_client \<Rightarrow> playback_client outcome" where
  "CPlayBackClient_DefNetMessage dwMsg index lpData nLength c =
     bnd (CNetDataClient_DefNetMessage dwMsg index lpData nLength c) (\<lambda>c.
     if dwMsg = word_of_int MODULE_MSG_DATAEND then
       Inr (call_proc None True (m_bSend c) (c\<lparr>m_bDataEnd := True\<rparr>))
     else if dwMsg = word_of_int MODULE_MSG_SECTION_END then
       Inr (call_proc None False False (c\<lparr>m_bSend := False, m_bPause := 1\<rparr>))
     else if dwMsg = word_of_int MODULE_MSG_VIDEO then
       bnd (load32 lpData 8) (\<lambda>dwTick.
       let c = c\<lparr>m_dwCurPts := dwTick\<rparr>
       in Inr (if has_getEmp c then call_proc (Some lpData) False True c else c))
     else Inr c)"

definition CPlayBackClient_Start :: "32 word \<Rightarrow> 32 word \<Rightarrow> playback_client \<Rightarrow> (bool \<times> playback_client) outcome" where
  "CPlayBackClient_Start dwStart dwEnd c = CNetDataClient_Start dwStart dwEnd (c\<lparr>m_dwCurPts := dwStart\<rparr>)"

definition CPlayBackClient_Reconnect :: "playback_client \<Rightarrow> (bool \<times> playback_client) outcome" where
  "CPlayBackClient_Reconnect c =
     bnd (CNetDataClient_Reconnect c) (\<lambda>(r, c).
     if \<not> r then Inr (False, c)
     else let c = c\<lparr>m_bDataEnd := False, m_bSend := False, m_bPause := 0\<rparr>
       in CPlayBackClient_Start (m_dwCurPts c) 0 c)"

definition CPlayBackClient_IsPlayerBufferEmpty :: "playback_client \<Rightarrow> bool" where
  "CPlayBackClient_IsPlayerBufferEmpty c = m_bDataEnd c"

text \<open>The pause command with its value.\<close>

definition pause_request :: "string \<Rightarrow> byte list" where
  "pause_request v = str ''<control name='' @ [34] @ str ''setpause'' @ [34] @ str '' value='' @ [34] @ str v @ [34] @ str ''/>''"

definition send_pause :: "string \<Rightarrow> playback_client \<Rightarrow> (bool \<times> playback_client) outcome" where
  "send_pause v c =
     bnd (store (replicate 100 0) 0 (pause_request v @ [0])) (\<lambda>szCmd.
     CNetDataClient_SendCmd MODULE_MSG_CONTROL_PLAY 0 szCmd (int (length (pause_request v))) c)"

definition CPlayBackClient_SetPlayPause :: "int \<Rightarrow> playback_client \<Rightarrow> (bool \<times> playback_client) outcome" where
  "CPlayBackClient_SetPlayPause bPause c =
     (if m_bPause c = bPause then Inr (True, c)
      else if m_bDataEnd c then Inr (False, c)
      else if bPause \<noteq> 0 \<and> m_bSend c then Inr (False, c)
      else bnd (send_pause (if bPause = 0 then ''0'' else ''1'') c) (\<lambda>(ret, c).
        let c = c\<lparr>m_bSend := ret\<rparr> in Inr (m_bSend c, if ret then c\<lparr>m_bPause := bPause\<rparr> else c)))"

definition seek_request :: "32 word \<Rightarrow> byte list" where
  "seek_request dwStart = str ''<control name='' @ [34] @ str ''seek'' @ [34] @ str '' value='' @ [34] @
     fmt_d (sint dwStart) @ [34] @ str ''/>''"

definition CPlayBackClient_Seek :: "(playback_client \<Rightarrow> playback_client outcome) \<Rightarrow> 32 word \<Rightarrow> playback_client \<Rightarrow> (bool \<times> playback_client) outcome" where
  "CPlayBackClient_Seek meanwhile dwStart c =
     (let xs = seek_request dwStart
      in bnd (store (replicate 256 0) 0 (xs @ [0])) (\<lambda>szCmd.
         bnd (CNetDataClient_ExecCmd meanwhile MODULE_MSG_CONTROL_PLAY szCmd (int (length xs) + 1) c) (\<lambda>(s, c).
         if s = [] then Inr (False, c) else Inr (True, c\<lparr>m_bDataEnd := False, m_bSend := False\<rparr>))))"

text \<open>\<open>OpenPlayback\<close> with the callbacks of \<open>cfi\<close>; the struct \<open>fi\<close> it fills is returned.\<close>

definition CPlayBackClient_OpenPlayback :: "byte list \<Rightarrow> bool \<Rightarrow> bool \<Rightarrow> playback_client \<Rightarrow> (bool \<times> byte list option \<times> playback_client) outcome" where
  "CPlayBackClient_OpenPlayback szPath onav getbufSize c =
     bnd (CNetDataClient_OpenClient szPath 0 (Some (replicate sizeof_FILE_INFO 0)) c) (\<lambda>(r, fi, c).
     if \<not> r then Inr (False, fi, c)
     else Inr (True, fi, CNetDataClient_StartWork (c\<lparr>has_proc := onav, has_getEmp := getbufSize, m_dwCurPts := 0\<rparr>)))"

end
