(* ===== verification/PlayerProps.thy ===== *)
theory PlayerProps
  imports PlayerClient PlaybackProps TransferProps
begin

text \<open>
  Properties of the player: it reads what the server sends and its file gets the pictures; a seek is
  never confirmed; a reconnection never succeeds; its buffer is a queue.
\<close>

section \<open>Receiving\<close>

text \<open>Answers with which \<open>n\<close> bytes arrive whatever the calls they are read in.\<close>

definition supplies :: "nat \<Rightarrow> nat option list \<Rightarrow> bool" where
  "supplies n ps \<longleftrightarrow> None \<notin> set ps \<and> Some 0 \<notin> set ps \<and> n \<le> length ps"

lemma recv_loop_supplies:
  assumes "supplies (n + k) ps" "0 < n" "n \<le> length inp"
  shows "\<exists>ps'. recv_loop n ps inp = (True, take n inp, ps', drop n inp) \<and> supplies k ps'"
  using assms
proof (induction n ps inp rule: recv_loop.induct)
  case (3 n j ps inp)
  define xs where "xs = take (min n j) inp"
  have j: "0 < j" "supplies (n + k - 1) ps"
    using "3.prems" by (auto simp: supplies_def)
  have xs: "length xs = min n j" "xs \<noteq> []"
    using "3.prems" j(1) by (auto simp: xs_def)
  show ?case
  proof (cases "n \<le> length xs")
    case True
    with xs have "min n j = n" by simp
    with j(2) "3.prems" show ?thesis
      by (auto simp: supplies_def Let_def)
  next
    case False
    then have m: "min n j = j" "length xs = j" "j < n"
      using xs(1) by auto
    have "supplies (n - j + k) ps"
      using j m(3) by (auto simp: supplies_def)
    then obtain ps' where ps': "recv_loop (n - j) ps (drop j inp) = (True, take (n - j) (drop j inp), ps', drop (n - j) (drop j inp))"
        "supplies k ps'"
      using "3.IH" [OF xs_def xs(2) False] m "3.prems"(3) by (auto simp: diff_le_mono)
    have "take j inp @ take (n - j) (drop j inp) = take n inp" "drop (n - j) (drop j inp) = drop n inp"
      using m(3) take_add [of j "n - j" inp] by simp_all
    with ps' m xs show ?thesis
      by (auto simp: xs_def Let_def)
  qed
qed (auto simp: supplies_def)

definition after_recv :: "nat option list \<Rightarrow> byte list \<Rightarrow> 'a net_client_scheme \<Rightarrow> 'a net_client_scheme" where
  "after_recv ps rest c = c\<lparr>peer := (peer c)\<lparr>lk_recv := ps, lk_in := rest\<rparr>\<rparr>"

lemma after_recv_simps [simp]:
  "m_hSocket (after_recv ps rest c) = m_hSocket c" "lk_in (peer (after_recv ps rest c)) = rest"
  "lk_recv (peer (after_recv ps rest c)) = ps" "mwFile (after_recv ps rest c) = mwFile c"
  "lk_ready (peer (after_recv ps rest c)) = lk_ready (peer c)" "after_recv ps rest (after_recv qs inp c) = after_recv ps rest c"
  "attempts (after_recv ps rest c) = attempts c"
  by (simp_all add: after_recv_def)

text \<open>The next bytes are \<open>xs\<close> and what follows them is received too.\<close>

definition incoming_is :: "byte list \<Rightarrow> nat \<Rightarrow> 'a net_client_scheme \<Rightarrow> bool" where
  "incoming_is inp k c \<longleftrightarrow> fd_setable (m_hSocket c) \<and> lk_in (peer c) = inp \<and> supplies k (lk_recv (peer c))"

lemma Recv_ok:
  assumes "incoming_is (xs @ rest) (length xs + k) c" "xs \<noteq> []"
  shows "\<exists>ps. CTcpConnect_Recv (length xs) c = Inr (True, xs, after_recv ps rest c) \<and> incoming_is rest k (after_recv ps rest c)"
  using recv_loop_supplies [of "length xs" k "lk_recv (peer c)" "xs @ rest"] assms
  by (auto simp: incoming_is_def CTcpConnect_Recv_def after_recv_def)

text \<open>A head, whatever follows.\<close>

lemma Recv_head:
  assumes "incoming_is (put_cmd nc @ rest) (16 + k) c"
  shows "\<exists>ps. CTcpConnect_Recv sizeof_NET_CMD c = Inr (True, put_cmd nc, after_recv ps rest c) \<and>
    incoming_is rest k (after_recv ps rest c)"
proof -
  have "put_cmd nc \<noteq> []"
    using length_put_cmd [of nc] by (metis list.size(3) zero_neq_numeral)
  with Recv_ok [of "put_cmd nc" rest k c] assms show ?thesis
    by (simp add: sizeof_NET_CMD_def)
qed

lemma get_put_cmd_Nil [simp]: "get_cmd (put_cmd c) = c"
  using get_put_cmd [of c "[]"] by simp

section \<open>Frames\<close>

text \<open>The data of a frame as the server sends it, and what the player saves of it.\<close>

definition payload :: "av_packet \<times> int \<Rightarrow> byte list" where
  "payload = (\<lambda>(pkt, ft). case prepare pkt ft of Inr d \<Rightarrow> take (nat (pk_size pkt)) d | Inl e \<Rightarrow> [])"

definition saved :: "av_packet \<times> int \<Rightarrow> byte list" where
  "saved p = (if snd p = AVMEDIA_TYPE_VIDEO then payload p else [])"

text \<open>What of a frame follows its \<open>NET_CMD\<close>.\<close>

definition frame_body :: "av_packet \<times> int \<Rightarrow> byte list" where
  "frame_body p = put32 (frame_code (fst p) (snd p)) @ put32 (word_of_int (pk_size (fst p))) @
     put32 (word_of_int (pk_pts (fst p))) @ put32 (word_of_int (pk_pts (fst p))) @ payload p"

definition frame_cmd :: "av_packet \<Rightarrow> net_cmd" where
  "frame_cmd pkt = \<lparr>dwFlag = NET_FLAG, dwCmd = word_of_int MODULE_MSG_VIDEO, dwIndex = 0,
     dwLength = word_of_int (pk_size pkt + int sizeof_AV_FRAME)\<rparr>"

lemma av_message_split: "av_message p = put_cmd (frame_cmd (fst p)) @ frame_body p"
  by (cases p) (simp add: av_message_def av_head_def av_frame_head_def frame_cmd_def frame_body_def payload_def)

lemma length_payload:
  assumes "sendable p"
  shows "length (payload p) = nat (pk_size (fst p))" "0 < pk_size (fst p)" "pk_size (fst p) < 2 ^ 31"
proof -
  obtain pkt ft where p: "p = (pkt, ft)" by (cases p)
  obtain d where d: "prepare pkt ft = Inr d"
    using assms by (auto simp: sendable_def p split: sum.splits)
  then have "length d = length (pk_data pkt)"
    using length_patch_video by (fastforce simp: prepare_def split: if_splits)
  with d assms show "length (payload p) = nat (pk_size (fst p))" "0 < pk_size (fst p)" "pk_size (fst p) < 2 ^ 31"
    by (auto simp: p payload_def sendable_def)
qed

lemma frame_code_video:
  "frame_code pkt ft = FRAME_VIDEO_I \<or> frame_code pkt ft = FRAME_VIDEO_P \<longleftrightarrow> ft = AVMEDIA_TYPE_VIDEO"
  by (simp add: frame_code_def FRAME_VIDEO_I_def FRAME_VIDEO_P_def FRAME_AUDIO_def)

text \<open>Every frame fits into the buffer of the player.\<close>

definition frame_fits :: "av_packet \<times> int \<Rightarrow> bool" where
  "frame_fits p \<longleftrightarrow> pk_size (fst p) + int sizeof_AV_FRAME \<le> int WORK_BUFFER_LEN"

text \<open>What \<open>RecvData\<close> does with a whole frame in its memory.\<close>

lemma frame_fields:
  assumes "sendable p" "m = frame_body p @ tail"
  shows "load32 m 0 = Inr (frame_code (fst p) (snd p))" "load32 m 4 = Inr (word_of_int (pk_size (fst p)))"
    "load m sizeof_AV_FRAME (size_of (sint (word_of_int (pk_size (fst p)) :: 32 word))) = Inr (payload p)"
proof -
  note len = length_payload [OF assms(1)]
  have "sint (word_of_int (pk_size (fst p)) :: 32 word) = pk_size (fst p)"
    using len by (simp add: signed_of_int signed_take_bit_int_eq_self)
  then have n: "size_of (sint (word_of_int (pk_size (fst p)) :: 32 word)) = length (payload p)"
    using len by (simp add: size_of_nonneg)
  show "load32 m 0 = Inr (frame_code (fst p) (snd p))"
    using get32_at [of m "[]" "frame_code (fst p) (snd p)"] by (simp add: load32_def assms(2) frame_body_def)
  show "load32 m 4 = Inr (word_of_int (pk_size (fst p)))"
    using get32_at [of m "put32 (frame_code (fst p) (snd p))" "word_of_int (pk_size (fst p))"]
    by (simp add: load32_def assms(2) frame_body_def)
  have "m = (put32 (frame_code (fst p) (snd p)) @ put32 (word_of_int (pk_size (fst p))) @
     put32 (word_of_int (pk_pts (fst p))) @ put32 (word_of_int (pk_pts (fst p)))) @ payload p @ tail"
    by (simp add: assms(2) frame_body_def)
  then show "load m sizeof_AV_FRAME (size_of (sint (word_of_int (pk_size (fst p)) :: 32 word))) = Inr (payload p)"
    unfolding n by (simp add: load_def sizeof_AV_FRAME_def)
qed

lemma RecvData_frame:
  assumes "incoming_is (av_message p @ rest) (length (av_message p) + k) c" "sendable p" "frame_fits p"
    and "length m = WORK_BUFFER_LEN" "mwFile c = Some f"
  shows "\<exists>m' ps. CNetDataClient_RecvData m (int WORK_BUFFER_LEN) c =
      Inr (True, m', (after_recv ps rest c)\<lparr>mwFile := Some (f @ saved p)\<rparr>) \<and>
    length m' = WORK_BUFFER_LEN \<and> incoming_is rest k (after_recv ps rest c)"
proof -
  let ?nc = "frame_cmd (fst p)" and ?n = "length (frame_body p)"
  note len = length_payload [OF assms(2)]
  have n: "?n = nat (pk_size (fst p)) + 16" "?n \<le> WORK_BUFFER_LEN"
    using len assms(3) by (simp_all add: frame_body_def frame_fits_def sizeof_AV_FRAME_def)
  have w: "WORK_BUFFER_LEN < 2 ^ 31"
    by (simp add: WORK_BUFFER_LEN_def)
  have "dwLength ?nc = word_of_nat ?n"
    using len by (simp add: frame_cmd_def n(1) sizeof_AV_FRAME_def)
  moreover have "unat (word_of_nat ?n :: 32 word) = ?n"
    using n(2) w by (intro of_nat_inverse [OF refl]) simp
  ultimately have nc: "dwFlag ?nc = NET_FLAG" "dwCmd ?nc = word_of_int MODULE_MSG_VIDEO" "unat (dwLength ?nc) = ?n"
    by (simp_all only:) (simp_all add: frame_cmd_def)
  have small: "\<not> dwLength ?nc > word_of_int (int WORK_BUFFER_LEN)"
    using n(2) nc(3) by (simp add: word_less_nat_alt WORK_BUFFER_LEN_def)
  obtain ps1 where r1: "CTcpConnect_Recv sizeof_NET_CMD c = Inr (True, put_cmd ?nc, after_recv ps1 (frame_body p @ rest) c)"
      "incoming_is (frame_body p @ rest) (?n + k) (after_recv ps1 (frame_body p @ rest) c)"
    using Recv_head [of ?nc "frame_body p @ rest" "?n + k" c] assms(1) by (auto simp: av_message_split add.assoc)
  have "frame_body p \<noteq> []"
    using n(1) by auto
  from Recv_ok [OF r1(2) this] obtain ps2 where
    r2: "CTcpConnect_Recv ?n (after_recv ps1 (frame_body p @ rest) c) = Inr (True, frame_body p, after_recv ps2 rest c)"
      "incoming_is rest k (after_recv ps2 rest c)"
    by auto
  define m' where "m' = frame_body p @ drop ?n m"
  have st: "store m 0 (frame_body p) = Inr m'" "length m' = WORK_BUFFER_LEN"
    using n(2) assms(4) by (simp_all add: store_def m'_def)
  note ff = frame_fields [OF assms(2) m'_def]
  have "CNetDataClient_RecvData m (int WORK_BUFFER_LEN) c =
      Inr (True, m', (after_recv ps2 rest c)\<lparr>mwFile := Some (f @ saved p)\<rparr>)"
  proof (cases "snd p = AVMEDIA_TYPE_VIDEO")
    case True
    then have code: "frame_code (fst p) AVMEDIA_TYPE_VIDEO = FRAME_VIDEO_I \<or> frame_code (fst p) AVMEDIA_TYPE_VIDEO = FRAME_VIDEO_P"
      using frame_code_video by blast
    show ?thesis
      using small assms(5) code
      by (auto simp: CNetDataClient_RecvData_def r1(1) nc r2(1) st(1) ff True saved_def mw_write_def)
  next
    case False
    then have code: "\<not> (frame_code (fst p) (snd p) = FRAME_VIDEO_I \<or> frame_code (fst p) (snd p) = FRAME_VIDEO_P)"
      using frame_code_video by blast
    have "(after_recv ps2 rest c)\<lparr>mwFile := Some f\<rparr> = after_recv ps2 rest c"
      using assms(5) by (simp add: after_recv_def)
    then show ?thesis
      using small code
      by (simp add: CNetDataClient_RecvData_def r1(1) nc r2(1) st(1) ff False saved_def)
  qed
  with st(2) r2(2) show ?thesis
    by blast
qed

text \<open>A command without a body ends the loop or is ignored.\<close>

lemma RecvData_command:
  assumes "incoming_is (simple_cmd v i @ rest) (16 + k) c" "v \<in> {MODULE_MSG_DATAEND, MODULE_MSG_SECTION_END, MODULE_MSG_PING, MODULE_MSG_SEEK_CMPD, MODULE_MSG_EXERET}"
  shows "\<exists>ps. CNetDataClient_RecvData m (int WORK_BUFFER_LEN) c =
      Inr (v \<noteq> MODULE_MSG_DATAEND, m, after_recv ps rest c) \<and> incoming_is rest k (after_recv ps rest c)"
proof -
  let ?nc = "\<lparr>dwFlag = NET_FLAG, dwCmd = word_of_int v, dwIndex = word_of_int i, dwLength = 0\<rparr>"
  have s: "simple_cmd v i = put_cmd ?nc"
    by (simp add: simple_cmd_def)
  from Recv_head [OF assms(1) [unfolded s]] obtain ps where
    ps: "CTcpConnect_Recv sizeof_NET_CMD c = Inr (True, put_cmd ?nc, after_recv ps rest c)"
      "incoming_is rest k (after_recv ps rest c)"
    by blast
  have "CNetDataClient_RecvData m (int WORK_BUFFER_LEN) c = Inr (v \<noteq> MODULE_MSG_DATAEND, m, after_recv ps rest c)"
    using assms(2) by (auto simp: CNetDataClient_RecvData_def ps(1) MODULE_MSG_DATAEND_def
      MODULE_MSG_SECTION_END_def MODULE_MSG_PING_def MODULE_MSG_SEEK_CMPD_def MODULE_MSG_EXERET_def MODULE_MSG_VIDEO_def)
  with ps(2) show ?thesis
    by blast
qed


section \<open>A whole stream\<close>

definition wait_ready :: "bool list \<Rightarrow> 'a net_client_scheme \<Rightarrow> 'a net_client_scheme" where
  "wait_ready rs c = c\<lparr>peer := (peer c)\<lparr>lk_ready := rs\<rparr>\<rparr>"

lemma CanRead_step:
  assumes "fd_setable (m_hSocket c)" "lk_ready (peer c) = r # rs"
  shows "CTcpConnect_CanRead c = Inr (r, wait_ready rs c)"
  using assms by (simp add: CTcpConnect_CanRead_def wait_ready_def)

lemma wait_ready_simps [simp]:
  "incoming_is inp k (wait_ready rs c) = incoming_is inp k c" "mwFile (wait_ready rs c) = mwFile c"
  "lk_ready (peer (wait_ready rs c)) = rs"
  "m_hSocket (wait_ready rs c) = m_hSocket c" "lk_in (peer (wait_ready rs c)) = lk_in (peer c)"
  "lk_recv (peer (wait_ready rs c)) = lk_recv (peer c)" "attempts (wait_ready rs c) = attempts c"
  by (simp_all add: wait_ready_def incoming_is_def)

text \<open>While the server is silent nothing happens.\<close>

lemma Work_reads_silent:
  assumes "fd_setable (m_hSocket c)" "lk_ready (peer c) = rs" "True \<notin> set rs"
  shows "\<exists>c'. Work_reads (length rs) m c = Inr (False, m, c') \<and> mwFile c' = mwFile c"
  using assms
proof (induction rs arbitrary: c)
  case (Cons r rs)
  then have "CTcpConnect_CanRead c = Inr (False, wait_ready rs c)"
    by (simp add: CanRead_step)
  with Cons.IH [of "wait_ready rs c"] Cons.prems show ?case
    by (simp add: wait_ready_def)
qed simp

text \<open>The thread reads a stream of frames and the command behind it, when it is told of each.\<close>

lemma Work_reads_stream:
  assumes "incoming_is (concat (map av_message ps) @ simple_cmd e 0) (length (concat (map av_message ps)) + 16) c"
    and "\<forall>p \<in> set ps. sendable p \<and> frame_fits p" "e \<in> {MODULE_MSG_DATAEND, MODULE_MSG_SECTION_END}"
    and "length m = WORK_BUFFER_LEN" "mwFile c = Some f"
    and "lk_ready (peer c) = rs" "count_list rs True = Suc (length ps)"
  shows "\<exists>m' c'. Work_reads (length rs) m c = Inr (e = MODULE_MSG_DATAEND, m', c') \<and>
    mwFile c' = Some (f @ concat (map saved ps))"
  using assms
proof (induction rs arbitrary: c m f ps)
  case (Cons r rs)
  have fd: "fd_setable (m_hSocket c)"
    using Cons.prems(1) by (simp add: incoming_is_def)
  then have cr: "CTcpConnect_CanRead c = Inr (r, wait_ready rs c)"
    using Cons.prems(6) by (rule CanRead_step)
  show ?case
  proof (cases r)
    case False
    with Cons.IH [of ps "wait_ready rs c" m f] Cons.prems cr show ?thesis
      by simp
  next
    case True
    show ?thesis
    proof (cases ps)
      case Nil
      with Cons.prems(1) have "incoming_is (simple_cmd e 0 @ []) (16 + 0) (wait_ready rs c)"
        by simp
      then obtain qs where qs: "CNetDataClient_RecvData m (int WORK_BUFFER_LEN) (wait_ready rs c) =
          Inr (e \<noteq> MODULE_MSG_DATAEND, m, after_recv qs [] (wait_ready rs c))"
        using RecvData_command [of e 0 "[]" 0 "wait_ready rs c" m] Cons.prems(3) by auto
      have "count_list rs True = 0"
        using Cons.prems(7) True Nil by simp
      then have "True \<notin> set rs"
        by (simp add: count_list_0_iff)
      then obtain c' where "Work_reads (length rs) m (after_recv qs [] (wait_ready rs c)) = Inr (False, m, c')"
          "mwFile c' = mwFile c"
        using Work_reads_silent [of "after_recv qs [] (wait_ready rs c)" rs m] fd
        by (auto simp: wait_ready_def)
      with qs cr True Nil Cons.prems(5) show ?thesis
        by auto
    next
      case (Cons p ps')
      let ?rest = "concat (map av_message ps') @ simple_cmd e 0"
      have "incoming_is (av_message p @ ?rest) (length (av_message p) + (length (concat (map av_message ps')) + 16))
          (wait_ready rs c)"
        using Cons.prems(1) local.Cons by (simp add: add.assoc)
      from RecvData_frame [OF this _ _ Cons.prems(4), of f] Cons.prems(2,5) local.Cons
      obtain m' qs where q: "CNetDataClient_RecvData m (int WORK_BUFFER_LEN) (wait_ready rs c) =
          Inr (True, m', (after_recv qs ?rest (wait_ready rs c))\<lparr>mwFile := Some (f @ saved p)\<rparr>)"
        "length m' = WORK_BUFFER_LEN"
        "incoming_is ?rest (length (concat (map av_message ps')) + 16) (after_recv qs ?rest (wait_ready rs c))"
        by auto
      let ?c = "(after_recv qs ?rest (wait_ready rs c))\<lparr>mwFile := Some (f @ saved p)\<rparr>"
      have "incoming_is ?rest (length (concat (map av_message ps')) + 16) ?c"
        using q(3) by (simp add: incoming_is_def)
      moreover have "lk_ready (peer ?c) = rs" "count_list rs True = Suc (length ps')"
        using Cons.prems(7) True local.Cons by simp_all
      ultimately obtain m2 c2 where "Work_reads (length rs) m' ?c = Inr (e = MODULE_MSG_DATAEND, m2, c2)"
          "mwFile c2 = Some ((f @ saved p) @ concat (map saved ps'))"
        using Cons.IH [of ps' ?c m' "f @ saved p"] Cons.prems(2,3) q(2) local.Cons by auto
      with q(1) cr True local.Cons show ?thesis
        by auto
    qed
  qed
qed simp

section \<open>Properties\<close>

text \<open>
  C17: playback from end to end. When the server plays a segment and the player gets what the server
  has sent, in whatever pieces the network delivers it, then the thread of the player appends to its
  file the data of the video frames of the segment, as the server sends them and in their order, and
  nothing else; at the end of the file of the server its loop ends, at the end of a segment it goes on.
\<close>

theorem playback_reaches_file:
  assumes "playing t" "0 \<le> pFrameCount t" "pFrameCount t \<le> SEG_FRAME_COUNT" "pMedia t = Some med"
    and "\<forall>p \<in> set (segment t med). sendable p \<and> frame_fits p"
    and "stream = concat (map av_message (segment t med)) @ simple_cmd (segment_end t med) 0"
    and "accepting (length stream) (send_plan (mSock t))"
    and "incoming_is stream (length stream) c" "mwFile c = Some f" "length m = WORK_BUFFER_LEN"
    and "count_list (lk_ready (peer c)) True = Suc (length (segment t med))"
  shows "\<exists>t' m' c'. TaskPlayback_writes (playback_calls (length (segment t med))) t = Inr t' \<and>
    sent (mSock t') = sent (mSock t) @ stream \<and>
    Work_reads (length (lk_ready (peer c))) m c = Inr (segment_end t med = MODULE_MSG_DATAEND, m', c') \<and>
    mwFile c' = Some (f @ concat (map saved (segment t med)))"
proof -
  have l: "length stream = length (concat (map av_message (segment t med))) + 16"
    using assms(6) by (simp add: simple_cmd_def)
  have "\<exists>t'. TaskPlayback_writes (playback_calls (length (segment t med))) t = Inr t' \<and>
      sent (mSock t') = sent (mSock t) @ stream"
    using playback_segment [OF assms(1-4)] assms(5-7) l by auto
  moreover have "segment_end t med \<in> {MODULE_MSG_DATAEND, MODULE_MSG_SECTION_END}"
    by (simp add: segment_end_def)
  from Work_reads_stream [OF _ assms(5) this assms(10,9) refl assms(11)] assms(6,8)
  have "\<exists>m' c'. Work_reads (length (lk_ready (peer c))) m c = Inr (segment_end t med = MODULE_MSG_DATAEND, m', c') \<and>
      mwFile c' = Some (f @ concat (map saved (segment t med)))"
    unfolding l by simp
  ultimately show ?thesis
    by blast
qed


text \<open>A video frame in the format of the file and an audio frame; the network delivers seven bytes at most.\<close>

definition film :: media where
  "film = \<lparr>med_info = replicate 328 0,
     med_packets = [(\<lparr>pk_data = [0, 0, 0, 3, 65, 66, 67, 0], pk_size = 7, pk_pts = 40, pk_key = False\<rparr>, AVMEDIA_TYPE_VIDEO),
       (\<lparr>pk_data = [1, 2, 3, 0, 0], pk_size = 3, pk_pts = 41, pk_key = False\<rparr>, AVMEDIA_TYPE_AUDIO)],
     med_seek = \<lambda>_. []\<rparr>"

definition film_player :: playback where
  "film_player = some_player\<lparr>pMedia := Some film\<rparr>"

definition film_stream :: "byte list" where
  "film_stream = concat (map av_message (segment film_player film)) @ simple_cmd (segment_end film_player film) 0"

definition some_client :: net_client where
  "some_client = \<lparr>m_hSocket = 5,
     peer = \<lparr>lk_recv = replicate 200 (Some 7), lk_in = film_stream, lk_ready = [False, True, True, False, True, False],
       lk_send = [], lk_out = []\<rparr>,
     attempts = [], closed_fds = [], m_szFile = str ''film'', m_opt = 0, m_nIndex = 0, m_mapWait = (\<lambda>_. None),
     mwFile = Some [], m_evtQuit = False, m_hThread = True\<rparr>"

theorem playback_reaches_file_witness:
  "\<exists>t' m' c'. TaskPlayback_writes 6 film_player = Inr t' \<and> sent (mSock t') = film_stream \<and>
    Work_reads 6 (replicate WORK_BUFFER_LEN 0) some_client = Inr (True, m', c') \<and>
    mwFile c' = Some [0, 0, 0, 1, 65, 66, 67]"
proof -
  note types = AVMEDIA_TYPE_VIDEO_def AVMEDIA_TYPE_AUDIO_def
  have seg: "segment film_player film = med_packets film" "segment_end film_player film = MODULE_MSG_DATAEND"
    by (simp_all add: segment_def segment_end_def film_player_def some_player_def film_def SEG_FRAME_COUNT_def)
  have pv: "patch_video False 7 [0, 0, 0, 3, 65, 66, 67, 0] = Inr [0, 0, 0, 1, 65, 66, 67, 0]"
    by (simp add: patch_video_def load_def poke_def store_def start_code_def)
  have l: "length film_stream = 90"
    unfolding film_stream_def seg
    by (simp add: film_def av_message_def prepare_def types pv simple_cmd_def)
  have "\<exists>t' m' c'. TaskPlayback_writes (playback_calls (length (segment film_player film))) film_player = Inr t' \<and>
    sent (mSock t') = sent (mSock film_player) @ film_stream \<and>
    Work_reads (length (lk_ready (peer some_client))) (replicate WORK_BUFFER_LEN 0) some_client =
      Inr (segment_end film_player film = MODULE_MSG_DATAEND, m', c') \<and>
    mwFile c' = Some ([] @ concat (map saved (segment film_player film)))"
  proof (rule playback_reaches_file)
    show "\<forall>p \<in> set (segment film_player film). sendable p \<and> frame_fits p"
      unfolding seg
      by (simp add: film_def sendable_def prepare_def types pv frame_fits_def sizeof_AV_FRAME_def WORK_BUFFER_LEN_def)
    show "accepting (length film_stream) (send_plan (mSock film_player))"
      unfolding l by (simp add: film_player_def some_player_def accepting_def)
    show "incoming_is film_stream (length film_stream) some_client"
      unfolding l by (simp add: incoming_is_def some_client_def fd_setable_def supplies_def)
    show "count_list (lk_ready (peer some_client)) True = Suc (length (segment film_player film))"
      unfolding seg by (simp add: some_client_def film_def)
  qed (simp_all add: film_player_def some_player_def playing_def SEG_FRAME_COUNT_def film_stream_def some_client_def)
  moreover have "concat (map saved (med_packets film)) = [0, 0, 0, 1, 65, 66, 67]"
    by (simp add: film_def saved_def payload_def prepare_def types pv)
  moreover have "playback_calls (length (med_packets film)) = 6" "length (lk_ready (peer some_client)) = 6"
    "sent (mSock film_player) = []"
    by (simp_all add: film_def playback_calls_def some_client_def film_player_def some_player_def)
  ultimately show ?thesis
    unfolding seg by auto
qed

section \<open>Sending\<close>

lemma send_all_supplies:
  assumes "supplies (length xs + k) ps" "xs \<noteq> []"
  shows "\<exists>ps'. send_all ps xs = (True, xs, ps') \<and> supplies k ps'"
  using assms
proof (induction ps xs rule: send_all.induct)
  case (3 j ps xs)
  have j: "0 < j" "supplies (length xs + k - 1) ps"
    using "3.prems" by (auto simp: supplies_def)
  define ys where "ys = take j xs"
  have ys: "ys \<noteq> []"
    using j(1) "3.prems"(2) by (simp add: ys_def)
  show ?case
  proof (cases "length xs \<le> length ys")
    case True
    then have "ys = xs"
      by (auto simp: ys_def)
    moreover have "k \<le> length xs + k - Suc 0"
      using "3.prems"(2) by (cases xs) auto
    ultimately show ?thesis
      using True j "3.prems"(2)
      by (auto simp: Let_def ys_def [symmetric] supplies_def)
  next
    case False
    then have "supplies (length (drop j xs) + k) ps" "drop j xs \<noteq> []"
      using j by (auto simp: supplies_def ys_def)
    from "3.IH" [OF ys_def ys False this] False ys show ?thesis
      by (auto simp: Let_def ys_def)
  qed
qed (auto simp: supplies_def)

definition after_send :: "nat option list \<Rightarrow> byte list \<Rightarrow> 'a net_client_scheme \<Rightarrow> 'a net_client_scheme" where
  "after_send ps xs c = c\<lparr>peer := (peer c)\<lparr>lk_send := ps, lk_out := lk_out (peer c) @ xs\<rparr>\<rparr>"

lemma after_send_simps [simp]:
  "m_hSocket (after_send ps xs c) = m_hSocket c" "lk_in (peer (after_send ps xs c)) = lk_in (peer c)"
  "lk_recv (peer (after_send ps xs c)) = lk_recv (peer c)" "lk_send (peer (after_send ps xs c)) = ps"
  "m_mapWait (after_send ps xs c) = m_mapWait c"
  "after_send ps ys (after_send qs xs c) = after_send ps (xs @ ys) c"
  by (simp_all add: after_send_def)

lemma Send_ok:
  assumes "fd_setable (m_hSocket c)" "supplies (length xs + k) (lk_send (peer c))" "xs \<noteq> []"
  shows "\<exists>ps. CTcpConnect_Send xs c = Inr (True, after_send ps xs c) \<and> supplies k ps"
  using send_all_supplies [OF assms(2,3)] assms(1) by (auto simp: CTcpConnect_Send_def after_send_def)

text \<open>The message \<open>SendCmd\<close> sends.\<close>

definition client_message :: "int \<Rightarrow> 32 word \<Rightarrow> byte list \<Rightarrow> byte list" where
  "client_message cmd index xs =
     put_cmd \<lparr>dwFlag = NET_FLAG, dwCmd = word_of_int cmd, dwIndex = index, dwLength = word_of_nat (length xs)\<rparr> @ xs"

lemma SendCmd_ok:
  assumes "fd_setable (m_hSocket c)" "supplies (16 + n) (lk_send (peer c))" "0 < n" "n < 2 ^ 31"
    and "n \<le> length d" "terminated d"
  shows "\<exists>ps. CNetDataClient_SendCmd cmd index d (int n) c = Inr (True, after_send ps (client_message cmd index (take n d)) c)"
proof -
  let ?nc = "\<lparr>dwFlag = NET_FLAG, dwCmd = word_of_int cmd, dwIndex = index, dwLength = word_of_int (int n)\<rparr>"
  have ne: "put_cmd ?nc \<noteq> []" "take n d \<noteq> []"
    using length_put_cmd [of ?nc] assms(3,5) by (auto simp del: length_put_cmd)
  obtain ps1 where s1: "CTcpConnect_Send (put_cmd ?nc) c = Inr (True, after_send ps1 (put_cmd ?nc) c)" "supplies n ps1"
    using Send_ok [OF assms(1) _ ne(1), of n] assms(2) by auto
  then obtain ps2 where s2: "CTcpConnect_Send (take n d) (after_send ps1 (put_cmd ?nc) c) =
      Inr (True, after_send ps2 (put_cmd ?nc @ take n d) c)"
    using Send_ok [of "after_send ps1 (put_cmd ?nc) c" "take n d" 0] assms(1,5) ne(2) by auto
  have ld: "load d 0 (size_of (int n)) = Inr (take n d)"
    using assms(4,5) by (simp add: load_def)
  have "CNetDataClient_SendCmd cmd index d (int n) c = Inr (True, after_send ps2 (put_cmd ?nc @ take n d) c)"
    using assms(3) s1(1) s2 ld strlen_ok [OF assms(6)] by (simp add: CNetDataClient_SendCmd_def)
  moreover have "put_cmd ?nc @ take n d = client_message cmd index (take n d)"
    using assms(5) by (simp add: client_message_def)
  ultimately show ?thesis
    by auto
qed

text \<open>A text printed into a local array.\<close>

lemma printed:
  assumes "length xs < n"
  shows "\<exists>d. store (replicate n 0) 0 (xs @ [0]) = Inr d \<and> terminated d \<and> length d = n \<and>
    take (length xs) d = xs \<and> take (Suc (length xs)) d = xs @ [0]"
  using assms by (simp add: store_def terminated_def)


section \<open>Seeking\<close>

lemma m_mapWait_Recv: "CTcpConnect_Recv n c = Inr (r, xs, c') \<Longrightarrow> m_mapWait c' = m_mapWait c"
  by (auto simp: CTcpConnect_Recv_def split: prod.splits)

lemma m_mapWait_mw_write: "mw_write xs c = Inr c' \<Longrightarrow> m_mapWait c' = m_mapWait c"
  by (auto simp: mw_write_def split: option.splits)

lemma m_mapWait_RecvData:
  assumes "CNetDataClient_RecvData m n c = Inr (r, m', c')"
  shows "m_mapWait c' = m_mapWait c"
proof -
  obtain r1 head c1 where c1: "CTcpConnect_Recv sizeof_NET_CMD c = Inr (r1, head, c1)"
    using assms by (auto simp: CNetDataClient_RecvData_def)
  note w1 = m_mapWait_Recv [OF c1]
  show ?thesis
  proof (cases "r1 \<and> dwFlag (get_cmd head) = NET_FLAG \<and> \<not> dwLength (get_cmd head) > word_of_int n \<and>
      dwCmd (get_cmd head) = word_of_int MODULE_MSG_VIDEO")
    case False
    with assms c1 w1 show ?thesis
      by (auto simp: CNetDataClient_RecvData_def Let_def split: if_splits)
  next
    case True
    then obtain r2 xs c2 where c2: "CTcpConnect_Recv (unat (dwLength (get_cmd head))) c1 = Inr (r2, xs, c2)"
      using assms c1 by (auto simp: CNetDataClient_RecvData_def Let_def)
    have "c' = c2 \<or> (\<exists>ys. mw_write ys c2 = Inr c')"
      using assms True c1 c2 by (auto simp: CNetDataClient_RecvData_def Let_def split: if_splits)
    with m_mapWait_Recv [OF c2] w1 m_mapWait_mw_write show ?thesis
      by fastforce
  qed
qed

lemma m_mapWait_Work_reads:
  "Work_reads n m c = Inr (r, m', c') \<Longrightarrow> m_mapWait c' = m_mapWait c"
proof (induction n arbitrary: m c)
  case (Suc n)
  then obtain r1 c1 where c1: "CTcpConnect_CanRead c = Inr (r1, c1)"
    by auto
  then have w: "m_mapWait c1 = m_mapWait c"
    by (auto simp: CTcpConnect_CanRead_def split: list.splits)
  show ?case
  proof (cases r1)
    case False
    with Suc c1 w show ?thesis by auto
  next
    case True
    then obtain ok m2 c2 where rd: "CNetDataClient_RecvData m (int WORK_BUFFER_LEN) c1 = Inr (ok, m2, c2)"
      using Suc.prems c1 by auto
    with m_mapWait_RecvData [OF rd] Suc c1 w True show ?thesis
      by (auto split: if_splits)
  qed
qed simp

lemma length_seek_request: "length (seek_request pos) < 60"
proof -
  have "\<bar>sint pos\<bar> < 2 ^ 32"
    using sint_range_size [of pos] by (simp add: word_size abs_if)
  then show ?thesis
    using fmt_d_ok [of "sint pos"] by (simp add: seek_request_def str_def)
qed

text \<open>
  C40: a seek is never confirmed. \<open>Seek\<close> sends its command and waits for the answer; but the thread
  that reads does not hand the answer over, so whatever the server answers and however long it reads,
  \<open>Seek\<close> returns \<open>FALSE\<close> and the flags it should reset keep their values.
\<close>

theorem seek_never_confirmed:
  assumes "fd_setable (m_hSocket c)" "supplies (17 + length (seek_request pos)) (lk_send (peer c))"
    and "index = fst (GetIndex c)"
  shows "\<exists>c1 ps. m_hSocket c1 = m_hSocket c \<and>
    peer c1 = (peer c)\<lparr>lk_send := ps, lk_out := lk_out (peer c) @
      client_message MODULE_MSG_CONTROL_PLAY (word_of_int index) (seek_request pos @ [0])\<rparr> \<and>
    CPlayBackClient_Seek (\<lambda>c. bnd (Work_reads n m c) (\<lambda>(ended, m, c). Inr c)) pos c =
      bnd (Work_reads n m c1) (\<lambda>(ended, m, c2). Inr (False, c2\<lparr>m_mapWait := (m_mapWait c2)(index := None)\<rparr>))"
proof -
  let ?xs = "seek_request pos" and ?wi = "\<lparr>hWait = False, nRetLen = 0, szWait = replicate 1024 0\<rparr>"
  obtain cg where gi: "GetIndex c = (index, cg)" "m_mapWait cg = m_mapWait c" "m_hSocket cg = m_hSocket c" "peer cg = peer c"
    using assms(3) by (simp add: GetIndex_def Let_def)
  define c0 where "c0 = cg\<lparr>m_mapWait := (m_mapWait c)(index \<mapsto> ?wi)\<rparr>"
  have c0: "m_hSocket c0 = m_hSocket c" "peer c0 = peer c" "m_mapWait c0 index = Some ?wi"
    by (simp_all add: c0_def gi)
  obtain d where d: "store (replicate 256 0) 0 (?xs @ [0]) = Inr d" "terminated d" "length d = 256"
      "take (Suc (length ?xs)) d = ?xs @ [0]"
    using printed [of ?xs 256] length_seek_request [of pos] by auto
  obtain ps where ps: "CNetDataClient_SendCmd MODULE_MSG_CONTROL_PLAY (word_of_int index) d (int (Suc (length ?xs))) c0 =
      Inr (True, after_send ps (client_message MODULE_MSG_CONTROL_PLAY (word_of_int index) (?xs @ [0])) c0)"
    using SendCmd_ok [of c0 "Suc (length ?xs)" d MODULE_MSG_CONTROL_PLAY "word_of_int index"]
      assms(1,2) c0 d(2-4) length_seek_request [of pos] by (auto simp: add.commute)
  define c1 where "c1 = after_send ps (client_message MODULE_MSG_CONTROL_PLAY (word_of_int index) (?xs @ [0])) c0"
  have c1: "m_mapWait c1 index = Some ?wi" "m_hSocket c1 = m_hSocket c"
    "peer c1 = (peer c)\<lparr>lk_send := ps, lk_out := lk_out (peer c) @
      client_message MODULE_MSG_CONTROL_PLAY (word_of_int index) (?xs @ [0])\<rparr>"
    using c0 by (simp_all add: c1_def after_send_def)
  have z: "strlen (replicate 1024 0) = Inr 0"
    by (simp add: numeral_eq_Suc)
  have send: "CNetDataClient_SendCmd MODULE_MSG_CONTROL_PLAY (word_of_int index) d (int (length ?xs) + 1) c0 = Inr (True, c1)"
    using ps by (simp add: c1_def add.commute)
  let ?mean = "\<lambda>c. bnd (Work_reads n m c) (\<lambda>(ended, m, c). Inr c)"
  have exec: "CNetDataClient_ExecCmd ?mean MODULE_MSG_CONTROL_PLAY d (int (length ?xs) + 1) c =
      bnd (?mean c1) (\<lambda>c. let w = (case m_mapWait c index of None \<Rightarrow> ?wi | Some w \<Rightarrow> w) in
        bnd (strlen (szWait w)) (\<lambda>l. Inr (take l (szWait w), c\<lparr>m_mapWait := (m_mapWait c)(index := None)\<rparr>)))"
    using send by (simp add: CNetDataClient_ExecCmd_def gi(1,2) c0_def)
  have "CPlayBackClient_Seek ?mean pos c =
      bnd (Work_reads n m c1) (\<lambda>(ended, m, c2). Inr (False, c2\<lparr>m_mapWait := (m_mapWait c2)(index := None)\<rparr>))"
  proof (cases "Work_reads n m c1")
    case (Inl e)
    then show ?thesis
      by (simp add: CPlayBackClient_Seek_def Let_def d(1) exec)
  next
    case (Inr r)
    obtain ended m2 c2 where r: "r = (ended, m2, c2)"
      by (cases r)
    then have "m_mapWait c2 index = Some ?wi"
      using m_mapWait_Work_reads [of n m c1] Inr c1(1) by simp
    then show ?thesis
      using Inr r by (simp add: CPlayBackClient_Seek_def Let_def d(1) exec z)
  qed
  with c1 show ?thesis
    by blast
qed


definition seeking_client :: playback_client where
  "seeking_client = \<lparr>m_hSocket = 5,
     peer = \<lparr>lk_recv = replicate 40 (Some 7), lk_in = simple_cmd MODULE_MSG_SEEK_CMPD 1 @ simple_cmd MODULE_MSG_EXERET 1,
       lk_ready = [True, True], lk_send = replicate 80 (Some 9), lk_out = []\<rparr>,
     attempts = [], closed_fds = [], m_szFile = str ''film'', m_opt = 0, m_nIndex = 0, m_mapWait = (\<lambda>_. None),
     mwFile = Some [], m_evtQuit = False, m_hThread = True, m_bDataEnd = True, m_dwCurPts = 0, m_bSend = True,
     m_bPause = 0, has_proc = True, has_getEmp = True, proc_log = [], m_bufData = CDataBuffer_new\<rparr>"

theorem seek_never_confirmed_witness:
  "\<exists>c'. CPlayBackClient_Seek (\<lambda>c. bnd (Work_reads 2 [] c) (\<lambda>(ended, m, c). Inr c)) 9 seeking_client = Inr (False, c') \<and>
    lk_in (peer c') = [] \<and> m_mapWait c' 1 = None"
proof -
  have fd: "fd_setable (m_hSocket seeking_client)"
    by (simp add: seeking_client_def fd_setable_def)
  have i: "fst (GetIndex seeking_client) = 1"
    by (simp add: seeking_client_def GetIndex_def)
  have "supplies (17 + length (seek_request 9)) (lk_send (peer seeking_client))"
    using length_seek_request [of 9] by (simp add: seeking_client_def supplies_def)
  from seek_never_confirmed [OF fd this refl, of 2 "[]"] obtain c1 ps xs where
    c1: "CPlayBackClient_Seek (\<lambda>c. bnd (Work_reads 2 [] c) (\<lambda>(ended, m, c). Inr c)) 9 seeking_client =
      bnd (Work_reads 2 [] c1) (\<lambda>(ended, m, c2). Inr (False, c2\<lparr>m_mapWait := (m_mapWait c2)(1 := None)\<rparr>))"
    "m_hSocket c1 = m_hSocket seeking_client" "peer c1 = (peer seeking_client)\<lparr>lk_send := ps, lk_out := xs\<rparr>"
    unfolding i by blast
  have st: "fd_setable (m_hSocket c1)" "lk_ready (peer c1) = [True, True]"
    using c1(2,3) fd by (simp_all add: seeking_client_def)
  have "incoming_is (simple_cmd MODULE_MSG_SEEK_CMPD 1 @ simple_cmd MODULE_MSG_EXERET 1) (16 + 16) (wait_ready [True] c1)"
    using c1(3) st(1) by (simp add: incoming_is_def seeking_client_def supplies_def)
  from RecvData_command [OF this, of "[]"] obtain qs where q: "CNetDataClient_RecvData [] (int WORK_BUFFER_LEN) (wait_ready [True] c1) =
      Inr (True, [], after_recv qs (simple_cmd MODULE_MSG_EXERET 1) (wait_ready [True] c1))"
    "incoming_is (simple_cmd MODULE_MSG_EXERET 1 @ []) (16 + 0) (after_recv qs (simple_cmd MODULE_MSG_EXERET 1) (wait_ready [] c1))"
    by (auto simp: MODULE_MSG_SEEK_CMPD_def MODULE_MSG_DATAEND_def incoming_is_def wait_ready_def)
  let ?c2 = "after_recv qs (simple_cmd MODULE_MSG_EXERET 1) (wait_ready [True] c1)"
  have w: "wait_ready [] ?c2 = after_recv qs (simple_cmd MODULE_MSG_EXERET 1) (wait_ready [] c1)"
    by (simp add: wait_ready_def after_recv_def)
  from RecvData_command [OF q(2), of "[]"] obtain rs where r: "CNetDataClient_RecvData [] (int WORK_BUFFER_LEN) (wait_ready [] ?c2) =
      Inr (True, [], after_recv rs [] (wait_ready [] ?c2))"
    unfolding w by (auto simp: MODULE_MSG_EXERET_def MODULE_MSG_DATAEND_def)
  have "fd_setable (m_hSocket ?c2)"
    using st(1) by (simp add: wait_ready_def)
  then have "Work_reads 2 [] c1 = Inr (False, [], after_recv rs [] (wait_ready [] ?c2))"
    using q(1) r CanRead_step [OF st] CanRead_step [of ?c2 True "[]"] by (simp add: numeral_2_eq_2)
  with c1(1) show ?thesis
    by simp
qed

section \<open>Logging in\<close>

lemma RecvCmd_ok:
  assumes "incoming_is (put_cmd nc @ body @ rest) (16 + length body + k) c" "dwFlag nc = NET_FLAG"
    and "unat (dwLength nc) = length body" "body \<noteq> []" "length body \<le> length m" "length m = n" "n < 2 ^ 31"
  shows "\<exists>ps. CNetDataClient_RecvCmd m (int n) c =
    Inr (Some (dwCmd nc, sint (dwLength nc), body @ drop (length body) m), after_recv ps rest c)"
proof -
  obtain ps1 where r1: "CTcpConnect_Recv sizeof_NET_CMD c = Inr (True, put_cmd nc, after_recv ps1 (body @ rest) c)"
      "incoming_is (body @ rest) (length body + k) (after_recv ps1 (body @ rest) c)"
    using Recv_head [of nc "body @ rest" "length body + k" c] assms(1) by (auto simp: add.assoc)
  from Recv_ok [OF r1(2) assms(4)] obtain ps2 where
    r2: "CTcpConnect_Recv (length body) (after_recv ps1 (body @ rest) c) = Inr (True, body, after_recv ps2 rest c)"
    by auto
  have "unat (word_of_int (int n) :: 32 word) = n"
    using assms(7) by (simp add: unsigned_of_nat take_bit_nat_eq_self)
  then have small: "\<not> dwLength nc > word_of_int (int n)"
    using assms(3,5,6) by (simp add: word_less_nat_alt del: of_int_of_nat_eq)
  have "dwLength nc \<noteq> 0"
    using assms(3,4) by auto
  moreover have "store m 0 body = Inr (body @ drop (length body) m)"
    using assms(5) by (simp add: store_def)
  ultimately show ?thesis
    using small r1(1) r2 assms(2,3) by (auto simp: CNetDataClient_RecvCmd_def)
qed

text \<open>What \<open>TaskPlayback\<close> sends first.\<close>

definition login_reply :: "byte list \<Rightarrow> byte list" where
  "login_reply info = put_cmd \<lparr>dwFlag = NET_FLAG, dwCmd = word_of_int MODULE_MSG_LOGINRET, dwIndex = 0,
     dwLength = word_of_nat sizeof_LOGIN_RET\<rparr> @ put_login_ret ERR_NOERROR info"

text \<open>The next attempt to connect succeeds, and the server takes the request and opens the file.\<close>

definition login_accepted :: "byte list \<Rightarrow> 'a net_client_scheme \<Rightarrow> bool" where
  "login_accepted info c \<longleftrightarrow> length (login_request (m_opt c) (m_szFile c)) < 2048 \<and> length info = sizeof_FILE_INFO \<and>
     (\<exists>a more rest. attempts c = a # more \<and> fd_setable (at_socket a) \<and> at_addr a \<and> at_writable a \<and>
        supplies (16 + length (login_request (m_opt c) (m_szFile c))) (lk_send (at_link a)) \<and>
        lk_in (at_link a) = login_reply info @ rest \<and> supplies 1048 (lk_recv (at_link a)))"

lemma Close_simps [simp]:
  "attempts (CTcpConnect_Close c) = attempts c" "m_opt (CTcpConnect_Close c) = m_opt c"
  "m_szFile (CTcpConnect_Close c) = m_szFile c"
  by (simp_all add: CTcpConnect_Close_def)

lemma ConnectServer_NULL:
  assumes "login_accepted info c"
  shows "CNetDataClient_ConnectServer None c = Inl Null_deref"
proof -
  let ?xs = "login_request (m_opt c) (m_szFile c)"
  let ?nc = "\<lparr>dwFlag = NET_FLAG, dwCmd = word_of_int MODULE_MSG_LOGINRET, dwIndex = 0, dwLength = word_of_nat sizeof_LOGIN_RET\<rparr>"
  let ?ret = "put_login_ret ERR_NOERROR info"
  obtain a more rest where a: "attempts c = a # more" "fd_setable (at_socket a)" "at_addr a" "at_writable a"
      "supplies (16 + length ?xs) (lk_send (at_link a))" "lk_in (at_link a) = login_reply info @ rest"
      "supplies 1048 (lk_recv (at_link a))"
    and l: "length ?xs < 2048" "length info = 328"
    using assms by (auto simp: login_accepted_def sizeof_FILE_INFO_def)
  have "at_socket a \<noteq> INVALID_SOCKET"
    using a(2) by (auto simp: fd_setable_def INVALID_SOCKET_def)
  then obtain c1 where c1: "CTcpConnect_Connect c = Inr (True, c1)" "m_hSocket c1 = at_socket a" "peer c1 = at_link a"
      "m_opt c1 = m_opt c" "m_szFile c1 = m_szFile c"
    using a(1-4) by (simp add: CTcpConnect_Connect_def)
  obtain d where d: "store (replicate 2048 0) 0 (?xs @ [0]) = Inr d" "terminated d" "length d = 2048"
    using printed [OF l(1)] by auto
  have "0 < length ?xs"
    by (simp add: login_request_def str_def)
  then obtain ps where ps: "CNetDataClient_SendCmd MODULE_MSG_LOGIN 0 d (int (length ?xs)) c1 =
      Inr (True, after_send ps (client_message MODULE_MSG_LOGIN 0 (take (length ?xs) d)) c1)"
    using SendCmd_ok [of c1 "length ?xs" d MODULE_MSG_LOGIN 0] a(2,5) c1(2,3) d(2,3) l(1) by auto
  let ?c2 = "after_send ps (client_message MODULE_MSG_LOGIN 0 (take (length ?xs) d)) c1"
  have ret: "length ?ret = 1032"
    using l(2) by (simp add: put_login_ret_def)
  have "incoming_is (put_cmd ?nc @ ?ret @ rest) (16 + length ?ret + 0) ?c2"
    using a(2,6,7) c1(2,3) ret by (simp add: incoming_is_def login_reply_def)
  moreover have "?ret \<noteq> []"
    using ret by auto
  ultimately obtain qs where rc: "CNetDataClient_RecvCmd d 2048 ?c2 =
      Inr (Some (word_of_int MODULE_MSG_LOGINRET, sint (dwLength ?nc), ?ret @ drop 1032 d), after_recv qs rest ?c2)"
    using RecvCmd_ok [of ?nc ?ret rest 0 ?c2 d 2048] d(3) ret by (auto simp: sizeof_LOGIN_RET_def)
  have lr: "load32 (?ret @ drop 1032 d) 0 = Inr ERR_NOERROR"
    using get32_at [of "?ret @ drop 1032 d" "[]" ERR_NOERROR] by (simp add: load32_def put_login_ret_def)
  have "load32 (?ret @ drop 1032 d) 4 = Inr (get32 (?ret @ drop 1032 d) 4)"
    using ret by (simp add: load32_def)
  with lr rc ps d(1) c1 show ?thesis
    by (simp add: CNetDataClient_ConnectServer_def)
qed

lemma ConnectServer_NULL_fails: "CNetDataClient_ConnectServer None c \<noteq> Inr (True, info, c')"
  by (auto simp: CNetDataClient_ConnectServer_def Let_def split: if_splits option.splits)

text \<open>
  C39: the player does not survive the end of a film. \<open>Reconnect\<close> never succeeds, and when the loop
  that reads has ended, the wait for the end of the program has timed out, and the server accepts the
  new connection, the thread reads through the NULL pointer that \<open>Reconnect\<close> passes for the
  description of the film.
\<close>

theorem player_crashes_on_reconnect:
  assumes "Work_reads n m c = Inr (True, m1, c1)" "login_accepted info c1"
  shows "CNetDataClient_Work CPlayBackClient_Reconnect n (False # qs) (Some m) c = Inl Null_deref \<and>
    CPlayBackClient_Reconnect c2 \<noteq> Inr (True, c3)"
proof
  show "CNetDataClient_Work CPlayBackClient_Reconnect n (False # qs) (Some m) c = Inl Null_deref"
    using assms(1) ConnectServer_NULL [OF assms(2)]
    by (simp add: CNetDataClient_Work_def CPlayBackClient_Reconnect_def CNetDataClient_Reconnect_def)
  show "CPlayBackClient_Reconnect c2 \<noteq> Inr (True, c3)"
    using ConnectServer_NULL_fails
    by (fastforce simp: CPlayBackClient_Reconnect_def CNetDataClient_Reconnect_def split: if_splits)
qed


text \<open>A player at the end of its film, and a server that is still there.\<close>

definition last_client :: playback_client where
  "last_client = seeking_client\<lparr>
     peer := \<lparr>lk_recv = replicate 20 (Some 7), lk_in = simple_cmd MODULE_MSG_DATAEND 0, lk_ready = [True], lk_send = [], lk_out = []\<rparr>,
     attempts := [\<lparr>at_socket = 6, at_addr = True, at_writable = True,
       at_link = \<lparr>lk_recv = replicate 1100 (Some 100), lk_in = login_reply (replicate 328 0), lk_ready = [],
         lk_send = replicate 60 (Some 9), lk_out = []\<rparr>\<rparr>]\<rparr>"

theorem player_crashes_on_reconnect_witness:
  "CNetDataClient_Work CPlayBackClient_Reconnect 1 [False] (Some []) last_client = Inl Null_deref"
proof -
  have fd: "fd_setable (m_hSocket last_client)" and rd: "lk_ready (peer last_client) = [True]"
    by (simp_all add: last_client_def seeking_client_def fd_setable_def)
  have "incoming_is (simple_cmd MODULE_MSG_DATAEND 0 @ []) (16 + 0) (wait_ready [] last_client)"
    using fd by (simp add: incoming_is_def supplies_def) (simp add: last_client_def)
  from RecvData_command [OF this, of "[]"] obtain ps where
    "CNetDataClient_RecvData [] (int WORK_BUFFER_LEN) (wait_ready [] last_client) =
      Inr (False, [], after_recv ps [] (wait_ready [] last_client))"
    by auto
  then have w: "Work_reads 1 [] last_client = Inr (True, [], after_recv ps [] (wait_ready [] last_client))"
    using CanRead_step [OF fd rd] by (simp add: One_nat_def del: One_nat_def [symmetric])
  have "login_accepted (replicate 328 0) (after_recv ps [] (wait_ready [] last_client))"
    by (simp add: login_accepted_def last_client_def seeking_client_def after_recv_def wait_ready_def fd_setable_def
        login_request_def str_def c_str_def ch_def supplies_def sizeof_FILE_INFO_def)
  from player_crashes_on_reconnect [OF w this] show ?thesis
    by blast
qed

section \<open>The buffer\<close>

text \<open>
  C23: the buffer of the player is a queue of byte strings. In every run of writes and reads what is
  read is what a list gives from whose front the strings are taken, whatever blocks are used again and
  however they have to grow, as long as no string has \<open>2 ^ 31 - 1023\<close> bytes or more.
\<close>

theorem data_buffer_is_a_queue:
  assumes "\<And>xs. Some xs \<in> set ops \<Longrightarrow> dq_fits xs"
  shows "\<exists>q. fifo_run (write_item fresh) (read_item fresh Buffer_new) ops CDataBuffer_new =
      Inr (fst (list_run ops []), q) \<and> dq_items q = snd (list_run ops []) \<and>
    unat (GetDataCount q) = length (snd (list_run ops [])) mod 2 ^ 32"
proof -
  have new: "dq_inv CDataBuffer_new" "dq_items CDataBuffer_new = []"
    by (simp_all add: dq_inv_def dq_items_def CDataBuffer_new_def)
  from dq.run_like_list [OF new(1), of 0 ops "pushes ops" fresh] assms obtain q where
    q: "fifo_run (write_item fresh) (read_item fresh Buffer_new) ops CDataBuffer_new = Inr (fst (list_run ops []), q)"
      "dq_items q = snd (list_run ops [])"
    unfolding new(2) by auto
  have "length (m_listData q) = length (snd (list_run ops []))"
    using arg_cong [OF q(2), of length] by (simp add: dq_items_def)
  with q show ?thesis
    by (auto simp: GetDataCount_def unsigned_of_nat take_bit_eq_mod)
qed

theorem data_buffer_is_a_queue_witness:
  "\<exists>q. fifo_run (write_item (\<lambda>_. 9)) (read_item (\<lambda>_. 9) Buffer_new)
      [Some [1, 2], None, None, Some [3], Some [4, 5, 6], None] CDataBuffer_new = Inr ([Some [1, 2], None, Some [3]], q) \<and>
    dq_items q = [[4, 5, 6]] \<and> GetDataCount q = 1"
proof -
  let ?ops = "[Some [1, 2], None, None, Some [3], Some [4, 5, 6], None] :: byte list option list"
  have "dq_fits xs" if "Some xs \<in> set ?ops" for xs
    using that by (auto simp: dq_fits_def)
  from data_buffer_is_a_queue [of ?ops "\<lambda>_. 9", OF this] show ?thesis
    by (auto simp: word_unat_eq_iff)
qed

end
