(* ===== verification/Spec2Isabelle.thy ===== *)
theory Spec2Isabelle
  imports EventProps EpollProps RBProps BufferProps QueueProps NetProps TransferProps PlaybackProps ServerProps IOUtils NALProps ThreadPoolProps BuffereventProps PlayerProps
begin

text \<open>
  A model of GreatEvent, a media server in C and C++, and of the player that talks to it. Paths are
  relative to \<open>src/\<close>.

  \<^bold>\<open>The program.\<close> An event library (\<open>EventServer/net\<close>, derived from libevent) runs callbacks when
  descriptors are ready, times are over or signals arrive. The server (\<open>EventServer\<close>) accepts
  connections on it: \<open>ActorStation\<close> owns the loop, \<open>TcpServer\<close> registers the accept event, \<open>EventCall\<close>
  holds the callbacks, which find a \<open>Session\<close> in the arguments of their event and pass it what
  happened. A session reads the login command and creates a task for it: \<open>TaskPlayback\<close> streams the
  frames of a media file, \<open>TaskFileSend\<close> sends a file, \<open>TaskVideoSend\<close> and \<open>TaskVideoRecv\<close> move
  video frame by frame; \<open>TaskFileRecv\<close> is the other end of a file transfer. \<open>PlayerClient\<close> logs in,
  receives a stream in a thread of its own and saves its pictures.

  \<^bold>\<open>How code becomes definitions.\<close> A function of the code is a function on the state it can reach, a
  record with the members of its struct or class. Whatever can go wrong is a value: \<open>Prelude\<close> has the
  type \<open>outcome\<close> with the faults (NULL read, access out of bounds, use after free, process ended, and so
  on) and the operator \<open>bnd\<close> that sequences. Blocks of memory are byte lists with checked \<open>load\<close> and
  \<open>store\<close>. Machine integers that can wrap are words; \<open>int\<close> is an integer with its range in the
  hypotheses or the conversion \<open>c_int\<close> written out. The kernel, the allocator, sockets and the ffmpeg
  demuxer are arguments: a function from the history of calls, or a plan of answers given in advance.
  Code shared by threads is a step relation with one step per critical section or wait.

  \<^bold>\<open>The event library.\<close>
  \<^item> \<open>Timeval\<close>: \<open>struct timeval\<close> and its macros (\<open>net/config.h\<close>), shown to be arithmetic.
  \<^item> \<open>RBTree\<close>, \<open>RBTreeProofs\<close>, \<open>RBProps\<close>: the red-black macros of \<open>net/evsys/tree.h\<close>, a node being a
    subtree with the path of its parents. Insertion and removal keep order, colours and black height and
    never read NULL; \<open>RB_NEXT\<close> visits the nodes in order; the height is logarithmic.
  \<^item> \<open>Event\<close>, \<open>EventCore\<close>: the data of \<open>net/event.h\<close> and \<open>event-internal.h\<close> and every function of
    \<open>net/event.c\<close>. \<open>EventInv\<close>: the invariant of the queues, the timeout tree and the counters.
    \<open>EventProofs\<close>, \<open>EventBackend\<close>, \<open>EventLoop\<close>: what the core needs of a back end as the locales
    \<open>event_deleter\<close>, \<open>event_adder\<close> and \<open>event_backend\<close>, and what its functions do under them.
    \<open>EventProps\<close>: the loop keeps the invariant, expires exactly the due timeouts in order, waits
    the right time, runs callbacks by priority.
  \<^item> \<open>Signal\<close>, \<open>Epoll\<close>: \<open>net/signal.c\<close> and \<open>net/epoll.c\<close> over a kernel that answers system calls.
    \<open>EpollProofs\<close> interprets the three locales on them; \<open>EpollFrame\<close>: what they leave alone; \<open>EpollProps\<close>:
    the interest set of the kernel is the one of the table, and the runs in which the code faults.
  \<^item> \<open>Evbuffer\<close>, \<open>EvbufferProofs\<close>, \<open>BufferProps\<close>: \<open>net/buffer.c\<close> is a queue of bytes (locale
    \<open>byte_queue\<close>). \<open>Bufferevent\<close>, \<open>BuffereventProps\<close>: \<open>net/evbuffer.c\<close> on top of it loses no byte.

  \<^bold>\<open>Containers and threads.\<close>
  \<^item> \<open>DataUtils\<close>: \<open>SP_ArrayList\<close> and \<open>SP_CircleQueue\<close>; \<open>ThreadQueue\<close>: \<open>SP_BlockingQueue\<close> and \<open>GQueue\<close> with
    their threads; \<open>Fifo\<close>: the contract of a queue (locale \<open>fifo\<close>), interpreted on the circular queue,
    on \<open>GQueue\<close> and, in \<open>DataBuffer\<close>, on the buffer of the player; \<open>QueueProps\<close>: their properties.
  \<^item> \<open>BufferCache\<close>: \<open>BufferCache.cpp\<close> over \<open>Evbuffer\<close>.
  \<^item> \<open>ThreadPool\<close>, \<open>ThreadPoolProps\<close>: \<open>common/gthread/gthreadpool.cpp\<close>: each job is called once; with two
    dispatching threads the destructor can wait for ever.

  \<^bold>\<open>Protocols.\<close>
  \<^item> \<open>CString\<close>: the string functions of C the application calls. \<open>NetProtocol\<close>, \<open>NetProps\<close>: the text
    messages of \<open>net/net_protocol.c\<close> and the search for an attribute.
  \<^item> \<open>Wire\<close>: the structs of \<open>common/protocol.h\<close> as byte layouts, and a non-blocking socket. \<open>Packet\<close>: the
    reception all tasks share (\<open>tagRecvBuffer\<close> of \<open>common/h264.h\<close>, \<open>readBuffer\<close>, \<open>recvPackData\<close>) with
    the locale \<open>packet_handler\<close>: each message is handled once and in order, however its bytes arrive.

  \<^bold>\<open>Tasks.\<close>
  \<^item> \<open>FileSend\<close>, \<open>FileRecv\<close>: \<open>TaskFileSend.cpp\<close> and \<open>TaskFileRecv.cpp\<close>. \<open>FileTransfer\<close>, \<open>TransferProps\<close>:
    a file arrives as it is, through the handshake and in pieces of any size.
  \<^item> \<open>VideoTask\<close>: reception and messages of \<open>TaskVideoRecv.cpp\<close> and \<open>TaskVideoSend.cpp\<close>. \<open>NAL\<close>,
    \<open>NALProps\<close>: \<open>common/NalBareflow/NALDecoder.cpp\<close> and the sending of a file unit by unit.
  \<^item> \<open>Playback\<close>, \<open>PlaybackProps\<close>: \<open>TaskPlayback.cpp\<close>: segments of frames, the rewriting of key frames,
    commands. The demuxer is the record \<open>media\<close>.

  \<^bold>\<open>The server.\<close>
  \<^item> \<open>SessionManager\<close>: the table of sessions (locale \<open>handle_table\<close>); \<open>Session\<close>: \<open>Session.cpp\<close> with the
    dispatch to the tasks. \<open>TaskEvents\<close>: a task requests write events only.
  \<^item> \<open>EventCall\<close>: \<open>EventCall.cpp\<close>, \<open>TcpServer.cpp\<close>, \<open>TcpClient.cpp\<close> and \<open>ActorStation.cpp\<close> over the
    event core with \<open>epoll\<close>. \<open>ServerInv\<close>, \<open>ServerRun\<close>, \<open>ServerProps\<close>: a queued event of a session belongs to
    a session that exists, through any run of the loop, so no callback is made on a deleted one.
  \<^item> \<open>IOUtils\<close>: the socket functions of \<open>IOUtils.cpp\<close>.

  \<^bold>\<open>The player.\<close>
  \<^item> \<open>DataBuffer\<close>: \<open>PlayerClient/DataBuffer.h\<close> and \<open>.cpp\<close>, a queue of blocks that are used again.
  \<^item> \<open>PlayerClient\<close>, \<open>PlayerProps\<close>: \<open>TcpConnect.cpp\<close>, \<open>NetDataClient.cpp\<close> and \<open>PlayBackClient.cpp\<close>. Composed
    with \<open>PlaybackProps\<close>: the pictures of a segment get from the file of the server into that of the
    player. A seek is never confirmed, and a reconnection ends in a NULL read.

  The theories whose names end in \<open>Props\<close>, and \<open>IOUtils\<close>, state the properties, each followed by a run on
  concrete data.

  \<^bold>\<open>Bounds.\<close> \<open>event_base_loop\<close>, \<open>station_loop\<close>, \<open>read_packets\<close> and \<open>Work_reads\<close> take the number of turns of
  a loop that in the program ends only from outside. \<open>TaskFileSend_writes\<close>, \<open>TaskPlayback_writes\<close>
  and \<open>video_calls\<close> take the number of calls of \<open>writeBuffer\<close>; \<open>file_calls\<close> and \<open>playback_calls\<close> are numbers
  that are shown to be enough. \<open>epoll_add_at\<close> nests three deep, for \<open>epoll_add\<close> calls itself through \<open>event_add\<close>
  for the signal pipe only; \<open>grow_nfds\<close> doubles a 32-bit and \<open>grow_length\<close> a 64-bit number, so 33 and 64
  turns are enough. The loops over a plan of answers end with the plan.

  \<^bold>\<open>Not modelled.\<close>
  \<^item> \<open>common/ffmpeg\<close>: \<open>FfmpegContext.cpp\<close> only calls the ffmpeg libraries; their headers and examples are
    third-party.
  \<^item> \<open>udt\<close>: a vendored copy of the UDT library that the server does not call; \<open>Mcndk\<close>: copies of the
    recorder of two Android releases, over interfaces that are not in the repository.
  \<^item> \<open>net/log.c\<close> formats messages; the objects of \<open>common/gthread\<close> around a mutex or a thread make one call per
    method; \<open>EventClient\<close>, \<open>NativeApi.cpp\<close>, the \<open>main\<close> functions: glue and test programs.
  \<^item> \<open>PROTO_MakeClientMsg\<close> of \<open>net_protocol.c\<close>, which reads through a pointer that is never set in one of its
    branches; the thread that runs the station and the setters of its configuration; destructors that only
    free; the \<open>SPLAY\<close> macros, which nothing instantiates.
\<close>

end
